(* ===== verification/Prelude.thy ===== *)
theory Prelude
  imports Main "HOL-Library.Word" "HOL-Library.Signed_Division"
begin

text \<open>
  Shared vocabulary of the development: the machine integers of Go (\<open>int64\<close>, \<open>int\<close> on a
  64 bit target), the opaque identifiers and instants the program passes around, decimal
  rendering as \<open>fmt\<close> and \<open>strconv\<close> do it, and generic lemmas on lists used as SQL tables.

  A Go \<open>int64\<close> is an \<open>int\<close> of the model that lies in the 64 bit range; every operation of
  the code that can leave the range is followed by \<open>wrap64\<close>, the two's complement wrap.
\<close>

named_theorems int64_simps \<open>range and wrap-around facts about 64 bit integers\<close>
named_theorems table_simps \<open>rewriting of lists read as database tables\<close>
named_theorems prog_simps \<open>results of the state and error programs\<close>

section \<open>Names of the model's base types\<close>

type_synonym int64 = int
type_synonym time = int          \<comment> \<open>an instant (time.Time), in nanoseconds\<close>
type_synonym duration = int      \<comment> \<open>time.Duration, in nanoseconds\<close>
type_synonym uuid = "128 word"   \<comment> \<open>uuid.UUID is a [16]byte\<close>

section \<open>64 bit integers\<close>

abbreviation int64_max :: int where "int64_max \<equiv> 9223372036854775807"
abbreviation int64_min :: int where "int64_min \<equiv> - 9223372036854775808"

definition in_int64 :: "int \<Rightarrow> bool" where
  "in_int64 x \<longleftrightarrow> int64_min \<le> x \<and> x \<le> int64_max"

definition wrap64 :: "int \<Rightarrow> int64" where
  "wrap64 x = (x + 9223372036854775808) mod 18446744073709551616 - 9223372036854775808"

text \<open>\<open>wrap64\<close> is the reading of a 64 bit word as a signed number.\<close>

lemma wrap64_sint: "wrap64 x = sint (word_of_int x :: 64 word)"
proof -
  have "sint (word_of_int x :: 64 word) = signed_take_bit 63 x"
    by (simp add: signed_of_int)
  also have "\<dots> = (x + 2 ^ 63) mod 2 ^ 64 - 2 ^ 63"
    by (simp add: signed_take_bit_eq_take_bit_shift take_bit_eq_mod)
  finally show ?thesis by (simp add: wrap64_def)
qed

lemma in_int64_wrap64 [simp, int64_simps]: "in_int64 (wrap64 x)"
  using pos_mod_sign [of 18446744073709551616 "x + 9223372036854775808"]
    pos_mod_bound [of 18446744073709551616 "x + 9223372036854775808"]
  by (simp add: in_int64_def wrap64_def)

lemma wrap64_id [int64_simps]: "in_int64 x \<Longrightarrow> wrap64 x = x"
  by (simp add: in_int64_def wrap64_def mod_pos_pos_trivial)

lemma wrap64_above:
  "\<lbrakk>int64_max < x; x \<le> 2 * int64_max + 1\<rbrakk> \<Longrightarrow> wrap64 x = x - 18446744073709551616"
  using minus_mod_self2 [of "x + 9223372036854775808" 18446744073709551616, symmetric]
  by (simp add: wrap64_def mod_pos_pos_trivial)

lemma wrap64_below:
  "\<lbrakk>x < int64_min; 2 * int64_min \<le> x\<rbrakk> \<Longrightarrow> wrap64 x = x + 18446744073709551616"
  using mod_add_self2 [of "x + 9223372036854775808" 18446744073709551616, symmetric]
  by (simp add: wrap64_def mod_pos_pos_trivial)

lemma in_int64_0 [simp]: "in_int64 0"
  by (simp add: in_int64_def)

lemma in_int64_uminus: "\<lbrakk>in_int64 x; x \<noteq> int64_min\<rbrakk> \<Longrightarrow> in_int64 (- x)"
  by (auto simp: in_int64_def)

lemma in_int64_uminus_pos: "\<lbrakk>in_int64 x; 0 < x\<rbrakk> \<Longrightarrow> in_int64 (- x)"
  by (auto simp: in_int64_def)

section \<open>Decimal rendering\<close>

text \<open>
  \<open>decimal n\<close> is the decimal text of a natural number, most significant digit first; the
  verbs \<open>%d\<close> and \<open>%02d\<close> of \<open>fmt\<close> and \<open>strconv.FormatInt(n, 10)\<close> are stated over it.
\<close>

definition digit_char :: "nat \<Rightarrow> char" where
  "digit_char d = char_of (48 + d)"

fun decimal :: "nat \<Rightarrow> string" where
  "decimal n = (if n < 10 then [digit_char n]
                else decimal (n div 10) @ [digit_char (n mod 10)])"

declare decimal.simps [simp del]

definition FormatInt :: "int \<Rightarrow> string" where
  "FormatInt n = (if n < 0 then CHR ''-'' # decimal (nat (- n)) else decimal (nat n))"

definition fmt_02d :: "int \<Rightarrow> string" where
  "fmt_02d n =
     (let s = FormatInt n
      in if length s < 2
         then (if n < 0 then CHR ''-'' # CHR ''0'' # tl s else CHR ''0'' # s)
         else s)"

lemma digit_char_inj:
  assumes "d < 10" "e < 10" "digit_char d = digit_char e"
  shows "d = e"
proof -
  have "of_char (digit_char k) = 48 + k" if "k < 10" for k :: nat
    using that by (simp add: digit_char_def)
  with assms show ?thesis by (metis add_left_cancel)
qed

lemma decimal_not_Nil [simp]: "decimal n \<noteq> []"
  by (subst decimal.simps) simp

lemma decimal_small: "n < 10 \<Longrightarrow> decimal n = [digit_char n]"
  by (simp add: decimal.simps)

lemma decimal_step: "10 \<le> n \<Longrightarrow> decimal n = decimal (n div 10) @ [digit_char (n mod 10)]"
  by (simp add: decimal.simps [of n])

section \<open>Lists read as database tables\<close>

text \<open>
  A table is the list of its rows in insertion order. \<open>update_where p f\<close> is an SQL
  \<open>UPDATE\<close>; \<open>count_where p\<close> the number of rows it touches (\<open>RowsAffected\<close>).
\<close>

definition update_where :: "('a \<Rightarrow> bool) \<Rightarrow> ('a \<Rightarrow> 'a) \<Rightarrow> 'a list \<Rightarrow> 'a list" where
  "update_where p f rows = map (\<lambda>r. if p r then f r else r) rows"

definition count_where :: "('a \<Rightarrow> bool) \<Rightarrow> 'a list \<Rightarrow> nat" where
  "count_where p rows = length (filter p rows)"

lemma update_where_Nil [simp, table_simps]: "update_where p f [] = []"
  by (simp add: update_where_def)

lemma update_where_Cons [simp, table_simps]:
  "update_where p f (r # rows) = (if p r then f r else r) # update_where p f rows"
  by (simp add: update_where_def)

lemma update_where_append [simp, table_simps]:
  "update_where p f (xs @ ys) = update_where p f xs @ update_where p f ys"
  by (simp add: update_where_def)

lemma length_update_where [simp, table_simps]: "length (update_where p f rows) = length rows"
  by (simp add: update_where_def)

lemma set_update_where: "set (update_where p f rows) = (\<lambda>r. if p r then f r else r) ` set rows"
  by (simp add: update_where_def)

lemma map_update_where [table_simps]:
  "(\<And>r. p r \<Longrightarrow> g (f r) = g r) \<Longrightarrow> map g (update_where p f rows) = map g rows"
  by (auto simp: update_where_def)

lemma update_where_none [table_simps]:
  "(\<And>r. r \<in> set rows \<Longrightarrow> \<not> p r) \<Longrightarrow> update_where p f rows = rows"
  by (induction rows) auto

lemma count_where_0_iff [table_simps]: "count_where p rows = 0 \<longleftrightarrow> (\<forall>r \<in> set rows. \<not> p r)"
  by (simp add: count_where_def filter_empty_conv)

lemma find_None_iff_ball: "List.find p rows = None \<longleftrightarrow> (\<forall>r \<in> set rows. \<not> p r)"
  by (auto simp: find_None_iff)

lemma find_SomeD: "List.find p rows = Some r \<Longrightarrow> r \<in> set rows \<and> p r"
  by (auto simp: find_Some_iff)

lemma find_append:
  "List.find p (xs @ ys) = (case List.find p xs of None \<Rightarrow> List.find p ys | Some r \<Rightarrow> Some r)"
  by (induction xs) auto

lemma distinct_remdups_adj_sorted:
  fixes xs :: "'a::linorder list"
  shows "sorted xs \<Longrightarrow> distinct (remdups_adj xs)"
  by (induction xs rule: remdups_adj.induct) (auto simp: order.order_iff_strict)

text \<open>Under a key with no duplicates a row is determined by its key.\<close>

lemma distinct_key_eq:
  "\<lbrakk>distinct (map g rows); r \<in> set rows; s \<in> set rows; g r = g s\<rbrakk> \<Longrightarrow> r = s"
  by (simp add: distinct_map inj_on_def)

lemma find_by_key:
  assumes "distinct (map g rows)" and "r \<in> set rows"
  shows "List.find (\<lambda>x. g x = g r) rows = Some r"
proof (cases "List.find (\<lambda>x. g x = g r) rows")
  case None
  with assms(2) show ?thesis by (auto simp: find_None_iff)
next
  case (Some s)
  then have "s \<in> set rows" "g s = g r" by (auto dest: find_SomeD)
  with assms Some show ?thesis by (metis distinct_key_eq)
qed

lemma filter_by_key:
  assumes "distinct (map g rows)" and "r \<in> set rows"
  shows "filter (\<lambda>x. g x = g r) rows = [r]"
  using assms
proof (induction rows)
  case (Cons x rows)
  show ?case
  proof (cases "x = r")
    case True
    with Cons.prems(1) have "filter (\<lambda>y. g y = g r) rows = []"
      by (auto simp: filter_empty_conv image_iff)
    with True show ?thesis by simp
  next
    case False
    with Cons.prems have "r \<in> set rows" "g x \<noteq> g r" by (auto simp: image_iff)
    with Cons show ?thesis by simp
  qed
qed simp

lemma sum_list_map_filter_split:
  fixes f :: "'a \<Rightarrow> int"
  shows "(\<Sum>x\<leftarrow>xs. f x) = (\<Sum>x\<leftarrow>filter p xs. f x) + (\<Sum>x\<leftarrow>filter (\<lambda>x. \<not> p x) xs. f x)"
  by (induction xs) auto

end
