(* ===== verification/Errors.thy ===== *)
theory Errors
  imports Prelude
begin

text \<open>
  The errors of the program as values: the sentinels of internal/domain/errors.go and
  internal/domain/validation.go, the three sentinels of internal/transport/http/response.go,
  the errors of the database driver, and the wrapping of \<open>fmt.Errorf\<close> with \<open>%w\<close>.

  \<open>Wrapf f args e\<close> is \<open>fmt.Errorf(f, ...)\<close> with one wrapped error \<open>e\<close>: the format
  string and its other arguments are kept, not rendered. \<open>errors_Is\<close> and the \<open>errors_As_*\<close>
  functions unwrap as the package \<open>errors\<close> does, while a comparison with \<open>==\<close> in the code is
  equality here, so that the difference between the two is visible.
\<close>

datatype arg = AInt int | AStr string | AUuid uuid

datatype err =
    ErrNotFound | ErrAccountNotFound | ErrTransactionNotFound | ErrUserNotFound
  | ErrEmailTaken | ErrInvalidCredentials | ErrForbidden
  | ErrAmountNotPositive | ErrAmountOverflow | ErrAmountOutOfRange | ErrUnbalanced
  | ErrTooFewEntries | ErrDuplicateAccount | ErrUnknownDirection | ErrDescriptionTooLong
  | ErrSelfTransfer | ErrInsufficientBalance | ErrAccountNotActive | ErrAlreadyReversed
  | ErrNotReversible | ErrInvalidReversalLink | ErrIntegrityViolation
  | ErrConcurrentModification
  | ErrIdempotencyConflict | ErrIdempotencyInFlight
  | ErrValidation | ErrInvalidCursor | ErrInvalidToken
  | ValidationError "(string \<times> string) list"  \<comment> \<open>*domain.ValidationError with its Fields\<close>
  | ErrIdempotencyKeyRequired | ErrUnauthenticated | ErrRateLimited
  | MaxBytesError                               \<comment> \<open>*http.MaxBytesError\<close>
  | DeadlineExceeded | Canceled                 \<comment> \<open>context errors\<close>
  | NoRows                                      \<comment> \<open>pgx.ErrNoRows\<close>
  | PgError string string                       \<comment> \<open>*pgconn.PgError: SQLSTATE, constraint name\<close>
  | NewError string                             \<comment> \<open>any other error value, by its text\<close>
  | Errorf string "arg list"                    \<comment> \<open>fmt.Errorf that wraps nothing\<close>
  | Wrapf string "arg list" err
  | Wrapf2 string err err                       \<comment> \<open>fmt.Errorf with two wrapped errors\<close>

type_synonym 'a result = "err + 'a"

section \<open>The package errors\<close>

text \<open>\<open>errors.Is\<close>; the \<open>Is\<close> method of \<open>ValidationError\<close> accepts \<open>ErrValidation\<close>.\<close>

fun errors_Is :: "err \<Rightarrow> err \<Rightarrow> bool" where
  "errors_Is (Wrapf f args e) target = (Wrapf f args e = target \<or> errors_Is e target)"
| "errors_Is (Wrapf2 f e1 e2) target =
     (Wrapf2 f e1 e2 = target \<or> errors_Is e1 target \<or> errors_Is e2 target)"
| "errors_Is (ValidationError fs) target = (ValidationError fs = target \<or> target = ErrValidation)"
| "errors_Is e target = (e = target)"

fun errors_As_Validation :: "err \<Rightarrow> (string \<times> string) list option" where
  "errors_As_Validation (ValidationError fs) = Some fs"
| "errors_As_Validation (Wrapf f args e) = errors_As_Validation e"
| "errors_As_Validation (Wrapf2 f e1 e2) =
     (case errors_As_Validation e1 of Some fs \<Rightarrow> Some fs | None \<Rightarrow> errors_As_Validation e2)"
| "errors_As_Validation e = None"

fun errors_As_MaxBytes :: "err \<Rightarrow> bool" where
  "errors_As_MaxBytes MaxBytesError = True"
| "errors_As_MaxBytes (Wrapf f args e) = errors_As_MaxBytes e"
| "errors_As_MaxBytes (Wrapf2 f e1 e2) = (errors_As_MaxBytes e1 \<or> errors_As_MaxBytes e2)"
| "errors_As_MaxBytes e = False"

fun errors_As_PgError :: "err \<Rightarrow> (string \<times> string) option" where
  "errors_As_PgError (PgError code constr) = Some (code, constr)"
| "errors_As_PgError (Wrapf f args e) = errors_As_PgError e"
| "errors_As_PgError (Wrapf2 f e1 e2) =
     (case errors_As_PgError e1 of Some p \<Rightarrow> Some p | None \<Rightarrow> errors_As_PgError e2)"
| "errors_As_PgError e = None"

lemma errors_Is_refl [simp]: "errors_Is e e"
  by (cases e) auto

section \<open>Validation errors (internal/domain/validation.go)\<close>

text \<open>\<open>NewValidationError\<close> returns nil (here None) when no field is at fault.\<close>

definition NewValidationError :: "(string \<times> string) list \<Rightarrow> err option" where
  "NewValidationError fields = (if fields = [] then None else Some (ValidationError fields))"

definition ValidationError_Is :: "err \<Rightarrow> bool" where
  "ValidationError_Is target \<longleftrightarrow> target = ErrValidation"

lemma NewValidationError_Is:
  "NewValidationError fs = Some e \<Longrightarrow> errors_Is e target \<longleftrightarrow> e = target \<or> ValidationError_Is target"
  by (auto simp: NewValidationError_def ValidationError_Is_def split: if_splits)

section \<open>Programs with state and errors\<close>

text \<open>
  A function of the code that takes the database and returns \<open>(value, error)\<close> is a
  \<open>prog\<close>: it maps a state to an error or a value and the state it leaves. \<open>bindP\<close> is
  the early return on \<open>err != nil\<close>; \<open>wrapP\<close> the \<open>fmt.Errorf\<close> around a failing call.
\<close>

type_synonym ('s, 'a) prog = "'s \<Rightarrow> 'a result \<times> 's"

definition retP :: "'a \<Rightarrow> ('s, 'a) prog" where
  "retP a = (\<lambda>s. (Inr a, s))"

definition failP :: "err \<Rightarrow> ('s, 'a) prog" where
  "failP e = (\<lambda>s. (Inl e, s))"

definition bindP :: "('s, 'a) prog \<Rightarrow> ('a \<Rightarrow> ('s, 'b) prog) \<Rightarrow> ('s, 'b) prog" where
  "bindP m k = (\<lambda>s. case m s of (Inl e, t) \<Rightarrow> (Inl e, t) | (Inr a, t) \<Rightarrow> k a t)"

definition wrapP :: "(err \<Rightarrow> err) \<Rightarrow> ('s, 'a) prog \<Rightarrow> ('s, 'a) prog" where
  "wrapP f m = (\<lambda>s. case m s of (Inl e, t) \<Rightarrow> (Inl (f e), t) | (Inr a, t) \<Rightarrow> (Inr a, t))"

lemma retP_eq [simp, prog_simps]: "retP a s = (Inr a, s)"
  by (simp add: retP_def)

lemma failP_eq [simp, prog_simps]: "failP e s = (Inl e, s)"
  by (simp add: failP_def)

lemma bindP_Inr_iff [prog_simps]:
  "bindP m k s = (Inr b, u) \<longleftrightarrow> (\<exists>a t. m s = (Inr a, t) \<and> k a t = (Inr b, u))"
  by (auto simp: bindP_def split: prod.splits sum.splits)

lemma bindP_Inl_iff [prog_simps]:
  "bindP m k s = (Inl e, u) \<longleftrightarrow>
     m s = (Inl e, u) \<or> (\<exists>a t. m s = (Inr a, t) \<and> k a t = (Inl e, u))"
  by (auto simp: bindP_def split: prod.splits sum.splits)

lemma wrapP_Inr_iff [prog_simps]: "wrapP f m s = (Inr a, t) \<longleftrightarrow> m s = (Inr a, t)"
  by (auto simp: wrapP_def split: prod.splits sum.splits)

lemma wrapP_Inl_iff [prog_simps]:
  "wrapP f m s = (Inl e, t) \<longleftrightarrow> (\<exists>e'. m s = (Inl e', t) \<and> e = f e')"
  by (auto simp: wrapP_def split: prod.splits sum.splits)

lemma bindP_step:
  "m s = (Inr a, t) \<Longrightarrow> bindP m k s = k a t"
  by (simp add: bindP_def)

lemma bindP_error:
  "m s = (Inl e, t) \<Longrightarrow> bindP m k s = (Inl e, t)"
  by (simp add: bindP_def)

lemma wrapP_step: "m s = (Inr a, t) \<Longrightarrow> wrapP f m s = (Inr a, t)"
  by (simp add: wrapP_def)

lemma wrapP_error: "m s = (Inl e, t) \<Longrightarrow> wrapP f m s = (Inl (f e), t)"
  by (simp add: wrapP_def)

lemmas prog_evals = bindP_step bindP_error wrapP_step wrapP_error

end
