(* ===== verification/Encoding.thy ===== *)
theory Encoding
  imports Errors
begin

text \<open>
  The parts of the Go standard library the program's own codecs are built from:
  \<open>encoding/base64\<close> (the two unpadded encodings), \<open>strconv.ParseInt\<close> and \<open>strconv.Atoi\<close> in
  base ten; and \<open>itoa\<close> of internal/transport/http/middleware.go with the cursors of
  internal/service/cursor.go.
\<close>

section \<open>Base 64\<close>

definition stdAlphabet :: string where
  "stdAlphabet = ''ABCDEFGHIJKLMNOPQRSTUVWXYZabcdefghijklmnopqrstuvwxyz0123456789+/''"

definition urlAlphabet :: string where
  "urlAlphabet = ''ABCDEFGHIJKLMNOPQRSTUVWXYZabcdefghijklmnopqrstuvwxyz0123456789-_''"

fun sextets :: "nat list \<Rightarrow> nat list" where
  "sextets [] = []"
| "sextets [a] = [a div 4, (a mod 4) * 16]"
| "sextets [a, b] = [a div 4, (a mod 4) * 16 + b div 16, (b mod 16) * 4]"
| "sextets (a # b # c # bs) =
     [a div 4, (a mod 4) * 16 + b div 16, (b mod 16) * 4 + c div 64, c mod 64] @ sextets bs"

text \<open>The decoder of Go is not strict: bits left over in the last digit are ignored.\<close>

fun octets :: "nat list \<Rightarrow> nat list option" where
  "octets [] = Some []"
| "octets [x] = None"
| "octets [x, y] = Some [x * 4 + y div 16]"
| "octets [x, y, z] = Some [x * 4 + y div 16, (y mod 16) * 16 + z div 4]"
| "octets (x # y # z # u # xs) =
     map_option (\<lambda>bs. [x * 4 + y div 16, (y mod 16) * 16 + z div 4, (z mod 4) * 64 + u] @ bs)
       (octets xs)"

fun index_of :: "char \<Rightarrow> string \<Rightarrow> nat \<Rightarrow> nat option" where
  "index_of c [] i = None"
| "index_of c (d # ds) i = (if c = d then Some i else index_of c ds (Suc i))"

fun digits_of :: "string \<Rightarrow> string \<Rightarrow> nat list option" where
  "digits_of alph [] = Some []"
| "digits_of alph (c # cs) =
     (case index_of c alph 0 of
        None \<Rightarrow> None
      | Some i \<Rightarrow> map_option (Cons i) (digits_of alph cs))"

definition base64_encode :: "string \<Rightarrow> string \<Rightarrow> string" where
  "base64_encode alph s = map (\<lambda>i. alph ! i) (sextets (map of_char s))"

definition base64_decode :: "string \<Rightarrow> string \<Rightarrow> string option" where
  "base64_decode alph s =
     (case digits_of alph (filter (\<lambda>c. c \<noteq> CHR 0x0A \<and> c \<noteq> CHR 0x0D) s) of
        None \<Rightarrow> None
      | Some ds \<Rightarrow> map_option (map char_of) (octets ds))"

lemma octets_sextets:
  "\<forall>b \<in> set bs. b < 256 \<Longrightarrow> octets (sextets bs) = Some bs"
proof (induction bs rule: sextets.induct)
  case (4 a b c bs)
  then show ?case by auto
qed auto

lemma sextets_bound: "\<forall>b \<in> set bs. b < 256 \<Longrightarrow> \<forall>x \<in> set (sextets bs). x < 64"
  by (induction bs rule: sextets.induct) auto

definition alphabet_ok :: "string \<Rightarrow> bool" where
  "alphabet_ok alph \<longleftrightarrow>
     (\<forall>i \<in> set [0..<64]. index_of (alph ! i) alph 0 = Some i
        \<and> alph ! i \<noteq> CHR 0x0A \<and> alph ! i \<noteq> CHR 0x0D)"

lemma stdAlphabet_ok: "alphabet_ok stdAlphabet"
  by code_simp

lemma urlAlphabet_ok: "alphabet_ok urlAlphabet"
  by code_simp

lemma digits_of_alphabet:
  assumes "alphabet_ok alph"
  shows "\<forall>x \<in> set ds. x < 64 \<Longrightarrow> digits_of alph (map (\<lambda>i. alph ! i) ds) = Some ds"
  using assms by (induction ds) (auto simp: alphabet_ok_def)

lemma base64_decode_encode:
  assumes "alphabet_ok alph"
  shows "base64_decode alph (base64_encode alph s) = Some s"
proof -
  let ?ds = "sextets (map of_char s)"
  have b: "\<forall>b \<in> set (map of_char s). b < (256::nat)" by auto
  note ds = sextets_bound [OF b]
  have "filter (\<lambda>c. c \<noteq> CHR 0x0A \<and> c \<noteq> CHR 0x0D) (map (\<lambda>i. alph ! i) ?ds) = map (\<lambda>i. alph ! i) ?ds"
    using assms ds by (intro filter_True) (auto simp: alphabet_ok_def)
  then show ?thesis
    using digits_of_alphabet [OF assms ds] octets_sextets [OF b]
    by (simp add: base64_decode_def base64_encode_def comp_def)
qed

section \<open>Decimal numbers\<close>

definition digit_val :: "char \<Rightarrow> nat option" where
  "digit_val c =
     (let n = of_char c :: nat in if 48 \<le> n \<and> n \<le> 57 then Some (n - 48) else None)"

fun read_digits :: "nat \<Rightarrow> string \<Rightarrow> nat option" where
  "read_digits acc [] = Some acc"
| "read_digits acc (c # cs) =
     (case digit_val c of None \<Rightarrow> None | Some d \<Rightarrow> read_digits (acc * 10 + d) cs)"

text \<open>\<open>strconv.ParseInt(s, 10, 64)\<close>; None is a syntax or a range error.\<close>

definition ParseInt :: "string \<Rightarrow> int64 option" where
  "ParseInt s =
     (let neg = (s \<noteq> [] \<and> hd s = CHR ''-'');
          ds = (if s \<noteq> [] \<and> (hd s = CHR ''-'' \<or> hd s = CHR ''+'') then tl s else s)
      in if ds = [] then None
         else case read_digits 0 ds of
                None \<Rightarrow> None
              | Some n \<Rightarrow>
                  let v = (if neg then - int n else int n)
                  in if in_int64 v then Some v else None)"

lemma digit_val_digit_char: "d < 10 \<Longrightarrow> digit_val (digit_char d) = Some d"
  by (simp add: digit_val_def digit_char_def Let_def)

lemma read_digits_append:
  "read_digits acc (xs @ ys) =
     (case read_digits acc xs of None \<Rightarrow> None | Some a \<Rightarrow> read_digits a ys)"
  by (induction xs arbitrary: acc) (auto split: option.split)

lemma read_digits_decimal:
  "\<exists>k. \<forall>acc. read_digits acc (decimal n) = Some (acc * k + n)"
proof (induction n rule: decimal.induct)
  case (1 n)
  show ?case
  proof (cases "n < 10")
    case True
    then show ?thesis
      by (intro exI [of _ 10]) (simp add: decimal_small digit_val_digit_char)
  next
    case False
    with 1 obtain k where k: "\<forall>acc. read_digits acc (decimal (n div 10)) = Some (acc * k + n div 10)"
      by blast
    have "read_digits acc (decimal n) = Some (acc * (k * 10) + n)" for acc
      using False k by (simp add: decimal_step read_digits_append digit_val_digit_char algebra_simps)
    then show ?thesis by blast
  qed
qed

lemma read_digits_decimal_0: "read_digits 0 (decimal n) = Some n"
  using read_digits_decimal [of n] by force

lemma hd_decimal_digit: "\<exists>d < 10. hd (decimal n) = digit_char d"
proof (induction n rule: decimal.induct)
  case (1 n)
  then show ?case by (cases "n < 10") (auto simp: decimal_small decimal_step)
qed

lemma digit_char_not_sign:
  assumes "d < 10"
  shows "digit_char d \<noteq> CHR ''-''" "digit_char d \<noteq> CHR ''+''"
proof -
  have "digit_val CHR ''-'' = None" "digit_val CHR ''+'' = None" by (simp_all add: digit_val_def)
  with digit_val_digit_char [OF assms] show "digit_char d \<noteq> CHR ''-''" "digit_char d \<noteq> CHR ''+''"
    by auto
qed

lemma ParseInt_FormatInt:
  assumes "in_int64 n" "0 \<le> n"
  shows "ParseInt (FormatInt n) = Some n"
proof -
  obtain d where "d < 10" "hd (decimal (nat n)) = digit_char d" using hd_decimal_digit by blast
  with digit_char_not_sign have "hd (decimal (nat n)) \<noteq> CHR ''-''" "hd (decimal (nat n)) \<noteq> CHR ''+''"
    by metis+
  with assms show ?thesis
    by (simp add: ParseInt_def FormatInt_def Let_def read_digits_decimal_0)
qed

section \<open>itoa (middleware.go)\<close>

text \<open>The loop writes the digits of a positive \<open>n\<close> from the right into the buffer.\<close>

function itoa_loop :: "int64 \<Rightarrow> string \<Rightarrow> string" where
  "itoa_loop n buf =
     (if n > 0 then itoa_loop (n div 10) (''0123456789'' ! nat (n mod 10) # buf) else buf)"
  by auto
termination by (relation "measure (\<lambda>(n, buf). nat n)") auto

declare itoa_loop.simps [simp del]

definition itoa :: "int64 \<Rightarrow> string" where
  "itoa n =
     (if n = 0 then ''0''
      else let neg = (n < 0);
               m = (if neg then wrap64 (- n) else n);
               buf = itoa_loop m []
           in if neg then CHR ''-'' # buf else buf)"

section \<open>Cursors (internal/service/cursor.go)\<close>

definition DefaultPageLimit :: int where "DefaultPageLimit = 20"
definition MaxPageLimit :: int where "MaxPageLimit = 100"

definition encodeCursor :: "int64 \<Rightarrow> string" where
  "encodeCursor i = base64_encode urlAlphabet (FormatInt i)"

definition decodeCursor :: "string \<Rightarrow> int64 option result" where
  "decodeCursor s =
     (if s = '''' then Inr None
      else case base64_decode urlAlphabet s of
             None \<Rightarrow> Inl ErrInvalidCursor
           | Some raw \<Rightarrow>
               (case ParseInt raw of
                  None \<Rightarrow> Inl ErrInvalidCursor
                | Some i \<Rightarrow> if i \<le> 0 then Inl ErrInvalidCursor else Inr (Some i)))"

definition normalizeLimit :: "int \<Rightarrow> int" where
  "normalizeLimit limit =
     (if limit \<le> 0 then DefaultPageLimit
      else if limit > MaxPageLimit then MaxPageLimit
      else limit)"

section \<open>What the codecs guarantee\<close>

lemma digit_chars [simp]:
  "char_of (48::nat) = CHR ''0''" "char_of (49::nat) = CHR ''1''" "char_of (50::nat) = CHR ''2''"
  "char_of (51::nat) = CHR ''3''" "char_of (52::nat) = CHR ''4''" "char_of (53::nat) = CHR ''5''"
  "char_of (54::nat) = CHR ''6''" "char_of (55::nat) = CHR ''7''" "char_of (56::nat) = CHR ''8''"
  "char_of (57::nat) = CHR ''9''"
  by code_simp+

lemma itoa_loop_decimal: "0 < n \<Longrightarrow> itoa_loop n buf = decimal (nat n) @ buf"
proof (induction n buf rule: itoa_loop.induct)
  case (1 n buf)
  have digit: "''0123456789'' ! nat (n mod 10) = digit_char (nat (n mod 10))"
  proof -
    have "\<forall>k \<in> set [0..<10]. ''0123456789'' ! k = digit_char k" by code_simp
    moreover have "nat (n mod 10) \<in> set [0..<10]" by auto
    ultimately show ?thesis by blast
  qed
  have n: "nat (n div 10) = nat n div 10" "nat (n mod 10) = nat n mod 10"
    using 1(2) by (simp_all add: nat_div_distrib nat_mod_distrib)
  show ?case
  proof (cases "n < 10")
    case True
    with 1(2) have "n div 10 = 0" "nat (n mod 10) = nat n" by auto
    with digit 1(2) True show ?thesis
      by (simp add: itoa_loop.simps [of n] itoa_loop.simps [of 0] decimal_small)
  next
    case False
    then have "0 < n div 10" by simp
    with 1 digit n have "itoa_loop n buf = decimal (nat n div 10) @ digit_char (nat n mod 10) # buf"
      by (simp add: itoa_loop.simps [of n buf])
    moreover have "10 \<le> nat n" using False by simp
    ultimately show ?thesis by (simp add: decimal_step [of "nat n"])
  qed
qed

lemma itoa_FormatInt: "\<lbrakk>in_int64 n; n \<noteq> int64_min\<rbrakk> \<Longrightarrow> itoa n = FormatInt n"
  by (auto simp: itoa_def FormatInt_def Let_def wrap64_id in_int64_uminus itoa_loop_decimal
      decimal_small digit_char_def)

lemma FormatInt_inj_nonneg:
  assumes "0 \<le> m" "0 \<le> n" "FormatInt m = FormatInt n"
  shows "m = n"
proof -
  have "read_digits 0 (FormatInt m) = read_digits 0 (FormatInt n)" using assms(3) by simp
  with assms(1,2) show ?thesis by (simp add: FormatInt_def read_digits_decimal_0)
qed

text \<open>
  The decimal text itoa makes of a user id in the rate limit keys is the one
  strconv.FormatInt makes for every 64 bit integer but one: for the least one negation wraps,
  the digit loop never runs, and the text is a lone minus sign.
\<close>

lemma itoa_correct:
  assumes "in_int64 n"
  shows "itoa n = (if n = int64_min then ''-'' else FormatInt n)"
proof (cases "n = int64_min")
  case True
  have "itoa int64_min = ''-''"
    by (simp add: itoa_def wrap64_def itoa_loop.simps)
  with True show ?thesis by simp
qed (use assms itoa_FormatInt in simp)

lemma itoa_correct_witness: "itoa 9071 = ''9071'' \<and> itoa int64_min = ''-'' \<and> itoa (-35) = ''-35''"
  using itoa_correct [of 9071] itoa_correct [of int64_min] itoa_correct [of "-35"]
  by (simp add: in_int64_def FormatInt_def decimal_step decimal_small digit_char_def)

lemma decode_encode_cursor:
  assumes "in_int64 i" "0 < i"
  shows "encodeCursor i \<noteq> ''''" "decodeCursor (encodeCursor i) = Inr (Some i)"
proof -
  have "FormatInt i \<noteq> []" using assms(2) by (simp add: FormatInt_def)
  then show "encodeCursor i \<noteq> ''''"
    using base64_decode_encode [OF urlAlphabet_ok, of "FormatInt i"]
    by (auto simp: encodeCursor_def base64_decode_def)
  then show "decodeCursor (encodeCursor i) = Inr (Some i)"
    using base64_decode_encode [OF urlAlphabet_ok] ParseInt_FormatInt [OF assms(1)] assms(2)
    by (simp add: decodeCursor_def encodeCursor_def)
qed

text \<open>
  A cursor the API hands out decodes to the entry id it was made from, for
  every positive 64 bit id; the empty cursor is the first page; and whatever a client sends,
  decodeCursor either refuses it or returns a positive 64 bit id.
\<close>

lemma cursor_roundtrip:
  assumes "in_int64 i" "0 < i"
  shows "decodeCursor (encodeCursor i) = Inr (Some i) \<and> decodeCursor '''' = Inr None
       \<and> (\<forall>s j. decodeCursor s = Inr (Some j) \<longrightarrow> 0 < j \<and> in_int64 j)"
proof (intro conjI allI impI)
  show "decodeCursor (encodeCursor i) = Inr (Some i)" by (rule decode_encode_cursor [OF assms])
  fix s j assume d: "decodeCursor s = Inr (Some j)"
  then show "0 < j" by (auto simp: decodeCursor_def split: option.splits if_splits)
  from d show "in_int64 j"
    by (auto simp: decodeCursor_def ParseInt_def Let_def split: option.splits if_splits)
qed (simp add: decodeCursor_def)

lemma cursor_roundtrip_witness:
  "encodeCursor 42 = ''NDI'' \<and> decodeCursor ''NDI'' = Inr (Some 42)
   \<and> decodeCursor ''MA'' = Inl ErrInvalidCursor"
proof -
  have e: "encodeCursor 42 = ''NDI''"
    unfolding encodeCursor_def FormatInt_def by code_simp
  have "decodeCursor ''MA'' = Inl ErrInvalidCursor" by code_simp
  with e show ?thesis using cursor_roundtrip [of 42] by (simp add: in_int64_def)
qed

end
