(* ===== verification/PgErrors.thy ===== *)
theory PgErrors
  imports Errors
begin

text \<open>
  internal/repository/postgres/errors.go: SQLSTATE codes and the translation of driver
  errors to domain errors. \<open>translate\<close> is only called with an error (the nil case of the
  code returns nil), so it maps \<open>err\<close> to \<open>err\<close>.
\<close>

definition codeUniqueViolation :: string where "codeUniqueViolation = ''23505''"
definition codeCheckViolation :: string where "codeCheckViolation = ''23514''"
definition codeDeadlock :: string where "codeDeadlock = ''40P01''"
definition codeSerialization :: string where "codeSerialization = ''40001''"

lemmas sqlstate_defs = codeUniqueViolation_def codeCheckViolation_def codeDeadlock_def
  codeSerialization_def

definition translate :: "err \<Rightarrow> err" where
  "translate err =
     (if errors_Is err NoRows then ErrNotFound
      else case errors_As_PgError err of
        None \<Rightarrow> err
      | Some (code, constr) \<Rightarrow>
          if code = codeDeadlock \<or> code = codeSerialization then ErrConcurrentModification
          else if code = codeCheckViolation then
            (if constr = ''chk_wallet_non_negative'' then ErrInsufficientBalance
             else if constr = ''trg_entries_balanced'' then ErrUnbalanced
             else if constr = ''entries_amount_check'' then ErrAmountNotPositive
             else if constr = ''chk_reversal_link'' then ErrInvalidReversalLink
             else if constr = ''chk_normal_balance'' \<or> constr = ''chk_owner''
               then ErrIntegrityViolation
             else err)
          else if code = codeUniqueViolation then
            (if constr = ''uq_reversal'' then ErrAlreadyReversed
             else if constr = ''idx_users_email'' then ErrEmailTaken
             else if constr = ''uq_entry_account_per_txn'' then ErrDuplicateAccount
             else if constr = ''idempotency_keys_pkey'' then ErrIdempotencyInFlight
             else err)
          else err)"

text \<open>The SQLSTATE codes the schema raises that the code does not name.\<close>

definition codeForeignKey :: string where "codeForeignKey = ''23503''"
definition codeOutOfRange :: string where "codeOutOfRange = ''22003''"
definition codeInvalidText :: string where "codeInvalidText = ''22P02''"
definition codeSequenceLimit :: string where "codeSequenceLimit = ''2200H''"
definition codeInsufficientPrivilege :: string where "codeInsufficientPrivilege = ''42501''"

lemmas sqlstate_more_defs = codeForeignKey_def codeOutOfRange_def codeInvalidText_def
  codeInsufficientPrivilege_def

lemma translate_NoRows [simp]: "translate NoRows = ErrNotFound"
  by (simp add: translate_def)

lemma translate_sentinel:
  "\<lbrakk>\<not> errors_Is e NoRows; errors_As_PgError e = None\<rbrakk> \<Longrightarrow> translate e = e"
  by (simp add: translate_def)

lemma translate_PgError_NotFound [simp]: "translate (PgError c k) \<noteq> ErrNotFound"
  by (simp add: translate_def)

end
