(* ===== verification/Money.thy ===== *)
theory Money
  imports Errors
begin

text \<open>
  internal/domain/money.go: amounts of rupiah in sen, as 64 bit integers with explicit
  overflow detection.
\<close>

type_synonym money = int64

definition Rupiah :: money where
  "Rupiah = 100"

definition maxSafeAmount :: money where
  "maxSafeAmount = 1000000000000 * Rupiah"

definition NewMoney :: "int64 \<Rightarrow> money result" where
  "NewMoney sen =
     (let m = sen in
      if m \<le> 0 then Inl ErrAmountNotPositive
      else if m > maxSafeAmount then Inl ErrAmountOverflow
      else Inr m)"

definition Money_Add :: "money \<Rightarrow> money \<Rightarrow> money result" where
  "Money_Add m b =
     (let s = wrap64 (m + b) in
      if (b > 0 \<and> s < m) \<or> (b < 0 \<and> s > m) then Inl ErrAmountOverflow else Inr s)"

definition Money_Neg :: "money \<Rightarrow> money" where
  \<comment> \<open>Go's unary minus, which wraps at the least value\<close>
  "Money_Neg m = wrap64 (- m)"

definition Money_Sub :: "money \<Rightarrow> money \<Rightarrow> money result" where
  "Money_Sub m b =
     (if b = wrap64 (- (2 ^ 63)) then Inl ErrAmountOverflow else Money_Add m (Money_Neg b))"

definition Money_IsPositive :: "money \<Rightarrow> bool" where
  "Money_IsPositive m \<longleftrightarrow> m > 0"

definition Money_String :: "money \<Rightarrow> string" where
  "Money_String m =
     (let sign = (if m < 0 then ''-'' else '''');
          v = (if m < 0 then Money_Neg m else m)
      in sign @ ''Rp '' @ FormatInt (v sdiv 100) @ '','' @ fmt_02d (v smod 100))"

section \<open>Addition and subtraction detect every overflow\<close>

lemma Money_Add_ok:
  assumes "in_int64 m" "in_int64 b" "in_int64 (m + b)"
  shows "Money_Add m b = Inr (m + b)"
  using assms by (auto simp: Money_Add_def wrap64_id Let_def)

lemma Money_Add_overflow:
  assumes "in_int64 m" "in_int64 b" "\<not> in_int64 (m + b)"
  shows "Money_Add m b = Inl ErrAmountOverflow"
proof (cases "m + b > int64_max")
  case True
  with assms have "wrap64 (m + b) = m + b - 18446744073709551616" "b > 0"
    by (auto simp: in_int64_def intro: wrap64_above)
  with assms show ?thesis by (simp add: Money_Add_def Let_def in_int64_def)
next
  case False
  with assms have "wrap64 (m + b) = m + b + 18446744073709551616" "b < 0"
    by (auto simp: in_int64_def intro: wrap64_below)
  with assms show ?thesis by (simp add: Money_Add_def Let_def in_int64_def)
qed

lemma Money_Add_cases:
  assumes "in_int64 m" "in_int64 b"
  shows "Money_Add m b = (if in_int64 (m + b) then Inr (m + b) else Inl ErrAmountOverflow)"
  using assms by (simp add: Money_Add_ok Money_Add_overflow)

lemma Money_Add_InrD:
  "\<lbrakk>in_int64 m; in_int64 b; Money_Add m b = Inr s\<rbrakk> \<Longrightarrow> s = m + b \<and> in_int64 s"
  by (auto simp: Money_Add_cases split: if_splits)

lemma Money_Add_error: "Money_Add m b = Inl e \<Longrightarrow> e = ErrAmountOverflow"
  by (auto simp: Money_Add_def Let_def split: if_splits)

lemma Money_Neg_ok: "\<lbrakk>in_int64 m; m \<noteq> int64_min\<rbrakk> \<Longrightarrow> Money_Neg m = - m"
  by (simp add: Money_Neg_def wrap64_id in_int64_uminus)

lemma Money_Neg_pos: "\<lbrakk>in_int64 m; 0 < m\<rbrakk> \<Longrightarrow> Money_Neg m = - m"
  by (simp add: Money_Neg_def wrap64_id in_int64_uminus_pos)

lemma Money_Neg_range [simp]: "in_int64 (Money_Neg m)"
  by (simp add: Money_Neg_def)

text \<open>
  Money.Add returns the exact sum whenever it fits 64 bits, and
  ErrAmountOverflow exactly when it does not: no sum ever wraps silently. Money.Sub does
  the same for the difference, except that it refuses to subtract the least 64 bit value
  even where the difference would fit.
\<close>

lemma Money_Add_Sub_exact:
  assumes "in_int64 m" "in_int64 b"
  shows "Money_Add m b = (if in_int64 (m + b) then Inr (m + b) else Inl ErrAmountOverflow)
       \<and> Money_Sub m b = (if b \<noteq> int64_min \<and> in_int64 (m - b) then Inr (m - b)
                          else Inl ErrAmountOverflow)"
proof -
  have "wrap64 (- (2 ^ 63)) = int64_min" by (simp add: wrap64_def)
  with assms show ?thesis
    by (simp add: Money_Add_cases Money_Sub_def Money_Neg_ok in_int64_uminus)
qed

lemma Money_Add_Sub_exact_witness:
  "Money_Add int64_max 1 = Inl ErrAmountOverflow \<and> Money_Add 700 (-200) = Inr 500
   \<and> Money_Sub 0 int64_min = Inl ErrAmountOverflow \<and> Money_Sub 700 200 = Inr 500"
  using Money_Add_Sub_exact [of int64_max 1] Money_Add_Sub_exact [of 700 "-200"]
    Money_Add_Sub_exact [of 0 int64_min] Money_Add_Sub_exact [of 700 200]
  by (simp add: in_int64_def)

lemma NewMoney_Inr_iff: "NewMoney sen = Inr m \<longleftrightarrow> m = sen \<and> 0 < sen \<and> sen \<le> maxSafeAmount"
  by (auto simp: NewMoney_def Let_def)

lemma maxSafeAmount_in_int64: "in_int64 maxSafeAmount"
  by (simp add: maxSafeAmount_def Rupiah_def in_int64_def)

lemma NewMoney_in_int64: "NewMoney sen = Inr m \<Longrightarrow> in_int64 m"
  by (auto simp: NewMoney_Inr_iff maxSafeAmount_def Rupiah_def in_int64_def)

end
