(* ===== verification/Account.thy ===== *)
theory Account
  imports Money
begin

text \<open>
  internal/domain/account.go, user.go, token.go and idempotency.go: the data of accounts,
  users, refresh tokens and idempotency claims with their methods. Go's string types
  (\<open>Direction\<close>, \<open>AccountType\<close>, \<open>AccountStatus\<close>, \<open>Role\<close>) stay strings, so that values
  outside the declared constants are inputs of the model as they are of the code.
\<close>

section \<open>Directions\<close>

type_synonym direction = string

definition DirectionDebit :: direction where "DirectionDebit = ''DEBIT''"
definition DirectionCredit :: direction where "DirectionCredit = ''CREDIT''"

lemma direction_distinct [simp]:
  "DirectionDebit \<noteq> DirectionCredit" "DirectionCredit \<noteq> DirectionDebit"
  by (simp_all add: DirectionDebit_def DirectionCredit_def)

definition Direction_Opposite :: "direction \<Rightarrow> direction" where
  "Direction_Opposite d = (if d = DirectionDebit then DirectionCredit else DirectionDebit)"

definition Direction_Valid :: "direction \<Rightarrow> bool" where
  "Direction_Valid d \<longleftrightarrow> d = DirectionDebit \<or> d = DirectionCredit"

lemma Direction_Opposite_simps [simp]:
  "Direction_Opposite DirectionDebit = DirectionCredit"
  "Direction_Opposite DirectionCredit = DirectionDebit"
  by (simp_all add: Direction_Opposite_def)

lemma Direction_Opposite_eq_iff:
  "Direction_Opposite d = DirectionCredit \<longleftrightarrow> d = DirectionDebit"
  "Direction_Opposite d = DirectionDebit \<longleftrightarrow> d \<noteq> DirectionDebit"
  by (simp_all add: Direction_Opposite_def)

lemma Direction_Opposite_Opposite:
  "Direction_Valid d \<Longrightarrow> Direction_Opposite (Direction_Opposite d) = d"
  by (auto simp: Direction_Valid_def)

lemma Direction_Valid_Opposite [simp]: "Direction_Valid (Direction_Opposite d)"
  by (simp add: Direction_Valid_def Direction_Opposite_def)

lemma Direction_Valid_consts [simp]:
  "Direction_Valid DirectionDebit" "Direction_Valid DirectionCredit"
  by (simp_all add: Direction_Valid_def)

section \<open>Accounts\<close>

type_synonym account_type = string

definition AccountUserWallet :: account_type where "AccountUserWallet = ''USER_WALLET''"
definition AccountSystemCash :: account_type where "AccountSystemCash = ''SYSTEM_CASH''"
definition AccountSystemFeeRevenue :: account_type where
  "AccountSystemFeeRevenue = ''SYSTEM_FEE_REVENUE''"
definition AccountSystemSuspense :: account_type where
  "AccountSystemSuspense = ''SYSTEM_SUSPENSE''"

lemmas account_type_defs = AccountUserWallet_def AccountSystemCash_def
  AccountSystemFeeRevenue_def AccountSystemSuspense_def

lemma account_type_distinct [simp]:
  "AccountUserWallet \<noteq> AccountSystemCash" "AccountSystemCash \<noteq> AccountUserWallet"
  "AccountUserWallet \<noteq> AccountSystemFeeRevenue" "AccountSystemFeeRevenue \<noteq> AccountUserWallet"
  "AccountUserWallet \<noteq> AccountSystemSuspense" "AccountSystemSuspense \<noteq> AccountUserWallet"
  "AccountSystemCash \<noteq> AccountSystemFeeRevenue" "AccountSystemFeeRevenue \<noteq> AccountSystemCash"
  "AccountSystemCash \<noteq> AccountSystemSuspense" "AccountSystemSuspense \<noteq> AccountSystemCash"
  "AccountSystemFeeRevenue \<noteq> AccountSystemSuspense"
  "AccountSystemSuspense \<noteq> AccountSystemFeeRevenue"
  by (simp_all add: account_type_defs)

definition AccountType_NormalBalance :: "account_type \<Rightarrow> direction" where
  "AccountType_NormalBalance t = (if t = AccountSystemCash then DirectionDebit else DirectionCredit)"

definition AccountType_IsSystem :: "account_type \<Rightarrow> bool" where
  "AccountType_IsSystem t \<longleftrightarrow> t \<noteq> AccountUserWallet"

type_synonym account_status = string

definition AccountActive :: account_status where "AccountActive = ''ACTIVE''"
definition AccountFrozen :: account_status where "AccountFrozen = ''FROZEN''"
definition AccountClosed :: account_status where "AccountClosed = ''CLOSED''"

lemma account_status_distinct [simp]:
  "AccountActive \<noteq> AccountFrozen" "AccountFrozen \<noteq> AccountActive"
  "AccountActive \<noteq> AccountClosed" "AccountClosed \<noteq> AccountActive"
  "AccountFrozen \<noteq> AccountClosed" "AccountClosed \<noteq> AccountFrozen"
  by (simp_all add: AccountActive_def AccountFrozen_def AccountClosed_def)

record account =
  acc_ID :: int64
  acc_PublicID :: uuid
  acc_UserID :: "int64 option"
  acc_Type :: account_type
  acc_NormalBalance :: direction
  acc_Status :: account_status
  acc_Balance :: money
  acc_Version :: int64
  acc_CreatedAt :: time
  acc_UpdatedAt :: time

definition Account_IsActive :: "account \<Rightarrow> bool" where
  "Account_IsActive a \<longleftrightarrow> acc_Status a = AccountActive"

definition Account_OwnedBy :: "account \<Rightarrow> int64 \<Rightarrow> bool" where
  "Account_OwnedBy a userID = (case acc_UserID a of None \<Rightarrow> False | Some u \<Rightarrow> u = userID)"

section \<open>Users, actors, refresh tokens\<close>

type_synonym role = string

definition RoleUser :: role where "RoleUser = ''USER''"
definition RoleAdmin :: role where "RoleAdmin = ''ADMIN''"

lemma role_distinct [simp]: "RoleUser \<noteq> RoleAdmin" "RoleAdmin \<noteq> RoleUser"
  by (simp_all add: RoleUser_def RoleAdmin_def)

record user =
  usr_ID :: int64
  usr_PublicID :: uuid
  usr_Email :: string
  usr_PasswordHash :: string
  usr_FullName :: string
  usr_Role :: role
  usr_CreatedAt :: time

definition User_IsAdmin :: "user \<Rightarrow> bool" where
  "User_IsAdmin u \<longleftrightarrow> usr_Role u = RoleAdmin"

record actor =
  act_UserID :: int64
  act_Role :: role

definition Actor_IsAdmin :: "actor \<Rightarrow> bool" where
  "Actor_IsAdmin a \<longleftrightarrow> act_Role a = RoleAdmin"

record refresh_token =
  rt_ID :: int64
  rt_UserID :: int64
  rt_TokenHash :: string
  rt_ExpiresAt :: time
  rt_RevokedAt :: "time option"
  rt_CreatedAt :: time

definition RefreshToken_Usable :: "refresh_token \<Rightarrow> time \<Rightarrow> bool" where
  "RefreshToken_Usable t now \<longleftrightarrow> rt_RevokedAt t = None \<and> now < rt_ExpiresAt t"

section \<open>Idempotency claims\<close>

record idempotency_claim =
  clm_UserID :: int64
  clm_Key :: string
  clm_Endpoint :: string
  clm_RequestHash :: string

end
