(* ===== verification/Transaction.thy ===== *)
theory Transaction
  imports Account
begin

text \<open>
  internal/domain/transaction.go, entry.go and posting.go: transactions, their validation,
  the four builders, the balance formula and the result of a posting.
\<close>

section \<open>Entries and transactions\<close>

record entry =
  ent_AccountID :: int64
  ent_Direction :: direction
  ent_Amount :: money

type_synonym txn_type = string

definition TxnTopup :: txn_type where "TxnTopup = ''TOPUP''"
definition TxnTransfer :: txn_type where "TxnTransfer = ''TRANSFER''"
definition TxnWithdraw :: txn_type where "TxnWithdraw = ''WITHDRAW''"
definition TxnReversal :: txn_type where "TxnReversal = ''REVERSAL''"

lemmas txn_type_defs = TxnTopup_def TxnTransfer_def TxnWithdraw_def TxnReversal_def

lemma txn_type_distinct [simp]:
  "TxnTopup \<noteq> TxnTransfer" "TxnTransfer \<noteq> TxnTopup" "TxnTopup \<noteq> TxnWithdraw"
  "TxnWithdraw \<noteq> TxnTopup" "TxnTopup \<noteq> TxnReversal" "TxnReversal \<noteq> TxnTopup"
  "TxnTransfer \<noteq> TxnWithdraw" "TxnWithdraw \<noteq> TxnTransfer" "TxnTransfer \<noteq> TxnReversal"
  "TxnReversal \<noteq> TxnTransfer" "TxnWithdraw \<noteq> TxnReversal" "TxnReversal \<noteq> TxnWithdraw"
  by (simp_all add: txn_type_defs)

type_synonym txn_status = string

definition TxnPosted :: txn_status where "TxnPosted = ''POSTED''"
definition TxnReversed :: txn_status where "TxnReversed = ''REVERSED''"

lemma txn_status_distinct [simp]: "TxnPosted \<noteq> TxnReversed" "TxnReversed \<noteq> TxnPosted"
  by (simp_all add: TxnPosted_def TxnReversed_def)

definition maxDescriptionLen :: nat where "maxDescriptionLen = 255"

definition nil_uuid :: uuid where "nil_uuid = 0"     \<comment> \<open>the zero value of uuid.UUID\<close>
definition zero_time :: time where "zero_time = 0"   \<comment> \<open>the zero value of time.Time\<close>

record transaction =
  txn_ID :: uuid
  txn_Type :: txn_type
  txn_Status :: txn_status
  txn_Description :: string
  txn_InitiatedBy :: "int64 option"
  txn_ReversesID :: "uuid option"
  txn_Entries :: "entry list"
  txn_CreatedAt :: time

section \<open>Validate\<close>

text \<open>
  The loop of \<open>Validate\<close>: the running totals of the two sides and the accounts seen so
  far; an error leaves the loop.
\<close>

fun validate_entries :: "entry list \<Rightarrow> money \<Rightarrow> money \<Rightarrow> int64 set \<Rightarrow> (money \<times> money) result" where
  "validate_entries [] debit credit seen = Inr (debit, credit)"
| "validate_entries (e # es) debit credit seen =
     (if ent_Amount e \<le> 0 then Inl ErrAmountNotPositive
      else if ent_AccountID e \<in> seen
        then Inl (Wrapf ''%w: akun %d'' [AInt (ent_AccountID e)] ErrDuplicateAccount)
      else let seen = insert (ent_AccountID e) seen in
        if ent_Direction e = DirectionDebit then
          (case Money_Add debit (ent_Amount e) of
             Inl err \<Rightarrow> Inl err
           | Inr debit \<Rightarrow> validate_entries es debit credit seen)
        else if ent_Direction e = DirectionCredit then
          (case Money_Add credit (ent_Amount e) of
             Inl err \<Rightarrow> Inl err
           | Inr credit \<Rightarrow> validate_entries es debit credit seen)
        else Inl (Wrapf ''%w: %q'' [AStr (ent_Direction e)] ErrUnknownDirection))"

definition Transaction_Validate :: "transaction \<Rightarrow> err option" where
  "Transaction_Validate t =
     (if length (txn_Entries t) < 2 then Some ErrTooFewEntries
      else if length (txn_Description t) > maxDescriptionLen then Some ErrDescriptionTooLong
      else case validate_entries (txn_Entries t) 0 0 {} of
        Inl err \<Rightarrow> Some err
      | Inr (debit, credit) \<Rightarrow>
          if debit \<noteq> credit then
            Some (Wrapf ''%w: debit=%s kredit=%s''
                    [AStr (Money_String debit), AStr (Money_String credit)] ErrUnbalanced)
          else if txn_Type t = TxnReversal \<and> txn_ReversesID t = None
            then Some ErrInvalidReversalLink
          else if txn_Type t \<noteq> TxnReversal \<and> txn_ReversesID t \<noteq> None
            then Some ErrInvalidReversalLink
          else None)"

definition Transaction_AccountIDs :: "transaction \<Rightarrow> int64 list" where
  "Transaction_AccountIDs t = remdups_adj (sort (map ent_AccountID (txn_Entries t)))"

definition Transaction_EntryFor :: "transaction \<Rightarrow> int64 \<Rightarrow> entry option" where
  "Transaction_EntryFor t accountID = List.find (\<lambda>e. ent_AccountID e = accountID) (txn_Entries t)"

section \<open>Builders\<close>

definition NewTopup :: "int64 \<Rightarrow> int64 \<Rightarrow> money \<Rightarrow> int64 \<Rightarrow> string \<Rightarrow> transaction" where
  "NewTopup cashAccountID walletID amount initiatedBy desc =
     \<lparr> txn_ID = nil_uuid, txn_Type = TxnTopup, txn_Status = TxnPosted, txn_Description = desc,
       txn_InitiatedBy = Some initiatedBy, txn_ReversesID = None,
       txn_Entries =
         [\<lparr> ent_AccountID = cashAccountID, ent_Direction = DirectionDebit, ent_Amount = amount \<rparr>,
          \<lparr> ent_AccountID = walletID, ent_Direction = DirectionCredit, ent_Amount = amount \<rparr>],
       txn_CreatedAt = zero_time \<rparr>"

definition NewTransfer ::
    "int64 \<Rightarrow> int64 \<Rightarrow> int64 \<Rightarrow> money \<Rightarrow> money \<Rightarrow> int64 \<Rightarrow> string \<Rightarrow> transaction result" where
  "NewTransfer fromWalletID toWalletID feeAccountID amount fee initiatedBy desc =
     (if fromWalletID = toWalletID then Inl ErrSelfTransfer
      else if fee < 0 then Inl ErrAmountNotPositive
      else case Money_Add amount fee of
        Inl err \<Rightarrow> Inl err
      | Inr tot \<Rightarrow>
          let entries =
            [\<lparr> ent_AccountID = fromWalletID, ent_Direction = DirectionDebit, ent_Amount = tot \<rparr>,
             \<lparr> ent_AccountID = toWalletID, ent_Direction = DirectionCredit, ent_Amount = amount \<rparr>]
            @ (if fee > 0
               then [\<lparr> ent_AccountID = feeAccountID, ent_Direction = DirectionCredit,
                       ent_Amount = fee \<rparr>]
               else [])
          in Inr
            \<lparr> txn_ID = nil_uuid, txn_Type = TxnTransfer, txn_Status = TxnPosted,
              txn_Description = desc, txn_InitiatedBy = Some initiatedBy, txn_ReversesID = None,
              txn_Entries = entries, txn_CreatedAt = zero_time \<rparr>)"

definition NewWithdraw :: "int64 \<Rightarrow> int64 \<Rightarrow> money \<Rightarrow> int64 \<Rightarrow> string \<Rightarrow> transaction" where
  "NewWithdraw walletID cashAccountID amount initiatedBy desc =
     \<lparr> txn_ID = nil_uuid, txn_Type = TxnWithdraw, txn_Status = TxnPosted, txn_Description = desc,
       txn_InitiatedBy = Some initiatedBy, txn_ReversesID = None,
       txn_Entries =
         [\<lparr> ent_AccountID = walletID, ent_Direction = DirectionDebit, ent_Amount = amount \<rparr>,
          \<lparr> ent_AccountID = cashAccountID, ent_Direction = DirectionCredit, ent_Amount = amount \<rparr>],
       txn_CreatedAt = zero_time \<rparr>"

definition reverse_entry :: "entry \<Rightarrow> entry" where
  "reverse_entry e =
     \<lparr> ent_AccountID = ent_AccountID e, ent_Direction = Direction_Opposite (ent_Direction e),
       ent_Amount = ent_Amount e \<rparr>"

definition NewReversal :: "transaction \<Rightarrow> int64 \<Rightarrow> string \<Rightarrow> transaction result" where
  "NewReversal original initiatedBy desc =
     (if txn_Status original \<noteq> TxnPosted then Inl ErrAlreadyReversed
      else if txn_Type original = TxnReversal then Inl ErrNotReversible
      else let entries = map reverse_entry (txn_Entries original); origID = txn_ID original
        in Inr
          \<lparr> txn_ID = nil_uuid, txn_Type = TxnReversal, txn_Status = TxnPosted,
            txn_Description = desc, txn_InitiatedBy = Some initiatedBy,
            txn_ReversesID = Some origID, txn_Entries = entries, txn_CreatedAt = zero_time \<rparr>)"

section \<open>Balances and results of postings\<close>

definition BalanceDelta :: "entry \<Rightarrow> direction \<Rightarrow> money" where
  "BalanceDelta e normalBalance =
     (if ent_Direction e = normalBalance then ent_Amount e else Money_Neg (ent_Amount e))"

record posted_entry =
  pe_ID :: int64
  pe_TransactionID :: uuid
  pe_AccountID :: int64
  pe_AccountPublicID :: uuid
  pe_AccountType :: account_type
  pe_Direction :: direction
  pe_Amount :: money
  pe_BalanceAfter :: money
  pe_CreatedAt :: time
  pe_TxnType :: txn_type
  pe_Description :: string

record post_result =
  pr_Transaction :: transaction
  pr_Entries :: "posted_entry list"
  pr_ViewerAccountID :: "int64 option"

definition PostResult_BalanceAfterFor :: "post_result \<Rightarrow> int64 \<Rightarrow> money option" where
  "PostResult_BalanceAfterFor p accountID =
     map_option pe_BalanceAfter (List.find (\<lambda>e. pe_AccountID e = accountID) (pr_Entries p))"

record trial_balance =
  tb_TotalDebit :: money
  tb_TotalCredit :: money
  tb_Difference :: money
  tb_EntryCount :: int64

definition TrialBalance_Balanced :: "trial_balance \<Rightarrow> bool" where
  "TrialBalance_Balanced t \<longleftrightarrow> tb_Difference t = 0"

record idempotency_record =
  irec_Claim :: idempotency_claim
  irec_StatusCode :: int
  irec_TransactionID :: "uuid option"
  irec_Result :: "post_result option"
  irec_CreatedAt :: time

definition IdempotencyRecord_InFlight :: "idempotency_record \<Rightarrow> bool" where
  "IdempotencyRecord_InFlight r \<longleftrightarrow> irec_StatusCode r = 0"

end
