(* ===== verification/TransactionFacts.thy ===== *)
theory TransactionFacts
  imports Transaction
begin

text \<open>
  Lemmas on transactions: what \<open>Validate\<close> accepts, the shape of the builders' results, the
  balance formula, and the double-entry law that a balanced transaction moves the debit-normal
  and the credit-normal accounts by the same amount.
\<close>

section \<open>Totals of one side\<close>

definition side_total :: "direction \<Rightarrow> entry list \<Rightarrow> int" where
  "side_total d es = (\<Sum>e \<leftarrow> filter (\<lambda>e. ent_Direction e = d) es. ent_Amount e)"

lemma side_total_Nil [simp]: "side_total d [] = 0"
  by (simp add: side_total_def)

lemma side_total_Cons [simp]:
  "side_total d (e # es) = (if ent_Direction e = d then ent_Amount e else 0) + side_total d es"
  by (simp add: side_total_def)

lemma side_total_nonneg: "(\<And>e. e \<in> set es \<Longrightarrow> 0 < ent_Amount e) \<Longrightarrow> 0 \<le> side_total d es"
  by (induction es) force+

lemma side_total_append [simp]: "side_total d (xs @ ys) = side_total d xs + side_total d ys"
  by (simp add: side_total_def)

section \<open>What Validate accepts\<close>

definition well_formed_entries :: "entry list \<Rightarrow> bool" where
  "well_formed_entries es \<longleftrightarrow>
     distinct (map ent_AccountID es)
     \<and> (\<forall>e \<in> set es. 0 < ent_Amount e \<and> Direction_Valid (ent_Direction e))"

lemma well_formed_entries_Cons:
  "well_formed_entries (e # es) \<longleftrightarrow>
     0 < ent_Amount e \<and> Direction_Valid (ent_Direction e)
     \<and> ent_AccountID e \<notin> ent_AccountID ` set es \<and> well_formed_entries es"
  by (auto simp: well_formed_entries_def)

lemma validate_entries_Inr_iff:
  assumes "\<And>e. e \<in> set es \<Longrightarrow> in_int64 (ent_Amount e)"
    and "in_int64 debit" "in_int64 credit" "0 \<le> debit" "0 \<le> credit"
  shows "validate_entries es debit credit seen = Inr r \<longleftrightarrow>
           well_formed_entries es \<and> ent_AccountID ` set es \<inter> seen = {}
           \<and> r = (debit + side_total DirectionDebit es, credit + side_total DirectionCredit es)
           \<and> in_int64 (fst r) \<and> in_int64 (snd r)"
  using assms
proof (induction es arbitrary: debit credit seen)
  case Nil
  then show ?case by (auto simp: well_formed_entries_def)
next
  case (Cons e es)
  let ?bad = "ent_Amount e \<le> 0 \<or> ent_AccountID e \<in> seen \<or> \<not> Direction_Valid (ent_Direction e)"
  show ?case
  proof (cases ?bad)
    case True
    then show ?thesis
      by (auto simp: well_formed_entries_Cons Direction_Valid_def)
  next
    case False
    have nonneg: "0 \<le> side_total d es" if "well_formed_entries es" for d
      using that by (intro side_total_nonneg) (auto simp: well_formed_entries_def)
    have IH: "validate_entries es d c (insert (ent_AccountID e) seen) = Inr r \<longleftrightarrow>
           well_formed_entries es \<and> ent_AccountID ` set es \<inter> insert (ent_AccountID e) seen = {}
           \<and> r = (d + side_total DirectionDebit es, c + side_total DirectionCredit es)
           \<and> in_int64 (fst r) \<and> in_int64 (snd r)"
      if "in_int64 d" "in_int64 c" "0 \<le> d" "0 \<le> c" for d c
      using Cons.IH [of d c "insert (ent_AccountID e) seen"] Cons.prems(1) that by simp
    have range: "in_int64 (ent_Amount e)" using Cons.prems(1) by simp
    from False have "ent_Direction e = DirectionDebit \<or> ent_Direction e = DirectionCredit"
      by (simp add: Direction_Valid_def)
    then show ?thesis
    proof
      assume dir: "ent_Direction e = DirectionDebit"
      show ?thesis
      proof (cases "in_int64 (debit + ent_Amount e)")
        case True
        with dir False range Cons.prems(2-5) IH [of "debit + ent_Amount e" credit] show ?thesis
          by (auto simp: Money_Add_ok well_formed_entries_Cons)
      next
        case over: False
        with dir False range Cons.prems(2-5) nonneg [of DirectionDebit] show ?thesis
          by (auto simp: Money_Add_overflow well_formed_entries_Cons in_int64_def)
      qed
    next
      assume dir: "ent_Direction e = DirectionCredit"
      show ?thesis
      proof (cases "in_int64 (credit + ent_Amount e)")
        case True
        with dir False range Cons.prems(2-5) IH [of debit "credit + ent_Amount e"] show ?thesis
          by (auto simp: Money_Add_ok well_formed_entries_Cons)
      next
        case over: False
        with dir False range Cons.prems(2-5) nonneg [of DirectionCredit] show ?thesis
          by (auto simp: Money_Add_overflow well_formed_entries_Cons in_int64_def)
      qed
    qed
  qed
qed

definition amounts_in_range :: "transaction \<Rightarrow> bool" where
  "amounts_in_range t \<longleftrightarrow> (\<forall>e \<in> set (txn_Entries t). in_int64 (ent_Amount e))"

definition valid_transaction :: "transaction \<Rightarrow> bool" where
  "valid_transaction t \<longleftrightarrow>
     2 \<le> length (txn_Entries t) \<and> length (txn_Description t) \<le> 255
     \<and> well_formed_entries (txn_Entries t)
     \<and> side_total DirectionDebit (txn_Entries t) = side_total DirectionCredit (txn_Entries t)
     \<and> in_int64 (side_total DirectionDebit (txn_Entries t))
     \<and> (txn_Type t = TxnReversal \<longleftrightarrow> txn_ReversesID t \<noteq> None)"

lemma Validate_None_iff:
  assumes "amounts_in_range t"
  shows "Transaction_Validate t = None \<longleftrightarrow> valid_transaction t"
proof -
  have E: "validate_entries (txn_Entries t) 0 0 {} = Inr r \<longleftrightarrow>
         well_formed_entries (txn_Entries t)
         \<and> r = (side_total DirectionDebit (txn_Entries t), side_total DirectionCredit (txn_Entries t))
         \<and> in_int64 (fst r) \<and> in_int64 (snd r)" for r
    using validate_entries_Inr_iff [of "txn_Entries t" 0 0 "{}" r] assms
    by (simp add: amounts_in_range_def)
  show ?thesis
  proof (cases "validate_entries (txn_Entries t) 0 0 {}")
    case (Inl err)
    then have "\<not> valid_transaction t" using E by (auto simp: valid_transaction_def)
    with Inl show ?thesis by (simp add: Transaction_Validate_def)
  next
    case (Inr r)
    with E [of r] show ?thesis
      by (auto simp: Transaction_Validate_def valid_transaction_def maxDescriptionLen_def
          split: if_splits)
  qed
qed

text \<open>
  C20 equivalence. Transaction.Validate accepts exactly the transactions of the double-entry
  rules: at least two entries, a description of at most 255 bytes, every amount positive and
  every direction known, no account twice, both sides equal in exact arithmetic and within 64
  bits, and a reversal link exactly on reversals.
\<close>

theorem Validate_accepts_exactly:
  assumes "amounts_in_range t"
  shows "Transaction_Validate t = None \<longleftrightarrow>
     2 \<le> length (txn_Entries t) \<and> length (txn_Description t) \<le> 255
     \<and> distinct (map ent_AccountID (txn_Entries t))
     \<and> (\<forall>e \<in> set (txn_Entries t). 0 < ent_Amount e \<and> Direction_Valid (ent_Direction e))
     \<and> side_total DirectionDebit (txn_Entries t) = side_total DirectionCredit (txn_Entries t)
     \<and> in_int64 (side_total DirectionDebit (txn_Entries t))
     \<and> (txn_Type t = TxnReversal \<longleftrightarrow> txn_ReversesID t \<noteq> None)"
  using Validate_None_iff [OF assms] by (simp add: valid_transaction_def well_formed_entries_def)

theorem Validate_accepts_exactly_witness:
  "Transaction_Validate (NewTopup 1 10 5000 7 ''isi'') = None
   \<and> Transaction_Validate ((NewTopup 1 10 5000 7 ''isi'')\<lparr>txn_Type := TxnReversal\<rparr>) \<noteq> None"
proof -
  let ?t = "NewTopup 1 10 5000 7 ''isi''"
  have "amounts_in_range ?t" "amounts_in_range (?t\<lparr>txn_Type := TxnReversal\<rparr>)"
    by (simp_all add: amounts_in_range_def NewTopup_def in_int64_def)
  note V = this [THEN Validate_accepts_exactly]
  show ?thesis by (subst V)+ (simp add: NewTopup_def in_int64_def)
qed

lemma Validate_wf:
  "\<lbrakk>amounts_in_range t; Transaction_Validate t = None\<rbrakk> \<Longrightarrow> well_formed_entries (txn_Entries t)"
  by (simp add: Validate_None_iff valid_transaction_def)

section \<open>Account ids of a transaction\<close>

lemma set_AccountIDs [simp]:
  "set (Transaction_AccountIDs t) = ent_AccountID ` set (txn_Entries t)"
  by (simp add: Transaction_AccountIDs_def)

lemma sorted_AccountIDs: "sorted (Transaction_AccountIDs t)"
  by (simp add: Transaction_AccountIDs_def)

lemma distinct_AccountIDs: "distinct (Transaction_AccountIDs t)"
  unfolding Transaction_AccountIDs_def by (rule distinct_remdups_adj_sorted) simp

section \<open>The balance formula\<close>

lemma BalanceDelta_in_int64: "in_int64 (ent_Amount e) \<Longrightarrow> in_int64 (BalanceDelta e nb)"
  by (simp add: BalanceDelta_def)

lemma BalanceDelta_exact:
  "\<lbrakk>in_int64 (ent_Amount e); 0 < ent_Amount e\<rbrakk> \<Longrightarrow>
   BalanceDelta e nb = (if ent_Direction e = nb then ent_Amount e else - ent_Amount e)"
  by (simp add: BalanceDelta_def Money_Neg_pos)

lemma BalanceDelta_reverse_entry:
  assumes "in_int64 (ent_Amount e)" "0 < ent_Amount e"
    and "Direction_Valid (ent_Direction e)" "Direction_Valid nb"
  shows "BalanceDelta (reverse_entry e) nb = - BalanceDelta e nb"
  using assms by (auto simp: BalanceDelta_exact reverse_entry_def Direction_Valid_def)

section \<open>Builders\<close>

text \<open>Every transaction a builder returns for positive amounts in range passes Validate.\<close>

lemma NewTopup_valid:
  assumes "cash \<noteq> wallet" "0 < amount" "in_int64 amount" "length desc \<le> 255"
  shows "Transaction_Validate (NewTopup cash wallet amount u desc) = None"
proof -
  have "amounts_in_range (NewTopup cash wallet amount u desc)"
    using assms by (simp add: amounts_in_range_def NewTopup_def)
  then show ?thesis
    using assms
    by (simp add: Validate_None_iff valid_transaction_def NewTopup_def well_formed_entries_def)
qed

lemma NewWithdraw_valid:
  assumes "cash \<noteq> wallet" "0 < amount" "in_int64 amount" "length desc \<le> 255"
  shows "Transaction_Validate (NewWithdraw wallet cash amount u desc) = None"
proof -
  have "amounts_in_range (NewWithdraw wallet cash amount u desc)"
    using assms by (simp add: amounts_in_range_def NewWithdraw_def)
  then show ?thesis
    using assms
    by (auto simp: Validate_None_iff valid_transaction_def NewWithdraw_def well_formed_entries_def)
qed

lemma NewTransfer_Inr_iff:
  assumes "in_int64 amount" "in_int64 fee"
  shows "NewTransfer from to fid amount fee u desc = Inr t \<longleftrightarrow>
    from \<noteq> to \<and> 0 \<le> fee \<and> in_int64 (amount + fee)
    \<and> t = \<lparr> txn_ID = nil_uuid, txn_Type = TxnTransfer, txn_Status = TxnPosted,
            txn_Description = desc, txn_InitiatedBy = Some u, txn_ReversesID = None,
            txn_Entries =
              [\<lparr> ent_AccountID = from, ent_Direction = DirectionDebit, ent_Amount = amount + fee \<rparr>,
               \<lparr> ent_AccountID = to, ent_Direction = DirectionCredit, ent_Amount = amount \<rparr>]
              @ (if fee > 0
                 then [\<lparr> ent_AccountID = fid, ent_Direction = DirectionCredit,
                         ent_Amount = fee \<rparr>]
                 else []),
            txn_CreatedAt = zero_time \<rparr>"
  using assms by (auto simp: NewTransfer_def Money_Add_cases Let_def)

lemma NewTransfer_valid:
  assumes "NewTransfer from to fid amount fee u desc = Inr t"
    and "in_int64 amount" "0 < amount" "in_int64 fee" "fid \<noteq> from" "fid \<noteq> to" "length desc \<le> 255"
  shows "Transaction_Validate t = None" and "amounts_in_range t"
proof -
  note t = assms(1) [unfolded NewTransfer_Inr_iff [OF assms(2,4)]]
  from t assms show R: "amounts_in_range t"
    by (auto simp: amounts_in_range_def)
  from t assms(2-) have "valid_transaction t"
    by (auto simp: valid_transaction_def well_formed_entries_def)
  with R show "Transaction_Validate t = None" by (simp add: Validate_None_iff)
qed

lemma reverse_entry_simps [simp]:
  "ent_AccountID (reverse_entry e) = ent_AccountID e"
  "ent_Amount (reverse_entry e) = ent_Amount e"
  "ent_Direction (reverse_entry e) = Direction_Opposite (ent_Direction e)"
  by (simp_all add: reverse_entry_def)

lemma side_total_reverse:
  assumes "\<And>e. e \<in> set es \<Longrightarrow> Direction_Valid (ent_Direction e)"
  shows "side_total DirectionDebit (map reverse_entry es) = side_total DirectionCredit es"
    and "side_total DirectionCredit (map reverse_entry es) = side_total DirectionDebit es"
  using assms by (induction es) (auto simp: Direction_Valid_def Direction_Opposite_eq_iff)

lemma NewReversal_Inr_iff:
  "NewReversal orig u desc = Inr t \<longleftrightarrow>
     txn_Status orig = TxnPosted \<and> txn_Type orig \<noteq> TxnReversal
     \<and> t = \<lparr> txn_ID = nil_uuid, txn_Type = TxnReversal, txn_Status = TxnPosted,
             txn_Description = desc, txn_InitiatedBy = Some u, txn_ReversesID = Some (txn_ID orig),
             txn_Entries = map reverse_entry (txn_Entries orig), txn_CreatedAt = zero_time \<rparr>"
  by (auto simp: NewReversal_def Let_def)

lemma NewReversal_valid:
  assumes "NewReversal orig u desc = Inr t" "amounts_in_range orig"
    and "Transaction_Validate orig = None" "length desc \<le> 255"
  shows "Transaction_Validate t = None" and "amounts_in_range t"
proof -
  note t = assms(1) [unfolded NewReversal_Inr_iff]
  from t assms(2) show R: "amounts_in_range t"
    by (simp add: amounts_in_range_def)
  have orig: "valid_transaction orig" using assms(2,3) by (simp add: Validate_None_iff)
  have comp: "ent_AccountID \<circ> reverse_entry = ent_AccountID" by auto
  from t orig assms(4) have "valid_transaction t"
    by (auto simp: valid_transaction_def well_formed_entries_def comp side_total_reverse)
  with R show "Transaction_Validate t = None" by (simp add: Validate_None_iff)
qed

end
