(* ===== verification/Database.thy ===== *)
theory Database
  imports PgErrors TransactionFacts
begin

text \<open>
  The PostgreSQL database of the program: the tables, constraints and triggers of the
  migrations 000001 to 000010, and the machinery the repositories share: statements,
  transactions, faults.

  A state holds the tables, the identity sequences (which a rollback does not reset) and a
  counter of executed statements. The environment says what the code cannot control: whether
  the n-th statement fails in transit (a deadlock or serialization abort, a lost connection,
  a cancelled or expired context), the instant \<open>now()\<close> returns, and the UUID that
  \<open>gen_random_uuid()\<close> returns in the n-th statement, and what \<open>LOWER()\<close> does to a text
  (it depends on the locale of the server). A commit that reports an error is
  taken to have committed nothing. The fault of a lost connection also stands for the server
  errors \<open>translate\<close> leaves as they are, such as a text with invalid bytes (SQLSTATE 22021).
\<close>

section \<open>Rows\<close>

text \<open>A JSON document; a leaf of a library type with its own text form keeps its value.\<close>

datatype json =
  JNull | JInt int | JStr string | JUuid uuid | JTime time
  | JArr "json list" | JObj "(string \<times> json) list"

record txn_row =
  tr_id :: uuid
  tr_txn_type :: txn_type
  tr_status :: txn_status
  tr_description :: string
  tr_initiated_by :: "int64 option"
  tr_reverses :: "uuid option"
  tr_created_at :: time

record entry_row =
  er_id :: int64
  er_transaction_id :: uuid
  er_account_id :: int64
  er_direction :: direction
  er_amount :: int64
  er_balance_after :: int64
  er_created_at :: time

record idem_row =
  ik_user_id :: int64
  ik_key :: string
  ik_endpoint :: string
  ik_request_hash :: string
  ik_transaction_id :: "uuid option"
  ik_status_code :: int
  ik_response_body :: json
  ik_created_at :: time

record outbox_row =
  ob_id :: int64
  ob_event_id :: uuid
  ob_aggregate_type :: string
  ob_aggregate_id :: uuid            \<comment> \<open>TEXT holding the text of a UUID\<close>
  ob_event_type :: string
  ob_payload :: json
  ob_created_at :: time
  ob_published_at :: "time option"
  ob_attempts :: int
  ob_last_error :: "err option"      \<comment> \<open>TEXT holding the text of an error\<close>

record processed_row =
  pv_event_id :: uuid
  pv_consumer :: string
  pv_processed_at :: time

record tables =
  accounts :: "account list"
  transactions :: "txn_row list"
  entries :: "entry_row list"
  idempotency_keys :: "idem_row list"
  outbox_events :: "outbox_row list"
  users :: "user list"
  refresh_tokens :: "refresh_token list"
  processed_events :: "processed_row list"

record sequences =
  seq_accounts :: int
  seq_entries :: int
  seq_outbox :: int
  seq_users :: int
  seq_tokens :: int

record pg =
  tabs :: tables
  seqs :: sequences
  steps :: nat

section \<open>Statements and faults\<close>

datatype fault = Deadlock | SerializationFailure | ConnectionLost string | CtxCanceled | CtxExpired

fun fault_err :: "fault \<Rightarrow> err" where
  "fault_err Deadlock = PgError codeDeadlock ''''"
| "fault_err SerializationFailure = PgError codeSerialization ''''"
| "fault_err (ConnectionLost msg) = NewError msg"
| "fault_err CtxCanceled = Canceled"
| "fault_err CtxExpired = DeadlineExceeded"

record env =
  env_fault :: "nat \<Rightarrow> fault option"
  env_now :: time
  env_uuid :: "nat \<Rightarrow> uuid"
  env_lower :: "string \<Rightarrow> string"

definition no_faults :: "env \<Rightarrow> bool" where
  "no_faults env \<longleftrightarrow> (\<forall>k. env_fault env k = None)"

definition stmt :: "env \<Rightarrow> (nat \<Rightarrow> (pg, 'a) prog) \<Rightarrow> (pg, 'a) prog" where
  "stmt env f =
     (\<lambda>w. let k = steps w; w' = w\<lparr>steps := Suc k\<rparr>
          in case env_fault env k of
               Some x \<Rightarrow> (Inl (fault_err x), w')
             | None \<Rightarrow> f k w')"

definition round_trip :: "env \<Rightarrow> (pg, unit) prog" where
  \<comment> \<open>an exchange with the server that touches no row, such as BEGIN\<close>
  "round_trip env = stmt env (\<lambda>k. retP ())"

section \<open>Constraints\<close>

text \<open>
  \<open>length(text)\<close> of PostgreSQL counts characters; on UTF-8 text these are the bytes that
  are no continuation bytes.
\<close>

definition char_length :: "string \<Rightarrow> nat" where
  "char_length s = length (filter (\<lambda>c. \<not> (128 \<le> (of_char c :: nat) \<and> (of_char c :: nat) < 192)) s)"

definition enum_account_type :: "string list" where
  "enum_account_type =
     [AccountUserWallet, AccountSystemCash, AccountSystemFeeRevenue, AccountSystemSuspense]"

definition enum_txn_type :: "string list" where
  "enum_txn_type = [TxnTopup, TxnTransfer, TxnWithdraw, TxnReversal]"

definition check_wallet_non_negative :: "account \<Rightarrow> bool" where
  "check_wallet_non_negative a \<longleftrightarrow> acc_Type a \<noteq> AccountUserWallet \<or> acc_Balance a \<ge> 0"

definition check_normal_balance :: "account \<Rightarrow> bool" where
  "check_normal_balance a \<longleftrightarrow>
     (acc_Type a = AccountSystemCash \<and> acc_NormalBalance a = DirectionDebit)
     \<or> (acc_Type a \<in> {AccountUserWallet, AccountSystemFeeRevenue, AccountSystemSuspense}
        \<and> acc_NormalBalance a = DirectionCredit)"

definition check_owner :: "account \<Rightarrow> bool" where
  "check_owner a \<longleftrightarrow>
     (acc_Type a = AccountUserWallet \<and> acc_UserID a \<noteq> None)
     \<or> (acc_Type a \<noteq> AccountUserWallet \<and> acc_UserID a = None)"

text \<open>PostgreSQL evaluates the CHECK constraints of a row in the order of their names.\<close>

definition accounts_check :: "account \<Rightarrow> err option" where
  "accounts_check a =
     (if \<not> check_normal_balance a then Some (PgError codeCheckViolation ''chk_normal_balance'')
      else if \<not> check_owner a then Some (PgError codeCheckViolation ''chk_owner'')
      else if \<not> check_wallet_non_negative a
        then Some (PgError codeCheckViolation ''chk_wallet_non_negative'')
      else None)"

definition transactions_check :: "txn_row \<Rightarrow> err option" where
  "transactions_check r =
     (if tr_txn_type r \<notin> set enum_txn_type then Some (PgError codeInvalidText '''')
      else if \<not> ((tr_txn_type r = TxnReversal \<and> tr_reverses r \<noteq> None)
               \<or> (tr_txn_type r \<noteq> TxnReversal \<and> tr_reverses r = None))
        then Some (PgError codeCheckViolation ''chk_reversal_link'')
      else if char_length (tr_description r) > 255
        then Some (PgError codeCheckViolation ''transactions_description_check'')
      else None)"

section \<open>Triggers\<close>

text \<open>\<open>assert_transaction_balanced()\<close>, deferred to COMMIT for each inserted entry.\<close>

definition row_total :: "direction \<Rightarrow> uuid \<Rightarrow> entry_row list \<Rightarrow> int" where
  "row_total d t rows =
     (\<Sum>r \<leftarrow> filter (\<lambda>r. er_transaction_id r = t \<and> er_direction r = d) rows. er_amount r)"

definition assert_transaction_balanced :: "entry_row list \<Rightarrow> uuid \<Rightarrow> err option" where
  "assert_transaction_balanced rows t =
     (let total_debit = row_total DirectionDebit t rows;
          total_credit = row_total DirectionCredit t rows
      in if \<not> in_int64 total_debit \<or> \<not> in_int64 total_credit then Some (PgError codeOutOfRange '''')
         else if total_debit \<noteq> total_credit
           then Some (PgError codeCheckViolation ''trg_entries_balanced'')
         else None)"

text \<open>\<open>transactions_status_only()\<close>, before each UPDATE of a transactions row.\<close>

definition transactions_status_only :: "txn_row \<Rightarrow> txn_row \<Rightarrow> err option" where
  "transactions_status_only old new =
     (if tr_id new \<noteq> tr_id old \<or> tr_txn_type new \<noteq> tr_txn_type old
         \<or> tr_description new \<noteq> tr_description old \<or> tr_initiated_by new \<noteq> tr_initiated_by old
         \<or> tr_reverses new \<noteq> tr_reverses old \<or> tr_created_at new \<noteq> tr_created_at old
        then Some (PgError codeInsufficientPrivilege '''')
      else if tr_status old = TxnReversed \<and> tr_status new \<noteq> TxnReversed
        then Some (PgError codeInsufficientPrivilege '''')
      else None)"

fun first_err :: "('a \<Rightarrow> err option) \<Rightarrow> 'a list \<Rightarrow> err option" where
  "first_err f [] = None"
| "first_err f (x # xs) = (case f x of Some e \<Rightarrow> Some e | None \<Rightarrow> first_err f xs)"

lemma first_err_None_iff [simp]: "first_err f xs = None \<longleftrightarrow> (\<forall>x \<in> set xs. f x = None)"
  by (induction xs) (auto split: option.splits)

section \<open>Transactions\<close>

text \<open>
  COMMIT fires the deferred trigger for every entry the transaction inserted (entries are
  only ever appended); \<open>in_tx\<close> is the pattern Begin, \<open>defer tx.Rollback\<close>, body, Commit:
  after any error the tables are those before the transaction, the sequences are not.
\<close>

definition commit :: "env \<Rightarrow> tables \<Rightarrow> (pg, unit) prog" where
  "commit env t0 =
     stmt env (\<lambda>k w.
       case first_err (\<lambda>r. assert_transaction_balanced (entries (tabs w)) (er_transaction_id r))
              (drop (length (entries t0)) (entries (tabs w))) of
         Some e \<Rightarrow> (Inl e, w)
       | None \<Rightarrow> (Inr (), w))"

definition in_tx :: "env \<Rightarrow> (err \<Rightarrow> err) \<Rightarrow> (pg, 'a) prog \<Rightarrow> (pg, 'a) prog" where
  "in_tx env commit_err body =
     (\<lambda>w0. case round_trip env w0 of
        (Inl e, w1) \<Rightarrow> (Inl (Wrapf ''begin: %w'' [] e), w1)
      | (Inr _, w1) \<Rightarrow>
          (case bindP body (\<lambda>r. bindP (wrapP commit_err (commit env (tabs w1))) (\<lambda>_. retP r)) w1 of
             (Inl e, w2) \<Rightarrow> (Inl e, w2\<lparr>tabs := tabs w1\<rparr>)
           | (Inr r, w2) \<Rightarrow> (Inr r, w2)))"

section \<open>Facts about statements and transactions\<close>

lemma stmt_Inr_iff [prog_simps]:
  "stmt env f w = (Inr a, w') \<longleftrightarrow>
     env_fault env (steps w) = None \<and> f (steps w) (w\<lparr>steps := Suc (steps w)\<rparr>) = (Inr a, w')"
  by (auto simp: stmt_def Let_def split: option.splits)

lemma stmt_Inl_iff [prog_simps]:
  "stmt env f w = (Inl e, w') \<longleftrightarrow>
     (\<exists>x. env_fault env (steps w) = Some x \<and> e = fault_err x \<and> w' = w\<lparr>steps := Suc (steps w)\<rparr>)
     \<or> (env_fault env (steps w) = None \<and> f (steps w) (w\<lparr>steps := Suc (steps w)\<rparr>) = (Inl e, w'))"
  by (auto simp: stmt_def Let_def split: option.splits)

lemma stmt_run [simp]:
  "no_faults env \<Longrightarrow> stmt env f w = f (steps w) (w\<lparr>steps := Suc (steps w)\<rparr>)"
  by (simp add: stmt_def no_faults_def Let_def)

lemma round_trip_tabs: "round_trip env w = (r, w') \<Longrightarrow> tabs w' = tabs w"
  by (auto simp: round_trip_def stmt_def Let_def split: option.splits)

lemma round_trip_run [simp]:
  "no_faults env \<Longrightarrow> round_trip env w = (Inr (), w\<lparr>steps := Suc (steps w)\<rparr>)"
  by (simp add: round_trip_def)

lemma commit_Inr:
  assumes "commit env t0 w = (Inr (), w')"
  shows "tabs w' = tabs w" and "seqs w' = seqs w"
    and "\<And>r. r \<in> set (drop (length (entries t0)) (entries (tabs w))) \<Longrightarrow>
          assert_transaction_balanced (entries (tabs w)) (er_transaction_id r) = None"
  using assms by (auto simp: commit_def stmt_Inr_iff split: option.splits)

lemma in_tx_Inl_tabs:
  assumes "in_tx env ce body w = (Inl e, w')"
  shows "tabs w' = tabs w"
  using assms by (auto simp: in_tx_def split: prod.splits sum.splits dest: round_trip_tabs)

lemma in_tx_InrE:
  assumes "in_tx env ce body w = (Inr r, w')"
  obtains w1 w2 where "tabs w1 = tabs w" "seqs w1 = seqs w" "body w1 = (Inr r, w2)"
    "commit env (tabs w1) w2 = (Inr (), w')"
proof -
  obtain u w1 where rt: "round_trip env w = (Inr u, w1)"
    and B: "bindP body (\<lambda>r. bindP (wrapP ce (commit env (tabs w1))) (\<lambda>_. retP r)) w1 = (Inr r, w')"
    using assms by (auto simp: in_tx_def split: prod.splits sum.splits)
  from rt have "tabs w1 = tabs w" "seqs w1 = seqs w"
    by (auto simp: round_trip_def stmt_Inr_iff)
  moreover from B obtain w2 where "body w1 = (Inr r, w2)" "commit env (tabs w1) w2 = (Inr (), w')"
    by (auto simp: bindP_Inr_iff wrapP_Inr_iff)
  ultimately show ?thesis by (rule that)
qed

end
