(* ===== verification/StoredResult.thy ===== *)
theory StoredResult
  imports Database
begin

text \<open>
  The stored form of a posting result (internal/repository/postgres/ledger_repo.go, lines
  277 to 333): the structs \<open>storedResult\<close> and \<open>storedEntry\<close>, their JSON as
  \<open>encoding/json\<close> writes and reads it by the field tags, and the conversions from and to
  the domain's \<open>PostResult\<close>. The JSON document is what both the idempotency table and the
  outbox keep.
\<close>

section \<open>Structs\<close>

record stored_entry =
  se_ID :: int64
  se_AccountID :: int64
  se_AccountPublicID :: uuid
  se_AccountType :: string
  se_Direction :: string
  se_AmountSen :: int64
  se_BalanceAfter :: int64
  se_CreatedAt :: time

record stored_result =
  sr_TransactionID :: uuid
  sr_Type :: string
  sr_Status :: string
  sr_Description :: string
  sr_InitiatedBy :: "int64 option"
  sr_ReversesID :: "uuid option"
  sr_CreatedAt :: time
  sr_Entries :: "stored_entry list"

definition toStored :: "post_result \<Rightarrow> stored_result" where
  "toStored p =
     (let t = pr_Transaction p in
      \<lparr> sr_TransactionID = txn_ID t, sr_Type = txn_Type t, sr_Status = txn_Status t,
        sr_Description = txn_Description t, sr_InitiatedBy = txn_InitiatedBy t,
        sr_ReversesID = txn_ReversesID t, sr_CreatedAt = txn_CreatedAt t,
        sr_Entries = map (\<lambda>e.
          \<lparr> se_ID = pe_ID e, se_AccountID = pe_AccountID e,
            se_AccountPublicID = pe_AccountPublicID e, se_AccountType = pe_AccountType e,
            se_Direction = pe_Direction e, se_AmountSen = pe_Amount e,
            se_BalanceAfter = pe_BalanceAfter e, se_CreatedAt = pe_CreatedAt e \<rparr>)
          (pr_Entries p) \<rparr>)"

definition fromStored :: "stored_result \<Rightarrow> post_result" where
  "fromStored s =
     (let entries = map (\<lambda>e.
            \<lparr> ent_AccountID = se_AccountID e, ent_Direction = se_Direction e,
              ent_Amount = se_AmountSen e \<rparr>) (sr_Entries s);
          txn =
            \<lparr> txn_ID = sr_TransactionID s, txn_Type = sr_Type s, txn_Status = sr_Status s,
              txn_Description = sr_Description s, txn_InitiatedBy = sr_InitiatedBy s,
              txn_ReversesID = sr_ReversesID s, txn_Entries = entries,
              txn_CreatedAt = sr_CreatedAt s \<rparr>;
          posted = map (\<lambda>e.
            \<lparr> pe_ID = se_ID e, pe_TransactionID = sr_TransactionID s,
              pe_AccountID = se_AccountID e, pe_AccountPublicID = se_AccountPublicID e,
              pe_AccountType = se_AccountType e, pe_Direction = se_Direction e,
              pe_Amount = se_AmountSen e, pe_BalanceAfter = se_BalanceAfter e,
              pe_CreatedAt = se_CreatedAt e, pe_TxnType = txn_Type txn,
              pe_Description = txn_Description txn \<rparr>) (sr_Entries s)
      in \<lparr> pr_Transaction = txn, pr_Entries = posted, pr_ViewerAccountID = None \<rparr>)"

section \<open>JSON\<close>

definition json_of_entry :: "stored_entry \<Rightarrow> json" where
  "json_of_entry e =
     JObj [(''id'', JInt (se_ID e)),
           (''account_id'', JInt (se_AccountID e)),
           (''account_public_id'', JUuid (se_AccountPublicID e)),
           (''account_type'', JStr (se_AccountType e)),
           (''direction'', JStr (se_Direction e)),
           (''amount_sen'', JInt (se_AmountSen e)),
           (''balance_after_sen'', JInt (se_BalanceAfter e)),
           (''created_at'', JTime (se_CreatedAt e))]"

definition json_of_stored :: "stored_result \<Rightarrow> json" where
  "json_of_stored s =
     JObj ([(''transaction_id'', JUuid (sr_TransactionID s)),
            (''type'', JStr (sr_Type s)),
            (''status'', JStr (sr_Status s)),
            (''description'', JStr (sr_Description s))]
           @ (case sr_InitiatedBy s of None \<Rightarrow> [] | Some u \<Rightarrow> [(''initiated_by'', JInt u)])
           @ (case sr_ReversesID s of None \<Rightarrow> [] | Some r \<Rightarrow> [(''reverses_transaction_id'', JUuid r)])
           @ [(''created_at'', JTime (sr_CreatedAt s)),
              (''entries'', JArr (map json_of_entry (sr_Entries s)))])"

text \<open>
  Reading a struct: an absent member and null leave the zero value; a member of another JSON
  type is an error.
\<close>

definition unmarshal_type_error :: err where
  "unmarshal_type_error = NewError ''json: cannot unmarshal value into Go struct field''"

definition read_int :: "(string \<times> json) list \<Rightarrow> string \<Rightarrow> int64 result" where
  "read_int fs k =
     (case map_of fs k of
        None \<Rightarrow> Inr 0
      | Some JNull \<Rightarrow> Inr 0
      | Some (JInt n) \<Rightarrow> if in_int64 n then Inr n else Inl unmarshal_type_error
      | Some _ \<Rightarrow> Inl unmarshal_type_error)"

definition read_int_ptr :: "(string \<times> json) list \<Rightarrow> string \<Rightarrow> int64 option result" where
  "read_int_ptr fs k =
     (case map_of fs k of
        None \<Rightarrow> Inr None
      | Some JNull \<Rightarrow> Inr None
      | Some (JInt n) \<Rightarrow> if in_int64 n then Inr (Some n) else Inl unmarshal_type_error
      | Some _ \<Rightarrow> Inl unmarshal_type_error)"

definition read_str :: "(string \<times> json) list \<Rightarrow> string \<Rightarrow> string result" where
  "read_str fs k =
     (case map_of fs k of
        None \<Rightarrow> Inr ''''
      | Some JNull \<Rightarrow> Inr ''''
      | Some (JStr s) \<Rightarrow> Inr s
      | Some _ \<Rightarrow> Inl unmarshal_type_error)"

definition read_uuid :: "(string \<times> json) list \<Rightarrow> string \<Rightarrow> uuid result" where
  "read_uuid fs k =
     (case map_of fs k of
        None \<Rightarrow> Inr nil_uuid
      | Some JNull \<Rightarrow> Inr nil_uuid
      | Some (JUuid u) \<Rightarrow> Inr u
      | Some _ \<Rightarrow> Inl unmarshal_type_error)"

definition read_uuid_ptr :: "(string \<times> json) list \<Rightarrow> string \<Rightarrow> uuid option result" where
  "read_uuid_ptr fs k =
     (case map_of fs k of
        None \<Rightarrow> Inr None
      | Some JNull \<Rightarrow> Inr None
      | Some (JUuid u) \<Rightarrow> Inr (Some u)
      | Some _ \<Rightarrow> Inl unmarshal_type_error)"

definition read_time :: "(string \<times> json) list \<Rightarrow> string \<Rightarrow> time result" where
  "read_time fs k =
     (case map_of fs k of
        None \<Rightarrow> Inr zero_time
      | Some JNull \<Rightarrow> Inr zero_time
      | Some (JTime t) \<Rightarrow> Inr t
      | Some _ \<Rightarrow> Inl unmarshal_type_error)"

definition read_list :: "(string \<times> json) list \<Rightarrow> string \<Rightarrow> json list result" where
  "read_list fs k =
     (case map_of fs k of
        None \<Rightarrow> Inr []
      | Some JNull \<Rightarrow> Inr []
      | Some (JArr js) \<Rightarrow> Inr js
      | Some _ \<Rightarrow> Inl unmarshal_type_error)"

definition bindR :: "'a result \<Rightarrow> ('a \<Rightarrow> 'b result) \<Rightarrow> 'b result" where
  "bindR r k = (case r of Inl e \<Rightarrow> Inl e | Inr a \<Rightarrow> k a)"

fun mapR :: "('a \<Rightarrow> 'b result) \<Rightarrow> 'a list \<Rightarrow> 'b list result" where
  "mapR f [] = Inr []"
| "mapR f (x # xs) = bindR (f x) (\<lambda>y. bindR (mapR f xs) (\<lambda>ys. Inr (y # ys)))"

definition entry_of_json :: "json \<Rightarrow> stored_entry result" where
  "entry_of_json j =
     (case j of
        JObj fs \<Rightarrow>
          bindR (read_int fs ''id'') (\<lambda>i.
          bindR (read_int fs ''account_id'') (\<lambda>a.
          bindR (read_uuid fs ''account_public_id'') (\<lambda>p.
          bindR (read_str fs ''account_type'') (\<lambda>ty.
          bindR (read_str fs ''direction'') (\<lambda>d.
          bindR (read_int fs ''amount_sen'') (\<lambda>am.
          bindR (read_int fs ''balance_after_sen'') (\<lambda>ba.
          bindR (read_time fs ''created_at'') (\<lambda>t.
            Inr \<lparr> se_ID = i, se_AccountID = a, se_AccountPublicID = p, se_AccountType = ty,
                  se_Direction = d, se_AmountSen = am, se_BalanceAfter = ba,
                  se_CreatedAt = t \<rparr>))))))))
      | JNull \<Rightarrow>
          Inr \<lparr> se_ID = 0, se_AccountID = 0, se_AccountPublicID = nil_uuid, se_AccountType = '''',
                se_Direction = '''', se_AmountSen = 0, se_BalanceAfter = 0,
                se_CreatedAt = zero_time \<rparr>
      | _ \<Rightarrow> Inl unmarshal_type_error)"

definition stored_of_json :: "json \<Rightarrow> stored_result result" where
  "stored_of_json j =
     (case j of
        JObj fs \<Rightarrow>
          bindR (read_uuid fs ''transaction_id'') (\<lambda>i.
          bindR (read_str fs ''type'') (\<lambda>ty.
          bindR (read_str fs ''status'') (\<lambda>st.
          bindR (read_str fs ''description'') (\<lambda>d.
          bindR (read_int_ptr fs ''initiated_by'') (\<lambda>u.
          bindR (read_uuid_ptr fs ''reverses_transaction_id'') (\<lambda>r.
          bindR (read_time fs ''created_at'') (\<lambda>t.
          bindR (read_list fs ''entries'') (\<lambda>js.
          bindR (mapR entry_of_json js) (\<lambda>es.
            Inr \<lparr> sr_TransactionID = i, sr_Type = ty, sr_Status = st, sr_Description = d,
                  sr_InitiatedBy = u, sr_ReversesID = r, sr_CreatedAt = t,
                  sr_Entries = es \<rparr>)))))))))
      | JNull \<Rightarrow>
          Inr \<lparr> sr_TransactionID = nil_uuid, sr_Type = '''', sr_Status = '''',
                sr_Description = '''', sr_InitiatedBy = None, sr_ReversesID = None,
                sr_CreatedAt = zero_time, sr_Entries = [] \<rparr>
      | _ \<Rightarrow> Inl unmarshal_type_error)"

section \<open>Round trips\<close>

definition stored_entry_in_range :: "stored_entry \<Rightarrow> bool" where
  "stored_entry_in_range e \<longleftrightarrow>
     in_int64 (se_ID e) \<and> in_int64 (se_AccountID e) \<and> in_int64 (se_AmountSen e)
     \<and> in_int64 (se_BalanceAfter e)"

definition stored_in_range :: "stored_result \<Rightarrow> bool" where
  "stored_in_range s \<longleftrightarrow>
     pred_option in_int64 (sr_InitiatedBy s) \<and> (\<forall>e \<in> set (sr_Entries s). stored_entry_in_range e)"

lemmas read_defs = read_int_def read_int_ptr_def read_str_def read_uuid_def read_uuid_ptr_def
  read_time_def read_list_def bindR_def

lemma entry_of_json_of_entry:
  "stored_entry_in_range e \<Longrightarrow> entry_of_json (json_of_entry e) = Inr e"
  by (simp add: entry_of_json_def json_of_entry_def read_defs stored_entry_in_range_def)

lemma mapR_map_Inr: "(\<And>x. x \<in> set xs \<Longrightarrow> f (g x) = Inr x) \<Longrightarrow> mapR f (map g xs) = Inr xs"
  by (induction xs) (auto simp: bindR_def)

lemma stored_of_json_of_stored:
  assumes "stored_in_range s"
  shows "stored_of_json (json_of_stored s) = Inr s"
proof -
  have E: "mapR entry_of_json (map json_of_entry (sr_Entries s)) = Inr (sr_Entries s)"
    using assms by (intro mapR_map_Inr entry_of_json_of_entry) (auto simp: stored_in_range_def)
  show ?thesis
    using assms E
    by (cases "sr_InitiatedBy s"; cases "sr_ReversesID s")
      (simp_all add: stored_of_json_def json_of_stored_def read_defs stored_in_range_def)
qed

text \<open>
  A result in the form Post builds it: the posted entries repeat the transaction's id, type
  and description, the transaction's entries are the posted ones, and no viewer is set.
\<close>

definition posted_form :: "post_result \<Rightarrow> bool" where
  "posted_form p \<longleftrightarrow>
     pr_ViewerAccountID p = None
     \<and> txn_Entries (pr_Transaction p) =
         map (\<lambda>e. \<lparr> ent_AccountID = pe_AccountID e, ent_Direction = pe_Direction e,
                    ent_Amount = pe_Amount e \<rparr>) (pr_Entries p)
     \<and> (\<forall>e \<in> set (pr_Entries p).
          pe_TransactionID e = txn_ID (pr_Transaction p)
          \<and> pe_TxnType e = txn_Type (pr_Transaction p)
          \<and> pe_Description e = txn_Description (pr_Transaction p))"

lemma fromStored_toStored:
  assumes "posted_form p"
  shows "fromStored (toStored p) = p"
proof (rule post_result.equality)
  show "pr_Transaction (fromStored (toStored p)) = pr_Transaction p"
    using assms
    by (intro transaction.equality)
      (simp_all add: fromStored_def toStored_def Let_def posted_form_def comp_def)
  show "pr_Entries (fromStored (toStored p)) = pr_Entries p"
    unfolding fromStored_def toStored_def Let_def
    using assms by (auto simp: posted_form_def intro!: map_idI posted_entry.equality)
qed (use assms in \<open>simp_all add: fromStored_def toStored_def Let_def posted_form_def\<close>)

end
