(* ===== verification/LedgerRepo.thy ===== *)
theory LedgerRepo
  imports StoredResult
begin

text \<open>
  internal/repository/postgres/ledger_repo.go: \<open>LedgerRepo.Post\<close>, statement by statement in
  one database transaction, and the reads \<open>GetTransaction\<close>, \<open>TrialBalance\<close> and
  \<open>BalanceDrift\<close>. The definitions named \<open>sql_\<close> are the statements' text: their
  WHERE clauses, constraints and RETURNING values on the tables of the model.
\<close>

record locked_account =
  la_ID :: int64
  la_PublicID :: uuid
  la_Balance :: int64
  la_Version :: int64
  la_Status :: string
  la_NormalBalance :: string
  la_AccountType :: string

definition lockedAccount_of :: "account \<Rightarrow> locked_account" where
  "lockedAccount_of a =
     \<lparr> la_ID = acc_ID a, la_PublicID = acc_PublicID a, la_Balance = acc_Balance a,
       la_Version = acc_Version a, la_Status = acc_Status a,
       la_NormalBalance = acc_NormalBalance a, la_AccountType = acc_Type a \<rparr>"

definition zero_locked :: locked_account where
  \<comment> \<open>what a Go map returns for a key that is absent\<close>
  "zero_locked =
     \<lparr> la_ID = 0, la_PublicID = nil_uuid, la_Balance = 0, la_Version = 0, la_Status = '''',
       la_NormalBalance = '''', la_AccountType = '''' \<rparr>"

section \<open>The statements of Post\<close>

text \<open>The rows the INSERTs build, with the column defaults of the schema.\<close>

definition new_idem_row :: "env \<Rightarrow> idempotency_claim \<Rightarrow> idem_row" where
  "new_idem_row env claim =
     \<lparr> ik_user_id = clm_UserID claim, ik_key = clm_Key claim, ik_endpoint = clm_Endpoint claim,
       ik_request_hash = clm_RequestHash claim, ik_transaction_id = None, ik_status_code = 0,
       ik_response_body = JObj [], ik_created_at = env_now env \<rparr>"

definition new_txn_row ::
    "env \<Rightarrow> uuid \<Rightarrow> txn_type \<Rightarrow> string \<Rightarrow> int64 option \<Rightarrow> uuid option \<Rightarrow> txn_row" where
  "new_txn_row env i typ desc initiatedBy reversesID =
     \<lparr> tr_id = i, tr_txn_type = typ, tr_status = TxnPosted, tr_description = desc,
       tr_initiated_by = initiatedBy, tr_reverses = reversesID, tr_created_at = env_now env \<rparr>"

definition new_entry_row ::
    "env \<Rightarrow> int64 \<Rightarrow> uuid \<Rightarrow> int64 \<Rightarrow> string \<Rightarrow> int64 \<Rightarrow> int64 \<Rightarrow> entry_row" where
  "new_entry_row env n txnID accountID dir amount balanceAfter =
     \<lparr> er_id = n, er_transaction_id = txnID, er_account_id = accountID, er_direction = dir,
       er_amount = amount, er_balance_after = balanceAfter, er_created_at = env_now env \<rparr>"

definition new_outbox_row :: "env \<Rightarrow> int64 \<Rightarrow> uuid \<Rightarrow> uuid \<Rightarrow> json \<Rightarrow> outbox_row" where
  "new_outbox_row env n eventID txnID body =
     \<lparr> ob_id = n, ob_event_id = eventID, ob_aggregate_type = ''transaction'',
       ob_aggregate_id = txnID, ob_event_type = ''ledger.transaction.posted.v1'',
       ob_payload = body, ob_created_at = env_now env, ob_published_at = None,
       ob_attempts = 0, ob_last_error = None \<rparr>"

definition sql_claim_key :: "env \<Rightarrow> idempotency_claim \<Rightarrow> (pg, nat) prog" where
  "sql_claim_key env claim =
     stmt env (\<lambda>k w. let T = tabs w in
       if \<not> (1 \<le> char_length (clm_Key claim) \<and> char_length (clm_Key claim) \<le> 128)
         then (Inl (PgError codeCheckViolation ''idempotency_keys_key_check''), w)
       else if \<exists>r \<in> set (idempotency_keys T).
                 ik_user_id r = clm_UserID claim \<and> ik_key r = clm_Key claim
         then (Inr 0, w)
       else if \<forall>u \<in> set (users T). usr_ID u \<noteq> clm_UserID claim
         then (Inl (PgError codeForeignKey ''idempotency_keys_user_id_fkey''), w)
       else (Inr 1, w\<lparr>tabs := T\<lparr>idempotency_keys := idempotency_keys T @
              [new_idem_row env claim]\<rparr>\<rparr>))"

definition sql_lock_accounts :: "env \<Rightarrow> int64 list \<Rightarrow> (pg, locked_account list) prog" where
  "sql_lock_accounts env ids =
     stmt env (\<lambda>k w.
       (Inr (map lockedAccount_of
               (sort_key acc_ID (filter (\<lambda>a. acc_ID a \<in> set ids) (accounts (tabs w))))), w))"

definition sql_mark_reversed :: "env \<Rightarrow> uuid \<Rightarrow> (pg, nat) prog" where
  "sql_mark_reversed env origID =
     stmt env (\<lambda>k w. let T = tabs w;
            p = (\<lambda>r. tr_id r = origID \<and> tr_status r = TxnPosted);
            f = (\<lambda>r. r\<lparr>tr_status := TxnReversed\<rparr>)
       in case first_err (\<lambda>r. transactions_status_only r (f r)) (filter p (transactions T)) of
            Some e \<Rightarrow> (Inl e, w)
          | None \<Rightarrow> (Inr (count_where p (transactions T)),
                     w\<lparr>tabs := T\<lparr>transactions := update_where p f (transactions T)\<rparr>\<rparr>))"

definition sql_insert_transaction ::
    "env \<Rightarrow> txn_type \<Rightarrow> string \<Rightarrow> int64 option \<Rightarrow> uuid option \<Rightarrow> (pg, uuid \<times> time) prog" where
  "sql_insert_transaction env typ desc initiatedBy reversesID =
     stmt env (\<lambda>k w. let T = tabs w;
         r = new_txn_row env (env_uuid env k) typ desc initiatedBy reversesID
       in case transactions_check r of
            Some e \<Rightarrow> (Inl e, w)
          | None \<Rightarrow>
              if \<exists>q \<in> set (transactions T). tr_id q = tr_id r
                then (Inl (PgError codeUniqueViolation ''transactions_pkey''), w)
              else if tr_reverses r \<noteq> None \<and>
                      (\<exists>q \<in> set (transactions T). tr_reverses q = tr_reverses r)
                then (Inl (PgError codeUniqueViolation ''uq_reversal''), w)
              else if tr_initiated_by r \<noteq> None \<and>
                      (\<forall>u \<in> set (users T). tr_initiated_by r \<noteq> Some (usr_ID u))
                then (Inl (PgError codeForeignKey ''transactions_initiated_by_user_id_fkey''), w)
              else if tr_reverses r \<noteq> None \<and>
                      (\<forall>q \<in> set (transactions T @ [r]). tr_reverses r \<noteq> Some (tr_id q))
                then (Inl (PgError codeForeignKey ''transactions_reverses_transaction_id_fkey''), w)
              else (Inr (tr_id r, tr_created_at r),
                    w\<lparr>tabs := T\<lparr>transactions := transactions T @ [r]\<rparr>\<rparr>))"

definition add_to_balance :: "time \<Rightarrow> int64 \<Rightarrow> account \<Rightarrow> account" where
  \<comment> \<open>the SET list of the balance update\<close>
  "add_to_balance now delta a =
     a\<lparr>acc_Balance := acc_Balance a + delta, acc_Version := acc_Version a + 1,
       acc_UpdatedAt := now\<rparr>"

definition sql_update_balance :: "env \<Rightarrow> int64 \<Rightarrow> int64 \<Rightarrow> int64 \<Rightarrow> (pg, int64) prog" where
  "sql_update_balance env delta accountID version =
     stmt env (\<lambda>k w. let T = tabs w;
         p = (\<lambda>a. acc_ID a = accountID \<and> acc_Version a = version \<and> acc_Status a = ''ACTIVE'')
       in case List.find p (accounts T) of
            None \<Rightarrow> (Inl NoRows, w)
          | Some a \<Rightarrow>
              let a' = add_to_balance (env_now env) delta a
              in if \<not> in_int64 (acc_Balance a') \<or> \<not> in_int64 (acc_Version a')
                   then (Inl (PgError codeOutOfRange ''''), w)
                 else case accounts_check a' of
                   Some e \<Rightarrow> (Inl e, w)
                 | None \<Rightarrow> (Inr (acc_Balance a'),
                     w\<lparr>tabs := T\<lparr>accounts := update_where p (\<lambda>_. a') (accounts T)\<rparr>\<rparr>))"

definition sql_insert_entry ::
    "env \<Rightarrow> uuid \<Rightarrow> int64 \<Rightarrow> string \<Rightarrow> int64 \<Rightarrow> int64 \<Rightarrow> (pg, int64 \<times> time) prog" where
  "sql_insert_entry env txnID accountID dir amount balanceAfter =
     stmt env (\<lambda>k w. let T = tabs w; n = seq_entries (seqs w) + 1;
         w' = w\<lparr>seqs := (seqs w)\<lparr>seq_entries := n\<rparr>\<rparr>;
         r = new_entry_row env n txnID accountID dir amount balanceAfter
       in if n > int64_max then (Inl (PgError codeSequenceLimit ''''), w)
          else if dir \<notin> {''DEBIT'', ''CREDIT''} then (Inl (PgError codeInvalidText ''''), w')
          else if \<not> amount > 0 then (Inl (PgError codeCheckViolation ''entries_amount_check''), w')
          else if \<exists>q \<in> set (entries T). er_transaction_id q = txnID \<and> er_account_id q = accountID
            then (Inl (PgError codeUniqueViolation ''uq_entry_account_per_txn''), w')
          else if \<forall>q \<in> set (transactions T). tr_id q \<noteq> txnID
            then (Inl (PgError codeForeignKey ''entries_transaction_id_fkey''), w')
          else if \<forall>a \<in> set (accounts T). acc_ID a \<noteq> accountID
            then (Inl (PgError codeForeignKey ''entries_account_id_fkey''), w')
          else (Inr (n, er_created_at r), w'\<lparr>tabs := T\<lparr>entries := entries T @ [r]\<rparr>\<rparr>))"

definition sql_save_result :: "env \<Rightarrow> uuid \<Rightarrow> json \<Rightarrow> int64 \<Rightarrow> string \<Rightarrow> (pg, unit) prog" where
  "sql_save_result env txnID body userID key =
     stmt env (\<lambda>k w. let T = tabs w in
       (Inr (), w\<lparr>tabs := T\<lparr>idempotency_keys :=
          update_where (\<lambda>r. ik_user_id r = userID \<and> ik_key r = key)
            (\<lambda>r. r\<lparr>ik_transaction_id := Some txnID, ik_status_code := 201,
                   ik_response_body := body\<rparr>)
            (idempotency_keys T)\<rparr>\<rparr>))"

definition sql_insert_outbox :: "env \<Rightarrow> uuid \<Rightarrow> json \<Rightarrow> (pg, unit) prog" where
  "sql_insert_outbox env txnID body =
     stmt env (\<lambda>k w. let T = tabs w; n = seq_outbox (seqs w) + 1;
         w' = w\<lparr>seqs := (seqs w)\<lparr>seq_outbox := n\<rparr>\<rparr>;
         r = new_outbox_row env n (env_uuid env k) txnID body
       in if n > int64_max then (Inl (PgError codeSequenceLimit ''''), w)
          else if \<exists>q \<in> set (outbox_events T). ob_event_id q = ob_event_id r
            then (Inl (PgError codeUniqueViolation ''outbox_events_event_id_key''), w')
          else (Inr (), w'\<lparr>tabs := T\<lparr>outbox_events := outbox_events T @ [r]\<rparr>\<rparr>))"

section \<open>Post, step by step\<close>

definition post_claim :: "env \<Rightarrow> idempotency_claim \<Rightarrow> (pg, unit) prog" where
  "post_claim env claim =
     bindP (wrapP (\<lambda>e. Wrapf ''klaim idempotency: %w'' [] (translate e)) (sql_claim_key env claim))
       (\<lambda>n. if n = 0 then failP ErrIdempotencyInFlight else retP ())"

fun lock_map :: "locked_account list \<Rightarrow> (int64 \<rightharpoonup> locked_account) \<Rightarrow> (int64 \<rightharpoonup> locked_account) result" where
  "lock_map [] byID = Inr byID"
| "lock_map (a # as) byID =
     (if la_Status a \<noteq> AccountActive
      then Inl (Wrapf ''%w: akun %d berstatus %s'' [AInt (la_ID a), AStr (la_Status a)]
                  ErrAccountNotActive)
      else lock_map as (byID(la_ID a \<mapsto> a)))"

definition post_lock :: "env \<Rightarrow> transaction \<Rightarrow> (pg, int64 \<rightharpoonup> locked_account) prog" where
  "post_lock env txn =
     (let ids = Transaction_AccountIDs txn in
      bindP (wrapP (Wrapf ''kunci akun: %w'' []) (round_trip env)) (\<lambda>_.
      bindP (wrapP (Wrapf ''scan akun: %w'' []) (sql_lock_accounts env ids)) (\<lambda>accs.
        if length accs \<noteq> length ids then failP ErrAccountNotFound
        else case lock_map accs Map.empty of
               Inl e \<Rightarrow> failP e
             | Inr byID \<Rightarrow> retP byID)))"

definition post_mark_reversed :: "env \<Rightarrow> transaction \<Rightarrow> (pg, unit) prog" where
  "post_mark_reversed env txn =
     (case txn_ReversesID txn of
        None \<Rightarrow> retP ()
      | Some origID \<Rightarrow>
          bindP (wrapP (\<lambda>e. Wrapf ''menandai transaksi asal: %w'' [] (translate e))
                   (sql_mark_reversed env origID))
            (\<lambda>n. if n = 0 then failP ErrAlreadyReversed else retP ()))"

definition post_header :: "env \<Rightarrow> transaction \<Rightarrow> (pg, uuid \<times> time) prog" where
  "post_header env txn =
     wrapP (\<lambda>e. Wrapf ''insert transaksi: %w'' [] (translate e))
       (sql_insert_transaction env (txn_Type txn) (txn_Description txn) (txn_InitiatedBy txn)
          (txn_ReversesID txn))"

definition post_entry ::
    "env \<Rightarrow> transaction \<Rightarrow> uuid \<Rightarrow> (int64 \<rightharpoonup> locked_account) \<Rightarrow> entry \<Rightarrow> (pg, posted_entry) prog" where
  "post_entry env txn txnID byID e =
     (let acc = (case byID (ent_AccountID e) of None \<Rightarrow> zero_locked | Some a \<Rightarrow> a);
          delta = BalanceDelta e (la_NormalBalance acc)
      in case Money_Add (la_Balance acc) delta of
           Inl err \<Rightarrow> failP err
         | Inr newBal \<Rightarrow>
             if la_AccountType acc = AccountUserWallet \<and> newBal < 0
             then failP (Wrapf ''%w: akun %d'' [AInt (ent_AccountID e)] ErrInsufficientBalance)
             else
               bindP (wrapP (\<lambda>err.
                   if translate err = ErrNotFound
                   then Wrapf ''%w: akun %d'' [AInt (ent_AccountID e)] ErrConcurrentModification
                   else Wrapf ''update saldo akun %d: %w'' [AInt (ent_AccountID e)] (translate err))
                 (sql_update_balance env delta (ent_AccountID e) (la_Version acc))) (\<lambda>newBalance.
               bindP (wrapP (\<lambda>err. Wrapf ''insert entry: %w'' [] (translate err))
                 (sql_insert_entry env txnID (ent_AccountID e) (ent_Direction e) (ent_Amount e)
                    newBalance)) (\<lambda>(entryID, entryAt).
               retP \<lparr> pe_ID = entryID, pe_TransactionID = txnID, pe_AccountID = ent_AccountID e,
                      pe_AccountPublicID = la_PublicID acc, pe_AccountType = la_AccountType acc,
                      pe_Direction = ent_Direction e, pe_Amount = ent_Amount e,
                      pe_BalanceAfter = newBalance, pe_CreatedAt = entryAt,
                      pe_TxnType = txn_Type txn, pe_Description = txn_Description txn \<rparr>)))"

fun post_entries ::
    "env \<Rightarrow> transaction \<Rightarrow> uuid \<Rightarrow> (int64 \<rightharpoonup> locked_account) \<Rightarrow> entry list \<Rightarrow>
     (pg, posted_entry list) prog" where
  "post_entries env txn txnID byID [] = retP []"
| "post_entries env txn txnID byID (e # es) =
     bindP (post_entry env txn txnID byID e) (\<lambda>p.
     bindP (post_entries env txn txnID byID es) (\<lambda>ps. retP (p # ps)))"

definition post_finish :: "env \<Rightarrow> idempotency_claim \<Rightarrow> post_result \<Rightarrow> (pg, unit) prog" where
  "post_finish env claim result =
     (let body = json_of_stored (toStored result); txnID = txn_ID (pr_Transaction result) in
      bindP (wrapP (Wrapf ''simpan hasil idempotency: %w'' [])
               (sql_save_result env txnID body (clm_UserID claim) (clm_Key claim))) (\<lambda>_.
      wrapP (Wrapf ''tulis outbox: %w'' []) (sql_insert_outbox env txnID body)))"

definition post_body :: "env \<Rightarrow> transaction \<Rightarrow> idempotency_claim \<Rightarrow> (pg, post_result) prog" where
  "post_body env txn claim =
     bindP (post_claim env claim) (\<lambda>_.
     bindP (post_lock env txn) (\<lambda>byID.
     bindP (post_mark_reversed env txn) (\<lambda>_.
     bindP (post_header env txn) (\<lambda>(txnID, createdAt).
     bindP (post_entries env txn txnID byID (txn_Entries txn)) (\<lambda>posted.
       let result = \<lparr> pr_Transaction = txn\<lparr>txn_ID := txnID, txn_CreatedAt := createdAt,
                                            txn_Status := TxnPosted\<rparr>,
                      pr_Entries = posted, pr_ViewerAccountID = None \<rparr>
       in bindP (post_finish env claim result) (\<lambda>_. retP result))))))"

definition LedgerRepo_Post ::
    "env \<Rightarrow> transaction \<Rightarrow> idempotency_claim \<Rightarrow> (pg, post_result) prog" where
  "LedgerRepo_Post env txn claim =
     (case Transaction_Validate txn of
        Some err \<Rightarrow> failP err
      | None \<Rightarrow> in_tx env (\<lambda>e. Wrapf ''commit: %w'' [] (translate e)) (post_body env txn claim))"

section \<open>Reads\<close>

definition sql_select_transaction :: "env \<Rightarrow> uuid \<Rightarrow> int64 option \<Rightarrow> (pg, txn_row) prog" where
  "sql_select_transaction env i visibleTo =
     stmt env (\<lambda>k w. let T = tabs w in
       case List.find (\<lambda>t. tr_id t = i \<and>
              (visibleTo = None \<or>
               (\<exists>e \<in> set (entries T). er_transaction_id e = tr_id t
                                   \<and> Some (er_account_id e) = visibleTo))) (transactions T) of
         None \<Rightarrow> (Inl NoRows, w)
       | Some t \<Rightarrow> (Inr t, w))"

definition sql_select_entries ::
    "env \<Rightarrow> uuid \<Rightarrow> (pg, (entry_row \<times> account) list) prog" where
  "sql_select_entries env i =
     stmt env (\<lambda>k w. let T = tabs w in
       (Inr (sort_key (\<lambda>p. er_id (fst p))
               (concat (map (\<lambda>e. map (Pair e)
                                (filter (\<lambda>a. acc_ID a = er_account_id e) (accounts T)))
                  (filter (\<lambda>e. er_transaction_id e = i) (entries T))))), w))"

definition LedgerRepo_GetTransaction ::
    "env \<Rightarrow> uuid \<Rightarrow> int64 option \<Rightarrow> (pg, post_result) prog" where
  "LedgerRepo_GetTransaction env i visibleTo =
     bindP (wrapP (\<lambda>e. if translate e = ErrNotFound then ErrTransactionNotFound
                       else Wrapf ''ambil transaksi %s: %w'' [AUuid i] e)
              (sql_select_transaction env i visibleTo)) (\<lambda>t.
     bindP (wrapP (Wrapf ''ambil entries %s: %w'' [AUuid i]) (round_trip env)) (\<lambda>_.
     bindP (wrapP (Wrapf ''rows entries: %w'' []) (sql_select_entries env i)) (\<lambda>rows.
       retP
         \<lparr> pr_Transaction =
             \<lparr> txn_ID = tr_id t, txn_Type = tr_txn_type t, txn_Status = tr_status t,
               txn_Description = tr_description t, txn_InitiatedBy = tr_initiated_by t,
               txn_ReversesID = tr_reverses t,
               txn_Entries = map (\<lambda>(e, a). \<lparr> ent_AccountID = er_account_id e,
                   ent_Direction = er_direction e, ent_Amount = er_amount e \<rparr>) rows,
               txn_CreatedAt = tr_created_at t \<rparr>,
           pr_Entries = map (\<lambda>(e, a).
             \<lparr> pe_ID = er_id e, pe_TransactionID = i, pe_AccountID = er_account_id e,
               pe_AccountPublicID = acc_PublicID a, pe_AccountType = acc_Type a,
               pe_Direction = er_direction e, pe_Amount = er_amount e,
               pe_BalanceAfter = er_balance_after e, pe_CreatedAt = er_created_at e,
               pe_TxnType = tr_txn_type t, pe_Description = tr_description t \<rparr>) rows,
           pr_ViewerAccountID = None \<rparr>)))"

definition sum_direction :: "direction \<Rightarrow> entry_row list \<Rightarrow> int" where
  "sum_direction d rows = (\<Sum>r \<leftarrow> filter (\<lambda>r. er_direction r = d) rows. er_amount r)"

definition LedgerRepo_TrialBalance :: "env \<Rightarrow> (pg, trial_balance) prog" where
  "LedgerRepo_TrialBalance env =
     wrapP (Wrapf ''trial balance: %w'' [])
       (stmt env (\<lambda>k w.
          let rows = entries (tabs w);
              debit = sum_direction ''DEBIT'' rows;
              credit = sum_direction ''CREDIT'' rows;
              diff = debit - credit
          in if in_int64 debit \<and> in_int64 credit \<and> in_int64 diff
             then (Inr \<lparr> tb_TotalDebit = debit, tb_TotalCredit = credit, tb_Difference = diff,
                         tb_EntryCount = int (length rows) \<rparr>, w)
             else (Inl (NewError ''cannot scan numeric into int64''), w)))"

definition computed_balance :: "entry_row list \<Rightarrow> account \<Rightarrow> int" where
  "computed_balance rows a =
     (\<Sum>r \<leftarrow> filter (\<lambda>r. er_account_id r = acc_ID a) rows.
        if er_direction r = acc_NormalBalance a then er_amount r else - er_amount r)"

definition LedgerRepo_BalanceDrift :: "env \<Rightarrow> (pg, int64) prog" where
  "LedgerRepo_BalanceDrift env =
     wrapP (Wrapf ''cek drift: %w'' [])
       (stmt env (\<lambda>k w. let T = tabs w in
          (Inr (int (count_where (\<lambda>a. acc_Balance a \<noteq> computed_balance (entries T) a) (accounts T))),
           w)))"

end
