(* ===== verification/LedgerInv.thy ===== *)
theory LedgerInv
  imports LedgerRepo
begin

text \<open>
  The ledger invariant, stated over the three ledger tables, and the effect of each statement
  of \<open>LedgerRepo_Post\<close> on the tables when it succeeds (the lemmas named \<open>_Inr\<close>).
\<close>

section \<open>The invariant\<close>

definition accounts_ok :: "account list \<Rightarrow> bool" where
  "accounts_ok As \<longleftrightarrow>
     distinct (map acc_ID As) \<and> (\<forall>a \<in> set As. accounts_check a = None \<and> in_int64 (acc_Balance a))"

definition entries_ok :: "account list \<Rightarrow> txn_row list \<Rightarrow> entry_row list \<Rightarrow> bool" where
  "entries_ok As Ts Es \<longleftrightarrow>
     (\<forall>r \<in> set Es. 0 < er_amount r \<and> in_int64 (er_amount r) \<and> Direction_Valid (er_direction r)
        \<and> er_account_id r \<in> acc_ID ` set As \<and> er_transaction_id r \<in> tr_id ` set Ts)
     \<and> distinct (map (\<lambda>r. (er_transaction_id r, er_account_id r)) Es)"

definition no_drift :: "account list \<Rightarrow> entry_row list \<Rightarrow> bool" where
  "no_drift As Es \<longleftrightarrow> (\<forall>a \<in> set As. acc_Balance a = computed_balance Es a)"

definition transactions_ok :: "txn_row list \<Rightarrow> bool" where
  "transactions_ok Ts \<longleftrightarrow>
     distinct (map tr_id Ts) \<and> (\<forall>t \<in> set Ts. transactions_check t = None)
     \<and> (\<forall>t \<in> set Ts. \<forall>q \<in> set Ts. tr_reverses t \<noteq> None \<longrightarrow> tr_reverses t = tr_reverses q \<longrightarrow> t = q)
     \<and> (\<forall>t \<in> set Ts. tr_status t = (if Some (tr_id t) \<in> tr_reverses ` set Ts then TxnReversed
                                     else TxnPosted))"

definition balanced :: "txn_row list \<Rightarrow> entry_row list \<Rightarrow> bool" where
  "balanced Ts Es \<longleftrightarrow>
     (\<forall>t \<in> set Ts. row_total DirectionDebit (tr_id t) Es = row_total DirectionCredit (tr_id t) Es)"

definition ledger_inv :: "tables \<Rightarrow> bool" where
  "ledger_inv T \<longleftrightarrow>
     accounts_ok (accounts T) \<and> entries_ok (accounts T) (transactions T) (entries T)
     \<and> no_drift (accounts T) (entries T) \<and> transactions_ok (transactions T)
     \<and> balanced (transactions T) (entries T)"

section \<open>One entry on the tables\<close>

definition apply_delta :: "time \<Rightarrow> int64 \<Rightarrow> int \<Rightarrow> account list \<Rightarrow> account list" where
  "apply_delta now i d As =
     update_where (\<lambda>a. acc_ID a = i)
       (add_to_balance now d) As"

lemma add_to_balance_simps [simp]:
  "acc_ID (add_to_balance now d a) = acc_ID a"
  "acc_PublicID (add_to_balance now d a) = acc_PublicID a"
  "acc_UserID (add_to_balance now d a) = acc_UserID a"
  "acc_Type (add_to_balance now d a) = acc_Type a"
  "acc_NormalBalance (add_to_balance now d a) = acc_NormalBalance a"
  "acc_Status (add_to_balance now d a) = acc_Status a"
  "acc_CreatedAt (add_to_balance now d a) = acc_CreatedAt a"
  "acc_Balance (add_to_balance now d a) = acc_Balance a + d"
  "acc_Version (add_to_balance now d a) = acc_Version a + 1"
  by (simp_all add: add_to_balance_def)

lemma map_apply_delta [simp]:
  "map acc_ID (apply_delta now i d As) = map acc_ID As"
  "map acc_NormalBalance (apply_delta now i d As) = map acc_NormalBalance As"
  by (simp_all add: apply_delta_def map_update_where)

lemma acc_ID_image_apply_delta [simp]:
  "acc_ID ` set (apply_delta now i d As) = acc_ID ` set As"
  by (metis list.set_map map_apply_delta(1))

lemma set_apply_delta:
  "a' \<in> set (apply_delta now i d As) \<longleftrightarrow>
     (\<exists>a \<in> set As. a' = (if acc_ID a = i
        then (add_to_balance now d a)
        else a))"
  unfolding apply_delta_def set_update_where by (simp only: image_iff)

section \<open>The statements of Post on the tables\<close>

lemma sql_claim_key_Inr:
  assumes "sql_claim_key env claim w = (Inr n, w')"
  shows "(n = 0 \<and> tabs w' = tabs w
            \<and> (\<exists>r \<in> set (idempotency_keys (tabs w)).
                 ik_user_id r = clm_UserID claim \<and> ik_key r = clm_Key claim))
       \<or> (n = 1 \<and> (\<forall>r \<in> set (idempotency_keys (tabs w)).
                     \<not> (ik_user_id r = clm_UserID claim \<and> ik_key r = clm_Key claim))
            \<and> tabs w' = (tabs w)\<lparr>idempotency_keys :=
                             idempotency_keys (tabs w) @ [new_idem_row env claim]\<rparr>)"
    and "seqs w' = seqs w"
  using assms
  by (auto simp: sql_claim_key_def stmt_Inr_iff Let_def split: if_splits)

lemma sql_lock_accounts_Inr:
  assumes "sql_lock_accounts env ids w = (Inr accs, w')"
  shows "tabs w' = tabs w" and "seqs w' = seqs w"
    and "accs = map lockedAccount_of
           (sort_key acc_ID (filter (\<lambda>a. acc_ID a \<in> set ids) (accounts (tabs w))))"
  using assms by (auto simp: sql_lock_accounts_def stmt_Inr_iff)

lemma sql_mark_reversed_Inr:
  assumes "sql_mark_reversed env i w = (Inr n, w')"
  shows "n = count_where (\<lambda>r. tr_id r = i \<and> tr_status r = TxnPosted) (transactions (tabs w))"
    and "tabs w' = (tabs w)\<lparr>transactions :=
           update_where (\<lambda>r. tr_id r = i \<and> tr_status r = TxnPosted)
             (\<lambda>r. r\<lparr>tr_status := TxnReversed\<rparr>) (transactions (tabs w))\<rparr>"
    and "seqs w' = seqs w"
  using assms
  by (auto simp: sql_mark_reversed_def stmt_Inr_iff Let_def split: option.splits)

lemma sql_insert_transaction_Inr:
  assumes "sql_insert_transaction env typ desc init rv w = (Inr (tid, at), w')"
  shows "tid = env_uuid env (steps w)" and "at = env_now env" and "seqs w' = seqs w"
    and "transactions_check (new_txn_row env tid typ desc init rv) = None"
    and "tabs w' = (tabs w)\<lparr>transactions :=
           transactions (tabs w) @ [new_txn_row env tid typ desc init rv]\<rparr>"
    and "\<forall>q \<in> set (transactions (tabs w)). tr_id q \<noteq> tid"
    and "rv \<noteq> None \<Longrightarrow> \<forall>q \<in> set (transactions (tabs w)). tr_reverses q \<noteq> rv"
  using assms
  by (auto simp: sql_insert_transaction_def stmt_Inr_iff Let_def new_txn_row_def
      split: option.splits if_splits)

lemma sql_update_balance_Inr:
  assumes "sql_update_balance env delta i v w = (Inr nb, w')"
    and "distinct (map acc_ID (accounts (tabs w)))"
  shows "\<exists>a \<in> set (accounts (tabs w)). acc_ID a = i \<and> acc_Version a = v
           \<and> acc_Status a = AccountActive \<and> nb = acc_Balance a + delta \<and> in_int64 nb
           \<and> in_int64 (acc_Version a + 1) \<and> accounts_check (add_to_balance (env_now env) delta a) = None"
    and "tabs w' = (tabs w)\<lparr>accounts := apply_delta (env_now env) i delta (accounts (tabs w))\<rparr>"
    and "seqs w' = seqs w"
proof -
  let ?As = "accounts (tabs w)"
  let ?p = "\<lambda>a. acc_ID a = i \<and> acc_Version a = v \<and> acc_Status a = ''ACTIVE''"
  have "\<exists>a. List.find ?p ?As = Some a \<and> in_int64 (acc_Balance a + delta)
      \<and> nb = acc_Balance a + delta \<and> in_int64 (acc_Version a + 1)
      \<and> accounts_check (add_to_balance (env_now env) delta a) = None
      \<and> tabs w' = (tabs w)\<lparr>accounts :=
           update_where ?p (\<lambda>_. add_to_balance (env_now env) delta a) ?As\<rparr>
      \<and> seqs w' = seqs w"
    using assms(1) unfolding sql_update_balance_def stmt_Inr_iff Let_def
    by (cases "List.find ?p ?As") (auto split: option.splits if_splits)
  then obtain a where a: "List.find ?p ?As = Some a"
    and rest: "in_int64 (acc_Balance a + delta)" "nb = acc_Balance a + delta"
      "in_int64 (acc_Version a + 1)"
      "accounts_check (add_to_balance (env_now env) delta a) = None"
    and T: "tabs w' = (tabs w)\<lparr>accounts :=
              update_where ?p (\<lambda>_. add_to_balance (env_now env) delta a) ?As\<rparr>"
    and S: "seqs w' = seqs w" by blast
  from find_SomeD [OF a] have in_As: "a \<in> set ?As" and pa: "?p a" by auto
  then show "\<exists>a \<in> set ?As. acc_ID a = i \<and> acc_Version a = v
           \<and> acc_Status a = AccountActive \<and> nb = acc_Balance a + delta \<and> in_int64 nb
           \<and> in_int64 (acc_Version a + 1) \<and> accounts_check (add_to_balance (env_now env) delta a) = None"
    using rest by (intro bexI [OF _ in_As]) (simp add: AccountActive_def)
  have "b = a" if "b \<in> set ?As" "acc_ID b = i" for b
    using that in_As pa assms(2) by (metis distinct_key_eq)
  then have "update_where ?p (\<lambda>_. add_to_balance (env_now env) delta a) ?As =
       apply_delta (env_now env) i delta ?As"
    using pa by (auto simp: update_where_def apply_delta_def intro!: map_cong)
  with T show "tabs w' = (tabs w)\<lparr>accounts := apply_delta (env_now env) i delta ?As\<rparr>" by simp
  show "seqs w' = seqs w" by (rule S)
qed

lemma sql_insert_entry_Inr:
  assumes "sql_insert_entry env tid i dir amount after w = (Inr (n, at), w')"
  shows "n = seq_entries (seqs w) + 1" and "at = env_now env"
    and "seqs w' = (seqs w)\<lparr>seq_entries := n\<rparr>"
    and "tabs w' = (tabs w)\<lparr>entries := entries (tabs w) @
          [new_entry_row env n tid i dir amount after]\<rparr>"
    and "0 < amount" and "Direction_Valid dir"
    and "tid \<in> tr_id ` set (transactions (tabs w))" and "i \<in> acc_ID ` set (accounts (tabs w))"
    and "\<forall>q \<in> set (entries (tabs w)). \<not> (er_transaction_id q = tid \<and> er_account_id q = i)"
  using assms
  by (auto simp: sql_insert_entry_def stmt_Inr_iff Let_def Direction_Valid_def DirectionDebit_def
      DirectionCredit_def new_entry_row_def image_iff split: if_splits)

lemma sql_save_result_Inr:
  assumes "sql_save_result env tid body u key w = (Inr (), w')"
  shows "tabs w' = (tabs w)\<lparr>idempotency_keys :=
          update_where (\<lambda>r. ik_user_id r = u \<and> ik_key r = key)
            (\<lambda>r. r\<lparr>ik_transaction_id := Some tid, ik_status_code := 201,
                   ik_response_body := body\<rparr>)
            (idempotency_keys (tabs w))\<rparr>"
    and "seqs w' = seqs w"
  using assms by (auto simp: sql_save_result_def stmt_Inr_iff Let_def)

lemma sql_insert_outbox_Inr:
  assumes "sql_insert_outbox env tid body w = (Inr (), w')"
  shows "tabs w' = (tabs w)\<lparr>outbox_events := outbox_events (tabs w) @
           [new_outbox_row env (seq_outbox (seqs w) + 1) (env_uuid env (steps w)) tid body]\<rparr>"
    and "env_uuid env (steps w) \<notin> ob_event_id ` set (outbox_events (tabs w))"
    and "seqs w' = (seqs w)\<lparr>seq_outbox := seq_outbox (seqs w) + 1\<rparr>"
  using assms
  by (auto simp: sql_insert_outbox_def stmt_Inr_iff Let_def new_outbox_row_def image_iff
      split: if_splits)

end
