(* ===== verification/Repos.thy ===== *)
theory Repos
  imports LedgerInv
begin

text \<open>
  internal/repository/postgres: account_repo.go, user_repo.go, token_repo.go and
  idempotency_repo.go. As in theory LedgerRepo, a definition named \<open>sql_\<close> is a statement of
  the code on the tables: its WHERE clause, the constraints it can violate (in the order
  PostgreSQL checks them: CHECKs, unique indexes, foreign keys) and its RETURNING list.
  A query that promises no order returns rows in table order.
\<close>

section \<open>Accounts (account_repo.go)\<close>

definition new_wallet_row :: "env \<Rightarrow> int64 \<Rightarrow> uuid \<Rightarrow> int64 \<Rightarrow> account" where
  "new_wallet_row env n i userID =
     \<lparr> acc_ID = n, acc_PublicID = i, acc_UserID = Some userID, acc_Type = ''USER_WALLET'',
       acc_NormalBalance = ''CREDIT'', acc_Status = ''ACTIVE'', acc_Balance = 0, acc_Version = 1,
       acc_CreatedAt = env_now env, acc_UpdatedAt = env_now env \<rparr>"

definition sql_insert_wallet :: "env \<Rightarrow> int64 \<Rightarrow> (pg, account) prog" where
  "sql_insert_wallet env userID =
     stmt env (\<lambda>k w. let T = tabs w; n = seq_accounts (seqs w) + 1;
         w' = w\<lparr>seqs := (seqs w)\<lparr>seq_accounts := n\<rparr>\<rparr>;
         r = new_wallet_row env n (env_uuid env k) userID
       in if n > int64_max then (Inl (PgError codeSequenceLimit ''''), w)
          else case accounts_check r of
            Some e \<Rightarrow> (Inl e, w')
          | None \<Rightarrow>
              if \<exists>a \<in> set (accounts T). acc_ID a = n
                then (Inl (PgError codeUniqueViolation ''accounts_pkey''), w')
              else if \<exists>a \<in> set (accounts T). acc_UserID a = acc_UserID r \<and> acc_Type a = acc_Type r
                then (Inl (PgError codeUniqueViolation ''uq_user_wallet''), w')
              else if \<exists>a \<in> set (accounts T). acc_PublicID a = acc_PublicID r
                then (Inl (PgError codeUniqueViolation ''idx_accounts_public_id''), w')
              else if \<forall>u \<in> set (users T). usr_ID u \<noteq> userID
                then (Inl (PgError codeForeignKey ''accounts_user_id_fkey''), w')
              else (Inr r, w'\<lparr>tabs := T\<lparr>accounts := accounts T @ [r]\<rparr>\<rparr>))"

definition sql_select_account :: "env \<Rightarrow> (account \<Rightarrow> bool) \<Rightarrow> (pg, account) prog" where
  "sql_select_account env p =
     stmt env (\<lambda>k w. case List.find p (accounts (tabs w)) of
         None \<Rightarrow> (Inl NoRows, w)
       | Some a \<Rightarrow> (Inr a, w))"

definition scanAccount :: "(pg, account) prog \<Rightarrow> (pg, account) prog" where
  "scanAccount row =
     wrapP (\<lambda>err. if translate err = ErrNotFound then ErrAccountNotFound else err) row"

definition AccountRepo_CreateWallet :: "env \<Rightarrow> int64 \<Rightarrow> (pg, account) prog" where
  "AccountRepo_CreateWallet env userID =
     wrapP (\<lambda>err. Wrapf ''membuat dompet user %d: %w'' [AInt userID] (translate err))
       (scanAccount (sql_insert_wallet env userID))"

definition AccountRepo_GetByID :: "env \<Rightarrow> int64 \<Rightarrow> (pg, account) prog" where
  "AccountRepo_GetByID env i =
     wrapP (Wrapf ''ambil akun %d: %w'' [AInt i])
       (scanAccount (sql_select_account env (\<lambda>a. acc_ID a = i)))"

definition AccountRepo_GetByPublicID :: "env \<Rightarrow> uuid \<Rightarrow> (pg, account) prog" where
  "AccountRepo_GetByPublicID env publicID =
     wrapP (Wrapf ''ambil akun %s: %w'' [AUuid publicID])
       (scanAccount (sql_select_account env (\<lambda>a. acc_PublicID a = publicID)))"

definition AccountRepo_GetWalletByUserID :: "env \<Rightarrow> int64 \<Rightarrow> (pg, account) prog" where
  "AccountRepo_GetWalletByUserID env userID =
     wrapP (Wrapf ''ambil dompet user %d: %w'' [AInt userID])
       (scanAccount (sql_select_account env
          (\<lambda>a. acc_UserID a = Some userID \<and> acc_Type a = ''USER_WALLET'')))"

definition AccountRepo_SystemAccount :: "env \<Rightarrow> account_type \<Rightarrow> (pg, account) prog" where
  "AccountRepo_SystemAccount env typ =
     wrapP (Wrapf ''ambil akun sistem %s: %w'' [AStr typ])
       (scanAccount (if typ \<in> set enum_account_type
          then sql_select_account env (\<lambda>a. acc_Type a = typ \<and> acc_UserID a = None)
          else stmt env (\<lambda>k. failP (PgError codeInvalidText ''''))))"

definition AccountRepo_SystemAccounts :: "env \<Rightarrow> account_type \<Rightarrow> (pg, account list) prog" where
  "AccountRepo_SystemAccounts env typ =
     bindP (wrapP (Wrapf ''ambil akun sistem %s: %w'' [AStr typ]) (round_trip env)) (\<lambda>_.
     wrapP (Wrapf ''rows akun sistem %s: %w'' [AStr typ])
       (stmt env (\<lambda>k w.
          if typ \<notin> set enum_account_type then (Inl (PgError codeInvalidText ''''), w)
          else (Inr (filter (\<lambda>a. acc_Type a = typ \<and> acc_UserID a = None) (accounts (tabs w))), w))))"

text \<open>The rows of the join, newest entry first; \<open>LIMIT\<close> refuses a negative number.\<close>

definition entry_page_rows :: "tables \<Rightarrow> int64 \<Rightarrow> int64 option \<Rightarrow> posted_entry list" where
  "entry_page_rows T accountID beforeID =
     concat (map (\<lambda>e. concat (map (\<lambda>t. map (\<lambda>a.
         \<lparr> pe_ID = er_id e, pe_TransactionID = er_transaction_id e, pe_AccountID = accountID,
           pe_AccountPublicID = acc_PublicID a, pe_AccountType = acc_Type a,
           pe_Direction = er_direction e, pe_Amount = er_amount e,
           pe_BalanceAfter = er_balance_after e, pe_CreatedAt = er_created_at e,
           pe_TxnType = tr_txn_type t, pe_Description = tr_description t \<rparr>)
         (filter (\<lambda>a. acc_ID a = er_account_id e) (accounts T)))
       (filter (\<lambda>t. tr_id t = er_transaction_id e) (transactions T))))
     (rev (sort_key er_id
        (filter (\<lambda>e. er_account_id e = accountID
            \<and> (case beforeID of None \<Rightarrow> True | Some b \<Rightarrow> er_id e < b)) (entries T)))))"

definition AccountRepo_ListEntries ::
    "env \<Rightarrow> int64 \<Rightarrow> int64 option \<Rightarrow> int \<Rightarrow> (pg, posted_entry list) prog" where
  "AccountRepo_ListEntries env accountID beforeID limit =
     bindP (wrapP (Wrapf ''mutasi akun %d: %w'' [AInt accountID]) (round_trip env)) (\<lambda>_.
     wrapP (Wrapf ''rows mutasi: %w'' [])
       (stmt env (\<lambda>k w.
          if wrap64 (limit + 1) < 0 then (Inl (PgError ''2201W'' ''''), w)
          else (Inr (take (nat (wrap64 (limit + 1))) (entry_page_rows (tabs w) accountID beforeID)),
                w))))"

section \<open>Users (user_repo.go)\<close>

definition new_user_row :: "env \<Rightarrow> int64 \<Rightarrow> uuid \<Rightarrow> user \<Rightarrow> user" where
  "new_user_row env n i u =
     \<lparr> usr_ID = n, usr_PublicID = i, usr_Email = usr_Email u, usr_PasswordHash = usr_PasswordHash u,
       usr_FullName = usr_FullName u, usr_Role = usr_Role u, usr_CreatedAt = env_now env \<rparr>"

definition users_check :: "user \<Rightarrow> err option" where
  "users_check u =
     (if \<not> (3 \<le> char_length (usr_Email u) \<and> char_length (usr_Email u) \<le> 254)
        then Some (PgError codeCheckViolation ''users_email_check'')
      else if \<not> (1 \<le> char_length (usr_FullName u) \<and> char_length (usr_FullName u) \<le> 100)
        then Some (PgError codeCheckViolation ''users_full_name_check'')
      else if usr_Role u \<notin> {''USER'', ''ADMIN''}
        then Some (PgError codeCheckViolation ''users_role_check'')
      else None)"

definition sql_insert_user :: "env \<Rightarrow> user \<Rightarrow> (pg, user) prog" where
  "sql_insert_user env u =
     stmt env (\<lambda>k w. let T = tabs w; n = seq_users (seqs w) + 1;
         w' = w\<lparr>seqs := (seqs w)\<lparr>seq_users := n\<rparr>\<rparr>;
         r = new_user_row env n (env_uuid env k) u
       in if n > int64_max then (Inl (PgError codeSequenceLimit ''''), w)
          else case users_check r of
            Some e \<Rightarrow> (Inl e, w')
          | None \<Rightarrow>
              if \<exists>v \<in> set (users T). usr_ID v = n
                then (Inl (PgError codeUniqueViolation ''users_pkey''), w')
              else if \<exists>v \<in> set (users T). env_lower env (usr_Email v) = env_lower env (usr_Email r)
                then (Inl (PgError codeUniqueViolation ''idx_users_email''), w')
              else if \<exists>v \<in> set (users T). usr_PublicID v = usr_PublicID r
                then (Inl (PgError codeUniqueViolation ''idx_users_public_id''), w')
              else (Inr r, w'\<lparr>tabs := T\<lparr>users := users T @ [r]\<rparr>\<rparr>))"

definition sql_select_user :: "env \<Rightarrow> (user \<Rightarrow> bool) \<Rightarrow> (pg, user) prog" where
  "sql_select_user env p =
     stmt env (\<lambda>k w. case List.find p (users (tabs w)) of
         None \<Rightarrow> (Inl NoRows, w)
       | Some u \<Rightarrow> (Inr u, w))"

definition scanUser :: "(pg, user) prog \<Rightarrow> (pg, user) prog" where
  "scanUser row =
     wrapP (\<lambda>err. if translate err = ErrNotFound then ErrUserNotFound else translate err) row"

definition UserRepo_CreateWithWallet :: "env \<Rightarrow> user \<Rightarrow> (pg, user \<times> account) prog" where
  "UserRepo_CreateWithWallet env u =
     in_tx env (\<lambda>e. Wrapf ''commit: %w'' [] (translate e))
       (bindP (wrapP (Wrapf ''membuat pengguna: %w'' []) (scanUser (sql_insert_user env u)))
          (\<lambda>created.
        bindP (wrapP (\<lambda>err. Wrapf ''membuat dompet: %w'' [] (translate err))
                 (scanAccount (sql_insert_wallet env (usr_ID created))))
          (\<lambda>wallet. retP (created, wallet))))"

definition UserRepo_GetByEmail :: "env \<Rightarrow> string \<Rightarrow> (pg, user) prog" where
  "UserRepo_GetByEmail env email =
     wrapP (Wrapf ''cari pengguna: %w'' [])
       (scanUser (sql_select_user env (\<lambda>u. env_lower env (usr_Email u) = env_lower env email)))"

definition UserRepo_GetByID :: "env \<Rightarrow> int64 \<Rightarrow> (pg, user) prog" where
  "UserRepo_GetByID env i =
     wrapP (Wrapf ''ambil pengguna %d: %w'' [AInt i])
       (scanUser (sql_select_user env (\<lambda>u. usr_ID u = i)))"

section \<open>Refresh tokens (token_repo.go)\<close>

definition new_token_row :: "env \<Rightarrow> int64 \<Rightarrow> int64 \<Rightarrow> string \<Rightarrow> time \<Rightarrow> refresh_token" where
  "new_token_row env n userID tokenHash expiresAt =
     \<lparr> rt_ID = n, rt_UserID = userID, rt_TokenHash = tokenHash, rt_ExpiresAt = expiresAt,
       rt_RevokedAt = None, rt_CreatedAt = env_now env \<rparr>"

definition RefreshTokenRepo_Store :: "env \<Rightarrow> int64 \<Rightarrow> string \<Rightarrow> time \<Rightarrow> (pg, unit) prog" where
  "RefreshTokenRepo_Store env userID tokenHash expiresAt =
     wrapP (\<lambda>e. Wrapf ''simpan refresh token: %w'' [] (translate e))
       (stmt env (\<lambda>k w. let T = tabs w; n = seq_tokens (seqs w) + 1;
            w' = w\<lparr>seqs := (seqs w)\<lparr>seq_tokens := n\<rparr>\<rparr>;
            r = new_token_row env n userID tokenHash expiresAt
          in if n > int64_max then (Inl (PgError codeSequenceLimit ''''), w)
             else if \<exists>t \<in> set (refresh_tokens T). rt_ID t = n
               then (Inl (PgError codeUniqueViolation ''refresh_tokens_pkey''), w')
             else if \<exists>t \<in> set (refresh_tokens T). rt_TokenHash t = tokenHash
               then (Inl (PgError codeUniqueViolation ''idx_refresh_hash''), w')
             else if \<forall>u \<in> set (users T). usr_ID u \<noteq> userID
               then (Inl (PgError codeForeignKey ''refresh_tokens_user_id_fkey''), w')
             else (Inr (), w'\<lparr>tabs := T\<lparr>refresh_tokens := refresh_tokens T @ [r]\<rparr>\<rparr>)))"

definition RefreshTokenRepo_Find :: "env \<Rightarrow> string \<Rightarrow> (pg, refresh_token) prog" where
  "RefreshTokenRepo_Find env tokenHash =
     wrapP (\<lambda>e. Wrapf ''cari refresh token: %w'' [] (translate e))
       (stmt env (\<lambda>k w. case List.find (\<lambda>t. rt_TokenHash t = tokenHash) (refresh_tokens (tabs w)) of
            None \<Rightarrow> (Inl NoRows, w)
          | Some t \<Rightarrow> (Inr t, w)))"

definition revoke_where :: "time \<Rightarrow> (refresh_token \<Rightarrow> bool) \<Rightarrow> refresh_token list \<Rightarrow> refresh_token list" where
  \<comment> \<open>UPDATE refresh_tokens SET revoked_at = now() WHERE ... AND revoked_at IS NULL\<close>
  "revoke_where now p =
     update_where (\<lambda>t. p t \<and> rt_RevokedAt t = None) (\<lambda>t. t\<lparr>rt_RevokedAt := Some now\<rparr>)"

definition RefreshTokenRepo_Revoke :: "env \<Rightarrow> string \<Rightarrow> (pg, unit) prog" where
  "RefreshTokenRepo_Revoke env tokenHash =
     bindP (wrapP (Wrapf ''cabut refresh token: %w'' [])
       (stmt env (\<lambda>k w. let T = tabs w in
          (Inr (count_where (\<lambda>t. rt_TokenHash t = tokenHash \<and> rt_RevokedAt t = None)
                  (refresh_tokens T)),
           w\<lparr>tabs := T\<lparr>refresh_tokens :=
               revoke_where (env_now env) (\<lambda>t. rt_TokenHash t = tokenHash)
                 (refresh_tokens T)\<rparr>\<rparr>))))
       (\<lambda>n. if n = 0 then failP ErrNotFound else retP ())"

definition RefreshTokenRepo_RevokeAllForUser :: "env \<Rightarrow> int64 \<Rightarrow> (pg, unit) prog" where
  "RefreshTokenRepo_RevokeAllForUser env userID =
     wrapP (Wrapf ''cabut semua refresh token user %d: %w'' [AInt userID])
       (stmt env (\<lambda>k w. let T = tabs w in
          (Inr (), w\<lparr>tabs := T\<lparr>refresh_tokens :=
               revoke_where (env_now env) (\<lambda>t. rt_UserID t = userID) (refresh_tokens T)\<rparr>\<rparr>)))"

section \<open>Idempotency records (idempotency_repo.go)\<close>

definition sql_select_key :: "env \<Rightarrow> int64 \<Rightarrow> string \<Rightarrow> (pg, idem_row) prog" where
  "sql_select_key env userID key =
     stmt env (\<lambda>k w.
       case List.find (\<lambda>r. ik_user_id r = userID \<and> ik_key r = key) (idempotency_keys (tabs w)) of
         None \<Rightarrow> (Inl NoRows, w)
       | Some r \<Rightarrow> (Inr r, w))"

definition idem_record_of :: "int64 \<Rightarrow> string \<Rightarrow> idem_row \<Rightarrow> idempotency_record" where
  "idem_record_of userID key r =
     \<lparr> irec_Claim = \<lparr> clm_UserID = userID, clm_Key = key, clm_Endpoint = ik_endpoint r,
                     clm_RequestHash = ik_request_hash r \<rparr>,
       irec_StatusCode = ik_status_code r, irec_TransactionID = ik_transaction_id r,
       irec_Result = None, irec_CreatedAt = ik_created_at r \<rparr>"

definition IdempotencyRepo_Find :: "env \<Rightarrow> int64 \<Rightarrow> string \<Rightarrow> (pg, idempotency_record) prog" where
  "IdempotencyRepo_Find env userID key =
     bindP (wrapP (\<lambda>e. if translate e = ErrNotFound then ErrNotFound
                       else Wrapf ''cari idempotency: %w'' [] e)
              (sql_select_key env userID key)) (\<lambda>r.
       let rec = idem_record_of userID key r in
       if IdempotencyRecord_InFlight rec then retP rec
       else case stored_of_json (ik_response_body r) of
              Inl e \<Rightarrow> failP (Wrapf ''membaca hasil tersimpan: %w'' [] e)
            | Inr stored \<Rightarrow> retP (rec\<lparr>irec_Result := Some (fromStored stored)\<rparr>))"

definition day :: duration where "day = 86400000000000"

definition IdempotencyRepo_DeleteOlderThan :: "env \<Rightarrow> int \<Rightarrow> (pg, nat) prog" where
  "IdempotencyRepo_DeleteOlderThan env days =
     wrapP (Wrapf ''bersihkan idempotency: %w'' [])
       (stmt env (\<lambda>k w. let T = tabs w; old = (\<lambda>r. ik_created_at r < env_now env - days * day) in
          (Inr (count_where old (idempotency_keys T)),
           w\<lparr>tabs := T\<lparr>idempotency_keys := filter (\<lambda>r. \<not> old r) (idempotency_keys T)\<rparr>\<rparr>)))"

end
