(* ===== verification/LedgerService.thy ===== *)
theory LedgerService
  imports Encoding Repos
begin

text \<open>
  internal/service/ledger.go and the interfaces of internal/service/ports.go it uses. A
  service is a record holding its stores, as the Go struct does; a store is a record of
  programs over some state \<open>'s\<close>, so the definitions do not depend on PostgreSQL. The
  stores of theories LedgerRepo and Repos are plugged in by \<open>pg_ledger\<close>.
\<close>

text \<open>The dashes of the messages, in UTF-8.\<close>

definition en_dash :: string where
  "en_dash = [CHR 0xE2, CHR 0x80, CHR 0x93]"

definition em_dash :: string where
  "em_dash = [CHR 0xE2, CHR 0x80, CHR 0x94]"

section \<open>Interfaces (ports.go)\<close>

record 's ledger_store =
  ls_Post :: "transaction \<Rightarrow> idempotency_claim \<Rightarrow> ('s, post_result) prog"
  ls_GetTransaction :: "uuid \<Rightarrow> int64 option \<Rightarrow> ('s, post_result) prog"
  ls_TrialBalance :: "('s, trial_balance) prog"
  ls_BalanceDrift :: "('s, int64) prog"

record 's account_store =
  as_GetByPublicID :: "uuid \<Rightarrow> ('s, account) prog"
  as_GetWalletByUserID :: "int64 \<Rightarrow> ('s, account) prog"
  as_SystemAccount :: "account_type \<Rightarrow> ('s, account) prog"
  as_SystemAccounts :: "account_type \<Rightarrow> ('s, account list) prog"
  as_ListEntries :: "int64 \<Rightarrow> int64 option \<Rightarrow> int \<Rightarrow> ('s, posted_entry list) prog"

record 's idempotency_store =
  is_Find :: "int64 \<Rightarrow> string \<Rightarrow> ('s, idempotency_record) prog"

section \<open>The service\<close>

record ledger_config =
  cfg_TransferFee :: money
  cfg_MinTransfer :: money
  cfg_MaxTransfer :: money

record 's Ledger =
  L_store :: "'s ledger_store"
  L_accounts :: "'s account_store"
  L_idem :: "'s idempotency_store"
  L_cfg :: ledger_config
  L_cashID :: int64
  L_feeIDs :: "int64 list"

definition NewLedger ::
    "'s ledger_store \<Rightarrow> 's account_store \<Rightarrow> 's idempotency_store \<Rightarrow> ledger_config \<Rightarrow> ('s, 's Ledger) prog" where
  "NewLedger store accs idem cfg =
     (if cfg_TransferFee cfg < 0 \<or> cfg_MinTransfer cfg \<le> 0 \<or> cfg_MaxTransfer cfg < cfg_MinTransfer cfg
      then failP (NewError ''konfigurasi ledger tidak masuk akal'')
      else
        bindP (wrapP (Wrapf ''memuat akun SYSTEM_CASH: %w'' [])
          (as_SystemAccount accs AccountSystemCash)) (\<lambda>cash.
        bindP (wrapP (Wrapf ''memuat akun SYSTEM_FEE_REVENUE: %w'' [])
          (as_SystemAccounts accs AccountSystemFeeRevenue)) (\<lambda>fees.
        if length fees = 0
        then failP (NewError (''tidak ada akun SYSTEM_FEE_REVENUE '' @ em_dash @ '' migration belum lengkap''))
        else retP \<lparr> L_store = store, L_accounts = accs, L_idem = idem, L_cfg = cfg,
                    L_cashID = acc_ID cash, L_feeIDs = map acc_ID fees \<rparr>)))"

text \<open>\<open>intN n\<close> stands for the draw \<open>rand.IntN(n)\<close>, a number below \<open>n\<close>.\<close>

definition pickFeeShard :: "(nat \<Rightarrow> nat) \<Rightarrow> 's Ledger \<Rightarrow> int64" where
  "pickFeeShard intN s =
     (if length (L_feeIDs s) = 1 then L_feeIDs s ! 0
      else L_feeIDs s ! intN (length (L_feeIDs s)))"

record money_request =
  mr_Actor :: actor
  mr_IdempotencyKey :: string
  mr_RequestHash :: string
  mr_AmountSen :: int64
  mr_Description :: string

record transfer_request = money_request +
  mr_ToAccountPublicID :: uuid

record reverse_request =
  rr_Actor :: actor
  rr_IdempotencyKey :: string
  rr_RequestHash :: string
  rr_TransactionID :: uuid
  rr_Description :: string

definition MoneyRequest_claim :: "'a money_request_scheme \<Rightarrow> string \<Rightarrow> idempotency_claim" where
  "MoneyRequest_claim r endpoint =
     \<lparr> clm_UserID = act_UserID (mr_Actor r), clm_Key = mr_IdempotencyKey r,
       clm_Endpoint = endpoint, clm_RequestHash = mr_RequestHash r \<rparr>"

definition amountWithin :: "int64 \<Rightarrow> money \<Rightarrow> money \<Rightarrow> money result" where
  "amountWithin sen minimum maximum =
     (case NewMoney sen of
        Inl err \<Rightarrow> Inl err
      | Inr amount \<Rightarrow>
          if amount < minimum \<or> amount > maximum
          then Inl (Wrapf (''%w: %s (batas %s'' @ en_dash @ ''%s)'')
                 [AStr (Money_String amount), AStr (Money_String minimum),
                  AStr (Money_String maximum)] ErrAmountOutOfRange)
          else Inr amount)"

section \<open>Idempotency\<close>

text \<open>
  \<open>replay\<close> returns None for \<open>done = false\<close>. A record that is not in flight but carries no
  result would be dereferenced as a nil pointer by the callers.
\<close>

definition nil_pointer :: err where
  "nil_pointer = NewError ''invalid memory address or nil pointer dereference''"

definition replay :: "'s Ledger \<Rightarrow> idempotency_claim \<Rightarrow> 's \<Rightarrow> post_result result option \<times> 's" where
  "replay s claim w =
     (case is_Find (L_idem s) (clm_UserID claim) (clm_Key claim) w of
        (Inl err, w1) \<Rightarrow>
          if errors_Is err ErrNotFound then (None, w1)
          else (Some (Inl (Wrapf ''cek idempotency: %w'' [] err)), w1)
      | (Inr rec, w1) \<Rightarrow>
          if clm_RequestHash (irec_Claim rec) \<noteq> clm_RequestHash claim
          then (Some (Inl ErrIdempotencyConflict), w1)
          else if IdempotencyRecord_InFlight rec then (Some (Inl ErrIdempotencyInFlight), w1)
          else (Some (case irec_Result rec of None \<Rightarrow> Inl nil_pointer | Some r \<Rightarrow> Inr r), w1))"

definition post_or_replay ::
    "'s Ledger \<Rightarrow> idempotency_claim \<Rightarrow> transaction \<Rightarrow> ('s, post_result) prog" where
  \<comment> \<open>the tail of postIdempotent, from the call of Post on\<close>
  "post_or_replay s claim txn w =
     (case ls_Post (L_store s) txn claim w of
        (Inr res, w1) \<Rightarrow> (Inr res, w1)
      | (Inl err, w1) \<Rightarrow>
          if errors_Is err ErrIdempotencyInFlight
          then (case replay s claim w1 of
                  (Some r, w2) \<Rightarrow> (r, w2)
                | (None, w2) \<Rightarrow> (Inl ErrIdempotencyInFlight, w2))
          else (Inl err, w1))"

definition postIdempotent ::
    "'s Ledger \<Rightarrow> idempotency_claim \<Rightarrow> ('s, transaction) prog \<Rightarrow> ('s, post_result) prog" where
  "postIdempotent s claim build w =
     (if clm_Key claim = '''' \<or> length (clm_Key claim) > 128
      then (Inl (ValidationError [(''Idempotency-Key'', ''wajib, 1'' @ en_dash @ ''128 karakter'')]), w)
      else case replay s claim w of
        (Some r, w1) \<Rightarrow> (r, w1)
      | (None, w1) \<Rightarrow>
          bindP build (\<lambda>txn.
            case Transaction_Validate txn of
              Some err \<Rightarrow> failP (Wrapf ''transaksi tidak valid: %w'' [] err)
            | None \<Rightarrow> post_or_replay s claim txn) w1)"

section \<open>Use cases\<close>

definition liftR :: "'a result \<Rightarrow> ('s, 'a) prog" where
  "liftR r = (case r of Inl e \<Rightarrow> failP e | Inr a \<Rightarrow> retP a)"

definition markViewer :: "('s, post_result) prog \<Rightarrow> int64 \<Rightarrow> ('s, post_result) prog" where
  "markViewer m ownAccountID = bindP m (\<lambda>res. retP (res\<lparr>pr_ViewerAccountID := Some ownAccountID\<rparr>))"

definition Ledger_Topup :: "'s Ledger \<Rightarrow> money_request \<Rightarrow> ('s, post_result) prog" where
  "Ledger_Topup s req =
     bindP (liftR (amountWithin (mr_AmountSen req) 1 (cfg_MaxTransfer (L_cfg s)))) (\<lambda>amount.
     bindP (as_GetWalletByUserID (L_accounts s) (act_UserID (mr_Actor req))) (\<lambda>wallet.
     markViewer
       (postIdempotent s (MoneyRequest_claim req ''topup'')
          (retP (NewTopup (L_cashID s) (acc_ID wallet) amount (act_UserID (mr_Actor req))
                   (mr_Description req))))
       (acc_ID wallet)))"

definition Ledger_Withdraw :: "'s Ledger \<Rightarrow> money_request \<Rightarrow> ('s, post_result) prog" where
  "Ledger_Withdraw s req =
     bindP (liftR (amountWithin (mr_AmountSen req) 1 (cfg_MaxTransfer (L_cfg s)))) (\<lambda>amount.
     bindP (as_GetWalletByUserID (L_accounts s) (act_UserID (mr_Actor req))) (\<lambda>wallet.
     markViewer
       (postIdempotent s (MoneyRequest_claim req ''withdraw'')
          (retP (NewWithdraw (acc_ID wallet) (L_cashID s) amount (act_UserID (mr_Actor req))
                   (mr_Description req))))
       (acc_ID wallet)))"

definition build_transfer ::
    "(nat \<Rightarrow> nat) \<Rightarrow> 's Ledger \<Rightarrow> transfer_request \<Rightarrow> money \<Rightarrow> account \<Rightarrow> ('s, transaction) prog" where
  "build_transfer intN s req amount from =
     bindP (as_GetByPublicID (L_accounts s) (mr_ToAccountPublicID req)) (\<lambda>to.
       if acc_Type to \<noteq> AccountUserWallet then failP ErrAccountNotFound
       else liftR (NewTransfer (acc_ID from) (acc_ID to) (pickFeeShard intN s) amount
                     (cfg_TransferFee (L_cfg s)) (act_UserID (mr_Actor req)) (mr_Description req)))"

definition Ledger_Transfer ::
    "(nat \<Rightarrow> nat) \<Rightarrow> 's Ledger \<Rightarrow> transfer_request \<Rightarrow> ('s, post_result) prog" where
  "Ledger_Transfer intN s req =
     bindP (liftR (amountWithin (mr_AmountSen req) (cfg_MinTransfer (L_cfg s))
                     (cfg_MaxTransfer (L_cfg s)))) (\<lambda>amount.
     bindP (as_GetWalletByUserID (L_accounts s) (act_UserID (mr_Actor req))) (\<lambda>from.
     markViewer
       (postIdempotent s (MoneyRequest_claim req ''transfer'') (build_transfer intN s req amount from))
       (acc_ID from)))"

definition build_reversal :: "'s Ledger \<Rightarrow> reverse_request \<Rightarrow> ('s, transaction) prog" where
  "build_reversal s req =
     bindP (ls_GetTransaction (L_store s) (rr_TransactionID req) None) (\<lambda>orig.
       liftR (NewReversal (pr_Transaction orig) (act_UserID (rr_Actor req)) (rr_Description req)))"

definition ReverseRequest_claim :: "reverse_request \<Rightarrow> idempotency_claim" where
  "ReverseRequest_claim req =
     \<lparr> clm_UserID = act_UserID (rr_Actor req), clm_Key = rr_IdempotencyKey req,
       clm_Endpoint = ''reverse'', clm_RequestHash = rr_RequestHash req \<rparr>"

definition Ledger_Reverse :: "'s Ledger \<Rightarrow> reverse_request \<Rightarrow> ('s, post_result) prog" where
  "Ledger_Reverse s req =
     (if \<not> Actor_IsAdmin (rr_Actor req) then failP ErrForbidden
      else postIdempotent s (ReverseRequest_claim req) (build_reversal s req))"

definition Ledger_GetTransaction :: "'s Ledger \<Rightarrow> actor \<Rightarrow> uuid \<Rightarrow> ('s, post_result) prog" where
  "Ledger_GetTransaction s actor i =
     (if Actor_IsAdmin actor then ls_GetTransaction (L_store s) i None
      else bindP (as_GetWalletByUserID (L_accounts s) (act_UserID actor)) (\<lambda>wallet.
             markViewer (ls_GetTransaction (L_store s) i (Some (acc_ID wallet))) (acc_ID wallet)))"

definition Ledger_MyWallet :: "'s Ledger \<Rightarrow> actor \<Rightarrow> ('s, account) prog" where
  "Ledger_MyWallet s actor = as_GetWalletByUserID (L_accounts s) (act_UserID actor)"

record entries_page =
  pg_Entries :: "posted_entry list"
  pg_NextCursor :: string

definition page_of :: "posted_entry list \<Rightarrow> int \<Rightarrow> entries_page" where
  "page_of es limit =
     (if int (length es) > limit
      then \<lparr> pg_Entries = take (nat limit) es,
             pg_NextCursor = encodeCursor (pe_ID (es ! nat (limit - 1))) \<rparr>
      else \<lparr> pg_Entries = es, pg_NextCursor = '''' \<rparr>)"

definition Ledger_MyEntries :: "'s Ledger \<Rightarrow> actor \<Rightarrow> string \<Rightarrow> int \<Rightarrow> ('s, entries_page) prog" where
  "Ledger_MyEntries s actor cursor lim =
     bindP (liftR (decodeCursor cursor)) (\<lambda>before.
     let limit = normalizeLimit lim in
     bindP (as_GetWalletByUserID (L_accounts s) (act_UserID actor)) (\<lambda>wallet.
     bindP (as_ListEntries (L_accounts s) (acc_ID wallet) before limit) (\<lambda>es.
     retP (page_of es limit))))"

definition Ledger_TrialBalance :: "'s Ledger \<Rightarrow> actor \<Rightarrow> ('s, trial_balance) prog" where
  "Ledger_TrialBalance s actor =
     (if \<not> Actor_IsAdmin actor then failP ErrForbidden else ls_TrialBalance (L_store s))"

definition Ledger_BalanceDrift :: "'s Ledger \<Rightarrow> ('s, int64) prog" where
  "Ledger_BalanceDrift s = ls_BalanceDrift (L_store s)"

section \<open>The service on PostgreSQL\<close>

definition pg_ledger_store :: "env \<Rightarrow> pg ledger_store" where
  "pg_ledger_store env =
     \<lparr> ls_Post = LedgerRepo_Post env, ls_GetTransaction = LedgerRepo_GetTransaction env,
       ls_TrialBalance = LedgerRepo_TrialBalance env, ls_BalanceDrift = LedgerRepo_BalanceDrift env \<rparr>"

definition pg_account_store :: "env \<Rightarrow> pg account_store" where
  "pg_account_store env =
     \<lparr> as_GetByPublicID = AccountRepo_GetByPublicID env,
       as_GetWalletByUserID = AccountRepo_GetWalletByUserID env,
       as_SystemAccount = AccountRepo_SystemAccount env,
       as_SystemAccounts = AccountRepo_SystemAccounts env,
       as_ListEntries = AccountRepo_ListEntries env \<rparr>"

definition pg_idempotency_store :: "env \<Rightarrow> pg idempotency_store" where
  "pg_idempotency_store env = \<lparr> is_Find = IdempotencyRepo_Find env \<rparr>"

definition pg_ledger :: "env \<Rightarrow> ledger_config \<Rightarrow> int64 \<Rightarrow> int64 list \<Rightarrow> pg Ledger" where
  "pg_ledger env cfg cash fees =
     \<lparr> L_store = pg_ledger_store env, L_accounts = pg_account_store env,
       L_idem = pg_idempotency_store env, L_cfg = cfg, L_cashID = cash, L_feeIDs = fees \<rparr>"

lemma pg_ledger_simps [simp]:
  "L_store (pg_ledger env cfg cash fees) = pg_ledger_store env"
  "L_accounts (pg_ledger env cfg cash fees) = pg_account_store env"
  "L_idem (pg_ledger env cfg cash fees) = pg_idempotency_store env"
  "L_cfg (pg_ledger env cfg cash fees) = cfg"
  "L_cashID (pg_ledger env cfg cash fees) = cash"
  "L_feeIDs (pg_ledger env cfg cash fees) = fees"
  "ls_Post (pg_ledger_store env) = LedgerRepo_Post env"
  "ls_GetTransaction (pg_ledger_store env) = LedgerRepo_GetTransaction env"
  "ls_TrialBalance (pg_ledger_store env) = LedgerRepo_TrialBalance env"
  "ls_BalanceDrift (pg_ledger_store env) = LedgerRepo_BalanceDrift env"
  "as_GetByPublicID (pg_account_store env) = AccountRepo_GetByPublicID env"
  "as_GetWalletByUserID (pg_account_store env) = AccountRepo_GetWalletByUserID env"
  "as_SystemAccount (pg_account_store env) = AccountRepo_SystemAccount env"
  "as_SystemAccounts (pg_account_store env) = AccountRepo_SystemAccounts env"
  "as_ListEntries (pg_account_store env) = AccountRepo_ListEntries env"
  "is_Find (pg_idempotency_store env) = IdempotencyRepo_Find env"
  by (simp_all add: pg_ledger_def pg_ledger_store_def pg_account_store_def pg_idempotency_store_def)

end
