(* ===== verification/PostSpec.thy ===== *)
theory PostSpec
  imports LedgerInv
begin

text \<open>
  The abstract specification of a posting: when the ledger accepts a transaction
  (\<open>post_accepts\<close>) and the tables and the result an accepted posting leaves
  (\<open>posted_tables\<close>, \<open>posted_result\<close>), in one atomic step and with exact integers. An
  accepted posting preserves the ledger invariant. Theory PostRefine shows that
  \<open>LedgerRepo_Post\<close> implements this specification.
\<close>

section \<open>The specification\<close>

definition entry_delta :: "entry \<Rightarrow> direction \<Rightarrow> int" where
  "entry_delta e nb = (if ent_Direction e = nb then ent_Amount e else - ent_Amount e)"

definition settle :: "time \<Rightarrow> entry list \<Rightarrow> account \<Rightarrow> account" where
  "settle now es a =
     (case List.find (\<lambda>e. ent_AccountID e = acc_ID a) es of
        None \<Rightarrow> a
      | Some e \<Rightarrow> add_to_balance now (entry_delta e (acc_NormalBalance a)) a)"

definition account_by_id :: "account list \<Rightarrow> int64 \<Rightarrow> account option" where
  "account_by_id As i = List.find (\<lambda>a. acc_ID a = i) As"

definition balance_after :: "account list \<Rightarrow> entry \<Rightarrow> int" where
  "balance_after As e =
     (case account_by_id As (ent_AccountID e) of
        None \<Rightarrow> 0
      | Some a \<Rightarrow> acc_Balance a + entry_delta e (acc_NormalBalance a))"

fun posted_rows :: "env \<Rightarrow> uuid \<Rightarrow> int64 \<Rightarrow> account list \<Rightarrow> entry list \<Rightarrow> entry_row list" where
  "posted_rows env tid n As [] = []"
| "posted_rows env tid n As (e # es) =
     new_entry_row env (n + 1) tid (ent_AccountID e) (ent_Direction e) (ent_Amount e)
       (balance_after As e) # posted_rows env tid (n + 1) As es"

definition mark_original :: "uuid option \<Rightarrow> txn_row list \<Rightarrow> txn_row list" where
  "mark_original rv Ts =
     (case rv of
        None \<Rightarrow> Ts
      | Some i \<Rightarrow> update_where (\<lambda>r. tr_id r = i \<and> tr_status r = TxnPosted)
                    (\<lambda>r. r\<lparr>tr_status := TxnReversed\<rparr>) Ts)"

definition header_row :: "env \<Rightarrow> uuid \<Rightarrow> transaction \<Rightarrow> txn_row" where
  "header_row env tid txn =
     new_txn_row env tid (txn_Type txn) (txn_Description txn) (txn_InitiatedBy txn)
       (txn_ReversesID txn)"

definition posted_entry_of :: "transaction \<Rightarrow> account list \<Rightarrow> entry_row \<Rightarrow> posted_entry" where
  "posted_entry_of txn As r =
     \<lparr> pe_ID = er_id r, pe_TransactionID = er_transaction_id r, pe_AccountID = er_account_id r,
       pe_AccountPublicID = (case account_by_id As (er_account_id r) of
           None \<Rightarrow> nil_uuid | Some a \<Rightarrow> acc_PublicID a),
       pe_AccountType = (case account_by_id As (er_account_id r) of
           None \<Rightarrow> '''' | Some a \<Rightarrow> acc_Type a),
       pe_Direction = er_direction r, pe_Amount = er_amount r,
       pe_BalanceAfter = er_balance_after r, pe_CreatedAt = er_created_at r,
       pe_TxnType = txn_Type txn, pe_Description = txn_Description txn \<rparr>"

definition posted_result :: "env \<Rightarrow> uuid \<Rightarrow> int64 \<Rightarrow> account list \<Rightarrow> transaction \<Rightarrow> post_result" where
  "posted_result env tid n As txn =
     \<lparr> pr_Transaction = txn\<lparr>txn_ID := tid, txn_CreatedAt := env_now env, txn_Status := TxnPosted\<rparr>,
       pr_Entries = map (posted_entry_of txn As) (posted_rows env tid n As (txn_Entries txn)),
       pr_ViewerAccountID = None \<rparr>"

definition completed_claim :: "env \<Rightarrow> idempotency_claim \<Rightarrow> uuid \<Rightarrow> json \<Rightarrow> idem_row" where
  "completed_claim env claim tid body =
     (new_idem_row env claim)\<lparr>ik_transaction_id := Some tid, ik_status_code := 201,
                              ik_response_body := body\<rparr>"

definition posted_tables ::
    "env \<Rightarrow> uuid \<Rightarrow> uuid \<Rightarrow> sequences \<Rightarrow> transaction \<Rightarrow> idempotency_claim \<Rightarrow> tables \<Rightarrow> tables" where
  "posted_tables env tid eid sq txn claim T =
     (let n = seq_entries sq; As = accounts T;
          body = json_of_stored (toStored (posted_result env tid n As txn))
      in T\<lparr> accounts := map (settle (env_now env) (txn_Entries txn)) As,
            transactions := mark_original (txn_ReversesID txn) (transactions T)
                              @ [header_row env tid txn],
            entries := entries T @ posted_rows env tid n As (txn_Entries txn),
            idempotency_keys := idempotency_keys T @ [completed_claim env claim tid body],
            outbox_events := outbox_events T
                              @ [new_outbox_row env (seq_outbox sq + 1) eid tid body] \<rparr>)"

definition claim_free :: "tables \<Rightarrow> idempotency_claim \<Rightarrow> bool" where
  "claim_free T claim \<longleftrightarrow>
     (\<forall>r \<in> set (idempotency_keys T).
        \<not> (ik_user_id r = clm_UserID claim \<and> ik_key r = clm_Key claim))"

definition entry_accepts :: "account list \<Rightarrow> entry \<Rightarrow> bool" where
  "entry_accepts As e \<longleftrightarrow>
     (\<exists>a \<in> set As. acc_ID a = ent_AccountID e \<and> acc_Status a = AccountActive
        \<and> in_int64 (acc_Balance a + entry_delta e (acc_NormalBalance a))
        \<and> in_int64 (acc_Version a + 1)
        \<and> (acc_Type a = AccountUserWallet \<longrightarrow>
             0 \<le> acc_Balance a + entry_delta e (acc_NormalBalance a)))"

definition reversal_accepts :: "txn_row list \<Rightarrow> uuid option \<Rightarrow> bool" where
  "reversal_accepts Ts rv \<longleftrightarrow>
     (case rv of
        None \<Rightarrow> True
      | Some i \<Rightarrow> (\<exists>t \<in> set Ts. tr_id t = i \<and> tr_status t = TxnPosted)
                  \<and> (\<forall>t \<in> set Ts. tr_reverses t \<noteq> Some i))"

definition post_accepts ::
    "env \<Rightarrow> uuid \<Rightarrow> uuid \<Rightarrow> transaction \<Rightarrow> idempotency_claim \<Rightarrow> tables \<Rightarrow> bool" where
  "post_accepts env tid eid txn claim T \<longleftrightarrow>
     valid_transaction txn
     \<and> 1 \<le> char_length (clm_Key claim) \<and> char_length (clm_Key claim) \<le> 128
     \<and> claim_free T claim
     \<and> clm_UserID claim \<in> usr_ID ` set (users T)
     \<and> (\<forall>e \<in> set (txn_Entries txn). entry_accepts (accounts T) e)
     \<and> reversal_accepts (transactions T) (txn_ReversesID txn)
     \<and> transactions_check (header_row env tid txn) = None
     \<and> pred_option (\<lambda>u. u \<in> usr_ID ` set (users T)) (txn_InitiatedBy txn)
     \<and> tid \<notin> tr_id ` set (transactions T)
     \<and> eid \<notin> ob_event_id ` set (outbox_events T)"

section \<open>Facts about the specification\<close>

lemma account_by_id_eq:
  "\<lbrakk>distinct (map acc_ID As); a \<in> set As\<rbrakk> \<Longrightarrow> account_by_id As (acc_ID a) = Some a"
  by (simp add: account_by_id_def find_by_key)

lemma account_by_id_SomeD:
  "account_by_id As i = Some a \<Longrightarrow> a \<in> set As \<and> acc_ID a = i"
  by (auto simp: account_by_id_def dest: find_SomeD)

lemma settle_simps [simp]:
  "acc_ID (settle now es a) = acc_ID a"
  "acc_PublicID (settle now es a) = acc_PublicID a"
  "acc_UserID (settle now es a) = acc_UserID a"
  "acc_Type (settle now es a) = acc_Type a"
  "acc_NormalBalance (settle now es a) = acc_NormalBalance a"
  "acc_Status (settle now es a) = acc_Status a"
  by (simp_all add: settle_def split: option.split)

lemma settle_Nil [simp]: "settle now [] a = a"
  by (simp add: settle_def)

lemma map_acc_ID_settle [simp]: "map acc_ID (map (settle now es) As) = map acc_ID As"
  by simp

lemma acc_ID_image_settle [simp]: "acc_ID ` settle now es ` S = acc_ID ` S"
  by (simp add: image_image)

lemma settle_Balance:
  "acc_Balance (settle now es a) =
     acc_Balance a + (case List.find (\<lambda>e. ent_AccountID e = acc_ID a) es of
        None \<Rightarrow> 0 | Some e \<Rightarrow> entry_delta e (acc_NormalBalance a))"
  by (simp add: settle_def split: option.split)

lemma settle_Balance_hit:
  assumes "distinct (map ent_AccountID es)" "e \<in> set es" "ent_AccountID e = acc_ID a"
  shows "acc_Balance (settle now es a) = acc_Balance a + entry_delta e (acc_NormalBalance a)"
  using find_by_key [OF assms(1,2)] assms(3) by (simp add: settle_Balance)

lemma settle_miss:
  "acc_ID a \<notin> ent_AccountID ` set es \<Longrightarrow> settle now es a = a"
proof -
  assume "acc_ID a \<notin> ent_AccountID ` set es"
  then have "List.find (\<lambda>e. ent_AccountID e = acc_ID a) es = None"
    by (auto simp: find_None_iff_ball image_iff)
  then show ?thesis by (simp add: settle_def)
qed

lemma accounts_check_add:
  assumes "accounts_check a = None"
  shows "accounts_check (add_to_balance now d a) = None \<longleftrightarrow>
           (acc_Type a = AccountUserWallet \<longrightarrow> 0 \<le> acc_Balance a + d)"
  using assms
  by (auto simp: accounts_check_def check_normal_balance_def check_owner_def
      check_wallet_non_negative_def split: if_splits)

lemma computed_balance_append:
  "computed_balance (Es @ Fs) a = computed_balance Es a + computed_balance Fs a"
  by (simp add: computed_balance_def)

lemma computed_balance_cong:
  "\<lbrakk>acc_ID a = acc_ID b; acc_NormalBalance a = acc_NormalBalance b\<rbrakk> \<Longrightarrow>
   computed_balance Es a = computed_balance Es b"
  by (simp add: computed_balance_def)

lemma computed_balance_miss:
  "acc_ID a \<notin> ent_AccountID ` set es \<Longrightarrow> computed_balance (posted_rows env tid n As es) a = 0"
  by (induction es arbitrary: n) (auto simp: computed_balance_def new_entry_row_def)

lemma computed_balance_rows:
  "distinct (map ent_AccountID es) \<Longrightarrow>
   computed_balance (posted_rows env tid n As es) a =
     (case List.find (\<lambda>e. ent_AccountID e = acc_ID a) es of
        None \<Rightarrow> 0 | Some e \<Rightarrow> entry_delta e (acc_NormalBalance a))"
proof (induction es arbitrary: n)
  case Nil
  then show ?case by (simp add: computed_balance_def)
next
  case (Cons e es)
  have split: "computed_balance (posted_rows env tid n As (e # es)) a =
      (if ent_AccountID e = acc_ID a then entry_delta e (acc_NormalBalance a) else 0)
      + computed_balance (posted_rows env tid (n + 1) As es) a"
    by (simp add: computed_balance_def new_entry_row_def entry_delta_def)
  show ?case
  proof (cases "ent_AccountID e = acc_ID a")
    case True
    with Cons.prems have "acc_ID a \<notin> ent_AccountID ` set es" by auto
    with split True show ?thesis by (simp add: computed_balance_miss)
  next
    case False
    with split Cons show ?thesis by simp
  qed
qed

lemma row_total_append: "row_total d t (xs @ ys) = row_total d t xs + row_total d t ys"
  by (simp add: row_total_def)

lemma row_total_rows:
  "row_total d t (posted_rows env tid n As es) = (if t = tid then side_total d es else 0)"
  by (induction es arbitrary: n) (auto simp: row_total_def new_entry_row_def)

lemma row_total_absent:
  "\<forall>r \<in> set Es. er_transaction_id r \<noteq> t \<Longrightarrow> row_total d t Es = 0"
  by (induction Es) (auto simp: row_total_def)

lemma posted_rows_keys:
  "map (\<lambda>r. (er_transaction_id r, er_account_id r)) (posted_rows env tid n As es) =
     map (\<lambda>e. (tid, ent_AccountID e)) es"
  by (induction es arbitrary: n) (auto simp: new_entry_row_def)

lemma posted_rowsD:
  "r \<in> set (posted_rows env tid n As es) \<Longrightarrow>
   er_transaction_id r = tid \<and>
   (\<exists>e \<in> set es. er_account_id r = ent_AccountID e \<and> er_direction r = ent_Direction e
      \<and> er_amount r = ent_Amount e \<and> er_balance_after r = balance_after As e)"
  by (induction es arbitrary: n) (auto simp: new_entry_row_def)

lemma mark_original_ids [simp]: "map tr_id (mark_original rv Ts) = map tr_id Ts"
  by (simp add: mark_original_def map_update_where split: option.split)

lemma tr_id_image_mark_original [simp]: "tr_id ` set (mark_original rv Ts) = tr_id ` set Ts"
  by (metis list.set_map mark_original_ids)

lemma mark_original_D:
  "t' \<in> set (mark_original rv Ts) \<Longrightarrow>
   \<exists>t \<in> set Ts. tr_id t' = tr_id t \<and> tr_reverses t' = tr_reverses t
      \<and> tr_txn_type t' = tr_txn_type t \<and> tr_description t' = tr_description t
      \<and> tr_initiated_by t' = tr_initiated_by t \<and> tr_created_at t' = tr_created_at t
      \<and> tr_status t' = (if rv = Some (tr_id t) \<and> tr_status t = TxnPosted then TxnReversed
                        else tr_status t)"
  by (auto simp: mark_original_def set_update_where split: option.splits if_splits)

lemma tr_reverses_image_mark_original [simp]:
  "tr_reverses ` set (mark_original rv Ts) = tr_reverses ` set Ts"
proof -
  have "map tr_reverses (mark_original rv Ts) = map tr_reverses Ts"
    by (simp add: mark_original_def map_update_where split: option.split)
  then show ?thesis by (metis list.set_map)
qed

end
