(* ===== verification/PostInv.thy ===== *)
theory PostInv
  imports PostSpec
begin

text \<open>
  An accepted posting preserves the ledger invariant: one lemma per conjunct, on the tables
  the specification computes.
\<close>

section \<open>Each conjunct\<close>

lemma entry_of_account_unique:
  assumes "distinct (map ent_AccountID es)" "List.find (\<lambda>e. ent_AccountID e = i) es = Some e"
  shows "e \<in> set es" "ent_AccountID e = i"
  using assms(2) by (auto dest: find_SomeD)

lemma settle_accounts_ok:
  assumes A: "accounts_ok As" and D: "distinct (map ent_AccountID es)"
    and acc: "\<forall>e \<in> set es. entry_accepts As e"
  shows "accounts_ok (map (settle now es) As)"
  unfolding accounts_ok_def
proof
  show "distinct (map acc_ID (map (settle now es) As))"
    using A unfolding map_acc_ID_settle by (simp add: accounts_ok_def)
  show "\<forall>a' \<in> set (map (settle now es) As). accounts_check a' = None \<and> in_int64 (acc_Balance a')"
  proof
    fix a' assume "a' \<in> set (map (settle now es) As)"
    then obtain a where a: "a \<in> set As" and a': "a' = settle now es a" by auto
    have ok: "accounts_check a = None" "in_int64 (acc_Balance a)"
      using A a by (auto simp: accounts_ok_def)
    show "accounts_check a' = None \<and> in_int64 (acc_Balance a')"
    proof (cases "List.find (\<lambda>e. ent_AccountID e = acc_ID a) es")
      case None
      with ok a' show ?thesis by (simp add: settle_def)
    next
      case (Some e)
      note e = entry_of_account_unique [OF D Some]
      from acc e obtain b where b: "b \<in> set As" "acc_ID b = acc_ID a"
        "in_int64 (acc_Balance b + entry_delta e (acc_NormalBalance b))"
        "acc_Type b = AccountUserWallet \<longrightarrow> 0 \<le> acc_Balance b + entry_delta e (acc_NormalBalance b)"
        by (auto simp: entry_accepts_def)
      from A a b(1,2) have "b = a" by (metis accounts_ok_def distinct_key_eq)
      with b(3,4) ok Some a' show ?thesis by (simp add: settle_def accounts_check_add)
    qed
  qed
qed

lemma settle_no_drift:
  assumes "no_drift As Es" "distinct (map ent_AccountID es)"
  shows "no_drift (map (settle now es) As) (Es @ posted_rows env tid n As es)"
proof -
  have cong: "computed_balance Fs (settle now es a) = computed_balance Fs a" for Fs a
    by (rule computed_balance_cong) simp_all
  show ?thesis
    using assms
    by (auto simp: no_drift_def cong computed_balance_append computed_balance_rows settle_Balance
        split: option.split)
qed

lemma posted_entries_ok:
  assumes E: "entries_ok As Ts Es" and tid: "tid \<notin> tr_id ` set Ts"
    and wf: "well_formed_entries es" and rng: "\<forall>e \<in> set es. in_int64 (ent_Amount e)"
    and acc: "\<forall>e \<in> set es. entry_accepts As e"
    and As': "acc_ID ` set As' = acc_ID ` set As"
    and Ts': "tr_id ` set Ts' = insert tid (tr_id ` set Ts)"
  shows "entries_ok As' Ts' (Es @ posted_rows env tid n As es)"
  unfolding entries_ok_def
proof
  let ?R = "posted_rows env tid n As es"
  have "0 < er_amount r \<and> in_int64 (er_amount r) \<and> Direction_Valid (er_direction r)
        \<and> er_account_id r \<in> acc_ID ` set As \<and> er_transaction_id r = tid" if "r \<in> set ?R" for r
  proof -
    from posted_rowsD [OF that] obtain e where e: "e \<in> set es" and r: "er_transaction_id r = tid"
      "er_account_id r = ent_AccountID e" "er_direction r = ent_Direction e"
      "er_amount r = ent_Amount e" by blast
    from acc e obtain a where "a \<in> set As" "acc_ID a = ent_AccountID e"
      by (auto simp: entry_accepts_def)
    then have "ent_AccountID e \<in> acc_ID ` set As" by (metis imageI)
    with e r wf rng show ?thesis by (auto simp: well_formed_entries_def)
  qed
  then show "\<forall>r \<in> set (Es @ ?R). 0 < er_amount r \<and> in_int64 (er_amount r)
        \<and> Direction_Valid (er_direction r) \<and> er_account_id r \<in> acc_ID ` set As'
        \<and> er_transaction_id r \<in> tr_id ` set Ts'"
    using E unfolding entries_ok_def As' Ts' by auto
  have "distinct (map (\<lambda>e. (tid, ent_AccountID e)) es)"
    using wf by (auto simp: well_formed_entries_def distinct_map inj_on_def)
  moreover have "er_transaction_id r \<noteq> tid" if "r \<in> set Es" for r
    using E that tid by (auto simp: entries_ok_def)
  ultimately show "distinct (map (\<lambda>r. (er_transaction_id r, er_account_id r)) (Es @ ?R))"
    using E by (auto simp: entries_ok_def posted_rows_keys)
qed

lemma posted_balanced:
  assumes B: "balanced Ts Es" and tid: "tid \<notin> tr_id ` set Ts"
    and E: "entries_ok As Ts Es"
    and es: "side_total DirectionDebit es = side_total DirectionCredit es"
    and Ts': "tr_id ` set Ts' = insert tid (tr_id ` set Ts)"
  shows "balanced Ts' (Es @ posted_rows env tid n As es)"
proof -
  have "row_total d tid Es = 0" for d
    using E tid by (intro row_total_absent) (auto simp: entries_ok_def)
  then have "row_total DirectionDebit t (Es @ posted_rows env tid n As es)
      = row_total DirectionCredit t (Es @ posted_rows env tid n As es)"
    if "t \<in> insert tid (tr_id ` set Ts)" for t
    using that B es by (auto simp: row_total_append row_total_rows balanced_def)
  then show ?thesis unfolding balanced_def Ts' [symmetric] by auto
qed

lemma header_row_simps [simp]:
  "tr_id (header_row env tid txn) = tid"
  "tr_status (header_row env tid txn) = TxnPosted"
  "tr_reverses (header_row env tid txn) = txn_ReversesID txn"
  "tr_txn_type (header_row env tid txn) = txn_Type txn"
  "tr_description (header_row env tid txn) = txn_Description txn"
  by (simp_all add: header_row_def new_txn_row_def)

lemma posted_transactions_ok:
  assumes T: "transactions_ok Ts" and tid: "tid \<notin> tr_id ` set Ts"
    and R: "reversal_accepts Ts (txn_ReversesID txn)"
    and fk: "\<forall>t \<in> set Ts. tr_reverses t \<noteq> Some tid"
    and C: "transactions_check (header_row env tid txn) = None"
  shows "transactions_ok (mark_original (txn_ReversesID txn) Ts @ [header_row env tid txn])"
    (is "transactions_ok (?M @ [?h])")
proof -
  have self: "txn_ReversesID txn \<noteq> Some tid"
    using R tid by (auto simp: reversal_accepts_def split: option.splits)
  have fresh: "txn_ReversesID txn \<noteq> None \<Longrightarrow> txn_ReversesID txn \<notin> tr_reverses ` set Ts"
    using R by (auto simp: reversal_accepts_def split: option.splits)
  have refs: "tr_reverses ` set (?M @ [?h]) = insert (txn_ReversesID txn) (tr_reverses ` set Ts)"
    by simp
  have not_M: "txn_ReversesID txn = None" if "t \<in> set ?M" "tr_reverses t = txn_ReversesID txn" for t
    using that fresh by (metis imageI tr_reverses_image_mark_original)
  have ids: "distinct (map tr_id (?M @ [?h]))"
    using T tid by (simp add: transactions_ok_def)
  have checks: "transactions_check t' = None" if "t' \<in> set (?M @ [?h])" for t'
  proof (cases "t' = ?h")
    case True
    with C show ?thesis by simp
  next
    case False
    with that have "t' \<in> set ?M" by auto
    from mark_original_D [OF this] obtain t where t: "t \<in> set Ts" "tr_txn_type t' = tr_txn_type t"
      "tr_description t' = tr_description t" "tr_reverses t' = tr_reverses t" by blast
    from t(2-) have "transactions_check t' = transactions_check t"
      by (simp add: transactions_check_def)
    with T t(1) show ?thesis by (simp add: transactions_ok_def)
  qed
  have uniq: "t = q" if "t \<in> set (?M @ [?h])" "q \<in> set (?M @ [?h])" "tr_reverses t \<noteq> None"
      "tr_reverses t = tr_reverses q" for t q
  proof -
    have "tr_id t = tr_id q"
    proof (cases "t = ?h \<or> q = ?h")
      case True
      then have "tr_reverses t = txn_ReversesID txn" "tr_reverses q = txn_ReversesID txn"
        using that(4) by auto
      with that(3) not_M have "t \<notin> set ?M" "q \<notin> set ?M" by metis+
      with that(1,2) show ?thesis by simp
    next
      case False
      with that have "t \<in> set ?M" "q \<in> set ?M" by auto
      then obtain t0 q0 where "t0 \<in> set Ts" "q0 \<in> set Ts" "tr_reverses t0 = tr_reverses t"
        "tr_reverses q0 = tr_reverses q" "tr_id t0 = tr_id t" "tr_id q0 = tr_id q"
        using mark_original_D by metis
      with that T show ?thesis unfolding transactions_ok_def by metis
    qed
    with ids that show ?thesis by (metis distinct_key_eq)
  qed
  have status: "tr_status t' = (if Some (tr_id t') \<in> tr_reverses ` set (?M @ [?h])
                                then TxnReversed else TxnPosted)" if "t' \<in> set (?M @ [?h])" for t'
  proof (cases "t' = ?h")
    case True
    with self fk show ?thesis unfolding refs by (auto simp: image_iff)
  next
    case False
    with that have "t' \<in> set ?M" by auto
    from mark_original_D [OF this] obtain t where t: "t \<in> set Ts" "tr_id t' = tr_id t"
      and st: "tr_status t' = (if txn_ReversesID txn = Some (tr_id t) \<and> tr_status t = TxnPosted
                               then TxnReversed else tr_status t)" by auto
    have "tr_status t = (if Some (tr_id t) \<in> tr_reverses ` set Ts then TxnReversed else TxnPosted)"
      using T t(1) by (simp add: transactions_ok_def)
    with st t(2) show ?thesis unfolding refs by auto
  qed
  from ids checks uniq status show ?thesis unfolding transactions_ok_def by blast
qed

section \<open>The whole posting\<close>

text \<open>
  References between transactions: a reversal names a transaction of the table. It is part of
  the invariant below because a fresh id must not already be referred to.
\<close>

definition references_ok :: "tables \<Rightarrow> bool" where
  "references_ok T \<longleftrightarrow>
     (\<forall>t \<in> set (transactions T). \<forall>i. tr_reverses t = Some i \<longrightarrow> i \<in> tr_id ` set (transactions T))"

lemma posted_tables_simps [simp]:
  "accounts (posted_tables env tid eid sq txn claim T) =
     map (settle (env_now env) (txn_Entries txn)) (accounts T)"
  "transactions (posted_tables env tid eid sq txn claim T) =
     mark_original (txn_ReversesID txn) (transactions T) @ [header_row env tid txn]"
  "entries (posted_tables env tid eid sq txn claim T) =
     entries T @ posted_rows env tid (seq_entries sq) (accounts T) (txn_Entries txn)"
  "users (posted_tables env tid eid sq txn claim T) = users T"
  "refresh_tokens (posted_tables env tid eid sq txn claim T) = refresh_tokens T"
  "processed_events (posted_tables env tid eid sq txn claim T) = processed_events T"
  by (simp_all add: posted_tables_def Let_def)

lemma posted_references_ok:
  assumes "references_ok T" "reversal_accepts (transactions T) (txn_ReversesID txn)"
  shows "references_ok (posted_tables env tid eid sq txn claim T)"
  unfolding references_ok_def
proof (intro ballI allI impI)
  fix t i assume t: "t \<in> set (transactions (posted_tables env tid eid sq txn claim T))"
    and i: "tr_reverses t = Some i"
  show "i \<in> tr_id ` set (transactions (posted_tables env tid eid sq txn claim T))"
  proof (cases "t = header_row env tid txn")
    case True
    with i assms(2) show ?thesis by (auto simp: reversal_accepts_def)
  next
    case False
    with t have "t \<in> set (mark_original (txn_ReversesID txn) (transactions T))" by auto
    from mark_original_D [OF this] i assms(1) show ?thesis
      by (auto simp: references_ok_def)
  qed
qed

lemma posted_ledger_inv:
  assumes inv: "ledger_inv T" and refs: "references_ok T"
    and acc: "post_accepts env tid eid txn claim T" and rng: "amounts_in_range txn"
  shows "ledger_inv (posted_tables env tid eid sq txn claim T)"
proof -
  let ?es = "txn_Entries txn"
  have wf: "well_formed_entries ?es" and D: "distinct (map ent_AccountID ?es)"
    and S: "side_total DirectionDebit ?es = side_total DirectionCredit ?es"
    using acc by (auto simp: post_accepts_def valid_transaction_def well_formed_entries_def)
  have E: "\<forall>e \<in> set ?es. entry_accepts (accounts T) e" and tid: "tid \<notin> tr_id ` set (transactions T)"
    and R: "reversal_accepts (transactions T) (txn_ReversesID txn)"
    and C: "transactions_check (header_row env tid txn) = None"
    using acc by (auto simp: post_accepts_def)
  have rng': "\<forall>e \<in> set ?es. in_int64 (ent_Amount e)"
    using rng by (simp add: amounts_in_range_def)
  have fk: "\<forall>t \<in> set (transactions T). tr_reverses t \<noteq> Some tid"
    using refs tid by (auto simp: references_ok_def)
  note I = inv [unfolded ledger_inv_def]
  have Ts: "tr_id ` set (mark_original (txn_ReversesID txn) (transactions T) @ [header_row env tid txn])
            = insert tid (tr_id ` set (transactions T))" by simp
  have As: "acc_ID ` set (map (settle (env_now env) ?es) (accounts T)) = acc_ID ` set (accounts T)"
    by simp
  show ?thesis
    unfolding ledger_inv_def posted_tables_simps
    using settle_accounts_ok [OF _ D E] settle_no_drift [OF _ D]
      posted_entries_ok [OF _ tid wf rng' E As Ts] posted_balanced [OF _ tid _ S Ts]
      posted_transactions_ok [OF _ tid R fk C] I
    by blast
qed

end
