(* ===== verification/PostRefine.thy ===== *)
theory PostRefine
  imports PostInv
begin

text \<open>
  \<open>LedgerRepo_Post\<close> implements the specification of PostSpec: when it succeeds, whatever
  faults the environment schedules, the specification accepted the transaction and the
  tables and the result are the specified ones; when it fails the tables are unchanged; and
  without faults it succeeds whenever the specification accepts.
\<close>

section \<open>The locks\<close>

lemma lock_map_Inr:
  "\<lbrakk>lock_map as m = Inr byID; distinct (map la_ID as)\<rbrakk> \<Longrightarrow>
   (\<forall>a \<in> set as. la_Status a = AccountActive \<and> byID (la_ID a) = Some a)
   \<and> (\<forall>i. i \<notin> la_ID ` set as \<longrightarrow> byID i = m i)"
proof (induction as arbitrary: m)
  case (Cons a as)
  from Cons.prems have act: "la_Status a = AccountActive"
    and rest: "lock_map as (m(la_ID a \<mapsto> a)) = Inr byID" by (auto split: if_splits)
  from Cons.IH [OF rest] Cons.prems(2)
  have IH: "\<forall>a \<in> set as. la_Status a = AccountActive \<and> byID (la_ID a) = Some a"
    "\<forall>i. i \<notin> la_ID ` set as \<longrightarrow> byID i = (m(la_ID a \<mapsto> a)) i" by auto
  moreover have "byID (la_ID a) = Some a" using IH(2) Cons.prems(2) by auto
  ultimately show ?case using act by auto
qed simp

lemma la_simps [simp]:
  "la_ID (lockedAccount_of a) = acc_ID a" "la_PublicID (lockedAccount_of a) = acc_PublicID a"
  "la_Balance (lockedAccount_of a) = acc_Balance a"
  "la_Version (lockedAccount_of a) = acc_Version a"
  "la_Status (lockedAccount_of a) = acc_Status a"
  "la_NormalBalance (lockedAccount_of a) = acc_NormalBalance a"
  "la_AccountType (lockedAccount_of a) = acc_Type a"
  by (simp_all add: lockedAccount_of_def)

definition locked_match :: "(int64 \<rightharpoonup> locked_account) \<Rightarrow> account list \<Rightarrow> entry list \<Rightarrow> bool" where
  "locked_match byID As es \<longleftrightarrow>
     (\<forall>e \<in> set es. \<exists>a \<in> set As. acc_ID a = ent_AccountID e
        \<and> byID (ent_AccountID e) = Some (lockedAccount_of a))"

definition selected :: "int64 list \<Rightarrow> account list \<Rightarrow> account list" where
  "selected ids As = sort_key acc_ID (filter (\<lambda>a. acc_ID a \<in> set ids) As)"

lemma set_selected [simp]: "set (selected ids As) = {a \<in> set As. acc_ID a \<in> set ids}"
  by (auto simp: selected_def)

lemma distinct_selected:
  assumes "distinct (map acc_ID As)"
  shows "distinct (map acc_ID (selected ids As))"
proof -
  have "distinct (map acc_ID (filter (\<lambda>a. acc_ID a \<in> set ids) As))"
    using assms by (simp add: distinct_map_filter)
  then show ?thesis
    unfolding selected_def by (metis distinct_map distinct_sort set_sort)
qed

lemma selected_complete_iff:
  assumes "distinct (map acc_ID As)" "distinct ids"
  shows "length (selected ids As) = length ids \<longleftrightarrow> set ids \<subseteq> acc_ID ` set As"
proof -
  have "length (selected ids As) = card (acc_ID ` set (selected ids As))"
    using distinct_card [OF distinct_selected [OF assms(1)]] by simp
  also have "acc_ID ` set (selected ids As) = set ids \<inter> acc_ID ` set As" by auto
  finally have L: "length (selected ids As) = card (set ids \<inter> acc_ID ` set As)" .
  have C: "length ids = card (set ids)" using assms(2) by (simp add: distinct_card)
  show ?thesis
  proof
    assume "length (selected ids As) = length ids"
    with L C have "set ids \<inter> acc_ID ` set As = set ids" by (intro card_subset_eq) auto
    then show "set ids \<subseteq> acc_ID ` set As" by blast
  next
    assume "set ids \<subseteq> acc_ID ` set As"
    then have "set ids \<inter> acc_ID ` set As = set ids" by blast
    with L C show "length (selected ids As) = length ids" by simp
  qed
qed

lemma post_lock_Inr:
  assumes P: "post_lock env txn w = (Inr byID, w')" and D: "distinct (map acc_ID (accounts (tabs w)))"
  shows "tabs w' = tabs w" and "seqs w' = seqs w"
    and "locked_match byID (accounts (tabs w)) (txn_Entries txn)"
proof -
  let ?ids = "Transaction_AccountIDs txn" and ?As = "accounts (tabs w)"
  let ?accs = "map lockedAccount_of (selected ?ids ?As)"
  obtain w1 where w1: "round_trip env w = (Inr (), w1)"
    and L: "sql_lock_accounts env ?ids w1 = (Inr ?accs, w')"
    and len: "length ?accs = length ?ids" and M: "lock_map ?accs Map.empty = Inr byID"
    using P
    by (auto simp: post_lock_def Let_def bindP_Inr_iff wrapP_Inr_iff selected_def
        dest!: round_trip_tabs sql_lock_accounts_Inr(3) split: if_splits sum.splits)
  have T1: "tabs w1 = tabs w" "seqs w1 = seqs w"
    using w1 by (auto simp: round_trip_def stmt_Inr_iff)
  with sql_lock_accounts_Inr [OF L] show "tabs w' = tabs w" "seqs w' = seqs w" by simp_all
  have "distinct (map la_ID ?accs)" using distinct_selected [OF D] by (simp add: comp_def)
  note M' = lock_map_Inr [OF M this]
  have sub: "set ?ids \<subseteq> acc_ID ` set ?As"
    using len selected_complete_iff [OF D distinct_AccountIDs] by simp
  show "locked_match byID ?As (txn_Entries txn)"
    unfolding locked_match_def
  proof
    fix e assume e: "e \<in> set (txn_Entries txn)"
    then have mem: "ent_AccountID e \<in> set ?ids" by simp
    with sub obtain a where a: "a \<in> set ?As" "acc_ID a = ent_AccountID e" by (metis imageE subsetD)
    with mem have "a \<in> set (selected ?ids ?As)" by simp
    then have "lockedAccount_of a \<in> set ?accs" by simp
    with M' have "byID (la_ID (lockedAccount_of a)) = Some (lockedAccount_of a)" by blast
    with a show "\<exists>a \<in> set ?As. acc_ID a = ent_AccountID e
        \<and> byID (ent_AccountID e) = Some (lockedAccount_of a)"
      by (intro bexI [of _ a]) simp_all
  qed
qed

section \<open>The entries\<close>

lemma post_entry_Inr:
  assumes P: "post_entry env txn tid byID e w = (Inr p, w')"
    and D: "distinct (map acc_ID (accounts (tabs w)))"
    and a: "a \<in> set (accounts (tabs w))" "acc_ID a = ent_AccountID e"
      "byID (ent_AccountID e) = Some (lockedAccount_of a)"
    and rng: "in_int64 (ent_Amount e)"
  defines "d \<equiv> entry_delta e (acc_NormalBalance a)"
  defines "r \<equiv> new_entry_row env (seq_entries (seqs w) + 1) tid (ent_AccountID e)
                 (ent_Direction e) (ent_Amount e) (acc_Balance a + d)"
  shows "entry_accepts (accounts (tabs w)) e"
    and "tabs w' = (tabs w)\<lparr>accounts := apply_delta (env_now env) (ent_AccountID e) d (accounts (tabs w)),
                            entries := entries (tabs w) @ [r]\<rparr>"
    and "seqs w' = (seqs w)\<lparr>seq_entries := seq_entries (seqs w) + 1\<rparr>"
    and "p = posted_entry_of txn (accounts (tabs w)) r"
proof -
  let ?delta = "BalanceDelta e (acc_NormalBalance a)" and ?As = "accounts (tabs w)"
  obtain nb w1 n "at" where
    U: "sql_update_balance env ?delta (ent_AccountID e) (acc_Version a) w = (Inr nb, w1)"
    and I: "sql_insert_entry env tid (ent_AccountID e) (ent_Direction e) (ent_Amount e) nb w1
            = (Inr (n, at), w')"
    and p: "p = \<lparr> pe_ID = n, pe_TransactionID = tid, pe_AccountID = ent_AccountID e,
                  pe_AccountPublicID = acc_PublicID a, pe_AccountType = acc_Type a,
                  pe_Direction = ent_Direction e, pe_Amount = ent_Amount e,
                  pe_BalanceAfter = nb, pe_CreatedAt = at, pe_TxnType = txn_Type txn,
                  pe_Description = txn_Description txn \<rparr>"
    using P a(3)
    by (auto simp: post_entry_def Let_def bindP_Inr_iff wrapP_Inr_iff split: sum.splits if_splits)
  note U' = sql_update_balance_Inr [OF U D] and I' = sql_insert_entry_Inr [OF I]
  have d: "?delta = d" using I'(5) rng by (simp add: BalanceDelta_exact d_def entry_delta_def)
  from U'(1) obtain b where b: "b \<in> set ?As" "acc_ID b = ent_AccountID e"
      "acc_Status b = AccountActive" "nb = acc_Balance b + ?delta" "in_int64 nb"
      "in_int64 (acc_Version b + 1)"
      "accounts_check (add_to_balance (env_now env) ?delta b) = None" by blast
  have ba: "b = a" using b(1,2) a(1,2) D by (metis distinct_key_eq)
  have nb: "nb = acc_Balance a + d" using b(4) ba d by simp
  have wallet: "acc_Type a = AccountUserWallet \<longrightarrow> 0 \<le> acc_Balance a + d"
    using b(7) ba d by (auto simp: accounts_check_def check_wallet_non_negative_def split: if_splits)
  show "entry_accepts ?As e"
    using a b ba nb wallet unfolding entry_accepts_def d_def by (intro bexI [of _ a]) auto
  have n: "n = seq_entries (seqs w) + 1" and S1: "seqs w1 = seqs w"
    using I'(1) U'(3) by simp_all
  show "tabs w' = (tabs w)\<lparr>accounts := apply_delta (env_now env) (ent_AccountID e) d ?As,
                            entries := entries (tabs w) @ [r]\<rparr>"
    using I'(4) U'(2) d n nb by (simp add: r_def)
  show "seqs w' = (seqs w)\<lparr>seq_entries := seq_entries (seqs w) + 1\<rparr>"
    using I'(3) S1 n by simp
  have "account_by_id ?As (ent_AccountID e) = Some a"
    using account_by_id_eq [OF D a(1)] a(2) by simp
  then show "p = posted_entry_of txn ?As r"
    using p n nb I'(2) by (simp add: posted_entry_of_def r_def new_entry_row_def)
qed

text \<open>An entry on another account changes nothing the remaining entries look at.\<close>

lemma apply_delta_miss:
  "acc_ID a \<noteq> i \<Longrightarrow> a \<in> set (apply_delta now i d As) \<longleftrightarrow> a \<in> set As"
  by (auto simp: set_apply_delta)

lemma entry_accepts_apply_delta:
  "ent_AccountID e \<noteq> i \<Longrightarrow> entry_accepts (apply_delta now i d As) e \<longleftrightarrow> entry_accepts As e"
  unfolding entry_accepts_def Bex_def by (metis apply_delta_miss)

lemma locked_match_apply_delta:
  "\<lbrakk>locked_match byID As es; i \<notin> ent_AccountID ` set es\<rbrakk> \<Longrightarrow>
   locked_match byID (apply_delta now i d As) es"
  unfolding locked_match_def Bex_def by (metis apply_delta_miss imageI)

lemma account_by_id_apply_delta:
  "account_by_id (apply_delta now i d As) j =
     (if j = i then map_option (add_to_balance now d) (account_by_id As j) else account_by_id As j)"
  by (induction As) (auto simp: account_by_id_def apply_delta_def)

lemma posted_rows_apply_delta:
  "i \<notin> ent_AccountID ` set es \<Longrightarrow>
   posted_rows env tid n (apply_delta now i d As) es = posted_rows env tid n As es"
  by (induction es arbitrary: n) (auto simp: balance_after_def account_by_id_apply_delta)

lemma posted_entry_of_apply_delta [simp]:
  "posted_entry_of txn (apply_delta now i d As) r = posted_entry_of txn As r"
  by (auto simp: posted_entry_of_def account_by_id_apply_delta split: option.splits)

lemma settle_Cons:
  assumes "distinct (map acc_ID As)" "a \<in> set As" "acc_ID a = ent_AccountID e"
    and "ent_AccountID e \<notin> ent_AccountID ` set es"
  shows "map (settle now es)
           (apply_delta now (ent_AccountID e) (entry_delta e (acc_NormalBalance a)) As)
         = map (settle now (e # es)) As"
proof -
  have "settle now es (if acc_ID b = ent_AccountID e
           then add_to_balance now (entry_delta e (acc_NormalBalance a)) b else b)
        = settle now (e # es) b" if b: "b \<in> set As" for b
  proof (cases "acc_ID b = ent_AccountID e")
    case True
    with b assms(1-3) have "b = a" by (metis distinct_key_eq)
    with assms(3,4) show ?thesis by (simp add: settle_miss) (simp add: settle_def)
  next
    case False
    then show ?thesis by (simp add: settle_def)
  qed
  then show ?thesis by (simp add: apply_delta_def update_where_def)
qed

lemma post_entries_Inr:
  assumes "post_entries env txn tid byID es w = (Inr ps, w')"
    and "distinct (map acc_ID (accounts (tabs w)))" "locked_match byID (accounts (tabs w)) es"
    and "distinct (map ent_AccountID es)" "\<forall>e \<in> set es. in_int64 (ent_Amount e)"
  shows "(\<forall>e \<in> set es. entry_accepts (accounts (tabs w)) e)
    \<and> tabs w' = (tabs w)\<lparr>accounts := map (settle (env_now env) es) (accounts (tabs w)),
         entries := entries (tabs w)
           @ posted_rows env tid (seq_entries (seqs w)) (accounts (tabs w)) es\<rparr>
    \<and> seqs w' = (seqs w)\<lparr>seq_entries := seq_entries (seqs w) + int (length es)\<rparr>
    \<and> ps = map (posted_entry_of txn (accounts (tabs w)))
             (posted_rows env tid (seq_entries (seqs w)) (accounts (tabs w)) es)"
  using assms
proof (induction es arbitrary: w ps)
  case Nil
  then show ?case by simp
next
  case (Cons e es)
  let ?As = "accounts (tabs w)" and ?n = "seq_entries (seqs w)"
  from Cons.prems(1) obtain p w1 ps' where P: "post_entry env txn tid byID e w = (Inr p, w1)"
    and R: "post_entries env txn tid byID es w1 = (Inr ps', w')" and ps: "ps = p # ps'"
    by (auto simp: bindP_Inr_iff)
  from Cons.prems(3) obtain a where a: "a \<in> set ?As" "acc_ID a = ent_AccountID e"
      "byID (ent_AccountID e) = Some (lockedAccount_of a)" by (auto simp: locked_match_def)
  have rng: "in_int64 (ent_Amount e)" using Cons.prems(5) by simp
  note E = post_entry_Inr [OF P Cons.prems(2) a rng]
  let ?d = "entry_delta e (acc_NormalBalance a)"
  let ?As1 = "apply_delta (env_now env) (ent_AccountID e) ?d ?As"
  have new: "ent_AccountID e \<notin> ent_AccountID ` set es" using Cons.prems(4) by simp
  have As1: "accounts (tabs w1) = ?As1" using E(2) by simp
  have "distinct (map acc_ID (accounts (tabs w1)))" "locked_match byID (accounts (tabs w1)) es"
    using Cons.prems(2,3) new locked_match_apply_delta [of byID ?As es]
    by (simp_all add: As1 locked_match_def)
  moreover have "distinct (map ent_AccountID es)" "\<forall>e \<in> set es. in_int64 (ent_Amount e)"
    using Cons.prems(4,5) by simp_all
  ultimately have IH: "(\<forall>e \<in> set es. entry_accepts ?As1 e)
    \<and> tabs w' = (tabs w1)\<lparr>accounts := map (settle (env_now env) es) ?As1,
         entries := entries (tabs w1) @ posted_rows env tid (seq_entries (seqs w1)) ?As1 es\<rparr>
    \<and> seqs w' = (seqs w1)\<lparr>seq_entries := seq_entries (seqs w1) + int (length es)\<rparr>
    \<and> ps' = map (posted_entry_of txn ?As1) (posted_rows env tid (seq_entries (seqs w1)) ?As1 es)"
    using Cons.IH [OF R] unfolding As1 by blast
  have other: "ent_AccountID e' \<noteq> ent_AccountID e" if "e' \<in> set es" for e'
    using new that by (metis imageI)
  have acc: "\<forall>e' \<in> set (e # es). entry_accepts ?As e'"
    using IH E(1) entry_accepts_apply_delta [OF other] by simp
  have row: "balance_after ?As e = acc_Balance a + ?d"
    using account_by_id_eq [OF Cons.prems(2) a(1)] a(2) by (simp add: balance_after_def)
  show ?case
    using IH E(2-4) acc new ps row
      settle_Cons [OF Cons.prems(2) a(1,2) new, of "env_now env"]
    by (simp add: posted_rows_apply_delta)
qed

section \<open>Soundness\<close>

lemma new_idem_row_simps [simp]:
  "ik_user_id (new_idem_row env claim) = clm_UserID claim"
  "ik_key (new_idem_row env claim) = clm_Key claim"
  "ik_request_hash (new_idem_row env claim) = clm_RequestHash claim"
  "ik_endpoint (new_idem_row env claim) = clm_Endpoint claim"
  "ik_created_at (new_idem_row env claim) = env_now env"
  by (simp_all add: new_idem_row_def)

lemma post_claim_Inr:
  assumes "post_claim env claim w = (Inr (), w')"
  shows "claim_free (tabs w) claim" "clm_UserID claim \<in> usr_ID ` set (users (tabs w))"
    "1 \<le> char_length (clm_Key claim)" "char_length (clm_Key claim) \<le> 128"
    "tabs w' = (tabs w)\<lparr>idempotency_keys :=
        idempotency_keys (tabs w) @ [new_idem_row env claim]\<rparr>"
    "seqs w' = seqs w"
proof -
  have "claim_free (tabs w) claim \<and> (\<exists>u \<in> set (users (tabs w)). usr_ID u = clm_UserID claim)
    \<and> 1 \<le> char_length (clm_Key claim) \<and> char_length (clm_Key claim) \<le> 128
    \<and> tabs w' = (tabs w)\<lparr>idempotency_keys :=
        idempotency_keys (tabs w) @ [new_idem_row env claim]\<rparr>
    \<and> seqs w' = seqs w"
    using assms
    by (auto simp: post_claim_def bindP_Inr_iff wrapP_Inr_iff sql_claim_key_def stmt_Inr_iff Let_def
        claim_free_def split: if_splits)
  then show "claim_free (tabs w) claim" "clm_UserID claim \<in> usr_ID ` set (users (tabs w))"
    "1 \<le> char_length (clm_Key claim)" "char_length (clm_Key claim) \<le> 128"
    "tabs w' = (tabs w)\<lparr>idempotency_keys :=
        idempotency_keys (tabs w) @ [new_idem_row env claim]\<rparr>"
    "seqs w' = seqs w"
    by (simp_all add: image_iff) metis
qed

lemma post_mark_reversed_Inr:
  assumes "post_mark_reversed env txn w = (Inr (), w')"
  shows "tabs w' = (tabs w)\<lparr>transactions :=
           mark_original (txn_ReversesID txn) (transactions (tabs w))\<rparr>"
    and "seqs w' = seqs w"
    and "\<And>i. txn_ReversesID txn = Some i \<Longrightarrow>
           \<exists>t \<in> set (transactions (tabs w)). tr_id t = i \<and> tr_status t = TxnPosted"
proof -
  have "tabs w' = (tabs w)\<lparr>transactions :=
           mark_original (txn_ReversesID txn) (transactions (tabs w))\<rparr> \<and> seqs w' = seqs w"
  proof (cases "txn_ReversesID txn")
    case None
    with assms show ?thesis by (simp add: post_mark_reversed_def mark_original_def)
  next
    case (Some i)
    with assms obtain n where "sql_mark_reversed env i w = (Inr n, w')"
      by (auto simp: post_mark_reversed_def bindP_Inr_iff wrapP_Inr_iff split: if_splits)
    with sql_mark_reversed_Inr(2,3) [OF this] Some show ?thesis by (simp add: mark_original_def)
  qed
  then show "tabs w' = (tabs w)\<lparr>transactions :=
           mark_original (txn_ReversesID txn) (transactions (tabs w))\<rparr>" "seqs w' = seqs w"
    by simp_all
  fix i assume "txn_ReversesID txn = Some i"
  with assms obtain n w1 where "sql_mark_reversed env i w = (Inr n, w1)" "n \<noteq> 0"
    by (auto simp: post_mark_reversed_def bindP_Inr_iff wrapP_Inr_iff split: if_splits)
  with sql_mark_reversed_Inr(1)
  have "count_where (\<lambda>r. tr_id r = i \<and> tr_status r = TxnPosted) (transactions (tabs w)) \<noteq> 0"
    by blast
  then show "\<exists>t \<in> set (transactions (tabs w)). tr_id t = i \<and> tr_status t = TxnPosted"
    by (simp add: count_where_0_iff)
qed

lemma post_header_Inr:
  assumes "post_header env txn w = (Inr (tid, at), w')"
  shows "at = env_now env" "seqs w' = seqs w"
    "tabs w' = (tabs w)\<lparr>transactions := transactions (tabs w) @ [header_row env tid txn]\<rparr>"
    "transactions_check (header_row env tid txn) = None"
    "tid \<notin> tr_id ` set (transactions (tabs w))"
    "pred_option (\<lambda>u. u \<in> usr_ID ` set (users (tabs w))) (txn_InitiatedBy txn)"
    "\<And>i. txn_ReversesID txn = Some i \<Longrightarrow> \<forall>t \<in> set (transactions (tabs w)). tr_reverses t \<noteq> Some i"
proof -
  have I: "sql_insert_transaction env (txn_Type txn) (txn_Description txn) (txn_InitiatedBy txn)
      (txn_ReversesID txn) w = (Inr (tid, at), w')"
    using assms by (simp add: post_header_def wrapP_Inr_iff)
  note I' = sql_insert_transaction_Inr [OF I]
  show "at = env_now env" "seqs w' = seqs w"
    "tabs w' = (tabs w)\<lparr>transactions := transactions (tabs w) @ [header_row env tid txn]\<rparr>"
    "transactions_check (header_row env tid txn) = None"
    "tid \<notin> tr_id ` set (transactions (tabs w))"
    using I'(2-6) by (auto simp: header_row_def)
  show "pred_option (\<lambda>u. u \<in> usr_ID ` set (users (tabs w))) (txn_InitiatedBy txn)"
    using I by (auto simp: sql_insert_transaction_def stmt_Inr_iff Let_def new_txn_row_def
        split: option.splits if_splits)
  show "\<And>i. txn_ReversesID txn = Some i \<Longrightarrow> \<forall>t \<in> set (transactions (tabs w)). tr_reverses t \<noteq> Some i"
    using I'(7) by auto
qed

lemma post_finish_Inr:
  assumes "post_finish env claim result w = (Inr (), w')"
  defines "body \<equiv> json_of_stored (toStored result)"
    and "tid \<equiv> txn_ID (pr_Transaction result)"
  shows "\<exists>eid. eid \<notin> ob_event_id ` set (outbox_events (tabs w)) \<and>
    tabs w' = (tabs w)\<lparr>
      idempotency_keys := update_where
        (\<lambda>r. ik_user_id r = clm_UserID claim \<and> ik_key r = clm_Key claim)
        (\<lambda>r. r\<lparr>ik_transaction_id := Some tid, ik_status_code := 201, ik_response_body := body\<rparr>)
        (idempotency_keys (tabs w)),
      outbox_events := outbox_events (tabs w)
        @ [new_outbox_row env (seq_outbox (seqs w) + 1) eid tid body]\<rparr>
    \<and> seqs w' = (seqs w)\<lparr>seq_outbox := seq_outbox (seqs w) + 1\<rparr>"
proof -
  obtain w1 where S: "sql_save_result env tid body (clm_UserID claim) (clm_Key claim) w = (Inr (), w1)"
    and O: "sql_insert_outbox env tid body w1 = (Inr (), w')"
    using assms(1) by (auto simp: post_finish_def Let_def bindP_Inr_iff wrapP_Inr_iff body_def tid_def)
  show ?thesis
    using sql_save_result_Inr [OF S] sql_insert_outbox_Inr [OF O]
    by (intro exI [of _ "env_uuid env (steps w1)"]) simp
qed

definition posted_seqs :: "transaction \<Rightarrow> sequences \<Rightarrow> sequences" where
  "posted_seqs txn sq =
     sq\<lparr>seq_entries := seq_entries sq + int (length (txn_Entries txn)),
        seq_outbox := seq_outbox sq + 1\<rparr>"

lemma LedgerRepo_Post_sound:
  assumes P: "LedgerRepo_Post env txn claim w = (Inr res, w')"
    and D: "distinct (map acc_ID (accounts (tabs w)))" and rng: "amounts_in_range txn"
  obtains tid eid where "post_accepts env tid eid txn claim (tabs w)"
    "tabs w' = posted_tables env tid eid (seqs w) txn claim (tabs w)"
    "res = posted_result env tid (seq_entries (seqs w)) (accounts (tabs w)) txn"
    "seqs w' = posted_seqs txn (seqs w)"
proof -
  let ?T = "tabs w" and ?rv = "txn_ReversesID txn" and ?es = "txn_Entries txn"
  have V: "Transaction_Validate txn = None"
    and X: "in_tx env (\<lambda>e. Wrapf ''commit: %w'' [] (translate e)) (post_body env txn claim) w
            = (Inr res, w')"
    using P by (auto simp: LedgerRepo_Post_def split: option.splits)
  from V rng have valid: "valid_transaction txn" by (simp add: Validate_None_iff)
  then have wf: "distinct (map ent_AccountID ?es)"
    by (simp add: valid_transaction_def well_formed_entries_def)
  from rng have rng': "\<forall>e \<in> set ?es. in_int64 (ent_Amount e)" by (simp add: amounts_in_range_def)
  obtain w0 w6 where w0: "tabs w0 = ?T" "seqs w0 = seqs w"
    and B: "post_body env txn claim w0 = (Inr res, w6)"
    and C: "commit env (tabs w0) w6 = (Inr (), w')"
    using X by (rule in_tx_InrE)
  obtain w1 byID w2 w3 tid ct w4 posted w5 where
    c1: "post_claim env claim w0 = (Inr (), w1)"
    and c2: "post_lock env txn w1 = (Inr byID, w2)"
    and c3: "post_mark_reversed env txn w2 = (Inr (), w3)"
    and c4: "post_header env txn w3 = (Inr (tid, ct), w4)"
    and c5: "post_entries env txn tid byID ?es w4 = (Inr posted, w5)"
    and res: "res = \<lparr> pr_Transaction = txn\<lparr>txn_ID := tid, txn_CreatedAt := ct,
                       txn_Status := TxnPosted\<rparr>, pr_Entries = posted, pr_ViewerAccountID = None \<rparr>"
    and c6: "post_finish env claim res w5 = (Inr (), w6)"
    using B by (auto simp: post_body_def Let_def bindP_Inr_iff)
  note s1 = post_claim_Inr [OF c1, unfolded w0]
  have As1: "accounts (tabs w1) = accounts ?T" using s1(5) by simp
  note s2 = post_lock_Inr [OF c2, unfolded As1, OF D]
  note s3 = post_mark_reversed_Inr [OF c3]
  note s4 = post_header_Inr [OF c4]
  have T2: "transactions (tabs w2) = transactions ?T" using s2(1) s1(5) by simp
  have T3: "transactions (tabs w3) = mark_original ?rv (transactions ?T)" using s3(1) T2 by simp
  have As4: "accounts (tabs w4) = accounts ?T" using s4(3) s3(1) s2(1) As1 by simp
  have q4: "seqs w4 = seqs w" using s4(2) s3(2) s2(2) s1(6) by simp
  note s5 = post_entries_Inr [OF c5, unfolded As4 q4, OF D s2(3) wf rng']
  have T5: "tabs w5 = ?T\<lparr>accounts := map (settle (env_now env) ?es) (accounts ?T),
      transactions := mark_original ?rv (transactions ?T) @ [header_row env tid txn],
      entries := entries ?T @ posted_rows env tid (seq_entries (seqs w)) (accounts ?T) ?es,
      idempotency_keys := idempotency_keys ?T @ [new_idem_row env claim]\<rparr>"
    using s5 s4(3) s3(1) T2 s2(1) s1(5) by simp
  have res': "res = posted_result env tid (seq_entries (seqs w)) (accounts ?T) txn"
    using res s5 s4(1) by (simp add: posted_result_def)
  obtain eid where eid: "eid \<notin> ob_event_id ` set (outbox_events (tabs w5))"
    and T6: "tabs w6 = (tabs w5)\<lparr>
      idempotency_keys := update_where
        (\<lambda>r. ik_user_id r = clm_UserID claim \<and> ik_key r = clm_Key claim)
        (\<lambda>r. r\<lparr>ik_transaction_id := Some (txn_ID (pr_Transaction res)), ik_status_code := 201,
               ik_response_body := json_of_stored (toStored res)\<rparr>)
        (idempotency_keys (tabs w5)),
      outbox_events := outbox_events (tabs w5)
        @ [new_outbox_row env (seq_outbox (seqs w5) + 1) eid (txn_ID (pr_Transaction res))
             (json_of_stored (toStored res))]\<rparr>"
    and q6: "seqs w6 = (seqs w5)\<lparr>seq_outbox := seq_outbox (seqs w5) + 1\<rparr>"
    using post_finish_Inr [OF c6] by blast
  have tid: "txn_ID (pr_Transaction res) = tid" using res by simp
  have q5: "seq_outbox (seqs w5) = seq_outbox (seqs w)" using s5 by simp
  have key: "update_where (\<lambda>r. ik_user_id r = clm_UserID claim \<and> ik_key r = clm_Key claim) f
       (idempotency_keys ?T) = idempotency_keys ?T" for f
    using s1(1) by (auto simp: claim_free_def intro: update_where_none)
  have tabs': "tabs w' = posted_tables env tid eid (seqs w) txn claim ?T"
    using commit_Inr(1) [OF C] T6 T5 key tid q5 res'
    by (simp add: posted_tables_def Let_def completed_claim_def)
  have rev: "reversal_accepts (transactions ?T) ?rv"
  proof (cases ?rv)
    case (Some i)
    have "tr_reverses t \<noteq> Some i" if "t \<in> set (transactions ?T)" for t
      using s4(7) [OF Some] that unfolding T3
      by (metis (no_types, lifting) imageE imageI tr_reverses_image_mark_original)
    with s3(3) [OF Some] Some T2 show ?thesis by (simp add: reversal_accepts_def)
  qed (simp add: reversal_accepts_def)
  have usr: "users (tabs w3) = users ?T" using s3(1) s2(1) s1(5) by simp
  have "outbox_events (tabs w5) = outbox_events ?T" using T5 by simp
  with eid have eid': "eid \<notin> ob_event_id ` set (outbox_events ?T)" by simp
  have acc: "\<forall>e \<in> set ?es. entry_accepts (accounts ?T) e" using s5 by blast
  have hdr: "tid \<notin> tr_id ` set (transactions ?T)"
    "pred_option (\<lambda>u. u \<in> usr_ID ` set (users ?T)) (txn_InitiatedBy txn)"
    using s4(5,6) by (simp_all add: T3 usr)
  have "post_accepts env tid eid txn claim ?T"
    unfolding post_accepts_def
    using valid s1(1-4) acc rev s4(4) hdr eid' by blast
  moreover have "seqs w' = posted_seqs txn (seqs w)"
    using commit_Inr(2) [OF C] q6 s5 by (simp add: posted_seqs_def)
  ultimately show ?thesis using tabs' res' by (intro that) simp_all
qed

end
