(* ===== verification/PostComplete.thy ===== *)
theory PostComplete
  imports PostRefine
begin

text \<open>
  Completeness: without faults, a posting the specification accepts succeeds. One lemma per
  step of \<open>post_body\<close>, each stating that the step returns a value and how many statements
  it executed (the statement number fixes the UUID the database generates); what the step
  did to the tables is given by the \<open>_Inr\<close> lemmas.
\<close>

section \<open>The steps succeed\<close>

lemma post_claim_run:
  assumes "no_faults env" "claim_free (tabs w) claim"
    "clm_UserID claim \<in> usr_ID ` set (users (tabs w))"
    "1 \<le> char_length (clm_Key claim)" "char_length (clm_Key claim) \<le> 128"
  shows "\<exists>w'. post_claim env claim w = (Inr (), w') \<and> steps w' = steps w + 1"
  using assms
  by (auto simp: post_claim_def sql_claim_key_def bindP_def wrapP_def Let_def claim_free_def)

lemma lock_map_total:
  "\<forall>a \<in> set as. la_Status a = AccountActive \<Longrightarrow> \<exists>byID. lock_map as m = Inr byID"
  by (induction as arbitrary: m) auto

lemma entry_acceptsD:
  assumes "entry_accepts As e" "distinct (map acc_ID As)" "a \<in> set As"
    "acc_ID a = ent_AccountID e"
  shows "acc_Status a = AccountActive"
    "in_int64 (acc_Balance a + entry_delta e (acc_NormalBalance a))"
    "in_int64 (acc_Version a + 1)"
    "acc_Type a = AccountUserWallet \<longrightarrow> 0 \<le> acc_Balance a + entry_delta e (acc_NormalBalance a)"
proof -
  from assms(1) obtain b where "b \<in> set As" "acc_ID b = ent_AccountID e"
    and b: "acc_Status b = AccountActive"
    "in_int64 (acc_Balance b + entry_delta e (acc_NormalBalance b))" "in_int64 (acc_Version b + 1)"
    "acc_Type b = AccountUserWallet \<longrightarrow> 0 \<le> acc_Balance b + entry_delta e (acc_NormalBalance b)"
    unfolding entry_accepts_def by blast
  with assms(2-4) have "b = a" by (metis distinct_key_eq)
  with b show "acc_Status a = AccountActive"
    "in_int64 (acc_Balance a + entry_delta e (acc_NormalBalance a))" "in_int64 (acc_Version a + 1)"
    "acc_Type a = AccountUserWallet \<longrightarrow> 0 \<le> acc_Balance a + entry_delta e (acc_NormalBalance a)"
    by simp_all
qed

lemma post_lock_run_known:
  assumes "no_faults env" and D: "distinct (map acc_ID (accounts (tabs w)))"
    and known: "ent_AccountID ` set (txn_Entries txn) \<subseteq> acc_ID ` set (accounts (tabs w))"
  shows "post_lock env txn w =
    (lock_map (map lockedAccount_of (selected (Transaction_AccountIDs txn) (accounts (tabs w)))) Map.empty,
     w\<lparr>steps := Suc (Suc (steps w))\<rparr>)"
proof -
  let ?ids = "Transaction_AccountIDs txn" and ?As = "accounts (tabs w)"
  have "length (selected ?ids ?As) = length ?ids"
    using selected_complete_iff [OF D distinct_AccountIDs] known by simp
  moreover have "sql_lock_accounts env ?ids (w\<lparr>steps := Suc (steps w)\<rparr>)
      = (Inr (map lockedAccount_of (selected ?ids ?As)), w\<lparr>steps := Suc (Suc (steps w))\<rparr>)"
    using assms(1) by (simp add: sql_lock_accounts_def selected_def)
  ultimately show ?thesis
    using assms(1) by (simp add: post_lock_def bindP_def wrapP_def Let_def split: sum.split)
qed

lemma post_lock_run:
  assumes "no_faults env" and D: "distinct (map acc_ID (accounts (tabs w)))"
    and acc: "\<forall>e \<in> set (txn_Entries txn). entry_accepts (accounts (tabs w)) e"
  shows "\<exists>byID w'. post_lock env txn w = (Inr byID, w') \<and> steps w' = steps w + 2"
proof -
  let ?ids = "Transaction_AccountIDs txn" and ?As = "accounts (tabs w)"
  have known: "ent_AccountID ` set (txn_Entries txn) \<subseteq> acc_ID ` set ?As"
    using acc unfolding entry_accepts_def by (metis (no_types, lifting) image_eqI image_subsetI)
  have act: "\<forall>l \<in> set (map lockedAccount_of (selected ?ids ?As)). la_Status l = AccountActive"
  proof
    fix l assume "l \<in> set (map lockedAccount_of (selected ?ids ?As))"
    then obtain a e where "l = lockedAccount_of a" "a \<in> set ?As" "e \<in> set (txn_Entries txn)"
      "acc_ID a = ent_AccountID e" by auto
    moreover from this acc have "entry_accepts ?As e" by blast
    ultimately show "la_Status l = AccountActive" using entry_acceptsD(1) [OF _ D] by simp
  qed
  then obtain byID where "lock_map (map lockedAccount_of (selected ?ids ?As)) Map.empty = Inr byID"
    using lock_map_total [of "map lockedAccount_of (selected ?ids ?As)"] by blast
  then show ?thesis using post_lock_run_known [OF assms(1) D known] by simp
qed

lemma post_mark_reversed_run:
  assumes "no_faults env" "reversal_accepts (transactions (tabs w)) (txn_ReversesID txn)"
  shows "\<exists>w'. post_mark_reversed env txn w = (Inr (), w')
    \<and> steps w' = steps w + (if txn_ReversesID txn = None then 0 else 1)"
proof (cases "txn_ReversesID txn")
  case (Some i)
  let ?p = "\<lambda>r. tr_id r = i \<and> tr_status r = TxnPosted"
  have "count_where ?p (transactions (tabs w)) \<noteq> 0"
    using assms(2) Some by (auto simp: reversal_accepts_def count_where_0_iff)
  moreover have "first_err (\<lambda>r. transactions_status_only r (r\<lparr>tr_status := TxnReversed\<rparr>))
      (filter ?p (transactions (tabs w))) = None"
    by (simp add: transactions_status_only_def)
  ultimately show ?thesis
    using assms(1) Some
    by (simp add: post_mark_reversed_def sql_mark_reversed_def bindP_def wrapP_def Let_def
        del: first_err_None_iff)
qed (simp add: post_mark_reversed_def)

lemma post_header_run:
  assumes "no_faults env" "tid = env_uuid env (steps w)"
    "transactions_check (header_row env tid txn) = None"
    "tid \<notin> tr_id ` set (transactions (tabs w))"
    "pred_option (\<lambda>u. u \<in> usr_ID ` set (users (tabs w))) (txn_InitiatedBy txn)"
    "reversal_accepts Ts (txn_ReversesID txn)"
    "transactions (tabs w) = mark_original (txn_ReversesID txn) Ts"
  shows "\<exists>w'. post_header env txn w = (Inr (tid, env_now env), w') \<and> steps w' = steps w + 1"
proof -
  let ?r = "header_row env tid txn" and ?T = "tabs w"
  have h: "new_txn_row env (env_uuid env (steps w)) (txn_Type txn) (txn_Description txn)
      (txn_InitiatedBy txn) (txn_ReversesID txn) = ?r"
    using assms(2) by (simp add: header_row_def)
  have i: "tr_initiated_by ?r = txn_InitiatedBy txn" "tr_created_at ?r = env_now env"
    by (simp_all add: header_row_def new_txn_row_def)
  have fresh: "\<not> (\<exists>q \<in> set (transactions ?T). tr_id q = tr_id ?r)" using assms(4) by auto
  have u: "\<not> (tr_reverses ?r \<noteq> None \<and> (\<exists>q \<in> set (transactions ?T). tr_reverses q = tr_reverses ?r))"
  proof (cases "txn_ReversesID txn")
    case (Some k)
    then have "Some k \<notin> tr_reverses ` set Ts"
      using assms(6) by (auto simp: reversal_accepts_def)
    then have "Some k \<notin> tr_reverses ` set (transactions ?T)" by (simp add: assms(7))
    with Some show ?thesis by (auto simp: image_iff)
  qed simp
  have fu: "\<not> (tr_initiated_by ?r \<noteq> None \<and> (\<forall>u \<in> set (users ?T). tr_initiated_by ?r \<noteq> Some (usr_ID u)))"
    using assms(5) i(1) by (cases "txn_InitiatedBy txn") auto
  have fr: "\<not> (tr_reverses ?r \<noteq> None \<and>
      (\<forall>q \<in> set (transactions ?T @ [?r]). tr_reverses ?r \<noteq> Some (tr_id q)))"
  proof (cases "txn_ReversesID txn")
    case (Some k)
    then have "k \<in> tr_id ` set Ts" using assms(6) by (auto simp: reversal_accepts_def)
    then have "k \<in> tr_id ` set (transactions ?T)" by (simp add: assms(7))
    with Some show ?thesis by auto
  qed simp
  show ?thesis
    using assms(1,3) fresh u fu fr i
    by (simp add: post_header_def sql_insert_transaction_def wrapP_def Let_def h)
qed

section \<open>The entries\<close>

lemma post_entry_run:
  assumes "no_faults env" and D: "distinct (map acc_ID (accounts (tabs w)))"
    and ok: "accounts_ok (accounts (tabs w))"
    and a: "a \<in> set (accounts (tabs w))" "acc_ID a = ent_AccountID e"
      "byID (ent_AccountID e) = Some (lockedAccount_of a)"
    and acc: "entry_accepts (accounts (tabs w)) e"
    and e: "in_int64 (ent_Amount e)" "0 < ent_Amount e" "Direction_Valid (ent_Direction e)"
    and tid: "tid \<in> tr_id ` set (transactions (tabs w))"
    and new: "\<forall>q \<in> set (entries (tabs w)). \<not> (er_transaction_id q = tid
                \<and> er_account_id q = ent_AccountID e)"
    and room: "seq_entries (seqs w) < int64_max"
  shows "\<exists>p w'. post_entry env txn tid byID e w = (Inr p, w') \<and> steps w' = steps w + 2"
proof -
  let ?As = "accounts (tabs w)" and ?d = "BalanceDelta e (acc_NormalBalance a)"
  let ?a' = "add_to_balance (env_now env) ?d a"
  let ?p = "\<lambda>b. acc_ID b = ent_AccountID e \<and> acc_Version b = acc_Version a
              \<and> acc_Status b = ''ACTIVE''"
  note A = entry_acceptsD [OF acc D a(1,2)]
  have d: "?d = entry_delta e (acc_NormalBalance a)"
    using e by (simp add: BalanceDelta_exact entry_delta_def)
  have dr: "in_int64 ?d" using e(1) by (rule BalanceDelta_in_int64)
  have bal: "in_int64 (acc_Balance a)" and chk: "accounts_check a = None"
    using ok a(1) by (auto simp: accounts_ok_def)
  have sum_ok: "Money_Add (acc_Balance a) ?d = Inr (acc_Balance a + ?d)"
    using A(2) d bal dr by (simp add: Money_Add_cases)
  have wallet: "\<not> (acc_Type a = AccountUserWallet \<and> acc_Balance a + ?d < 0)"
    using A(4) d by auto
  have chk': "accounts_check ?a' = None" using chk A(4) d by (simp add: accounts_check_add)
  have "List.find ?p ?As = Some a"
  proof (cases "List.find ?p ?As")
    case None
    with a A(1) show ?thesis by (auto simp: find_None_iff AccountActive_def)
  next
    case (Some b)
    then have "b \<in> set ?As" "acc_ID b = acc_ID a" using a(2) by (auto dest: find_SomeD)
    with D a(1) Some show ?thesis by (metis distinct_key_eq)
  qed
  then obtain w1 where U: "sql_update_balance env ?d (ent_AccountID e) (acc_Version a) w
      = (Inr (acc_Balance a + ?d), w1)"
    and w1: "steps w1 = steps w + 1" "transactions (tabs w1) = transactions (tabs w)"
      "entries (tabs w1) = entries (tabs w)" "accounts (tabs w1) = update_where ?p (\<lambda>_. ?a') ?As"
      "seqs w1 = seqs w"
    using assms(1) A(2,3) d chk' by (simp add: sql_update_balance_def Let_def)
  have ids: "acc_ID ` set (accounts (tabs w1)) = acc_ID ` set ?As"
    using sql_update_balance_Inr(2) [OF U D] by simp
  have in_ids: "ent_AccountID e \<in> acc_ID ` set (accounts (tabs w1))"
    using a(1,2) unfolding ids by (metis imageI)
  obtain n w2 where I: "sql_insert_entry env tid (ent_AccountID e) (ent_Direction e) (ent_Amount e)
      (acc_Balance a + ?d) w1 = (Inr (n, env_now env), w2)" and w2: "steps w2 = steps w + 2"
  proof -
    have t: "\<not> (\<forall>q \<in> set (transactions (tabs w1)). tr_id q \<noteq> tid)" using tid w1(2) by auto
    have c: "\<not> (\<forall>b \<in> set (accounts (tabs w1)). acc_ID b \<noteq> ent_AccountID e)" using in_ids by auto
    have k: "\<not> (\<exists>q \<in> set (entries (tabs w1)). er_transaction_id q = tid
               \<and> er_account_id q = ent_AccountID e)" using new w1(3) by auto
    have dv: "ent_Direction e \<in> {''DEBIT'', ''CREDIT''}"
      using e(3) by (auto simp: Direction_Valid_def DirectionDebit_def DirectionCredit_def)
    have "\<exists>n w2. sql_insert_entry env tid (ent_AccountID e) (ent_Direction e) (ent_Amount e)
      (acc_Balance a + ?d) w1 = (Inr (n, env_now env), w2) \<and> steps w2 = steps w1 + 1"
      using assms(1) t c k dv e(2) room w1(5)
      by (simp add: sql_insert_entry_def Let_def new_entry_row_def)
    with w1(1) show ?thesis by (auto intro: that)
  qed
  show ?thesis
    unfolding post_entry_def Let_def a(3) option.case la_simps sum_ok sum.case
    using wallet w2 by (simp add: bindP_def wrapP_def U I)
qed

lemma post_entries_run:
  assumes "no_faults env" and "accounts_ok (accounts (tabs w))"
    and "locked_match byID (accounts (tabs w)) es"
    and "\<forall>e \<in> set es. entry_accepts (accounts (tabs w)) e"
    and "well_formed_entries es" "\<forall>e \<in> set es. in_int64 (ent_Amount e)"
    and "tid \<in> tr_id ` set (transactions (tabs w))"
    and "\<forall>q \<in> set (entries (tabs w)). \<not> (er_transaction_id q = tid
           \<and> er_account_id q \<in> ent_AccountID ` set es)"
    and "seq_entries (seqs w) + int (length es) \<le> int64_max"
  shows "\<exists>ps w'. post_entries env txn tid byID es w = (Inr ps, w')
    \<and> steps w' = steps w + 2 * length es"
  using assms(2-)
proof (induction es arbitrary: w)
  case (Cons e es)
  let ?As = "accounts (tabs w)"
  have D: "distinct (map acc_ID ?As)" using Cons.prems(1) by (simp add: accounts_ok_def)
  from Cons.prems(2) obtain a where a: "a \<in> set ?As" "acc_ID a = ent_AccountID e"
    "byID (ent_AccountID e) = Some (lockedAccount_of a)" by (auto simp: locked_match_def)
  have e: "in_int64 (ent_Amount e)" "0 < ent_Amount e" "Direction_Valid (ent_Direction e)"
    and new: "ent_AccountID e \<notin> ent_AccountID ` set es" and wf: "well_formed_entries es"
    using Cons.prems(4,5) by (auto simp: well_formed_entries_Cons)
  have acc: "entry_accepts ?As e" using Cons.prems(3) by simp
  have room: "seq_entries (seqs w) < int64_max" using Cons.prems(8) by simp
  obtain p w1 where P: "post_entry env txn tid byID e w = (Inr p, w1)"
    and s1: "steps w1 = steps w + 2"
    using post_entry_run [where byID = byID and txn = txn, OF assms(1) D Cons.prems(1) a acc e Cons.prems(6)
        _ room] Cons.prems(7) by auto
  note E = post_entry_Inr [OF P D a e(1)]
  let ?As1 = "apply_delta (env_now env) (ent_AccountID e) (entry_delta e (acc_NormalBalance a)) ?As"
  have As1: "accounts (tabs w1) = ?As1" using E(2) by simp
  have single: "?As1 = map (settle (env_now env) [e]) ?As"
    using settle_Cons [OF D a(1,2), of "[]" "env_now env"] by (simp add: map_idI)
  have ok1: "accounts_ok (accounts (tabs w1))"
    unfolding As1 single using Cons.prems(1) acc by (intro settle_accounts_ok) auto
  have "locked_match byID ?As es" using Cons.prems(2) by (simp add: locked_match_def)
  then have L1: "locked_match byID (accounts (tabs w1)) es"
    unfolding As1 using new by (rule locked_match_apply_delta)
  have acc1: "\<forall>e' \<in> set es. entry_accepts (accounts (tabs w1)) e'"
    unfolding As1 using Cons.prems(3) new entry_accepts_apply_delta
    by (metis imageI list.set_intros(2))
  have t1: "tid \<in> tr_id ` set (transactions (tabs w1))" using Cons.prems(6) E(2) by simp
  have n1: "\<forall>q \<in> set (entries (tabs w1)). \<not> (er_transaction_id q = tid
           \<and> er_account_id q \<in> ent_AccountID ` set es)"
    using Cons.prems(7) new E(2) by (auto simp: new_entry_row_def)
  have r1: "seq_entries (seqs w1) + int (length es) \<le> int64_max"
    using Cons.prems(8) E(3) by simp
  from Cons.IH [OF ok1 L1 acc1 wf _ t1 n1 r1] Cons.prems(5) obtain ps w' where
    "post_entries env txn tid byID es w1 = (Inr ps, w')" "steps w' = steps w1 + 2 * length es"
    by auto
  with P s1 show ?case by (simp add: bindP_def)
qed simp

section \<open>The whole posting\<close>

lemma post_finish_run:
  assumes "no_faults env" "env_uuid env (steps w + 1) \<notin> ob_event_id ` set (outbox_events (tabs w))"
    "seq_outbox (seqs w) < int64_max"
  shows "\<exists>w'. post_finish env claim result w = (Inr (), w')"
proof -
  let ?body = "json_of_stored (toStored result)" and ?tid = "txn_ID (pr_Transaction result)"
  obtain w1 where S: "sql_save_result env ?tid ?body (clm_UserID claim) (clm_Key claim) w = (Inr (), w1)"
    and w1: "steps w1 = steps w + 1" "outbox_events (tabs w1) = outbox_events (tabs w)"
      "seqs w1 = seqs w"
    using assms(1) by (simp add: sql_save_result_def Let_def)
  have "\<not> (\<exists>q \<in> set (outbox_events (tabs w1)). ob_event_id q = env_uuid env (steps w1))"
    using assms(2) w1 by (simp add: image_iff) metis
  then have "\<exists>w'. sql_insert_outbox env ?tid ?body w1 = (Inr (), w')"
    using assms(1,3) w1(3) by (simp add: sql_insert_outbox_def Let_def new_outbox_row_def)
  then obtain w' where "sql_insert_outbox env ?tid ?body w1 = (Inr (), w')" by blast
  with S show ?thesis by (simp add: post_finish_def Let_def bindP_def wrapP_def)
qed

text \<open>The statements whose generated UUIDs become the transaction id and the event id.\<close>

definition post_txn_stmt :: "pg \<Rightarrow> transaction \<Rightarrow> nat" where
  "post_txn_stmt w txn = steps w + 4 + (if txn_ReversesID txn = None then 0 else 1)"

definition post_event_stmt :: "pg \<Rightarrow> transaction \<Rightarrow> nat" where
  "post_event_stmt w txn = post_txn_stmt w txn + 2 * length (txn_Entries txn) + 2"

lemma commit_run:
  assumes "no_faults env"
    and es: "entries (tabs w) = entries t0 @ posted_rows env tid n As es"
    and old: "\<forall>r \<in> set (entries t0). er_transaction_id r \<noteq> tid"
    and bal: "side_total DirectionDebit es = side_total DirectionCredit es"
      "in_int64 (side_total DirectionDebit es)"
  shows "\<exists>w'. commit env t0 w = (Inr (), w')"
proof -
  have "row_total d tid (entries (tabs w)) = side_total d es" for d
    using old by (simp add: es row_total_append row_total_rows row_total_absent)
  then have "assert_transaction_balanced (entries (tabs w)) tid = None"
    using bal by (simp add: assert_transaction_balanced_def Let_def)
  moreover have "er_transaction_id r = tid"
    if "r \<in> set (drop (length (entries t0)) (entries (tabs w)))" for r
    using that by (auto simp: es dest: posted_rowsD)
  ultimately have "first_err (\<lambda>r. assert_transaction_balanced (entries (tabs w)) (er_transaction_id r))
      (drop (length (entries t0)) (entries (tabs w))) = None" by simp
  with assms(1) show ?thesis by (simp add: commit_def del: first_err_None_iff)
qed

lemma in_tx_run:
  assumes "no_faults env" "body (w\<lparr>steps := Suc (steps w)\<rparr>) = (Inr r, w1)"
    "commit env (tabs w) w1 = (Inr (), w')"
  shows "in_tx env ce body w = (Inr r, w')"
  using assms by (simp add: in_tx_def bindP_def wrapP_def)

lemma LedgerRepo_Post_complete:
  assumes nf: "no_faults env" and inv: "ledger_inv (tabs w)"
    and rng: "amounts_in_range txn"
    and acc: "post_accepts env (env_uuid env (post_txn_stmt w txn))
                (env_uuid env (post_event_stmt w txn)) txn claim (tabs w)"
    and room: "seq_entries (seqs w) + int (length (txn_Entries txn)) \<le> int64_max"
      "seq_outbox (seqs w) < int64_max"
  shows "\<exists>res w'. LedgerRepo_Post env txn claim w = (Inr res, w')"
proof -
  let ?T = "tabs w" and ?es = "txn_Entries txn" and ?tid = "env_uuid env (post_txn_stmt w txn)"
  let ?rv = "txn_ReversesID txn"
  define w0 where "w0 = w\<lparr>steps := Suc (steps w)\<rparr>"
  have w0: "tabs w0 = ?T" "steps w0 = steps w + 1" by (simp_all add: w0_def)
  have valid: "valid_transaction txn" and wf: "well_formed_entries ?es"
    and bal: "side_total DirectionDebit ?es = side_total DirectionCredit ?es"
      "in_int64 (side_total DirectionDebit ?es)"
    using acc by (auto simp: post_accepts_def valid_transaction_def)
  have rng': "\<forall>e \<in> set ?es. in_int64 (ent_Amount e)" using rng by (simp add: amounts_in_range_def)
  have okA: "accounts_ok (accounts ?T)" and okE: "entries_ok (accounts ?T) (transactions ?T) (entries ?T)"
    using inv by (auto simp: ledger_inv_def)
  have D: "distinct (map acc_ID (accounts ?T))" using okA by (simp add: accounts_ok_def)
  have EA: "\<forall>e \<in> set ?es. entry_accepts (accounts ?T) e"
    and RA: "reversal_accepts (transactions ?T) ?rv"
    and tid: "?tid \<notin> tr_id ` set (transactions ?T)"
    and chk: "transactions_check (header_row env ?tid txn) = None"
    and init: "pred_option (\<lambda>u. u \<in> usr_ID ` set (users ?T)) (txn_InitiatedBy txn)"
    and eid: "env_uuid env (post_event_stmt w txn) \<notin> ob_event_id ` set (outbox_events ?T)"
    using acc by (simp_all add: post_accepts_def)
  have old: "er_transaction_id r \<noteq> ?tid" if "r \<in> set (entries ?T)" for r
    using okE that tid unfolding entries_ok_def by metis
  obtain w1 where c1: "post_claim env claim w0 = (Inr (), w1)" and n1: "steps w1 = steps w + 2"
    using post_claim_run [OF nf, of w0 claim] acc w0 by (auto simp: post_accepts_def)
  have t1: "tabs w1 = ?T\<lparr>idempotency_keys := idempotency_keys ?T @ [new_idem_row env claim]\<rparr>"
    using post_claim_Inr(5) [OF c1] w0 by simp
  have A1: "accounts (tabs w1) = accounts ?T" using t1 by simp
  obtain byID w2 where c2: "post_lock env txn w1 = (Inr byID, w2)" and n2: "steps w2 = steps w + 4"
    using post_lock_run [OF nf, of w1 txn, unfolded A1, OF D EA] n1 by auto
  note L = post_lock_Inr [OF c2, unfolded A1, OF D]
  have t2: "transactions (tabs w2) = transactions ?T" using L(1) t1 by simp
  obtain w3 where c3: "post_mark_reversed env txn w2 = (Inr (), w3)"
    and n3: "steps w3 = post_txn_stmt w txn"
    using post_mark_reversed_run [OF nf, of w2 txn, unfolded t2, OF RA] n2
    by (auto simp: post_txn_stmt_def)
  note t3 = post_mark_reversed_Inr(1) [OF c3]
  have tr3: "transactions (tabs w3) = mark_original ?rv (transactions ?T)" using t3 t2 by simp
  have u3: "users (tabs w3) = users ?T" using t3 L(1) t1 by simp
  obtain w4 where c4: "post_header env txn w3 = (Inr (?tid, env_now env), w4)"
    and n4: "steps w4 = post_txn_stmt w txn + 1"
    using post_header_run [OF nf _ chk _ _ RA tr3] tid init n3 tr3 u3 by auto
  note t4 = post_header_Inr(3) [OF c4]
  have q4: "seqs w4 = seqs w"
    using post_header_Inr(2) [OF c4] post_mark_reversed_Inr(2) [OF c3] L(2) post_claim_Inr(6) [OF c1]
    by (simp add: w0_def)
  have A4: "accounts (tabs w4) = accounts ?T" "entries (tabs w4) = entries ?T"
    "outbox_events (tabs w4) = outbox_events ?T"
    using t4 t3 L(1) t1 by simp_all
  have T4: "?tid \<in> tr_id ` set (transactions (tabs w4))" using t4 by simp
  have N4: "\<forall>q \<in> set (entries (tabs w4)). \<not> (er_transaction_id q = ?tid
           \<and> er_account_id q \<in> ent_AccountID ` set ?es)" using old by (simp add: A4)
  obtain ps w5 where c5: "post_entries env txn ?tid byID ?es w4 = (Inr ps, w5)"
    and n5: "steps w5 = post_txn_stmt w txn + 1 + 2 * length ?es"
    using post_entries_run [where w = w4 and byID = byID and tid = ?tid and txn = txn,
        unfolded A4(1) q4, OF nf okA L(3) EA wf rng' T4 N4 room(1)] n4 by auto
  have wf': "distinct (map ent_AccountID ?es)" using wf by (simp add: well_formed_entries_def)
  note t5 = post_entries_Inr [OF c5, unfolded A4, OF D L(3) wf' rng']
  let ?res = "\<lparr> pr_Transaction = txn\<lparr>txn_ID := ?tid, txn_CreatedAt := env_now env,
                 txn_Status := TxnPosted\<rparr>, pr_Entries = ps, pr_ViewerAccountID = None \<rparr>"
  have "steps w5 + 1 = post_event_stmt w txn" using n5 by (simp add: post_event_stmt_def)
  moreover have "outbox_events (tabs w5) = outbox_events ?T" using t5 A4 by simp
  moreover have "seq_outbox (seqs w5) < int64_max" using t5 q4 room(2) by simp
  ultimately obtain w6 where c6: "post_finish env claim ?res w5 = (Inr (), w6)"
    using post_finish_run [OF nf, of w5 claim ?res] eid by auto
  have B: "post_body env txn claim w0 = (Inr ?res, w6)"
    using c1 c2 c3 c4 c5 c6 by (simp add: post_body_def bindP_def Let_def)
  have "entries (tabs w6) = entries (tabs w5)" using post_finish_Inr [OF c6] by auto
  also have "\<dots> = entries ?T @ posted_rows env ?tid (seq_entries (seqs w4)) (accounts ?T) ?es"
    using t5 by simp
  finally obtain w' where "commit env ?T w6 = (Inr (), w')"
    using commit_run [OF nf _ _ bal, of w6 ?T] old by blast
  then have "in_tx env ce (post_body env txn claim) w = (Inr ?res, w')" for ce
    using in_tx_run [OF nf] B by (simp add: w0_def)
  moreover have "Transaction_Validate txn = None" using valid rng by (simp add: Validate_None_iff)
  ultimately show ?thesis by (simp add: LedgerRepo_Post_def)
qed

end
