(* ===== verification/RepoFacts.thy ===== *)
theory RepoFacts
  imports PostComplete Repos
begin

text \<open>
  What the repositories' programs do to the database, for any faults: no program ever takes
  an identity sequence back (\<open>grows\<close>, also when a transaction rolls back), and the writing
  ones change the tables in the way their \<open>_effect\<close> lemmas say.
\<close>

section \<open>Sequences only grow\<close>

definition seqs_ok :: "sequences \<Rightarrow> bool" where
  "seqs_ok q \<longleftrightarrow>
     seq_accounts q \<le> int64_max \<and> seq_entries q \<le> int64_max \<and> seq_outbox q \<le> int64_max
     \<and> seq_users q \<le> int64_max \<and> seq_tokens q \<le> int64_max"

definition seq_le :: "sequences \<Rightarrow> sequences \<Rightarrow> bool" where
  "seq_le p q \<longleftrightarrow>
     seq_accounts p \<le> seq_accounts q \<and> seq_entries p \<le> seq_entries q
     \<and> seq_outbox p \<le> seq_outbox q \<and> seq_users p \<le> seq_users q \<and> seq_tokens p \<le> seq_tokens q
     \<and> (seqs_ok p \<longrightarrow> seqs_ok q)"

lemma seq_le_refl [simp]: "seq_le p p"
  by (simp add: seq_le_def)

lemma seq_le_trans: "\<lbrakk>seq_le p q; seq_le q r\<rbrakk> \<Longrightarrow> seq_le p r"
  by (auto simp: seq_le_def)

definition grows :: "(pg, 'a) prog \<Rightarrow> bool" where
  "grows m \<longleftrightarrow> (\<forall>w r w'. m w = (r, w') \<longrightarrow> seq_le (seqs w) (seqs w'))"

named_theorems grows_intros \<open>programs that never take a sequence back\<close>

lemma growsD: "\<lbrakk>grows m; m w = (r, w')\<rbrakk> \<Longrightarrow> seq_le (seqs w) (seqs w')"
  by (simp add: grows_def)

lemma grows_retP [grows_intros]: "grows (retP a)"
  by (simp add: grows_def)

lemma grows_failP [grows_intros]: "grows (failP e)"
  by (simp add: grows_def)

lemma grows_Pair [grows_intros]: "grows (Pair r)"
  by (simp add: grows_def)

lemma grows_wrapP [grows_intros]: "grows m \<Longrightarrow> grows (wrapP f m)"
  unfolding grows_def by (metis Inl_Inr_False old.sum.exhaust wrapP_Inl_iff wrapP_Inr_iff)

lemma grows_bindP [grows_intros]:
  assumes "grows m" "\<And>a. grows (k a)"
  shows "grows (bindP m k)"
  unfolding grows_def
proof (intro allI impI)
  fix w r w' assume B: "bindP m k w = (r, w')"
  obtain q w1 where M: "m w = (q, w1)" by fastforce
  from growsD [OF assms(1) M] have le: "seq_le (seqs w) (seqs w1)" .
  show "seq_le (seqs w) (seqs w')"
  proof (cases q)
    case (Inl e)
    with B M le show ?thesis by (simp add: bindP_def)
  next
    case (Inr a)
    with B M have "k a w1 = (r, w')" by (simp add: bindP_def)
    from seq_le_trans [OF le growsD [OF assms(2) this]] show ?thesis .
  qed
qed

lemma grows_stmt [grows_intros]:
  assumes "\<And>k w r w'. f k w = (r, w') \<Longrightarrow> seq_le (seqs w) (seqs w')"
  shows "grows (stmt env f)"
  unfolding grows_def
proof (intro allI impI)
  fix w r w' assume "stmt env f w = (r, w')"
  then show "seq_le (seqs w) (seqs w')"
    using assms [of "steps w" "w\<lparr>steps := Suc (steps w)\<rparr>" r w']
    by (auto simp: stmt_def Let_def split: option.splits)
qed

lemma grows_round_trip [grows_intros]: "grows (round_trip env)"
  unfolding round_trip_def by (intro grows_intros) simp

lemma grows_commit [grows_intros]: "grows (commit env t0)"
  unfolding commit_def by (intro grows_intros) (auto split: option.splits)

lemma grows_in_tx [grows_intros]:
  assumes "grows body"
  shows "grows (in_tx env ce body)"
  unfolding grows_def
proof (intro allI impI)
  fix w r w' assume T: "in_tx env ce body w = (r, w')"
  obtain q w1 where R: "round_trip env w = (q, w1)" by fastforce
  have le: "seq_le (seqs w) (seqs w1)" by (rule growsD [OF grows_round_trip R])
  let ?m = "bindP body (\<lambda>r. bindP (wrapP ce (commit env (tabs w1))) (\<lambda>_. retP r))"
  obtain p w2 where B: "?m w1 = (p, w2)" by fastforce
  have "grows ?m" using assms by (intro grows_intros)
  from growsD [OF this B] have "seq_le (seqs w1) (seqs w2)" .
  with T R B seq_le_trans [OF le this] le show "seq_le (seqs w) (seqs w')"
    by (auto simp: in_tx_def split: sum.splits)
qed

lemma grows_sql_post [grows_intros]:
  "grows (sql_claim_key env claim)" "grows (sql_lock_accounts env ids)"
  "grows (sql_mark_reversed env i)" "grows (sql_insert_transaction env typ desc init rv)"
  "grows (sql_update_balance env delta n v)" "grows (sql_insert_entry env tid n dir am after)"
  "grows (sql_save_result env tid body u key)" "grows (sql_insert_outbox env tid body)"
  unfolding sql_claim_key_def sql_lock_accounts_def sql_mark_reversed_def
    sql_insert_transaction_def sql_update_balance_def sql_insert_entry_def sql_save_result_def
    sql_insert_outbox_def
  by (intro grows_intros; auto simp: Let_def seq_le_def seqs_ok_def split: option.splits if_splits)+

lemma grows_post_entry [grows_intros]: "grows (post_entry env txn tid byID e)"
  unfolding post_entry_def Let_def
  by (auto intro!: grows_intros split: sum.split option.split)

lemma grows_post_entries [grows_intros]: "grows (post_entries env txn tid byID es)"
  by (induction es) (auto intro!: grows_intros)

lemma grows_LedgerRepo_Post [grows_intros]: "grows (LedgerRepo_Post env txn claim)"
  unfolding LedgerRepo_Post_def post_body_def post_claim_def post_lock_def post_mark_reversed_def
    post_header_def post_finish_def Let_def
  by (auto intro!: grows_intros split: option.split sum.split prod.split)

section \<open>Registration\<close>

lemma sql_insert_wallet_Inr:
  assumes "sql_insert_wallet env u w = (Inr a, w')"
  shows "\<exists>i. a = new_wallet_row env (seq_accounts (seqs w) + 1) i u
    \<and> i \<notin> acc_PublicID ` set (accounts (tabs w))"
    and "acc_ID a \<notin> acc_ID ` set (accounts (tabs w))" "accounts_check a = None"
    and "\<forall>b \<in> set (accounts (tabs w)). acc_UserID b = Some u \<longrightarrow> acc_Type b \<noteq> AccountUserWallet"
    and "u \<in> usr_ID ` set (users (tabs w))"
    and "tabs w' = (tabs w)\<lparr>accounts := accounts (tabs w) @ [a]\<rparr>"
    and "seqs w' = (seqs w)\<lparr>seq_accounts := acc_ID a\<rparr>"
proof -
  have *: "(\<exists>i. a = new_wallet_row env (seq_accounts (seqs w) + 1) i u
      \<and> (\<forall>b \<in> set (accounts (tabs w)). acc_PublicID b \<noteq> i))
    \<and> (\<forall>b \<in> set (accounts (tabs w)). acc_ID b \<noteq> acc_ID a) \<and> accounts_check a = None
    \<and> (\<forall>b \<in> set (accounts (tabs w)). acc_UserID b = Some u \<longrightarrow> acc_Type b \<noteq> AccountUserWallet)
    \<and> (\<exists>v \<in> set (users (tabs w)). usr_ID v = u)
    \<and> tabs w' = (tabs w)\<lparr>accounts := accounts (tabs w) @ [a]\<rparr>
    \<and> seqs w' = (seqs w)\<lparr>seq_accounts := acc_ID a\<rparr>"
    using assms
    by (auto simp: sql_insert_wallet_def stmt_Inr_iff Let_def new_wallet_row_def
        AccountUserWallet_def split: option.splits if_splits)
  then show "\<exists>i. a = new_wallet_row env (seq_accounts (seqs w) + 1) i u
      \<and> i \<notin> acc_PublicID ` set (accounts (tabs w))"
    "acc_ID a \<notin> acc_ID ` set (accounts (tabs w))" "accounts_check a = None"
    "\<forall>b \<in> set (accounts (tabs w)). acc_UserID b = Some u \<longrightarrow> acc_Type b \<noteq> AccountUserWallet"
    "u \<in> usr_ID ` set (users (tabs w))"
    "tabs w' = (tabs w)\<lparr>accounts := accounts (tabs w) @ [a]\<rparr>"
    "seqs w' = (seqs w)\<lparr>seq_accounts := acc_ID a\<rparr>"
    by (force simp: image_iff)+
qed

lemma sql_insert_wallet_Inl: "sql_insert_wallet env u w = (Inl e, w') \<Longrightarrow> tabs w' = tabs w"
  by (auto simp: sql_insert_wallet_def stmt_Inl_iff Let_def split: option.splits if_splits)

lemma sql_insert_user_Inr:
  assumes "sql_insert_user env u w = (Inr v, w')"
  shows "\<exists>i. v = new_user_row env (seq_users (seqs w) + 1) i u"
    and "\<forall>x \<in> set (users (tabs w)). usr_ID x \<noteq> usr_ID v
           \<and> env_lower env (usr_Email x) \<noteq> env_lower env (usr_Email v)"
    and "tabs w' = (tabs w)\<lparr>users := users (tabs w) @ [v]\<rparr>"
    and "seqs w' = (seqs w)\<lparr>seq_users := usr_ID v\<rparr>"
  using assms
  by (auto simp: sql_insert_user_def stmt_Inr_iff Let_def new_user_row_def
      split: option.splits if_splits)

lemma CreateWithWallet_Inr:
  assumes "UserRepo_CreateWithWallet env u w = (Inr (v, a), w')"
  shows "\<exists>i j. v = new_user_row env (seq_users (seqs w) + 1) i u
      \<and> a = new_wallet_row env (seq_accounts (seqs w) + 1) j (usr_ID v)
      \<and> j \<notin> acc_PublicID ` set (accounts (tabs w))"
    and "\<forall>x \<in> set (users (tabs w)). usr_ID x \<noteq> usr_ID v
           \<and> env_lower env (usr_Email x) \<noteq> env_lower env (usr_Email v)"
    and "acc_ID a \<notin> acc_ID ` set (accounts (tabs w))" "accounts_check a = None"
    and "\<forall>b \<in> set (accounts (tabs w)). acc_UserID b = Some (usr_ID v) \<longrightarrow> acc_Type b \<noteq> AccountUserWallet"
    and "tabs w' = (tabs w)\<lparr>users := users (tabs w) @ [v], accounts := accounts (tabs w) @ [a]\<rparr>"
    and "seqs w' = (seqs w)\<lparr>seq_users := usr_ID v, seq_accounts := acc_ID a\<rparr>"
proof -
  obtain w0 w3 where w0: "tabs w0 = tabs w" "seqs w0 = seqs w"
    and B: "bindP (wrapP (Wrapf ''membuat pengguna: %w'' []) (scanUser (sql_insert_user env u)))
          (\<lambda>created.
        bindP (wrapP (\<lambda>err. Wrapf ''membuat dompet: %w'' [] (translate err))
                 (scanAccount (sql_insert_wallet env (usr_ID created))))
          (\<lambda>wallet. retP (created, wallet))) w0 = (Inr (v, a), w3)"
    and C: "commit env (tabs w0) w3 = (Inr (), w')"
    using assms unfolding UserRepo_CreateWithWallet_def by (rule in_tx_InrE)
  from B obtain w1 where U: "sql_insert_user env u w0 = (Inr v, w1)"
    and W: "sql_insert_wallet env (usr_ID v) w1 = (Inr a, w3)"
    by (auto simp: bindP_Inr_iff wrapP_Inr_iff scanUser_def scanAccount_def)
  note U' = sql_insert_user_Inr [OF U, unfolded w0] and W' = sql_insert_wallet_Inr [OF W]
  show "\<exists>i j. v = new_user_row env (seq_users (seqs w) + 1) i u
      \<and> a = new_wallet_row env (seq_accounts (seqs w) + 1) j (usr_ID v)
      \<and> j \<notin> acc_PublicID ` set (accounts (tabs w))"
    using U'(1,3,4) W'(1) by simp
  show "\<forall>x \<in> set (users (tabs w)). usr_ID x \<noteq> usr_ID v
           \<and> env_lower env (usr_Email x) \<noteq> env_lower env (usr_Email v)" by (rule U'(2))
  show "acc_ID a \<notin> acc_ID ` set (accounts (tabs w))" "accounts_check a = None"
    "\<forall>b \<in> set (accounts (tabs w)). acc_UserID b = Some (usr_ID v) \<longrightarrow> acc_Type b \<noteq> AccountUserWallet"
    using W'(2,3,4) U'(3) by simp_all
  show "tabs w' = (tabs w)\<lparr>users := users (tabs w) @ [v], accounts := accounts (tabs w) @ [a]\<rparr>"
    using W'(6) U'(3) commit_Inr(1) [OF C] by simp
  show "seqs w' = (seqs w)\<lparr>seq_users := usr_ID v, seq_accounts := acc_ID a\<rparr>"
    using W'(7) U'(4) commit_Inr(2) [OF C] by simp
qed

lemma grows_register [grows_intros]:
  "grows (sql_insert_user env u)" "grows (sql_insert_wallet env i)"
  "grows (UserRepo_CreateWithWallet env u)" "grows (AccountRepo_CreateWallet env i)"
proof -
  show g: "grows (sql_insert_user env u)" "grows (sql_insert_wallet env i)" for u i
    unfolding sql_insert_user_def sql_insert_wallet_def
    by (intro grows_intros; auto simp: Let_def seq_le_def seqs_ok_def split: option.splits if_splits)+
  show "grows (UserRepo_CreateWithWallet env u)" "grows (AccountRepo_CreateWallet env i)"
    unfolding UserRepo_CreateWithWallet_def AccountRepo_CreateWallet_def scanUser_def scanAccount_def
    by (auto intro!: grows_intros g)
qed

section \<open>Tokens and retention\<close>

lemma grows_tokens [grows_intros]:
  "grows (RefreshTokenRepo_Store env u h t)" "grows (RefreshTokenRepo_Find env h)"
  "grows (RefreshTokenRepo_Revoke env h)" "grows (RefreshTokenRepo_RevokeAllForUser env u)"
  "grows (IdempotencyRepo_DeleteOlderThan env days)"
  unfolding RefreshTokenRepo_Store_def RefreshTokenRepo_Find_def RefreshTokenRepo_Revoke_def
    RefreshTokenRepo_RevokeAllForUser_def IdempotencyRepo_DeleteOlderThan_def
  by (auto intro!: grows_intros simp: Let_def seq_le_def seqs_ok_def split: option.splits if_splits)

text \<open>The programs of token_repo.go change no table but their own.\<close>

definition tokens_only :: "tables \<Rightarrow> tables \<Rightarrow> bool" where
  "tokens_only T T' \<longleftrightarrow> T' = T\<lparr>refresh_tokens := refresh_tokens T'\<rparr>"

lemma tokens_only_effect:
  "RefreshTokenRepo_Store env u h t w = (r, w') \<Longrightarrow> tokens_only (tabs w) (tabs w')"
  "RefreshTokenRepo_Revoke env h w = (r, w') \<Longrightarrow> tokens_only (tabs w) (tabs w')"
  "RefreshTokenRepo_RevokeAllForUser env u w = (r, w') \<Longrightarrow> tokens_only (tabs w) (tabs w')"
  by (auto simp: RefreshTokenRepo_Store_def RefreshTokenRepo_Revoke_def
      RefreshTokenRepo_RevokeAllForUser_def tokens_only_def wrapP_def bindP_def stmt_def Let_def
      split: option.splits if_splits prod.splits sum.splits)

lemma DeleteOlderThan_effect:
  "IdempotencyRepo_DeleteOlderThan env days w = (r, w') \<Longrightarrow>
   tabs w' = tabs w \<or> (\<exists>p. tabs w' =
     (tabs w)\<lparr>idempotency_keys := filter p (idempotency_keys (tabs w))\<rparr>)"
  by (auto simp: IdempotencyRepo_DeleteOlderThan_def wrapP_def stmt_def Let_def
      split: option.splits)

end
