(* ===== verification/Outbox.thy ===== *)
theory Outbox
  imports Database
begin

text \<open>
  internal/platform/outbox/relay.go: the relay that publishes the outbox rows to RabbitMQ.
  The broker is not the program's code: \<open>out n\<close> is the outcome of the n-th publication
  (refused locally, no confirmation, negative or positive confirmation), and a publication
  whose confirmation is lost may or may not have reached the broker. \<open>rw_broker\<close> collects
  what the broker has confirmed or taken. \<open>skip\<close> holds the rows another relay has locked (\<open>SKIP LOCKED\<close>).
\<close>

record out_row =
  or_ID :: int64
  or_EventID :: uuid
  or_EventType :: string
  or_Payload :: json
  or_CreatedAt :: time

record message =
  msg_Exchange :: string
  msg_RoutingKey :: string
  msg_MessageId :: uuid         \<comment> \<open>the text of the event id\<close>
  msg_Type :: string
  msg_Timestamp :: time
  msg_ContentType :: string
  msg_DeliveryMode :: nat       \<comment> \<open>2 is \<open>amqp.Persistent\<close>\<close>
  msg_Mandatory :: bool
  msg_Immediate :: bool
  msg_Body :: json

datatype outcome = PublishFailed err | ConfirmLost err bool | Nacked | Acked

record relay_world =
  rw_pg :: pg
  rw_broker :: "message list"
  rw_sends :: nat

definition lift_pg :: "(pg, 'a) prog \<Rightarrow> (relay_world, 'a) prog" where
  "lift_pg m = (\<lambda>rw. case m (rw_pg rw) of (r, w) \<Rightarrow> (r, rw\<lparr>rw_pg := w\<rparr>))"

definition ExchangeLedgerEvents :: string where "ExchangeLedgerEvents = ''ledger.events''"

definition message_of :: "out_row \<Rightarrow> message" where
  "message_of e =
     \<lparr> msg_Exchange = ExchangeLedgerEvents, msg_RoutingKey = or_EventType e,
       msg_MessageId = or_EventID e, msg_Type = or_EventType e, msg_Timestamp = or_CreatedAt e,
       msg_ContentType = ''application/json'', msg_DeliveryMode = 2, msg_Mandatory = True, msg_Immediate = False,
       msg_Body = or_Payload e \<rparr>"

text \<open>
  A positive confirmation says that the broker has taken the message over. RabbitMQ gives it also
  for a mandatory message that no queue is bound for, after it has returned the message; the
  program does not listen for returns (\<open>NotifyReturn\<close>), so that \<open>publish\<close> cannot tell the two
  apart. Which queues a message at the broker reaches is \<open>delivered_to\<close> of App.
\<close>

definition publish :: "(nat \<Rightarrow> outcome) \<Rightarrow> out_row \<Rightarrow> (relay_world, unit) prog" where
  "publish out e rw =
     (let rw1 = rw\<lparr>rw_sends := Suc (rw_sends rw)\<rparr>;
          taken = rw1\<lparr>rw_broker := rw_broker rw @ [message_of e]\<rparr>
      in case out (rw_sends rw) of
           PublishFailed err \<Rightarrow> (Inl (Wrapf ''publish: %w'' [] err), rw1)
         | ConfirmLost err reached \<Rightarrow>
             (Inl (Wrapf ''menunggu confirm: %w'' [] err), if reached then taken else rw1)
         | Nacked \<Rightarrow> (Inl (Wrapf ''broker menolak (nack) event %s'' [AUuid (or_EventID e)]
                             (NewError '''')), rw1)
         | Acked \<Rightarrow> (Inr (), taken))"

section \<open>The statements\<close>

definition out_row_of :: "outbox_row \<Rightarrow> out_row" where
  "out_row_of r =
     \<lparr> or_ID = ob_id r, or_EventID = ob_event_id r, or_EventType = ob_event_type r,
       or_Payload = ob_payload r, or_CreatedAt = ob_created_at r \<rparr>"

definition unpublished :: "int64 set \<Rightarrow> outbox_row list \<Rightarrow> outbox_row list" where
  "unpublished skip rows =
     sort_key ob_id (filter (\<lambda>r. ob_published_at r = None \<and> ob_id r \<notin> skip) rows)"

definition sql_select_batch :: "env \<Rightarrow> int64 set \<Rightarrow> int \<Rightarrow> (pg, out_row list) prog" where
  "sql_select_batch env skip limit =
     stmt env (\<lambda>k w.
       (Inr (map out_row_of (take (nat limit) (unpublished skip (outbox_events (tabs w))))), w))"

definition record_failure :: "err \<Rightarrow> outbox_row \<Rightarrow> outbox_row" where
  "record_failure err r = r\<lparr>ob_attempts := ob_attempts r + 1, ob_last_error := Some err\<rparr>"

definition sql_record_failure :: "env \<Rightarrow> int64 \<Rightarrow> err \<Rightarrow> (pg, unit) prog" where
  "sql_record_failure env i err =
     stmt env (\<lambda>k w. let T = tabs w in
       if \<exists>r \<in> set (outbox_events T). ob_id r = i \<and> ob_attempts r + 1 > 2147483647
         then (Inl (PgError codeOutOfRange ''''), w)
       else (Inr (), w\<lparr>tabs := T\<lparr>outbox_events :=
               update_where (\<lambda>r. ob_id r = i) (record_failure err) (outbox_events T)\<rparr>\<rparr>))"

definition mark_published :: "time \<Rightarrow> outbox_row \<Rightarrow> outbox_row" where
  "mark_published now r = r\<lparr>ob_published_at := Some now\<rparr>"

definition sql_mark_published :: "env \<Rightarrow> int64 \<Rightarrow> (pg, unit) prog" where
  "sql_mark_published env i =
     stmt env (\<lambda>k w. let T = tabs w in
       (Inr (), w\<lparr>tabs := T\<lparr>outbox_events :=
          update_where (\<lambda>r. ob_id r = i) (mark_published (env_now env)) (outbox_events T)\<rparr>\<rparr>))"

section \<open>PollOnce\<close>

fun send_batch ::
    "env \<Rightarrow> (nat \<Rightarrow> outcome) \<Rightarrow> out_row list \<Rightarrow> nat \<Rightarrow> (relay_world, nat) prog" where
  "send_batch env out [] sent rw = (Inr sent, rw)"
| "send_batch env out (e # es) sent rw =
     (case publish out e rw of
        (Inl err, rw1) \<Rightarrow>
          bindP (wrapP (Wrapf ''catat kegagalan outbox %d: %w'' [AInt (or_ID e)])
                   (lift_pg (sql_record_failure env (or_ID e) err)))
            (\<lambda>_. send_batch env out es sent) rw1
      | (Inr _, rw1) \<Rightarrow>
          bindP (wrapP (Wrapf ''tandai terkirim outbox %d: %w'' [AInt (or_ID e)])
                   (lift_pg (sql_mark_published env (or_ID e))))
            (\<lambda>_. send_batch env out es (sent + 1)) rw1)"

definition poll_body :: "env \<Rightarrow> (nat \<Rightarrow> outcome) \<Rightarrow> int64 set \<Rightarrow> int \<Rightarrow> (relay_world, nat) prog" where
  "poll_body env out skip limit =
     bindP (wrapP (Wrapf ''query outbox: %w'' []) (lift_pg (round_trip env))) (\<lambda>_.
     bindP (wrapP (Wrapf ''rows outbox: %w'' []) (lift_pg (sql_select_batch env skip limit))) (\<lambda>batch.
     send_batch env out batch 0))"

definition relay_batch :: int where "relay_batch = 50"

text \<open>
  Begin, \<open>defer tx.Rollback\<close>, Commit as in \<open>in_tx\<close>; a rollback undoes the marks but not the
  publications. On an error the count returned with it is dropped: the caller ignores it.
\<close>

definition Relay_PollOnce ::
    "env \<Rightarrow> (nat \<Rightarrow> outcome) \<Rightarrow> int64 set \<Rightarrow> (relay_world, nat) prog" where
  "Relay_PollOnce env out skip rw0 =
     (case lift_pg (round_trip env) rw0 of
        (Inl e, rw1) \<Rightarrow> (Inl (Wrapf ''begin: %w'' [] e), rw1)
      | (Inr _, rw1) \<Rightarrow>
          (case bindP (poll_body env out skip relay_batch) (\<lambda>n.
                  bindP (wrapP (Wrapf ''commit: %w'' [])
                     (lift_pg (commit env (tabs (rw_pg rw1))))) (\<lambda>_. retP n)) rw1 of
             (Inl e, rw2) \<Rightarrow> (Inl e, rw2\<lparr>rw_pg := (rw_pg rw2)\<lparr>tabs := tabs (rw_pg rw1)\<rparr>\<rparr>)
           | (Inr n, rw2) \<Rightarrow> (Inr n, rw2)))"

section \<open>Facts\<close>

lemma lift_pg_iff [prog_simps]:
  "lift_pg m rw = (r, rw') \<longleftrightarrow> (\<exists>w. m (rw_pg rw) = (r, w) \<and> rw' = rw\<lparr>rw_pg := w\<rparr>)"
  by (auto simp: lift_pg_def split: prod.splits)

definition at_broker :: "relay_world \<Rightarrow> uuid set" where
  "at_broker rw = msg_MessageId ` set (rw_broker rw)"

definition relay_ok :: "relay_world \<Rightarrow> bool" where
  "relay_ok rw \<longleftrightarrow>
     distinct (map ob_id (outbox_events (tabs (rw_pg rw))))
     \<and> (\<forall>r \<in> set (outbox_events (tabs (rw_pg rw))).
          ob_published_at r \<noteq> None \<longrightarrow> ob_event_id r \<in> at_broker rw)"

text \<open>What a poll may change: the publication columns of the outbox, and nothing else.\<close>

definition sent_columns :: "outbox_row \<Rightarrow> out_row \<times> string \<times> uuid" where
  "sent_columns r = (out_row_of r, ob_aggregate_type r, ob_aggregate_id r)"

definition same_outbox :: "tables \<Rightarrow> tables \<Rightarrow> bool" where
  "same_outbox T T' \<longleftrightarrow>
     (\<exists>rows. T' = T\<lparr>outbox_events := rows\<rparr>
        \<and> map sent_columns rows = map sent_columns (outbox_events T))"

lemma same_outbox_refl [simp]: "same_outbox T T"
  unfolding same_outbox_def by (rule exI [of _ "outbox_events T"]) simp

lemma same_outbox_trans: "\<lbrakk>same_outbox T U; same_outbox U V\<rbrakk> \<Longrightarrow> same_outbox T V"
  by (auto simp: same_outbox_def)

lemma same_outbox_update:
  "(\<And>r. sent_columns (f r) = sent_columns r) \<Longrightarrow>
   same_outbox T (T\<lparr>outbox_events := update_where p f (outbox_events T)\<rparr>)"
  unfolding same_outbox_def
  by (rule exI [of _ "update_where p f (outbox_events T)"]) (simp add: map_update_where)

lemma sent_columns_updates [simp]:
  "sent_columns (record_failure err r) = sent_columns r"
  "sent_columns (mark_published now r) = sent_columns r"
  by (simp_all add: sent_columns_def out_row_of_def record_failure_def mark_published_def)

lemma sent_columns_id: "sent_columns r = sent_columns q \<Longrightarrow> ob_id r = ob_id q \<and> ob_event_id r = ob_event_id q"
  by (simp add: sent_columns_def out_row_of_def)

lemma same_outbox_ids:
  assumes "same_outbox T T'"
  shows "map ob_id (outbox_events T') = map ob_id (outbox_events T)"
    and "map (\<lambda>r. (ob_id r, ob_event_id r)) (outbox_events T')
         = map (\<lambda>r. (ob_id r, ob_event_id r)) (outbox_events T)"
proof -
  have m: "map sent_columns (outbox_events T') = map sent_columns (outbox_events T)"
    using assms by (auto simp: same_outbox_def)
  show "map ob_id (outbox_events T') = map ob_id (outbox_events T)"
    using arg_cong [OF m, of "map (\<lambda>q. or_ID (fst q))"]
    by (simp add: comp_def sent_columns_def out_row_of_def)
  show "map (\<lambda>r. (ob_id r, ob_event_id r)) (outbox_events T')
         = map (\<lambda>r. (ob_id r, ob_event_id r)) (outbox_events T)"
    using arg_cong [OF m, of "map (\<lambda>q. (or_ID (fst q), or_EventID (fst q)))"]
    by (simp add: comp_def sent_columns_def out_row_of_def)
qed

section \<open>One step of the batch\<close>

lemma publish_cases:
  assumes "publish out e rw = (r, rw')"
  shows "rw_pg rw' = rw_pg rw" and "at_broker rw \<subseteq> at_broker rw'"
    and "r = Inr () \<Longrightarrow> or_EventID e \<in> at_broker rw'"
  using assms
  by (auto simp: publish_def Let_def at_broker_def message_of_def split: outcome.splits if_splits)

lemma sql_record_failure_tabs:
  assumes "sql_record_failure env i err w = (r, w')"
  shows "tabs w' = tabs w \<or> (r = Inr () \<and> tabs w' = (tabs w)\<lparr>outbox_events :=
           update_where (\<lambda>r. ob_id r = i) (record_failure err) (outbox_events (tabs w))\<rparr>)"
  using assms by (auto simp: sql_record_failure_def stmt_def Let_def split: option.splits if_splits)

lemma outbox_statements_seqs:
  "sql_record_failure env i err w = (r, w') \<Longrightarrow> seqs w' = seqs w"
  "sql_mark_published env i w = (r, w') \<Longrightarrow> seqs w' = seqs w"
  "sql_select_batch env skip limit w = (q, w') \<Longrightarrow> seqs w' = seqs w"
  "round_trip env w = (r, w') \<Longrightarrow> seqs w' = seqs w"
  "commit env t0 w = (r, w') \<Longrightarrow> seqs w' = seqs w"
  by (auto simp: sql_record_failure_def sql_mark_published_def sql_select_batch_def round_trip_def
      commit_def stmt_def Let_def split: option.splits if_splits)

lemma sql_mark_published_tabs:
  assumes "sql_mark_published env i w = (r, w')"
  shows "tabs w' = tabs w \<or> (r = Inr () \<and> tabs w' = (tabs w)\<lparr>outbox_events :=
           update_where (\<lambda>r. ob_id r = i) (mark_published (env_now env)) (outbox_events (tabs w))\<rparr>)"
  using assms by (auto simp: sql_mark_published_def stmt_def Let_def split: option.splits)

lemma relay_ok_failure:
  assumes "relay_ok rw" "at_broker rw \<subseteq> at_broker rw'"
    "tabs (rw_pg rw') = (tabs (rw_pg rw))\<lparr>outbox_events :=
       update_where p (record_failure err) (outbox_events (tabs (rw_pg rw)))\<rparr>"
  shows "relay_ok rw'"
proof -
  have "map ob_id (update_where p (record_failure err) rows) = map ob_id rows" for rows
    by (rule map_update_where) (simp add: record_failure_def)
  with assms show ?thesis
    by (auto simp: relay_ok_def set_update_where record_failure_def)
qed

lemma relay_ok_mark:
  assumes "relay_ok rw" "at_broker rw \<subseteq> at_broker rw'" "or_EventID e \<in> at_broker rw'"
    and row: "q \<in> set (outbox_events (tabs (rw_pg rw)))" "ob_id q = or_ID e"
      "ob_event_id q = or_EventID e"
    and T: "tabs (rw_pg rw') = (tabs (rw_pg rw))\<lparr>outbox_events :=
       update_where (\<lambda>r. ob_id r = or_ID e) (mark_published now) (outbox_events (tabs (rw_pg rw)))\<rparr>"
  shows "relay_ok rw'"
proof -
  let ?rows = "outbox_events (tabs (rw_pg rw))"
  have ids: "map ob_id (update_where p (mark_published now) rows) = map ob_id rows" for p rows
    by (rule map_update_where) (simp add: mark_published_def)
  have "ob_event_id r \<in> at_broker rw'" if "r \<in> set ?rows" "ob_id r = or_ID e" for r
  proof -
    have "r = q" using that row assms(1) unfolding relay_ok_def by (metis distinct_key_eq)
    with row assms(3) show ?thesis by simp
  qed
  with assms(1,2) T ids show ?thesis
    by (auto simp: relay_ok_def set_update_where mark_published_def)
qed

definition in_outbox :: "relay_world \<Rightarrow> out_row list \<Rightarrow> bool" where
  "in_outbox rw es \<longleftrightarrow>
     (\<forall>e \<in> set es. (or_ID e, or_EventID e)
        \<in> set (map (\<lambda>r. (ob_id r, ob_event_id r)) (outbox_events (tabs (rw_pg rw)))))"

text \<open>
  What holds between a relay world and a later one of the same database transaction, also
  when the transaction is about to fail.
\<close>

definition relay_step :: "relay_world \<Rightarrow> relay_world \<Rightarrow> bool" where
  "relay_step rw rw' \<longleftrightarrow>
     (relay_ok rw \<longrightarrow> relay_ok rw') \<and> at_broker rw \<subseteq> at_broker rw'
     \<and> seqs (rw_pg rw') = seqs (rw_pg rw)
     \<and> same_outbox (tabs (rw_pg rw)) (tabs (rw_pg rw'))"

lemma relay_step_refl: "relay_step rw rw"
  by (simp add: relay_step_def)

lemma relay_step_trans: "\<lbrakk>relay_step a b; relay_step b c\<rbrakk> \<Longrightarrow> relay_step a c"
  unfolding relay_step_def by (metis same_outbox_trans subset_trans)

lemma relay_step_same_tabs:
  "\<lbrakk>tabs (rw_pg rw') = tabs (rw_pg rw); seqs (rw_pg rw') = seqs (rw_pg rw);
    at_broker rw \<subseteq> at_broker rw'\<rbrakk> \<Longrightarrow> relay_step rw rw'"
  by (auto simp: relay_step_def relay_ok_def)

lemma send_one:
  assumes "publish out e rw = (r, rw1)"
    and "in_outbox rw [e]"
    and "rw2 = rw1\<lparr>rw_pg := w2\<rparr>"
    and "case r of Inl err \<Rightarrow> sql_record_failure env (or_ID e) err (rw_pg rw1) = (r2, w2)
                 | Inr _ \<Rightarrow> sql_mark_published env (or_ID e) (rw_pg rw1) = (r2, w2)"
  shows "relay_step rw rw2"
proof -
  note P = publish_cases [OF assms(1)]
  have b: "at_broker rw2 = at_broker rw1" "rw_pg rw2 = w2" using assms(3) by (simp_all add: at_broker_def)
  from assms(2) obtain q where q: "q \<in> set (outbox_events (tabs (rw_pg rw)))" "ob_id q = or_ID e"
    "ob_event_id q = or_EventID e" by (auto simp: in_outbox_def)
  show ?thesis
  proof (cases r)
    case (Inl err)
    with assms(4) have S: "sql_record_failure env (or_ID e) err (rw_pg rw) = (r2, w2)"
      by (simp add: P(1))
    note q' = outbox_statements_seqs(1) [OF S]
    from sql_record_failure_tabs [OF S] show ?thesis
    proof
      assume "tabs w2 = tabs (rw_pg rw)"
      with b q' P(2) show ?thesis by (intro relay_step_same_tabs) simp_all
    next
      assume u: "r2 = Inr () \<and> tabs w2 = (tabs (rw_pg rw))\<lparr>outbox_events :=
        update_where (\<lambda>r. ob_id r = or_ID e) (record_failure err) (outbox_events (tabs (rw_pg rw)))\<rparr>"
      with b P(2) have "relay_ok rw \<longrightarrow> relay_ok rw2" using relay_ok_failure [of rw rw2] by auto
      with u b q' P(2) show ?thesis by (simp add: relay_step_def same_outbox_update)
    qed
  next
    case (Inr u)
    with assms(4) have S: "sql_mark_published env (or_ID e) (rw_pg rw) = (r2, w2)"
      by (simp add: P(1))
    note q' = outbox_statements_seqs(2) [OF S]
    from sql_mark_published_tabs [OF S] show ?thesis
    proof
      assume "tabs w2 = tabs (rw_pg rw)"
      with b q' P(2) show ?thesis by (intro relay_step_same_tabs) simp_all
    next
      assume u: "r2 = Inr () \<and> tabs w2 = (tabs (rw_pg rw))\<lparr>outbox_events :=
        update_where (\<lambda>r. ob_id r = or_ID e) (mark_published (env_now env))
          (outbox_events (tabs (rw_pg rw)))\<rparr>"
      have "or_EventID e \<in> at_broker rw2" using P(3) Inr b by simp
      with u b P(2) q have "relay_ok rw \<longrightarrow> relay_ok rw2"
        using relay_ok_mark [of rw rw2 e q] by auto
      with u b q' P(2) show ?thesis by (simp add: relay_step_def same_outbox_update)
    qed
  qed
qed

lemma in_outbox_step:
  assumes "relay_step rw rw'" "in_outbox rw es"
  shows "in_outbox rw' es"
proof -
  have "same_outbox (tabs (rw_pg rw)) (tabs (rw_pg rw'))" using assms(1) by (simp add: relay_step_def)
  from same_outbox_ids(2) [OF this] assms(2) show ?thesis by (simp add: in_outbox_def)
qed

lemma send_batch_step:
  "\<lbrakk>send_batch env out es n rw = (r, rw'); in_outbox rw es\<rbrakk> \<Longrightarrow> relay_step rw rw'"
proof (induction es arbitrary: n rw)
  case (Cons e es)
  obtain p rw1 where P: "publish out e rw = (p, rw1)" by fastforce
  define m where "m = (case p of Inl err \<Rightarrow> sql_record_failure env (or_ID e) err
                                | Inr _ \<Rightarrow> sql_mark_published env (or_ID e))"
  obtain r2 w2 where M: "m (rw_pg rw1) = (r2, w2)" by fastforce
  define rw2 where "rw2 = rw1\<lparr>rw_pg := w2\<rparr>"
  have one: "relay_step rw rw2"
    using send_one [OF P _ rw2_def, of env r2] M Cons.prems(2)
    by (auto simp: m_def in_outbox_def split: sum.splits)
  have "in_outbox rw es" using Cons.prems(2) by (simp add: in_outbox_def)
  then have inn: "in_outbox rw2 es" by (rule in_outbox_step [OF one])
  have L: "lift_pg m rw1 = (r2, rw2)" using M by (simp add: lift_pg_def rw2_def)
  show ?case
  proof (cases r2)
    case (Inl e2)
    with Cons.prems(1) P L have "rw' = rw2"
      by (cases p) (auto simp: m_def bindP_def wrapP_def)
    with one show ?thesis by simp
  next
    case (Inr u)
    with Cons.prems(1) P L obtain k where "send_batch env out es k rw2 = (r, rw')"
      by (cases p) (auto simp: m_def bindP_def wrapP_def)
    from relay_step_trans [OF one Cons.IH [OF this inn]] show ?thesis .
  qed
qed (simp add: relay_step_refl)

section \<open>One poll\<close>

lemma poll_body_step:
  assumes "poll_body env out skip limit rw = (r, rw')"
  shows "relay_step rw rw'"
proof -
  obtain r1 w1 where a: "round_trip env (rw_pg rw) = (r1, w1)" by fastforce
  define rw1 where "rw1 = rw\<lparr>rw_pg := w1\<rparr>"
  have L1: "lift_pg (round_trip env) rw = (r1, rw1)" using a by (simp add: lift_pg_def rw1_def)
  obtain r2 w2 where b: "sql_select_batch env skip limit w1 = (r2, w2)" by fastforce
  define rw2 where "rw2 = rw1\<lparr>rw_pg := w2\<rparr>"
  have L2: "lift_pg (sql_select_batch env skip limit) rw1 = (r2, rw2)"
    using b by (simp add: lift_pg_def rw2_def rw1_def)
  have t1: "tabs w1 = tabs (rw_pg rw)" using a by (rule round_trip_tabs)
  have t2: "tabs w2 = tabs w1"
    using b by (auto simp: sql_select_batch_def stmt_def Let_def split: option.splits)
  have s1: "relay_step rw rw1" and s2: "relay_step rw rw2"
    using t1 t2 outbox_statements_seqs(4) [OF a] outbox_statements_seqs(3) [OF b]
    by (auto intro!: relay_step_same_tabs simp: rw1_def rw2_def at_broker_def)
  show ?thesis
  proof (cases r1)
    case (Inl e)
    with assms L1 s1 show ?thesis by (auto simp: poll_body_def bindP_def wrapP_def)
  next
    case r1: (Inr u)
    show ?thesis
    proof (cases r2)
      case (Inl e)
      with assms L1 L2 r1 s2 show ?thesis by (auto simp: poll_body_def bindP_def wrapP_def)
    next
      case (Inr batch)
      with assms L1 L2 r1 have S: "send_batch env out batch 0 rw2 = (r, rw')"
        by (simp add: poll_body_def bindP_def wrapP_def)
      from b Inr have "batch = map out_row_of (take (nat limit) (unpublished skip (outbox_events (tabs w1))))"
        by (simp add: sql_select_batch_def stmt_Inr_iff)
      then have "in_outbox rw2 batch"
        by (auto simp: in_outbox_def rw2_def t2 unpublished_def out_row_of_def dest!: in_set_takeD)
      from relay_step_trans [OF s2 send_batch_step [OF S this]] show ?thesis .
    qed
  qed
qed

lemma PollOnce_step:
  assumes "Relay_PollOnce env out skip rw = (r, rw')"
  shows "relay_step rw rw'"
proof -
  obtain r1 w1 where a: "round_trip env (rw_pg rw) = (r1, w1)" by fastforce
  define rw1 where "rw1 = rw\<lparr>rw_pg := w1\<rparr>"
  have L1: "lift_pg (round_trip env) rw = (r1, rw1)" using a by (simp add: lift_pg_def rw1_def)
  have t1: "tabs w1 = tabs (rw_pg rw)" using a by (rule round_trip_tabs)
  have s1: "relay_step rw rw1"
    using t1 outbox_statements_seqs(4) [OF a]
    by (auto intro!: relay_step_same_tabs simp: rw1_def at_broker_def)
  show ?thesis
  proof (cases r1)
    case (Inl e)
    with assms L1 s1 show ?thesis by (simp add: Relay_PollOnce_def)
  next
    case (Inr u)
    let ?commit = "lift_pg (commit env (tabs (rw_pg rw1)))"
    let ?body = "bindP (poll_body env out skip relay_batch)
                   (\<lambda>n. bindP (wrapP (Wrapf ''commit: %w'' []) ?commit) (\<lambda>_. retP n))"
    obtain q rw2 where P: "poll_body env out skip relay_batch rw1 = (q, rw2)" by fastforce
    obtain c w3 where C: "commit env (tabs (rw_pg rw1)) (rw_pg rw2) = (c, w3)" by fastforce
    have s2: "relay_step rw1 rw2" by (rule poll_body_step [OF P])
    have w3: "tabs w3 = tabs (rw_pg rw2)"
      using C by (auto simp: commit_def stmt_def Let_def split: option.splits)
    obtain res rw3 where B: "?body rw1 = (res, rw3)" by fastforce
    with P C have rw3: "tabs (rw_pg rw3) = tabs (rw_pg rw2)" "at_broker rw3 = at_broker rw2"
      "seqs (rw_pg rw3) = seqs (rw_pg rw2)"
      using outbox_statements_seqs(5) [OF C] by (auto simp: bindP_def wrapP_def lift_pg_def w3 at_broker_def split: sum.splits)
    have s3: "relay_step rw1 rw3"
      using s2 rw3 by (intro relay_step_trans [OF s2 relay_step_same_tabs]) simp_all
    show ?thesis
    proof (cases res)
      case (Inr n)
      with assms L1 B \<open>r1 = Inr u\<close> have "rw' = rw3" by (simp add: Relay_PollOnce_def)
      with relay_step_trans [OF s1 s3] show ?thesis by simp
    next
      case (Inl e)
      with assms L1 B \<open>r1 = Inr u\<close>
      have "rw' = rw3\<lparr>rw_pg := (rw_pg rw3)\<lparr>tabs := tabs (rw_pg rw1)\<rparr>\<rparr>"
        by (simp add: Relay_PollOnce_def)
      then have "relay_step rw1 rw'"
        using s3 by (intro relay_step_same_tabs) (simp_all add: at_broker_def relay_step_def)
      from relay_step_trans [OF s1 this] show ?thesis .
    qed
  qed
qed

text \<open>
  C22 safety. No event is lost between the ledger and the broker: whatever the outcomes of
  the publications and whatever statements fail, a poll marks a row as published only when
  the broker has its message, keeps every outbox row with all the columns the ledger wrote,
  and touches no other table. What the broker holds only grows.
\<close>

theorem relay_at_least_once:
  assumes "relay_ok rw" "Relay_PollOnce env out skip rw = (r, rw')"
  shows "(\<forall>q \<in> set (outbox_events (tabs (rw_pg rw'))).
            ob_published_at q \<noteq> None \<longrightarrow> ob_event_id q \<in> at_broker rw')
    \<and> at_broker rw \<subseteq> at_broker rw'
    \<and> map sent_columns (outbox_events (tabs (rw_pg rw')))
      = map sent_columns (outbox_events (tabs (rw_pg rw)))
    \<and> (tabs (rw_pg rw'))\<lparr>outbox_events := outbox_events (tabs (rw_pg rw))\<rparr> = tabs (rw_pg rw)"
proof -
  note S = PollOnce_step [OF assms(2), unfolded relay_step_def]
  with assms(1) have "relay_ok rw'" "at_broker rw \<subseteq> at_broker rw'" by blast+
  moreover from S have "same_outbox (tabs (rw_pg rw)) (tabs (rw_pg rw'))" by blast
  then obtain rows where "tabs (rw_pg rw') = (tabs (rw_pg rw))\<lparr>outbox_events := rows\<rparr>"
    "map sent_columns rows = map sent_columns (outbox_events (tabs (rw_pg rw)))"
    by (auto simp: same_outbox_def)
  ultimately show ?thesis by (simp add: relay_ok_def)
qed

text \<open>Two rows, one of them published; the broker confirms, then loses a confirmation.\<close>

definition relay_env :: env where
  "relay_env = \<lparr> env_fault = (\<lambda>k. None), env_now = 9, env_uuid = of_nat, env_lower = (\<lambda>s. s) \<rparr>"

definition relay_row :: "int64 \<Rightarrow> uuid \<Rightarrow> time option \<Rightarrow> outbox_row" where
  "relay_row i e published =
     \<lparr> ob_id = i, ob_event_id = e, ob_aggregate_type = ''transaction'', ob_aggregate_id = e,
       ob_event_type = ''ledger.transaction.posted'', ob_payload = JNull, ob_created_at = 1,
       ob_published_at = published, ob_attempts = 0, ob_last_error = None \<rparr>"

definition relay_start :: relay_world where
  "relay_start =
     \<lparr> rw_pg = \<lparr> tabs = \<lparr> accounts = [], transactions = [], entries = [], idempotency_keys = [],
           outbox_events = [relay_row 1 10 (Some 5), relay_row 2 20 None, relay_row 3 30 None],
           users = [], refresh_tokens = [], processed_events = [] \<rparr>,
         seqs = \<lparr> seq_accounts = 0, seq_entries = 0, seq_outbox = 3, seq_users = 0, seq_tokens = 0 \<rparr>,
         steps = 0 \<rparr>,
       rw_broker = [message_of (out_row_of (relay_row 1 10 None))], rw_sends = 1 \<rparr>"

lemma relay_env_no_faults [simp]: "no_faults relay_env"
  by (simp add: no_faults_def relay_env_def)

lemma relay_start_ok: "relay_ok relay_start"
  by (simp add: relay_ok_def relay_start_def relay_row_def at_broker_def message_of_def out_row_of_def)

theorem relay_at_least_once_witness:
  "\<exists>r rw'. Relay_PollOnce relay_env (\<lambda>n. if n = 1 then Acked else ConfirmLost Canceled True) {} relay_start
             = (r, rw')
     \<and> (\<forall>q \<in> set (outbox_events (tabs (rw_pg rw'))).
            ob_published_at q \<noteq> None \<longrightarrow> ob_event_id q \<in> at_broker rw')
     \<and> 10 \<in> at_broker rw'"
proof -
  obtain r rw' where P: "Relay_PollOnce relay_env
      (\<lambda>n. if n = 1 then Acked else ConfirmLost Canceled True) {} relay_start = (r, rw')"
    by fastforce
  have "10 \<in> at_broker relay_start"
    by (simp add: relay_start_def at_broker_def message_of_def out_row_of_def relay_row_def)
  with relay_at_least_once [OF relay_start_ok P] P show ?thesis by blast
qed

section \<open>Progress\<close>

lemma mark_published_twice [simp]: "mark_published now (mark_published now r) = mark_published now r"
  by (simp add: mark_published_def)

lemma ob_id_mark_published [simp]: "ob_id (mark_published now r) = ob_id r"
  by (simp add: mark_published_def)

lemma send_batch_run:
  assumes "no_faults env" "\<And>n. out n = Acked"
  shows "\<exists>rw'. send_batch env out es n rw = (Inr (n + length es), rw')
    \<and> tabs (rw_pg rw') = (tabs (rw_pg rw))\<lparr>outbox_events :=
         update_where (\<lambda>q. ob_id q \<in> or_ID ` set es) (mark_published (env_now env))
           (outbox_events (tabs (rw_pg rw)))\<rparr>
    \<and> rw_broker rw' = rw_broker rw @ map message_of es"
proof (induction es arbitrary: n rw)
  case Nil
  have "update_where (\<lambda>q. False) f rows = rows" for f and rows :: "outbox_row list"
    by (induction rows) auto
  then show ?case by simp
next
  case (Cons e es)
  let ?T = "tabs (rw_pg rw)" and ?m = "mark_published (env_now env)"
  define rw1 where "rw1 = rw\<lparr>rw_sends := Suc (rw_sends rw), rw_broker := rw_broker rw @ [message_of e],
    rw_pg := (rw_pg rw)\<lparr>steps := Suc (steps (rw_pg rw)), tabs := ?T\<lparr>outbox_events :=
      update_where (\<lambda>q. ob_id q = or_ID e) ?m (outbox_events ?T)\<rparr>\<rparr>\<rparr>"
  have "send_batch env out (e # es) n rw = send_batch env out es (n + 1) rw1"
    using assms
    by (simp add: publish_def Let_def bindP_def wrapP_def lift_pg_def sql_mark_published_def rw1_def)
  moreover obtain rw' where IH: "send_batch env out es (n + 1) rw1 = (Inr (n + 1 + length es), rw')"
    "tabs (rw_pg rw') = (tabs (rw_pg rw1))\<lparr>outbox_events :=
         update_where (\<lambda>q. ob_id q \<in> or_ID ` set es) ?m (outbox_events (tabs (rw_pg rw1)))\<rparr>"
    "rw_broker rw' = rw_broker rw1 @ map message_of es"
    using Cons.IH [of "n + 1" rw1] by blast
  moreover have "update_where (\<lambda>q. ob_id q \<in> or_ID ` set es) ?m
      (update_where (\<lambda>q. ob_id q = or_ID e) ?m rows)
    = update_where (\<lambda>q. ob_id q \<in> or_ID ` set (e # es)) ?m rows" for rows
    by (induction rows) auto
  ultimately show ?case by (simp add: rw1_def)
qed

definition next_batch :: "relay_world \<Rightarrow> outbox_row list" where
  "next_batch rw = take 50 (unpublished {} (outbox_events (tabs (rw_pg rw))))"

lemma poll_run:
  assumes "no_faults env" "\<And>n. out n = Acked"
  shows "\<exists>rw'. Relay_PollOnce env out {} rw = (Inr (length (next_batch rw)), rw')
    \<and> tabs (rw_pg rw') = (tabs (rw_pg rw))\<lparr>outbox_events :=
         update_where (\<lambda>q. ob_id q \<in> ob_id ` set (next_batch rw)) (mark_published (env_now env))
           (outbox_events (tabs (rw_pg rw)))\<rparr>
    \<and> rw_broker rw' = rw_broker rw @ map (\<lambda>q. message_of (out_row_of q)) (next_batch rw)"
proof -
  let ?batch = "next_batch rw"
  define rw1 where "rw1 = rw\<lparr>rw_pg := (rw_pg rw)\<lparr>steps := Suc (steps (rw_pg rw))\<rparr>\<rparr>"
  define rw3 where "rw3 = rw\<lparr>rw_pg := (rw_pg rw)\<lparr>steps := Suc (Suc (Suc (steps (rw_pg rw))))\<rparr>\<rparr>"
  have t3: "tabs (rw_pg rw3) = tabs (rw_pg rw)" "rw_broker rw3 = rw_broker rw"
    by (simp_all add: rw3_def)
  have begin_run: "lift_pg (round_trip env) rw = (Inr (), rw1)"
    using assms(1) by (simp add: lift_pg_def rw1_def)
  have "sql_select_batch env {} relay_batch = stmt env (\<lambda>k w.
      (Inr (map out_row_of (take 50 (unpublished {} (outbox_events (tabs w))))), w))"
    by (simp add: sql_select_batch_def relay_batch_def)
  then have body: "poll_body env out {} relay_batch rw1 = send_batch env out (map out_row_of ?batch) 0 rw3"
    using assms(1)
    by (simp add: poll_body_def bindP_def wrapP_def lift_pg_def rw1_def rw3_def next_batch_def)
  obtain rw' where S: "send_batch env out (map out_row_of ?batch) 0 rw3 = (Inr (length ?batch), rw')"
    and T: "tabs (rw_pg rw') = (tabs (rw_pg rw))\<lparr>outbox_events :=
         update_where (\<lambda>q. ob_id q \<in> or_ID ` set (map out_row_of ?batch)) (mark_published (env_now env))
           (outbox_events (tabs (rw_pg rw)))\<rparr>"
    and B: "rw_broker rw' = rw_broker rw @ map message_of (map out_row_of ?batch)"
    using send_batch_run [where out = out and es = "map out_row_of ?batch" and n = 0 and rw = rw3, OF assms]
    unfolding t3 by auto
  have ids: "or_ID ` set (map out_row_of ?batch) = ob_id ` set ?batch"
    by (simp add: image_image out_row_of_def)
  define rw4 where "rw4 = rw'\<lparr>rw_pg := (rw_pg rw')\<lparr>steps := Suc (steps (rw_pg rw'))\<rparr>\<rparr>"
  have "lift_pg (commit env (tabs (rw_pg rw1))) rw' = (Inr (), rw4)"
    using assms(1) by (simp add: commit_def T rw1_def rw4_def lift_pg_def)
  then have "Relay_PollOnce env out {} rw = (Inr (length ?batch), rw4)"
    by (simp add: Relay_PollOnce_def begin_run body S bindP_def wrapP_def)
  moreover have "tabs (rw_pg rw4) = tabs (rw_pg rw')" "rw_broker rw4 = rw_broker rw'"
    by (simp_all add: rw4_def)
  ultimately show ?thesis using T B ids by (simp add: comp_def)
qed

text \<open>
  When no statement fails and the broker confirms every message, one poll sends
  the oldest unpublished rows, at most fifty of them and in id order, marks exactly these as
  published, and reports how many they were.
\<close>

theorem relay_progress:
  assumes "no_faults env" "\<And>n. out n = Acked"
  shows "\<exists>rw'. Relay_PollOnce env out {} rw = (Inr (length (next_batch rw)), rw')
    \<and> tabs (rw_pg rw') = (tabs (rw_pg rw))\<lparr>outbox_events :=
         update_where (\<lambda>q. ob_id q \<in> ob_id ` set (next_batch rw)) (mark_published (env_now env))
           (outbox_events (tabs (rw_pg rw)))\<rparr>
    \<and> rw_broker rw' = rw_broker rw @ map (\<lambda>q. message_of (out_row_of q)) (next_batch rw)"
  by (rule poll_run [OF assms])

theorem relay_progress_witness:
  "\<exists>rw'. Relay_PollOnce relay_env (\<lambda>n. Acked) {} relay_start = (Inr 2, rw')
     \<and> map (\<lambda>q. (ob_id q, ob_published_at q)) (outbox_events (tabs (rw_pg rw')))
         = [(1, Some 5), (2, Some 9), (3, Some 9)]
     \<and> map msg_MessageId (rw_broker rw') = [10, 20, 30]"
proof -
  have b: "next_batch relay_start = [relay_row 2 20 None, relay_row 3 30 None]"
    by (simp add: next_batch_def unpublished_def relay_start_def relay_row_def)
  obtain rw' where R: "Relay_PollOnce relay_env (\<lambda>n. Acked) {} relay_start = (Inr (length (next_batch relay_start)), rw')"
    and T: "tabs (rw_pg rw') = (tabs (rw_pg relay_start))\<lparr>outbox_events :=
         update_where (\<lambda>q. ob_id q \<in> ob_id ` set (next_batch relay_start)) (mark_published (env_now relay_env))
           (outbox_events (tabs (rw_pg relay_start)))\<rparr>"
    and B: "rw_broker rw' = rw_broker relay_start
              @ map (\<lambda>q. message_of (out_row_of q)) (next_batch relay_start)"
    using relay_progress [of relay_env "\<lambda>n. Acked" relay_start, OF relay_env_no_faults refl] by blast
  have "length (next_batch relay_start) = 2" by (simp add: b)
  moreover have "map (\<lambda>q. (ob_id q, ob_published_at q)) (outbox_events (tabs (rw_pg rw')))
      = [(1, Some 5), (2, Some 9), (3, Some 9)]"
    unfolding T b by (simp add: relay_start_def relay_row_def mark_published_def relay_env_def)
  moreover have "map msg_MessageId (rw_broker rw') = [10, 20, 30]"
    unfolding B b by (simp add: relay_start_def relay_row_def message_of_def out_row_of_def)
  ultimately show ?thesis using R by auto
qed

end
