(* ===== verification/Invariant.thy ===== *)
theory Invariant
  imports RepoFacts Outbox
begin

text \<open>
  The invariant of the whole database, its conjuncts one table at a time, and the initial
  database the migrations leave. Each writing operation of the repositories preserves it.
\<close>

section \<open>The initial database (migrations 000008 and 000009)\<close>

definition system_row :: "time \<Rightarrow> (nat \<Rightarrow> uuid) \<Rightarrow> nat \<Rightarrow> account_type \<Rightarrow> direction \<Rightarrow> account" where
  "system_row now ids n typ nb =
     \<lparr> acc_ID = int n, acc_PublicID = ids n, acc_UserID = None, acc_Type = typ,
       acc_NormalBalance = nb, acc_Status = ''ACTIVE'', acc_Balance = 0, acc_Version = 1,
       acc_CreatedAt = now, acc_UpdatedAt = now \<rparr>"

definition migrated_tables :: "time \<Rightarrow> (nat \<Rightarrow> uuid) \<Rightarrow> tables" where
  "migrated_tables now ids =
     \<lparr> accounts =
         [system_row now ids 1 ''SYSTEM_CASH'' ''DEBIT'',
          system_row now ids 2 ''SYSTEM_FEE_REVENUE'' ''CREDIT'',
          system_row now ids 3 ''SYSTEM_SUSPENSE'' ''CREDIT'']
         @ map (\<lambda>n. system_row now ids n ''SYSTEM_FEE_REVENUE'' ''CREDIT'') [4, 5, 6, 7, 8, 9, 10],
       transactions = [], entries = [], idempotency_keys = [], outbox_events = [], users = [],
       refresh_tokens = [], processed_events = [] \<rparr>"

definition migrated_seqs :: sequences where
  "migrated_seqs = \<lparr> seq_accounts = 10, seq_entries = 0, seq_outbox = 0, seq_users = 0, seq_tokens = 0 \<rparr>"

definition system_types :: "account_type list" where
  "system_types = [AccountSystemCash, AccountSystemFeeRevenue, AccountSystemSuspense]
                    @ replicate 7 AccountSystemFeeRevenue"

section \<open>The invariant\<close>

definition acc_key :: "account \<Rightarrow> int64 \<times> uuid \<times> int64 option \<times> account_type \<times> direction" where
  "acc_key a = (acc_ID a, acc_PublicID a, acc_UserID a, acc_Type a, acc_NormalBalance a)"

definition accounts_inv :: "account list \<Rightarrow> sequences \<Rightarrow> bool" where
  "accounts_inv As q \<longleftrightarrow>
     distinct (map acc_PublicID As)
     \<and> (\<forall>a \<in> set As. 0 < acc_ID a \<and> acc_ID a \<le> seq_accounts q)
     \<and> (\<forall>a \<in> set As. \<forall>b \<in> set As. acc_Type a = AccountUserWallet \<longrightarrow> acc_Type b = AccountUserWallet
          \<longrightarrow> acc_UserID a = acc_UserID b \<longrightarrow> acc_ID a = acc_ID b)
     \<and> map acc_Type (filter (\<lambda>a. acc_Type a \<noteq> AccountUserWallet) As) = system_types"

definition entry_ids_inv :: "entry_row list \<Rightarrow> sequences \<Rightarrow> bool" where
  "entry_ids_inv Es q \<longleftrightarrow>
     sorted_wrt (<) (map er_id Es) \<and> (\<forall>r \<in> set Es. 0 < er_id r \<and> er_id r \<le> seq_entries q)
     \<and> 0 \<le> seq_entries q"

definition outbox_inv :: "outbox_row list \<Rightarrow> sequences \<Rightarrow> bool" where
  "outbox_inv Os q \<longleftrightarrow> distinct (map ob_id Os) \<and> (\<forall>r \<in> set Os. ob_id r \<le> seq_outbox q)"

definition users_inv :: "user list \<Rightarrow> sequences \<Rightarrow> bool" where
  "users_inv Us q \<longleftrightarrow>
     distinct (map usr_ID Us) \<and> (\<forall>u \<in> set Us. 0 < usr_ID u \<and> usr_ID u \<le> seq_users q)
     \<and> 0 \<le> seq_users q"

definition completed_row :: "uuid set \<Rightarrow> idem_row \<Rightarrow> bool" where
  "completed_row tids r \<longleftrightarrow>
     ik_status_code r = 201 \<and>
     (\<exists>p. posted_form p \<and> stored_in_range (toStored p)
        \<and> ik_response_body r = json_of_stored (toStored p)
        \<and> ik_transaction_id r = Some (txn_ID (pr_Transaction p))
        \<and> txn_ID (pr_Transaction p) \<in> tids)"

definition keys_inv :: "idem_row list \<Rightarrow> txn_row list \<Rightarrow> bool" where
  "keys_inv Ks Ts \<longleftrightarrow>
     distinct (map (\<lambda>r. (ik_user_id r, ik_key r)) Ks)
     \<and> (\<forall>r \<in> set Ks. completed_row (tr_id ` set Ts) r)"

definition db_inv :: "tables \<Rightarrow> sequences \<Rightarrow> bool" where
  "db_inv T q \<longleftrightarrow>
     ledger_inv T \<and> references_ok T \<and> accounts_inv (accounts T) q \<and> entry_ids_inv (entries T) q
     \<and> outbox_inv (outbox_events T) q \<and> users_inv (users T) q
     \<and> keys_inv (idempotency_keys T) (transactions T) \<and> seqs_ok q"

lemma db_inv_seqs:
  assumes "db_inv T q" "seq_le q q'"
  shows "db_inv T q'"
proof -
  have le: "seq_accounts q \<le> seq_accounts q'" "seq_entries q \<le> seq_entries q'"
    "seq_outbox q \<le> seq_outbox q'" "seq_users q \<le> seq_users q'" "seqs_ok q \<longrightarrow> seqs_ok q'"
    using assms(2) by (simp_all add: seq_le_def)
  note I = assms(1) [unfolded db_inv_def]
  have "accounts_inv (accounts T) q'"
    using I le(1) unfolding accounts_inv_def by (meson order.trans)
  moreover have "entry_ids_inv (entries T) q'"
    using I le(2) unfolding entry_ids_inv_def by (meson order.trans)
  moreover have "outbox_inv (outbox_events T) q'"
    using I le(3) unfolding outbox_inv_def by (meson order.trans)
  moreover have "users_inv (users T) q'"
    using I le(4) unfolding users_inv_def by (meson order.trans)
  ultimately show ?thesis using I le(5) unfolding db_inv_def by blast
qed

lemma db_inv_irrelevant [simp]:
  "db_inv (T\<lparr>refresh_tokens := R\<rparr>) q = db_inv T q"
  "db_inv (T\<lparr>processed_events := P\<rparr>) q = db_inv T q"
  by (simp_all add: db_inv_def ledger_inv_def references_ok_def)

lemma migrated_db_inv:
  assumes "inj_on ids {1..10}"
  shows "db_inv (migrated_tables now ids) migrated_seqs"
proof -
  let ?As = "accounts (migrated_tables now ids)"
  have A: "?As = map (\<lambda>(n, t, d). system_row now ids n t d)
      ((1, ''SYSTEM_CASH'', ''DEBIT'') # (2, ''SYSTEM_FEE_REVENUE'', ''CREDIT'')
       # (3, ''SYSTEM_SUSPENSE'', ''CREDIT'')
       # map (\<lambda>n. (n, ''SYSTEM_FEE_REVENUE'', ''CREDIT'')) [4, 5, 6, 7, 8, 9, 10])"
    by (simp add: migrated_tables_def)
  have pub: "map acc_PublicID ?As = map ids [1, 2, 3, 4, 5, 6, 7, 8, 9, 10]"
    by (simp add: A system_row_def)
  have "set [1, 2, 3, 4, 5, 6, 7, 8, 9, 10] \<subseteq> {1..10::nat}" by auto
  with assms have "inj_on ids (set [1, 2, 3, 4, 5, 6, 7, 8, 9, 10])" by (rule inj_on_subset)
  then have "distinct (map acc_PublicID ?As)" unfolding pub by (simp add: distinct_map)
  moreover have "\<forall>a \<in> set ?As. acc_Type a \<noteq> AccountUserWallet \<and> 0 < acc_ID a \<and> acc_ID a \<le> 10"
    by (simp add: A system_row_def AccountUserWallet_def)
  moreover have "map acc_Type (filter (\<lambda>a. acc_Type a \<noteq> AccountUserWallet) ?As) = system_types"
    by (simp add: A system_row_def account_type_defs system_types_def numeral_eq_Suc)
  ultimately have "accounts_inv ?As migrated_seqs" by (auto simp: accounts_inv_def migrated_seqs_def)
  moreover have "accounts_ok ?As"
    by (simp add: A accounts_ok_def system_row_def accounts_check_def check_normal_balance_def
        check_owner_def check_wallet_non_negative_def account_type_defs DirectionDebit_def
        DirectionCredit_def)
  moreover have "no_drift ?As []"
    by (simp add: A no_drift_def computed_balance_def system_row_def)
  ultimately show ?thesis
    by (simp add: db_inv_def ledger_inv_def references_ok_def entry_ids_inv_def outbox_inv_def
        users_inv_def keys_inv_def seqs_ok_def migrated_seqs_def entries_ok_def transactions_ok_def
        balanced_def migrated_tables_def)
qed

section \<open>Posting\<close>

lemma er_id_posted_rows:
  "map er_id (posted_rows env tid n As es) = map (\<lambda>i. n + 1 + int i) [0..<length es]"
proof (induction es arbitrary: n)
  case (Cons e es)
  have "map (\<lambda>i. n + 1 + int i) [0..<Suc (length es)]
      = (n + 1) # map (\<lambda>i. n + 1 + int (Suc i)) [0..<length es]"
    by (simp add: upt_conv_Cons map_Suc_upt [symmetric] del: upt_Suc)
  with Cons [of "n + 1"] show ?case by (simp add: new_entry_row_def algebra_simps del: upt_Suc)
qed simp

lemma posted_entry_ids:
  assumes "entry_ids_inv Es q"
  shows "entry_ids_inv (Es @ posted_rows env tid (seq_entries q) As (txn_Entries txn))
           (posted_seqs txn q)"
proof -
  let ?es = "txn_Entries txn"
  let ?R = "posted_rows env tid (seq_entries q) As ?es"
  have R: "er_id r \<in> (\<lambda>i. seq_entries q + 1 + int i) ` {0..<length ?es}" if "r \<in> set ?R" for r
  proof -
    have "er_id r \<in> set (map er_id ?R)" using that by simp
    then show ?thesis unfolding er_id_posted_rows by simp
  qed
  then have bound: "seq_entries q < er_id r \<and> er_id r \<le> seq_entries q + int (length ?es)"
    if "r \<in> set ?R" for r using R [OF that] by auto
  have "sorted_wrt (<) (map er_id ?R)"
    unfolding er_id_posted_rows by (simp add: sorted_wrt_map sorted_wrt_upt strict_mono_imp_increasing)
  with assms bound show ?thesis
    by (fastforce simp: entry_ids_inv_def sorted_wrt_append posted_seqs_def)
qed

lemma posted_form_result: "posted_form (posted_result env tid n As txn)"
proof -
  have "map (\<lambda>e. \<lparr> ent_AccountID = pe_AccountID e, ent_Direction = pe_Direction e,
                  ent_Amount = pe_Amount e \<rparr>)
          (map (posted_entry_of txn As') (posted_rows env tid n As es)) = es" for es As'
    by (induction es arbitrary: n) (simp_all add: posted_entry_of_def new_entry_row_def)
  moreover have "pe_TransactionID e = tid \<and> pe_TxnType e = txn_Type txn \<and> pe_Description e = txn_Description txn"
    if "e \<in> set (map (posted_entry_of txn As) (posted_rows env tid n As es))" for e es
    using that by (auto simp: posted_entry_of_def dest!: posted_rowsD)
  ultimately show ?thesis by (simp add: posted_form_def posted_result_def)
qed

lemma posted_result_in_range:
  assumes acc: "\<forall>e \<in> set (txn_Entries txn). entry_accepts As e" and A: "accounts_inv As q"
    and D: "distinct (map acc_ID As)" and rng: "amounts_in_range txn"
    and Es: "0 \<le> seq_entries q" and q: "seqs_ok q" "seqs_ok (posted_seqs txn q)"
    and u: "pred_option in_int64 (txn_InitiatedBy txn)"
  shows "stored_in_range (toStored (posted_result env tid (seq_entries q) As txn))"
proof -
  have "in_int64 (er_id r) \<and> in_int64 (er_account_id r) \<and> in_int64 (er_amount r)
      \<and> in_int64 (er_balance_after r)"
    if r: "r \<in> set (posted_rows env tid (seq_entries q) As (txn_Entries txn))" for r
  proof -
    from posted_rowsD [OF r] obtain e where e: "e \<in> set (txn_Entries txn)"
      "er_account_id r = ent_AccountID e" "er_amount r = ent_Amount e"
      "er_balance_after r = balance_after As e" by blast
    from acc e(1) obtain a where a: "a \<in> set As" "acc_ID a = ent_AccountID e"
      "in_int64 (acc_Balance a + entry_delta e (acc_NormalBalance a))"
      unfolding entry_accepts_def by blast
    have "balance_after As e = acc_Balance a + entry_delta e (acc_NormalBalance a)"
      using account_by_id_eq [OF D a(1)] a(2) by (simp add: balance_after_def)
    moreover have "in_int64 (acc_ID a)" using A a(1) q(1)
      by (auto simp: accounts_inv_def in_int64_def seqs_ok_def)
    moreover have "er_id r \<in> set (map er_id (posted_rows env tid (seq_entries q) As (txn_Entries txn)))"
      using r by simp
    then have "in_int64 (er_id r)"
      using Es q(2) unfolding er_id_posted_rows by (auto simp: in_int64_def seqs_ok_def posted_seqs_def)
    ultimately show ?thesis using a e rng by (simp add: amounts_in_range_def)
  qed
  with u show ?thesis
    by (auto simp: stored_in_range_def toStored_def posted_result_def stored_entry_in_range_def
        posted_entry_of_def)
qed

lemma acc_key_settle [simp]: "acc_key (settle now es a) = acc_key a"
  by (simp add: acc_key_def)

lemma accounts_inv_keys:
  assumes "map acc_key As' = map acc_key As" "accounts_inv As q" "seq_accounts q \<le> seq_accounts q'"
  shows "accounts_inv As' q'"
proof -
  have p: "map acc_PublicID As' = map acc_PublicID As"
    using arg_cong [OF assms(1), of "map (fst \<circ> snd)"] by (simp add: comp_def acc_key_def)
  have t: "map acc_Type (filter (\<lambda>a. acc_Type a \<noteq> AccountUserWallet) As')
      = map acc_Type (filter (\<lambda>a. acc_Type a \<noteq> AccountUserWallet) As)"
  proof -
    define kt :: "int64 \<times> uuid \<times> int64 option \<times> account_type \<times> direction \<Rightarrow> account_type"
      where "kt k = fst (snd (snd (snd k)))" for k
    have "map acc_Type (filter (\<lambda>a. acc_Type a \<noteq> AccountUserWallet) Xs)
        = map kt (filter (\<lambda>k. kt k \<noteq> AccountUserWallet) (map acc_key Xs))" for Xs
      by (induction Xs) (simp_all add: acc_key_def kt_def)
    with assms(1) show ?thesis by simp
  qed
  have k: "acc_key ` set As' = acc_key ` set As" using arg_cong [OF assms(1), of set] by simp
  have e: "\<exists>a \<in> set As. acc_ID a' = acc_ID a \<and> acc_UserID a' = acc_UserID a \<and> acc_Type a' = acc_Type a"
    if "a' \<in> set As'" for a'
  proof -
    have "acc_key a' \<in> acc_key ` set As" using that k by (metis imageI)
    then obtain a where "a \<in> set As" "acc_key a' = acc_key a" by blast
    then show ?thesis by (auto simp: acc_key_def)
  qed
  note A = assms(2) [unfolded accounts_inv_def]
  have ids: "0 < acc_ID a' \<and> acc_ID a' \<le> seq_accounts q'" if "a' \<in> set As'" for a'
    using e [OF that] A assms(3) by fastforce
  have wallets: "acc_ID a' = acc_ID b'" if w: "a' \<in> set As'" "b' \<in> set As'"
    "acc_Type a' = AccountUserWallet" "acc_Type b' = AccountUserWallet" "acc_UserID a' = acc_UserID b'"
    for a' b'
  proof -
    obtain a b where "a \<in> set As" "b \<in> set As" "acc_ID a' = acc_ID a" "acc_ID b' = acc_ID b"
      "acc_UserID a' = acc_UserID a" "acc_UserID b' = acc_UserID b" "acc_Type a' = acc_Type a"
      "acc_Type b' = acc_Type b" using e [OF w(1)] e [OF w(2)] by blast
    moreover have "\<forall>a \<in> set As. \<forall>b \<in> set As. acc_Type a = AccountUserWallet \<longrightarrow>
        acc_Type b = AccountUserWallet \<longrightarrow> acc_UserID a = acc_UserID b \<longrightarrow> acc_ID a = acc_ID b"
      using A by blast
    ultimately show ?thesis using w(3-5) by metis
  qed
  from ids wallets A show ?thesis unfolding accounts_inv_def p t by blast
qed

lemma posted_db_inv:
  assumes I: "db_inv T q" and acc: "post_accepts env tid eid txn claim T"
    and rng: "amounts_in_range txn" and q': "seqs_ok (posted_seqs txn q)"
  shows "db_inv (posted_tables env tid eid q txn claim T) (posted_seqs txn q)"
proof -
  let ?T' = "posted_tables env tid eid q txn claim T"
  note I' = I [unfolded db_inv_def]
  have EA: "\<forall>e \<in> set (txn_Entries txn). entry_accepts (accounts T) e"
    and RA: "reversal_accepts (transactions T) (txn_ReversesID txn)"
    and free: "claim_free T claim" and eid: "eid \<notin> ob_event_id ` set (outbox_events T)"
    and init: "pred_option (\<lambda>u. u \<in> usr_ID ` set (users T)) (txn_InitiatedBy txn)"
    using acc by (simp_all add: post_accepts_def)
  have D: "distinct (map acc_ID (accounts T))"
    using I' by (simp add: ledger_inv_def accounts_ok_def)
  have "pred_option in_int64 (txn_InitiatedBy txn)"
    using init I' by (cases "txn_InitiatedBy txn") (auto simp: users_inv_def seqs_ok_def in_int64_def)
  then have rng': "stored_in_range (toStored (posted_result env tid (seq_entries q) (accounts T) txn))"
    using posted_result_in_range [OF EA _ D rng] I' q' by (auto simp: entry_ids_inv_def)
  have "txn_ID (pr_Transaction (posted_result env tid n As txn)) = tid" for n As
    by (simp add: posted_result_def)
  then have "completed_row (insert tid S)
      (completed_claim env claim tid (json_of_stored (toStored
        (posted_result env tid (seq_entries q) (accounts T) txn))))" for S
    using posted_form_result rng' unfolding completed_row_def completed_claim_def
    by (intro conjI exI [of _ "posted_result env tid (seq_entries q) (accounts T) txn"]) simp_all
  moreover have "completed_row (insert tid (tr_id ` set (transactions T))) r"
    if "r \<in> set (idempotency_keys T)" for r
    using I' that unfolding keys_inv_def completed_row_def by blast
  ultimately have keys: "keys_inv (idempotency_keys ?T') (transactions ?T')"
    using I' free
    by (auto simp: keys_inv_def posted_tables_def Let_def completed_claim_def claim_free_def
        header_row_def new_txn_row_def)
  have "outbox_inv (outbox_events ?T') (posted_seqs txn q)"
    using I' by (fastforce simp: outbox_inv_def posted_tables_def Let_def new_outbox_row_def posted_seqs_def)
  moreover have "accounts_inv (accounts ?T') (posted_seqs txn q)"
    using I' by (intro accounts_inv_keys [of "accounts ?T'" "accounts T" q]) (simp_all add: posted_seqs_def)
  moreover have "users_inv (users ?T') (posted_seqs txn q)"
    using I' by (simp add: users_inv_def posted_seqs_def)
  ultimately show ?thesis
    unfolding db_inv_def
    using posted_ledger_inv [OF _ _ acc rng] posted_references_ok [OF _ RA] posted_entry_ids keys I' q'
    by simp
qed

lemma Post_db_inv:
  assumes "db_inv (tabs w) (seqs w)" "LedgerRepo_Post env txn claim w = (r, w')"
    and "amounts_in_range txn"
  shows "db_inv (tabs w') (seqs w')"
proof -
  have le: "seq_le (seqs w) (seqs w')" using assms(2) by (rule growsD [OF grows_LedgerRepo_Post])
  show ?thesis
  proof (cases r)
    case (Inl e)
    with assms(2) have "tabs w' = tabs w"
      by (auto simp: LedgerRepo_Post_def split: option.splits dest: in_tx_Inl_tabs)
    with db_inv_seqs [OF assms(1) le] show ?thesis by simp
  next
    case (Inr res)
    have "distinct (map acc_ID (accounts (tabs w)))"
      using assms(1) by (simp add: db_inv_def ledger_inv_def accounts_ok_def)
    from LedgerRepo_Post_sound [OF assms(2) [unfolded Inr] this assms(3)] obtain tid eid where
      P: "post_accepts env tid eid txn claim (tabs w)"
      "tabs w' = posted_tables env tid eid (seqs w) txn claim (tabs w)"
      "seqs w' = posted_seqs txn (seqs w)" by metis
    have "seqs_ok (seqs w)" using assms(1) by (simp add: db_inv_def)
    with le have "seqs_ok (seqs w')" by (simp add: seq_le_def)
    with posted_db_inv [OF assms(1) P(1) assms(3)] P(2,3) show ?thesis by simp
  qed
qed

end
