(* ===== verification/Consumer.thy ===== *)
theory Consumer
  imports StoredResult
begin

text \<open>
  internal/consumer/auditlog.go: the consumer that records each event once. A delivery is a
  message id (a text), a body (None when it is not JSON) and its settlement is the value
  \<open>handle\<close> returns; the audit line it logs is kept in \<open>cw_audit\<close>. \<open>uuid.Parse\<close> and the text
  of a UUID belong to a library and are arguments.
\<close>

definition consumer_name :: string where "consumer_name = ''audit-log''"

record posted_payload =
  pp_TransactionID :: string
  pp_Type :: string
  pp_Status :: string

record delivery =
  d_MessageId :: string
  d_Body :: "json option"

datatype settlement = Ack | NackDLQ | NackRequeue

record consumer_world =
  cw_pg :: pg
  cw_audit :: "(uuid \<times> posted_payload) list"

definition read_text :: "(uuid \<Rightarrow> string) \<Rightarrow> (string \<times> json) list \<Rightarrow> string \<Rightarrow> string result" where
  \<comment> \<open>a string field; a leaf that holds a UUID is read as its text\<close>
  "read_text uuid_text fs k =
     (case map_of fs k of
        Some (JUuid u) \<Rightarrow> Inr (uuid_text u)
      | _ \<Rightarrow> read_str fs k)"

definition unmarshal_payload :: "(uuid \<Rightarrow> string) \<Rightarrow> json option \<Rightarrow> posted_payload result" where
  "unmarshal_payload uuid_text body =
     (case body of
        None \<Rightarrow> Inl (NewError ''invalid character'')
      | Some JNull \<Rightarrow> Inr \<lparr> pp_TransactionID = '''', pp_Type = '''', pp_Status = '''' \<rparr>
      | Some (JObj fs) \<Rightarrow>
          bindR (read_text uuid_text fs ''transaction_id'') (\<lambda>i.
          bindR (read_text uuid_text fs ''type'') (\<lambda>ty.
          bindR (read_text uuid_text fs ''status'') (\<lambda>st.
            Inr \<lparr> pp_TransactionID = i, pp_Type = ty, pp_Status = st \<rparr>)))
      | Some _ \<Rightarrow> Inl unmarshal_type_error)"

definition sql_insert_processed :: "env \<Rightarrow> uuid \<Rightarrow> (pg, nat) prog" where
  "sql_insert_processed env eventID =
     stmt env (\<lambda>k w. let T = tabs w in
       if \<exists>r \<in> set (processed_events T). pv_event_id r = eventID then (Inr 0, w)
       else (Inr 1, w\<lparr>tabs := T\<lparr>processed_events := processed_events T @
              [\<lparr> pv_event_id = eventID, pv_consumer = consumer_name,
                pv_processed_at = env_now env \<rparr>]\<rparr>\<rparr>))"

definition AuditLog_handle ::
    "env \<Rightarrow> (string \<Rightarrow> uuid option) \<Rightarrow> (uuid \<Rightarrow> string) \<Rightarrow> delivery \<Rightarrow> consumer_world \<Rightarrow>
     settlement \<times> consumer_world" where
  "AuditLog_handle env parse uuid_text d cw =
     (case parse (d_MessageId d) of
        None \<Rightarrow> (NackDLQ, cw)
      | Some eventID \<Rightarrow>
          (case sql_insert_processed env eventID (cw_pg cw) of
             (Inl err, w) \<Rightarrow> (NackRequeue, cw\<lparr>cw_pg := w\<rparr>)
           | (Inr n, w) \<Rightarrow>
               let cw1 = cw\<lparr>cw_pg := w\<rparr> in
               if n = 0 then (Ack, cw1)
               else case unmarshal_payload uuid_text (d_Body d) of
                      Inl err \<Rightarrow> (NackDLQ, cw1)
                    | Inr p \<Rightarrow> (Ack, cw1\<lparr>cw_audit := cw_audit cw1 @ [(eventID, p)]\<rparr>)))"

text \<open>The deliveries of one channel are handled one after the other.\<close>

fun AuditLog_Run ::
    "(nat \<Rightarrow> env) \<Rightarrow> (string \<Rightarrow> uuid option) \<Rightarrow> (uuid \<Rightarrow> string) \<Rightarrow> delivery list \<Rightarrow> consumer_world \<Rightarrow>
     settlement list \<times> consumer_world" where
  "AuditLog_Run envs parse uuid_text [] cw = ([], cw)"
| "AuditLog_Run envs parse uuid_text (d # ds) cw =
     (let (s, cw1) = AuditLog_handle (envs 0) parse uuid_text d cw;
          (ss, cw2) = AuditLog_Run (\<lambda>n. envs (Suc n)) parse uuid_text ds cw1
      in (s # ss, cw2))"

section \<open>Each event is recorded once\<close>

definition processed_ids :: "consumer_world \<Rightarrow> uuid set" where
  "processed_ids cw = pv_event_id ` set (processed_events (tabs (cw_pg cw)))"

definition audit_ok :: "consumer_world \<Rightarrow> bool" where
  "audit_ok cw \<longleftrightarrow>
     distinct (map pv_event_id (processed_events (tabs (cw_pg cw))))
     \<and> distinct (map fst (cw_audit cw)) \<and> fst ` set (cw_audit cw) \<subseteq> processed_ids cw"

lemma sql_insert_processed_cases:
  assumes "sql_insert_processed env i w = (r, w')"
  shows "(\<exists>e. r = Inl e \<and> tabs w' = tabs w)
       \<or> (r = Inr 0 \<and> tabs w' = tabs w \<and> i \<in> pv_event_id ` set (processed_events (tabs w)))
       \<or> (r = Inr 1 \<and> i \<notin> pv_event_id ` set (processed_events (tabs w))
          \<and> tabs w' = (tabs w)\<lparr>processed_events := processed_events (tabs w)
               @ [\<lparr> pv_event_id = i, pv_consumer = consumer_name, pv_processed_at = env_now env \<rparr>]\<rparr>)"
  using assms
  by (auto simp: sql_insert_processed_def stmt_def Let_def image_iff split: option.splits if_splits)

lemma handle_cases:
  assumes "AuditLog_handle env parse txt d cw = (s, cw')"
  shows "(tabs (cw_pg cw') = tabs (cw_pg cw) \<and> cw_audit cw' = cw_audit cw)
    \<or> (\<exists>i p. i \<notin> processed_ids cw
         \<and> map pv_event_id (processed_events (tabs (cw_pg cw')))
           = map pv_event_id (processed_events (tabs (cw_pg cw))) @ [i]
         \<and> cw_audit cw' \<in> {cw_audit cw, cw_audit cw @ [(i, p)]})"
proof (cases "parse (d_MessageId d)")
  case None
  with assms show ?thesis by (simp add: AuditLog_handle_def)
next
  case (Some i)
  obtain r w where I: "sql_insert_processed env i (cw_pg cw) = (r, w)" by fastforce
  from sql_insert_processed_cases [OF I] assms I Some show ?thesis
    by (auto simp: AuditLog_handle_def processed_ids_def Let_def split: sum.splits if_splits)
qed

lemma handle_audit_ok:
  assumes "audit_ok cw" "AuditLog_handle env parse txt d cw = (s, cw')"
  shows "audit_ok cw' \<and> processed_ids cw \<subseteq> processed_ids cw'"
  using handle_cases [OF assms(2)]
proof
  assume "tabs (cw_pg cw') = tabs (cw_pg cw) \<and> cw_audit cw' = cw_audit cw"
  with assms(1) show ?thesis by (simp add: audit_ok_def processed_ids_def)
next
  assume "\<exists>i p. i \<notin> processed_ids cw
         \<and> map pv_event_id (processed_events (tabs (cw_pg cw')))
           = map pv_event_id (processed_events (tabs (cw_pg cw))) @ [i]
         \<and> cw_audit cw' \<in> {cw_audit cw, cw_audit cw @ [(i, p)]}"
  then obtain i p where i: "i \<notin> processed_ids cw"
    and m: "map pv_event_id (processed_events (tabs (cw_pg cw')))
           = map pv_event_id (processed_events (tabs (cw_pg cw))) @ [i]"
    and a: "cw_audit cw' \<in> {cw_audit cw, cw_audit cw @ [(i, p)]}" by blast
  have ids: "processed_ids cw' = insert i (processed_ids cw)"
    using arg_cong [OF m, of set] by (simp add: processed_ids_def)
  have "distinct (map pv_event_id (processed_events (tabs (cw_pg cw'))))"
    using assms(1) i unfolding m by (simp add: audit_ok_def processed_ids_def)
  moreover have "i \<notin> fst ` set (cw_audit cw)" using assms(1) i by (auto simp: audit_ok_def)
  moreover have "fst ` set (cw_audit cw') \<subseteq> insert i (fst ` set (cw_audit cw))" using a by auto
  moreover have "distinct (map fst (cw_audit cw'))"
    using assms(1) a calculation(2) by (auto simp: audit_ok_def)
  ultimately show ?thesis
    using assms(1) unfolding audit_ok_def ids by blast
qed

lemma Run_audit_ok:
  "\<lbrakk>audit_ok cw; AuditLog_Run envs parse txt ds cw = (ss, cw')\<rbrakk> \<Longrightarrow>
   audit_ok cw' \<and> processed_ids cw \<subseteq> processed_ids cw'"
proof (induction ds arbitrary: envs cw ss)
  case (Cons d ds)
  obtain s cw1 where h: "AuditLog_handle (envs 0) parse txt d cw = (s, cw1)" by fastforce
  obtain ss' where r: "AuditLog_Run (\<lambda>n. envs (Suc n)) parse txt ds cw1 = (ss', cw')"
    using Cons.prems(2) h by (auto split: prod.splits)
  from handle_audit_ok [OF Cons.prems(1) h] Cons.IH [OF _ r] show ?case by blast
qed simp

text \<open>
  C23 safety. However often RabbitMQ redelivers, in whatever order and with whatever database
  failures in between, each event has at most one row in processed_events and at most one
  audit line, and an event once recorded stays recorded. A delivery of an event already
  recorded is acknowledged and changes neither the tables nor the log, unless the database
  fails, in which case it is requeued and changes nothing either.
\<close>

theorem consumer_idempotent:
  assumes "audit_ok cw" "AuditLog_Run envs parse txt ds cw = (ss, cw')"
  shows "distinct (map pv_event_id (processed_events (tabs (cw_pg cw'))))
    \<and> distinct (map fst (cw_audit cw')) \<and> processed_ids cw \<subseteq> processed_ids cw'
    \<and> (\<forall>env d i s cw''. parse (d_MessageId d) = Some i \<and> i \<in> processed_ids cw'
         \<and> AuditLog_handle env parse txt d cw' = (s, cw'') \<longrightarrow>
         (s = Ack \<or> s = NackRequeue) \<and> tabs (cw_pg cw'') = tabs (cw_pg cw')
         \<and> cw_audit cw'' = cw_audit cw')"
proof -
  have again: "(s = Ack \<or> s = NackRequeue) \<and> tabs (cw_pg cw'') = tabs (cw_pg cw')
         \<and> cw_audit cw'' = cw_audit cw'"
    if "parse (d_MessageId d) = Some i" "i \<in> processed_ids cw'"
      "AuditLog_handle env parse txt d cw' = (s, cw'')" for env d i s cw''
  proof -
    obtain r w where I: "sql_insert_processed env i (cw_pg cw') = (r, w)" by fastforce
    from sql_insert_processed_cases [OF I] that I show ?thesis
      by (auto simp: AuditLog_handle_def processed_ids_def Let_def split: sum.splits if_splits)
  qed
  with Run_audit_ok [OF assms] show ?thesis unfolding audit_ok_def by blast
qed

text \<open>Two deliveries of the same event, the second after the first was recorded.\<close>

definition audit_env :: env where
  "audit_env = \<lparr> env_fault = (\<lambda>k. None), env_now = 9, env_uuid = of_nat, env_lower = (\<lambda>s. s) \<rparr>"

definition audit_start :: consumer_world where
  "audit_start =
     \<lparr> cw_pg = \<lparr> tabs = \<lparr> accounts = [], transactions = [], entries = [], idempotency_keys = [],
           outbox_events = [], users = [], refresh_tokens = [], processed_events = [] \<rparr>,
         seqs = \<lparr> seq_accounts = 0, seq_entries = 0, seq_outbox = 0, seq_users = 0, seq_tokens = 0 \<rparr>,
         steps = 0 \<rparr>,
       cw_audit = [] \<rparr>"

definition audit_delivery :: delivery where
  "audit_delivery = \<lparr> d_MessageId = ''7'', d_Body = Some (JObj [(''type'', JStr ''TOPUP'')]) \<rparr>"

theorem consumer_idempotent_witness:
  "\<exists>cw'. AuditLog_Run (\<lambda>n. audit_env) (\<lambda>s. Some 7) (\<lambda>u. '''') [audit_delivery, audit_delivery] audit_start
           = ([Ack, Ack], cw')
     \<and> distinct (map fst (cw_audit cw')) \<and> map fst (cw_audit cw') = [7]"
proof -
  have run: "\<exists>cw'. AuditLog_Run (\<lambda>n. audit_env) (\<lambda>s. Some 7) (\<lambda>u. '''')
      [audit_delivery, audit_delivery] audit_start = ([Ack, Ack], cw') \<and> map fst (cw_audit cw') = [7]"
    by (simp add: AuditLog_handle_def sql_insert_processed_def stmt_def audit_env_def Let_def
        audit_start_def audit_delivery_def unmarshal_payload_def read_text_def read_str_def bindR_def)
  have ok: "audit_ok audit_start" by (simp add: audit_ok_def audit_start_def processed_ids_def)
  obtain cw' where R: "AuditLog_Run (\<lambda>n. audit_env) (\<lambda>s. Some 7) (\<lambda>u. '''')
      [audit_delivery, audit_delivery] audit_start = ([Ack, Ack], cw')" and a: "map fst (cw_audit cw') = [7]"
    using run by (elim exE conjE)
  note D = consumer_idempotent [OF ok R, THEN conjunct2, THEN conjunct1]
  show ?thesis by (intro exI [of _ cw'] conjI R D a)
qed

end
