(* ===== verification/System.thy ===== *)
theory System
  imports Invariant Consumer
begin

text \<open>
  The running system as a transition relation: each step is one call of a repository, of the
  relay or of the consumer, with any arguments and any faults. Concurrent requests are the
  interleavings of these steps: a posting holds the row locks of its accounts and its key
  until it commits, so PostgreSQL runs it as if alone. \<open>reachable\<close> starts from the migrated
  database.
\<close>

section \<open>Steps\<close>

inductive db_step :: "pg \<Rightarrow> pg \<Rightarrow> bool" where
  post: "\<lbrakk>LedgerRepo_Post env txn claim w = (r, w'); amounts_in_range txn\<rbrakk> \<Longrightarrow> db_step w w'"
| register: "UserRepo_CreateWithWallet env u w = (r, w') \<Longrightarrow> db_step w w'"
| create_wallet: "AccountRepo_CreateWallet env i w = (r, w') \<Longrightarrow> db_step w w'"
| store_token: "RefreshTokenRepo_Store env i h t w = (r, w') \<Longrightarrow> db_step w w'"
| revoke: "RefreshTokenRepo_Revoke env h w = (r, w') \<Longrightarrow> db_step w w'"
| revoke_all: "RefreshTokenRepo_RevokeAllForUser env i w = (r, w') \<Longrightarrow> db_step w w'"
| cleanup: "IdempotencyRepo_DeleteOlderThan env days w = (r, w') \<Longrightarrow> db_step w w'"
| relay: "Relay_PollOnce env out skip rw = (r, rw') \<Longrightarrow> db_step (rw_pg rw) (rw_pg rw')"
| consume: "AuditLog_handle env parse uuid_text d cw = (s, cw') \<Longrightarrow> db_step (cw_pg cw) (cw_pg cw')"
| read: "\<lbrakk>tabs w' = tabs w; seqs w' = seqs w\<rbrakk> \<Longrightarrow> db_step w w'"

inductive_cases db_stepE: "db_step w w'"

inductive reachable :: "pg \<Rightarrow> bool" where
  initial: "\<lbrakk>tabs w = migrated_tables now ids; seqs w = migrated_seqs; inj_on ids {1..10}\<rbrakk> \<Longrightarrow>
            reachable w"
| step: "\<lbrakk>reachable w; db_step w w'\<rbrakk> \<Longrightarrow> reachable w'"

section \<open>Every step preserves the invariant\<close>

lemma add_wallet_db_inv:
  assumes I: "db_inv T q" and a: "a = new_wallet_row env (seq_accounts q + 1) i u"
    and new: "i \<notin> acc_PublicID ` set (accounts T)" "acc_ID a \<notin> acc_ID ` set (accounts T)"
      "accounts_check a = None"
      "\<forall>b \<in> set (accounts T). acc_UserID b = Some u \<longrightarrow> acc_Type b \<noteq> AccountUserWallet"
    and q': "q' = q\<lparr>seq_accounts := acc_ID a\<rparr>" "seqs_ok q'"
  shows "db_inv (T\<lparr>accounts := accounts T @ [a]\<rparr>) q'"
proof -
  note I' = I [unfolded db_inv_def ledger_inv_def]
  have f: "acc_Balance a = 0" "acc_PublicID a = i" "acc_UserID a = Some u"
    "acc_Type a = AccountUserWallet" "acc_ID a = seq_accounts q + 1"
    using a by (simp_all add: new_wallet_row_def AccountUserWallet_def)
  have "er_account_id r \<noteq> acc_ID a" if "r \<in> set (entries T)" for r
    using I' that new(2) unfolding entries_ok_def by metis
  then have "computed_balance (entries T) a = 0" by (simp add: computed_balance_def)
  then have "no_drift (accounts T @ [a]) (entries T)" using I' f by (simp add: no_drift_def)
  moreover have "accounts_ok (accounts T @ [a])" using I' new f by (simp add: accounts_ok_def)
  moreover have "entries_ok (accounts T @ [a]) (transactions T) (entries T)"
    using I' by (simp add: entries_ok_def)
  moreover have "accounts_inv (accounts T @ [a]) q'"
  proof -
    have pos: "0 < seq_accounts q + 1"
    proof -
      have "system_types \<noteq> []" by (simp add: system_types_def)
      then obtain b where "b \<in> set (accounts T)" using I' by (fastforce simp: accounts_inv_def)
      with I' have "0 < seq_accounts q" unfolding accounts_inv_def by fastforce
      then show ?thesis by simp
    qed
    note A = I' [unfolded accounts_inv_def]
    have "distinct (map acc_PublicID (accounts T @ [a]))" using A new(1) f(2) by simp
    moreover have "0 < acc_ID b \<and> acc_ID b \<le> seq_accounts q'" if "b \<in> set (accounts T @ [a])" for b
      using that A pos f(5) q'(1) by fastforce
    moreover have "acc_ID b = acc_ID c" if "b \<in> set (accounts T @ [a])" "c \<in> set (accounts T @ [a])"
      "acc_Type b = AccountUserWallet" "acc_Type c = AccountUserWallet" "acc_UserID b = acc_UserID c" for b c
    proof (cases "b = a \<or> c = a")
      case True
      with that new(4) f(3) show ?thesis by auto
    next
      case False
      with that have "b \<in> set (accounts T)" "c \<in> set (accounts T)" by auto
      moreover have "\<forall>x \<in> set (accounts T). \<forall>y \<in> set (accounts T). acc_Type x = AccountUserWallet \<longrightarrow>
          acc_Type y = AccountUserWallet \<longrightarrow> acc_UserID x = acc_UserID y \<longrightarrow> acc_ID x = acc_ID y"
        using A by blast
      ultimately show ?thesis using that(3-5) by blast
    qed
    moreover have "map acc_Type (filter (\<lambda>a. acc_Type a \<noteq> AccountUserWallet) (accounts T @ [a])) = system_types"
      using A f(4) by simp
    ultimately show ?thesis unfolding accounts_inv_def by blast
  qed
  moreover have "entry_ids_inv (entries T) q'" "outbox_inv (outbox_events T) q'" "users_inv (users T) q'"
    using I' q'(1) by (simp_all add: entry_ids_inv_def outbox_inv_def users_inv_def)
  ultimately show ?thesis
    using I' q'(2) by (simp add: db_inv_def ledger_inv_def references_ok_def)
qed

lemma add_user_db_inv:
  assumes "db_inv T q" "v = new_user_row env (seq_users q + 1) i u"
    and "\<forall>x \<in> set (users T). usr_ID x \<noteq> usr_ID v"
    and "q' = q\<lparr>seq_users := usr_ID v\<rparr>" "seqs_ok q'"
  shows "db_inv (T\<lparr>users := users T @ [v]\<rparr>) q'"
proof -
  have U: "users_inv (users T) q" using assms(1) by (simp add: db_inv_def)
  have v: "usr_ID v = seq_users q + 1" "seq_users q' = seq_users q + 1"
    using assms(2,4) by (simp_all add: new_user_row_def)
  have "usr_ID v \<notin> usr_ID ` set (users T)" using assms(3) by (metis imageE)
  moreover have "0 < usr_ID x \<and> usr_ID x \<le> seq_users q'" if "x \<in> set (users T @ [v])" for x
    using that U v by (force simp: users_inv_def)
  ultimately have "users_inv (users T @ [v]) q'"
    using U v by (simp add: users_inv_def)
  moreover have "accounts_inv As q' = accounts_inv As q" "entry_ids_inv Es q' = entry_ids_inv Es q"
    "outbox_inv Os q' = outbox_inv Os q" for As Es Os
    by (simp_all add: assms(4) accounts_inv_def entry_ids_inv_def outbox_inv_def)
  ultimately show ?thesis
    using assms(1,5) by (simp add: db_inv_def ledger_inv_def references_ok_def)
qed

lemma CreateWithWallet_db_inv:
  assumes I: "db_inv (tabs w) (seqs w)" and R: "UserRepo_CreateWithWallet env u w = (r, w')"
  shows "db_inv (tabs w') (seqs w')"
proof -
  have le: "seq_le (seqs w) (seqs w')" by (rule growsD [OF grows_register(3) R])
  show ?thesis
  proof (cases r)
    case (Inl e)
    have "tabs w' = tabs w"
      using R [unfolded Inl UserRepo_CreateWithWallet_def] by (rule in_tx_Inl_tabs)
    with db_inv_seqs [OF I le] show ?thesis by simp
  next
    case (Inr va)
    obtain v a where va: "va = (v, a)" by fastforce
    note C = CreateWithWallet_Inr [OF R [unfolded Inr va]]
    have ok': "seqs_ok (seqs w')" using I le by (simp add: db_inv_def seq_le_def)
    then have "seqs_ok ((seqs w)\<lparr>seq_users := usr_ID v\<rparr>)"
      using I C(7) by (simp add: seqs_ok_def db_inv_def)
    with C(1,2) have "db_inv ((tabs w)\<lparr>users := users (tabs w) @ [v]\<rparr>) ((seqs w)\<lparr>seq_users := usr_ID v\<rparr>)"
      by (auto intro!: add_user_db_inv [OF I])
    from add_wallet_db_inv [OF this, of a env _ "usr_ID v" "seqs w'"] C ok'
    have "db_inv ((tabs w)\<lparr>users := users (tabs w) @ [v], accounts := accounts (tabs w) @ [a]\<rparr>) (seqs w')"
      by auto
    with C(6) show ?thesis by simp
  qed
qed

lemma CreateWallet_db_inv:
  assumes I: "db_inv (tabs w) (seqs w)" and R: "AccountRepo_CreateWallet env i w = (r, w')"
  shows "db_inv (tabs w') (seqs w')"
proof -
  have le: "seq_le (seqs w) (seqs w')" by (rule growsD [OF grows_register(4) R])
  obtain r0 where S: "sql_insert_wallet env i w = (r0, w')"
    using R by (auto simp: AccountRepo_CreateWallet_def scanAccount_def wrapP_def
        split: prod.splits sum.splits)
  show ?thesis
  proof (cases r0)
    case (Inl e)
    with S have "tabs w' = tabs w" by (metis sql_insert_wallet_Inl)
    with db_inv_seqs [OF I le] show ?thesis by simp
  next
    case (Inr a)
    note C = sql_insert_wallet_Inr [OF S [unfolded Inr]]
    have "seqs_ok (seqs w')" using I le by (simp add: db_inv_def seq_le_def)
    with C add_wallet_db_inv [OF I] show ?thesis by metis
  qed
qed

lemma tokens_only_db_inv:
  "\<lbrakk>db_inv T q; tokens_only T T'; seq_le q q'\<rbrakk> \<Longrightarrow> db_inv T' q'"
  by (metis db_inv_irrelevant(1) db_inv_seqs tokens_only_def)

lemma DeleteOlderThan_db_inv:
  assumes I: "db_inv (tabs w) (seqs w)" and R: "IdempotencyRepo_DeleteOlderThan env days w = (r, w')"
  shows "db_inv (tabs w') (seqs w')"
proof -
  have le: "seq_le (seqs w) (seqs w')" by (rule growsD [OF grows_tokens(5) R])
  have "distinct (map f (filter p xs))" if "distinct (map f xs)" for f :: "idem_row \<Rightarrow> int64 \<times> string" and p xs
    using that by (simp add: distinct_map_filter)
  then have "db_inv ((tabs w)\<lparr>idempotency_keys := filter p (idempotency_keys (tabs w))\<rparr>) (seqs w)" for p
    using I by (auto simp: db_inv_def ledger_inv_def references_ok_def keys_inv_def)
  with DeleteOlderThan_effect [OF R] db_inv_seqs [OF I le] db_inv_seqs [OF _ le] show ?thesis
    by metis
qed

lemma PollOnce_db_inv:
  assumes I: "db_inv (tabs (rw_pg rw)) (seqs (rw_pg rw))"
    and R: "Relay_PollOnce env out skip rw = (r, rw')"
  shows "db_inv (tabs (rw_pg rw')) (seqs (rw_pg rw'))"
proof -
  note S = PollOnce_step [OF R, unfolded relay_step_def]
  then have same: "same_outbox (tabs (rw_pg rw)) (tabs (rw_pg rw'))"
    and q: "seqs (rw_pg rw') = seqs (rw_pg rw)" by blast+
  from same obtain rows where T: "tabs (rw_pg rw') = (tabs (rw_pg rw))\<lparr>outbox_events := rows\<rparr>"
    by (auto simp: same_outbox_def)
  have ids: "map ob_id rows = map ob_id (outbox_events (tabs (rw_pg rw)))"
    using same_outbox_ids(1) [OF same] T by simp
  have "outbox_inv rows (seqs (rw_pg rw))"
    using I ids arg_cong [OF ids, of set] unfolding db_inv_def outbox_inv_def
    by (metis (no_types, lifting) imageE imageI list.set_map)
  with I show ?thesis
    unfolding T q by (simp add: db_inv_def ledger_inv_def references_ok_def)
qed

lemma handle_db_inv:
  assumes I: "db_inv (tabs (cw_pg cw)) (seqs (cw_pg cw))"
    and R: "AuditLog_handle env parse uuid_text d cw = (s, cw')"
  shows "db_inv (tabs (cw_pg cw')) (seqs (cw_pg cw'))"
proof (cases "parse (d_MessageId d)")
  case None
  with R I show ?thesis by (simp add: AuditLog_handle_def)
next
  case (Some i)
  obtain q w where P: "sql_insert_processed env i (cw_pg cw) = (q, w)" by fastforce
  have "seqs w = seqs (cw_pg cw)"
    using P by (auto simp: sql_insert_processed_def stmt_def Let_def split: option.splits if_splits)
  with sql_insert_processed_cases [OF P] I have "db_inv (tabs w) (seqs w)" by auto
  moreover have "cw_pg cw' = w"
    using R Some P by (auto simp: AuditLog_handle_def Let_def split: sum.splits if_splits)
  ultimately show ?thesis by simp
qed

lemma db_step_inv:
  assumes "db_step w w'" "db_inv (tabs w) (seqs w)"
  shows "db_inv (tabs w') (seqs w')"
  using assms(1)
proof (cases rule: db_step.cases)
  case (post env txn claim r)
  then show ?thesis using Post_db_inv assms(2) by blast
next
  case (register env u r)
  then show ?thesis using CreateWithWallet_db_inv assms(2) by blast
next
  case (create_wallet env i r)
  then show ?thesis using CreateWallet_db_inv assms(2) by blast
next
  case (store_token env i h t r)
  then show ?thesis
    using tokens_only_db_inv [OF assms(2) tokens_only_effect(1)] growsD [OF grows_tokens(1)] by blast
next
  case (revoke env h r)
  then show ?thesis
    using tokens_only_db_inv [OF assms(2) tokens_only_effect(2)] growsD [OF grows_tokens(3)] by blast
next
  case (revoke_all env i r)
  then show ?thesis
    using tokens_only_db_inv [OF assms(2) tokens_only_effect(3)] growsD [OF grows_tokens(4)] by blast
next
  case (cleanup env days r)
  then show ?thesis using DeleteOlderThan_db_inv assms(2) by blast
next
  case (relay env out skip rw r rw')
  then show ?thesis using PollOnce_db_inv assms(2) by blast
next
  case (consume env parse uuid_text d cw s cw')
  then show ?thesis using handle_db_inv assms(2) by blast
next
  case read
  with assms(2) show ?thesis by simp
qed

lemma reachable_inv: "reachable w \<Longrightarrow> db_inv (tabs w) (seqs w)"
  by (induction rule: reachable.induct) (auto simp: migrated_db_inv db_step_inv)

end
