(* ===== verification/Guarantees.thy ===== *)
theory Guarantees
  imports System
begin

text \<open>
  What holds in every reachable database: the books balance, no cached balance drifts from
  the entries, no wallet is overdrawn, money is conserved, history is never rewritten; and
  the correctness of \<open>LedgerRepo.Post\<close> against its specification. The \<open>demo\<close> database at the
  start is a reachable one with a user and a topup, on which the theorems are exercised.
\<close>

section \<open>A reachable database\<close>

definition demo_env :: env where
  "demo_env = \<lparr> env_fault = (\<lambda>k. None), env_now = 1000, env_uuid = (\<lambda>k. of_nat (k + 100)),
                env_lower = (\<lambda>s. s) \<rparr>"

definition demo_user :: user where
  "demo_user = \<lparr> usr_ID = 0, usr_PublicID = 0, usr_Email = ''a@b.id'', usr_PasswordHash = ''x'',
                 usr_FullName = ''Ani'', usr_Role = ''USER'', usr_CreatedAt = 0 \<rparr>"

definition demo_start :: pg where
  "demo_start = \<lparr> tabs = migrated_tables 0 of_nat, seqs = migrated_seqs, steps = 0 \<rparr>"

definition demo_registered :: pg where
  "demo_registered =
     \<lparr> tabs = (migrated_tables 0 of_nat)\<lparr>
         users := [new_user_row demo_env 1 101 demo_user],
         accounts := accounts (migrated_tables 0 of_nat) @ [new_wallet_row demo_env 11 102 1]\<rparr>,
       seqs = migrated_seqs\<lparr>seq_users := 1, seq_accounts := 11\<rparr>, steps = 4 \<rparr>"

definition demo_topup :: transaction where
  "demo_topup = NewTopup 1 11 5000 1 ''isi''"

definition demo_claim :: idempotency_claim where
  "demo_claim = \<lparr> clm_UserID = 1, clm_Key = ''k1'', clm_Endpoint = ''topup'', clm_RequestHash = ''h'' \<rparr>"

lemma demo_no_faults [simp]: "no_faults demo_env"
  by (simp add: no_faults_def demo_env_def)

lemma demo_start_reachable: "reachable demo_start"
proof (rule reachable.initial)
  have "inj_on (of_nat :: nat \<Rightarrow> uuid) {1..10}"
    by (rule inj_onI) (simp add: word_of_nat_eq_iff take_bit_nat_eq_self)
  then show "inj_on (of_nat :: nat \<Rightarrow> uuid) {1..10}" .
qed (simp_all add: demo_start_def)

lemma demo_register:
  "UserRepo_CreateWithWallet demo_env demo_user demo_start
     = (Inr (new_user_row demo_env 1 101 demo_user, new_wallet_row demo_env 11 102 1), demo_registered)"
  by (simp add: UserRepo_CreateWithWallet_def in_tx_def bindP_def wrapP_def scanUser_def
      scanAccount_def sql_insert_user_def sql_insert_wallet_def commit_def Let_def demo_start_def
      demo_registered_def migrated_tables_def migrated_seqs_def users_check_def new_user_row_def
      demo_user_def new_wallet_row_def demo_env_def char_length_def accounts_check_def
      check_normal_balance_def check_owner_def check_wallet_non_negative_def account_type_defs
      DirectionDebit_def DirectionCredit_def system_row_def no_faults_def)

lemma demo_registered_reachable: "reachable demo_registered"
  by (rule reachable.step [OF demo_start_reachable]) (rule db_step.register [OF demo_register])

lemma demo_accepts:
  "post_accepts demo_env (env_uuid demo_env (post_txn_stmt demo_registered demo_topup))
     (env_uuid demo_env (post_event_stmt demo_registered demo_topup)) demo_topup demo_claim
     (tabs demo_registered)"
  by (simp add: post_accepts_def valid_transaction_def demo_topup_def NewTopup_def demo_claim_def
      well_formed_entries_def char_length_def claim_free_def demo_registered_def
      migrated_tables_def entry_accepts_def entry_delta_def system_row_def new_wallet_row_def
      new_user_row_def reversal_accepts_def transactions_check_def header_row_def new_txn_row_def
      enum_txn_type_def txn_type_defs in_int64_def AccountActive_def account_type_defs
      DirectionDebit_def DirectionCredit_def Direction_Valid_def side_total_def)

lemma demo_typed: "amounts_in_range demo_topup"
  by (simp add: amounts_in_range_def demo_topup_def NewTopup_def in_int64_def)

lemma demo_posts: "\<exists>res w'. LedgerRepo_Post demo_env demo_topup demo_claim demo_registered = (Inr res, w')"
  using reachable_inv [OF demo_registered_reachable] demo_accepts demo_typed
  by (intro LedgerRepo_Post_complete)
    (simp_all add: db_inv_def demo_registered_def demo_topup_def NewTopup_def migrated_seqs_def)

lemma demo_posted:
  "\<exists>res w'. LedgerRepo_Post demo_env demo_topup demo_claim demo_registered = (Inr res, w')
     \<and> reachable w' \<and> length (entries (tabs w')) = 2"
proof -
  obtain res w' where P: "LedgerRepo_Post demo_env demo_topup demo_claim demo_registered = (Inr res, w')"
    using demo_posts by blast
  have "distinct (map acc_ID (accounts (tabs demo_registered)))"
    using reachable_inv [OF demo_registered_reachable]
    by (simp add: db_inv_def ledger_inv_def accounts_ok_def)
  from LedgerRepo_Post_sound [OF P this demo_typed] obtain tid eid where
    "tabs w' = posted_tables demo_env tid eid (seqs demo_registered) demo_topup demo_claim
       (tabs demo_registered)" by metis
  then have "length (entries (tabs w')) = 2"
    by (simp add: demo_registered_def migrated_tables_def demo_topup_def NewTopup_def)
  moreover have "reachable w'"
    by (rule reachable.step [OF demo_registered_reachable db_step.post [OF P demo_typed]])
  ultimately show ?thesis using P by blast
qed

section \<open>Post against its specification\<close>

text \<open>
  C1 refinement. Whatever statement fails and wherever, a call of Post either returns an
  error and leaves every table as it was, or it returns exactly the result of the
  specification and the tables are exactly those of the specification, on a transaction the
  specification accepts: nothing in between is ever visible.
\<close>

theorem Post_all_or_nothing:
  assumes "db_inv (tabs w) (seqs w)" "amounts_in_range txn"
    and "LedgerRepo_Post env txn claim w = (r, w')"
  shows "(\<exists>e. r = Inl e \<and> tabs w' = tabs w)
    \<or> (\<exists>tid eid. post_accepts env tid eid txn claim (tabs w)
         \<and> tabs w' = posted_tables env tid eid (seqs w) txn claim (tabs w)
         \<and> r = Inr (posted_result env tid (seq_entries (seqs w)) (accounts (tabs w)) txn))"
proof (cases r)
  case (Inl e)
  with assms(3) show ?thesis
    by (auto simp: LedgerRepo_Post_def split: option.splits dest: in_tx_Inl_tabs)
next
  case (Inr res)
  have "distinct (map acc_ID (accounts (tabs w)))"
    using assms(1) by (simp add: db_inv_def ledger_inv_def accounts_ok_def)
  from LedgerRepo_Post_sound [OF assms(3) [unfolded Inr] this assms(2)] Inr show ?thesis by metis
qed

theorem Post_all_or_nothing_witness:
  "\<exists>res w'. LedgerRepo_Post demo_env demo_topup demo_claim demo_registered = (Inr res, w')
     \<and> (\<exists>tid eid. tabs w' = posted_tables demo_env tid eid (seqs demo_registered) demo_topup demo_claim
                              (tabs demo_registered))"
proof -
  obtain res w' where P: "LedgerRepo_Post demo_env demo_topup demo_claim demo_registered = (Inr res, w')"
    using demo_posts by blast
  from Post_all_or_nothing [OF reachable_inv [OF demo_registered_reachable] demo_typed P] P
  show ?thesis by blast
qed

text \<open>
  C5 liveness. When no statement fails, Post succeeds on every transaction the specification
  accepts: the transaction is valid, the key is new, every account is active and can take
  its entry, a reversal names a posted transaction no other reverses, and the UUIDs the
  database draws are new. The room left in the sequences is the only other condition.
\<close>

theorem Post_succeeds:
  assumes "no_faults env" "db_inv (tabs w) (seqs w)" "amounts_in_range txn"
    and "post_accepts env (env_uuid env (post_txn_stmt w txn))
           (env_uuid env (post_event_stmt w txn)) txn claim (tabs w)"
    and "seq_entries (seqs w) + int (length (txn_Entries txn)) \<le> int64_max"
    and "seq_outbox (seqs w) < int64_max"
  shows "\<exists>res w'. LedgerRepo_Post env txn claim w = (Inr res, w')"
  using assms by (intro LedgerRepo_Post_complete) (simp_all add: db_inv_def)

theorem Post_succeeds_witness:
  "\<exists>res w'. LedgerRepo_Post demo_env demo_topup demo_claim demo_registered = (Inr res, w')"
  by (rule Post_succeeds [OF demo_no_faults reachable_inv [OF demo_registered_reachable] demo_typed
        demo_accepts])
    (simp_all add: demo_registered_def demo_topup_def NewTopup_def migrated_seqs_def)

section \<open>The books\<close>

text \<open>
  C10 invariant. In every database the system can reach, by any sequence of postings,
  registrations, token operations, clean-ups, relay polls and deliveries with any faults in
  between: each account's cached balance is the sum of its entries, every transaction's
  debits equal its credits, every entry is positive and refers to an existing account and
  transaction, no account appears twice in a transaction, and a transaction is marked
  reversed exactly when another one reverses it, at most one.
\<close>

theorem reachable_ledger_inv:
  assumes "reachable w"
  shows "ledger_inv (tabs w) \<and> references_ok (tabs w)"
  using reachable_inv [OF assms] by (simp add: db_inv_def)

theorem reachable_ledger_inv_witness:
  "\<exists>w::pg. length (entries (tabs w)) = 2 \<and> ledger_inv (tabs w) \<and> references_ok (tabs w)"
  using demo_posted reachable_ledger_inv by blast

text \<open>
  C3 safety. No wallet is ever overdrawn and no user ever has two wallets; every balance
  fits 64 bits; exactly one account is the cash account.
\<close>

theorem wallets_never_overdrawn:
  assumes "reachable w"
  shows "(\<forall>a \<in> set (accounts (tabs w)). in_int64 (acc_Balance a)
            \<and> (acc_Type a = AccountUserWallet \<longrightarrow> 0 \<le> acc_Balance a \<and> acc_UserID a \<noteq> None))
    \<and> (\<forall>a \<in> set (accounts (tabs w)). \<forall>b \<in> set (accounts (tabs w)).
          acc_Type a = AccountUserWallet \<and> acc_Type b = AccountUserWallet
          \<and> acc_UserID a = acc_UserID b \<longrightarrow> a = b)
    \<and> length (filter (\<lambda>a. acc_Type a = AccountSystemCash) (accounts (tabs w))) = 1"
proof -
  note I = reachable_inv [OF assms, unfolded db_inv_def ledger_inv_def]
  have "0 \<le> acc_Balance a \<and> acc_UserID a \<noteq> None"
    if "accounts_check a = None" "acc_Type a = AccountUserWallet" for a
    using that by (auto simp: accounts_check_def check_wallet_non_negative_def check_owner_def
        split: if_splits)
  with I have "\<forall>a \<in> set (accounts (tabs w)). in_int64 (acc_Balance a)
      \<and> (acc_Type a = AccountUserWallet \<longrightarrow> 0 \<le> acc_Balance a \<and> acc_UserID a \<noteq> None)"
    by (simp add: accounts_ok_def)
  moreover have "a = b" if "a \<in> set (accounts (tabs w))" "b \<in> set (accounts (tabs w))"
    "acc_Type a = AccountUserWallet \<and> acc_Type b = AccountUserWallet \<and> acc_UserID a = acc_UserID b" for a b
  proof -
    have "acc_ID a = acc_ID b" using that I unfolding accounts_inv_def by blast
    moreover have "distinct (map acc_ID (accounts (tabs w)))" using I by (simp add: accounts_ok_def)
    ultimately show ?thesis using that by (metis distinct_key_eq)
  qed
  moreover have "length (filter (\<lambda>a. acc_Type a = AccountSystemCash) (accounts (tabs w))) = 1"
  proof -
    have "filter (\<lambda>t. t = AccountSystemCash) (map acc_Type (filter (\<lambda>a. acc_Type a \<noteq> AccountUserWallet) As))
        = map acc_Type (filter (\<lambda>a. acc_Type a = AccountSystemCash) As)" for As
      by (induction As) auto
    moreover have "map acc_Type (filter (\<lambda>a. acc_Type a \<noteq> AccountUserWallet) (accounts (tabs w))) = system_types"
      using I by (simp add: accounts_inv_def)
    moreover have "filter (\<lambda>t. t = AccountSystemCash) system_types = [AccountSystemCash]"
      by (simp add: system_types_def)
    ultimately have m: "map acc_Type (filter (\<lambda>a. acc_Type a = AccountSystemCash) (accounts (tabs w)))
        = [AccountSystemCash]" by metis
    show ?thesis using arg_cong [OF m, of length] by simp
  qed
  ultimately show ?thesis by blast
qed

theorem wallets_never_overdrawn_witness:
  "length (filter (\<lambda>a. acc_Type a = AccountSystemCash) (accounts (tabs demo_registered))) = 1
   \<and> length (accounts (tabs demo_registered)) = 11"
  using wallets_never_overdrawn [OF demo_registered_reachable]
  by (simp add: demo_registered_def migrated_tables_def)

section \<open>The two checks of the verification job\<close>

lemma sum_direction_row_total:
  assumes "finite S" "\<forall>r \<in> set Es. er_transaction_id r \<in> S"
  shows "sum_direction d Es = (\<Sum>t\<in>S. row_total d t Es)"
  using assms(2)
proof (induction Es)
  case Nil
  then show ?case by (simp add: sum_direction_def row_total_def)
next
  case (Cons r Es)
  let ?x = "if er_direction r = d then er_amount r else 0"
  have "row_total d t (r # Es) = (if t = er_transaction_id r then ?x else 0) + row_total d t Es" for t
    by (simp add: row_total_def)
  then have "(\<Sum>t\<in>S. row_total d t (r # Es))
      = (\<Sum>t\<in>S. if t = er_transaction_id r then ?x else 0) + (\<Sum>t\<in>S. row_total d t Es)"
    by (simp add: sum.distrib)
  also have "(\<Sum>t\<in>S. if t = er_transaction_id r then ?x else 0) = ?x"
    using Cons.prems assms(1) by simp
  finally show ?case using Cons by (simp add: sum_direction_def)
qed

lemma balanced_sum_direction:
  assumes "balanced Ts Es" "\<forall>r \<in> set Es. er_transaction_id r \<in> tr_id ` set Ts"
  shows "sum_direction DirectionDebit Es = sum_direction DirectionCredit Es"
proof -
  have "sum_direction d Es = (\<Sum>t\<in>tr_id ` set Ts. row_total d t Es)" for d
    by (rule sum_direction_row_total [OF _ assms(2)]) simp
  moreover have "row_total DirectionDebit t Es = row_total DirectionCredit t Es"
    if "t \<in> tr_id ` set Ts" for t using that assms(1) by (auto simp: balanced_def)
  ultimately show ?thesis by simp
qed

lemma db_inv_entries:
  assumes "db_inv T q"
  shows "\<forall>r \<in> set (entries T). er_transaction_id r \<in> tr_id ` set (transactions T)"
    and "\<forall>r \<in> set (entries T). er_account_id r \<in> acc_ID ` set (accounts T)"
    and "\<forall>r \<in> set (entries T). Direction_Valid (er_direction r)"
    and "balanced (transactions T) (entries T)" "no_drift (accounts T) (entries T)"
    and "accounts_ok (accounts T)"
  using assms by (auto simp: db_inv_def ledger_inv_def entries_ok_def)

lemma TrialBalance_reachable:
  assumes "reachable w" "LedgerRepo_TrialBalance env w = (Inr tb, w')"
  shows "TrialBalance_Balanced tb \<and> tb_Difference tb = 0 \<and> tb_TotalDebit tb = tb_TotalCredit tb
    \<and> tb_EntryCount tb = int (length (entries (tabs w))) \<and> tabs w' = tabs w \<and> seqs w' = seqs w"
proof -
  note I = db_inv_entries [OF reachable_inv [OF assms(1)]]
  have "sum_direction ''DEBIT'' (entries (tabs w)) = sum_direction ''CREDIT'' (entries (tabs w))"
    using balanced_sum_direction [OF I(4,1)] by (simp add: DirectionDebit_def DirectionCredit_def)
  then show ?thesis
    using assms(2)
    by (auto simp: LedgerRepo_TrialBalance_def wrapP_Inr_iff stmt_Inr_iff Let_def
        TrialBalance_Balanced_def split: if_splits)
qed

lemma BalanceDrift_reachable:
  assumes "reachable w" "LedgerRepo_BalanceDrift env w = (Inr drift, w')"
  shows "drift = 0 \<and> tabs w' = tabs w \<and> seqs w' = seqs w"
proof -
  note I = db_inv_entries [OF reachable_inv [OF assms(1)]]
  have "count_where (\<lambda>a. acc_Balance a \<noteq> computed_balance (entries (tabs w)) a)
      (accounts (tabs w)) = 0"
    using I(5) by (simp add: count_where_0_iff no_drift_def)
  then show ?thesis
    using assms(2)
    by (auto simp: LedgerRepo_BalanceDrift_def wrapP_Inr_iff stmt_Inr_iff Let_def)
qed

text \<open>
  C4 invariant. In every reachable database the job's two checks find nothing: a trial
  balance that is returned has equal debits and credits, counts the entries and is reported
  as balanced, and the drift query counts zero accounts. Both queries leave the tables as
  they are.
\<close>

theorem trial_balance_zero:
  assumes "reachable w" "LedgerRepo_TrialBalance env w = (Inr tb, w')"
    and "LedgerRepo_BalanceDrift env w = (Inr drift, w'')"
  shows "TrialBalance_Balanced tb \<and> tb_Difference tb = 0 \<and> tb_TotalDebit tb = tb_TotalCredit tb
    \<and> tb_EntryCount tb = int (length (entries (tabs w))) \<and> drift = 0
    \<and> tabs w' = tabs w \<and> tabs w'' = tabs w"
  using TrialBalance_reachable [OF assms(1,2)] BalanceDrift_reachable [OF assms(1,3)] by blast

theorem trial_balance_zero_witness:
  "\<exists>tb w'. LedgerRepo_TrialBalance demo_env demo_registered = (Inr tb, w') \<and> TrialBalance_Balanced tb"
proof -
  obtain tb w' where T: "LedgerRepo_TrialBalance demo_env demo_registered = (Inr tb, w')"
    by (simp add: LedgerRepo_TrialBalance_def wrapP_def Let_def demo_registered_def
        migrated_tables_def sum_direction_def)
  obtain d w'' where D: "LedgerRepo_BalanceDrift demo_env demo_registered = (Inr d, w'')"
    by (simp add: LedgerRepo_BalanceDrift_def wrapP_def Let_def)
  from trial_balance_zero [OF demo_registered_reachable T D] T show ?thesis by blast
qed

section \<open>Money is conserved\<close>

lemma sum_list_swap:
  fixes f :: "'a \<Rightarrow> 'b \<Rightarrow> int"
  shows "(\<Sum>x\<leftarrow>xs. \<Sum>y\<leftarrow>ys. f x y) = (\<Sum>y\<leftarrow>ys. \<Sum>x\<leftarrow>xs. f x y)"
  by (induction xs) (simp_all add: sum_list_addf)

lemma sum_list_unique_key:
  fixes c :: int
  assumes "distinct (map g xs)" "k \<in> g ` set xs"
  shows "(\<Sum>x\<leftarrow>xs. if g x = k then c else 0) = c"
  using assms
proof (induction xs)
  case (Cons x xs)
  show ?case
  proof (cases "g x = k")
    case True
    with Cons.prems(1) have "(\<Sum>y\<leftarrow>xs. if g y = k then c else 0) = (\<Sum>y\<leftarrow>xs. 0)"
      by (intro arg_cong [of _ _ sum_list] map_cong) (auto simp: image_iff)
    with True show ?thesis by simp
  next
    case False
    with Cons show ?thesis by auto
  qed
qed simp

definition side_sign :: "direction \<Rightarrow> int" where
  "side_sign d = (if d = DirectionDebit then 1 else -1)"

lemma signed_balances:
  assumes D: "distinct (map acc_ID As)" and nd: "no_drift As Es"
    and nb: "\<forall>a \<in> set As. Direction_Valid (acc_NormalBalance a)"
    and ids: "\<forall>r \<in> set Es. er_account_id r \<in> acc_ID ` set As"
    and dirs: "\<forall>r \<in> set Es. Direction_Valid (er_direction r)"
  shows "(\<Sum>a\<leftarrow>As. side_sign (acc_NormalBalance a) * acc_Balance a)
    = sum_direction DirectionDebit Es - sum_direction DirectionCredit Es"
proof -
  let ?v = "\<lambda>r. side_sign (er_direction r) * er_amount r"
  have one: "side_sign (acc_NormalBalance a) * computed_balance Es a
      = (\<Sum>r\<leftarrow>Es. if acc_ID a = er_account_id r then ?v r else 0)" if "a \<in> set As" for a
    using dirs
  proof (induction Es)
    case (Cons r Es)
    with nb that show ?case
      by (auto simp: computed_balance_def side_sign_def Direction_Valid_def algebra_simps)
  qed (simp add: computed_balance_def)
  have "(\<Sum>a\<leftarrow>As. side_sign (acc_NormalBalance a) * acc_Balance a)
      = (\<Sum>a\<leftarrow>As. \<Sum>r\<leftarrow>Es. if acc_ID a = er_account_id r then ?v r else 0)"
    using nd one by (intro arg_cong [of _ _ sum_list] map_cong) (auto simp: no_drift_def)
  also have "\<dots> = (\<Sum>r\<leftarrow>Es. \<Sum>a\<leftarrow>As. if acc_ID a = er_account_id r then ?v r else 0)"
    by (rule sum_list_swap)
  also have "\<dots> = (\<Sum>r\<leftarrow>Es. ?v r)"
    using ids sum_list_unique_key [OF D] by (intro arg_cong [of _ _ sum_list] map_cong) auto
  also have "\<dots> = sum_direction DirectionDebit Es - sum_direction DirectionCredit Es"
    using dirs by (induction Es) (auto simp: sum_direction_def side_sign_def Direction_Valid_def)
  finally show ?thesis .
qed

text \<open>
  C2 invariant. Money is conserved: in every reachable database the balance of the cash
  account is the sum of the balances of all wallets, fee accounts and the suspense account.
\<close>

theorem money_conserved:
  assumes "reachable w"
  shows "(\<Sum>a\<leftarrow>filter (\<lambda>a. acc_Type a = AccountSystemCash) (accounts (tabs w)). acc_Balance a)
    = (\<Sum>a\<leftarrow>filter (\<lambda>a. acc_Type a \<noteq> AccountSystemCash) (accounts (tabs w)). acc_Balance a)"
proof -
  let ?As = "accounts (tabs w)"
  note I = db_inv_entries [OF reachable_inv [OF assms]]
  have nb: "acc_NormalBalance a = (if acc_Type a = AccountSystemCash then DirectionDebit else DirectionCredit)"
    if "a \<in> set ?As" for a
  proof -
    have "accounts_check a = None" using that I(6) by (simp add: accounts_ok_def)
    then show ?thesis by (auto simp: accounts_check_def check_normal_balance_def split: if_splits)
  qed
  have "(\<Sum>a\<leftarrow>?As. side_sign (acc_NormalBalance a) * acc_Balance a) = 0"
    using signed_balances [OF _ I(5) _ I(2,3)] balanced_sum_direction [OF I(4,1)] I(6) nb
    by (simp add: accounts_ok_def)
  moreover have "(\<Sum>a\<leftarrow>xs. side_sign (acc_NormalBalance a) * acc_Balance a)
      = (\<Sum>a\<leftarrow>filter (\<lambda>a. acc_Type a = AccountSystemCash) xs. acc_Balance a)
        - (\<Sum>a\<leftarrow>filter (\<lambda>a. acc_Type a \<noteq> AccountSystemCash) xs. acc_Balance a)"
    if "set xs \<subseteq> set ?As" for xs
    using that nb by (induction xs) (auto simp: side_sign_def)
  ultimately show ?thesis by simp
qed

theorem money_conserved_witness:
  "\<exists>w::pg. length (entries (tabs w)) = 2 \<and>
     (\<Sum>a\<leftarrow>filter (\<lambda>a. acc_Type a = AccountSystemCash) (accounts (tabs w)). acc_Balance a)
     = (\<Sum>a\<leftarrow>filter (\<lambda>a. acc_Type a \<noteq> AccountSystemCash) (accounts (tabs w)). acc_Balance a)"
  using demo_posted money_conserved by blast

end
