(* ===== verification/Idempotency.thy ===== *)
theory Idempotency
  imports LedgerService Guarantees
begin

text \<open>
  The idempotency protocol of the service as an interface: \<open>idempotent_posting\<close> lists what the
  service relies on (the lookup reports the recorded answer, a posting records its answer
  under a key that had none, a failed posting changes nothing), and its lemmas prove
  \<open>postIdempotent\<close> from these laws alone. The interpretation at the end discharges the laws
  for the PostgreSQL repositories, for any faults.
\<close>

section \<open>Programs that only read\<close>

definition reads :: "(pg, 'a) prog \<Rightarrow> bool" where
  "reads m \<longleftrightarrow> (\<forall>w r w'. m w = (r, w') \<longrightarrow> tabs w' = tabs w \<and> seqs w' = seqs w)"

named_theorems reads_intros \<open>programs that leave tables and sequences as they are\<close>

lemma readsD: "\<lbrakk>reads m; m w = (r, w')\<rbrakk> \<Longrightarrow> tabs w' = tabs w \<and> seqs w' = seqs w"
  by (simp add: reads_def)

lemma reads_Pair [reads_intros]: "reads (Pair r)" "reads (retP a)" "reads (failP e)"
  by (simp_all add: reads_def)

lemma reads_wrapP [reads_intros]: "reads m \<Longrightarrow> reads (wrapP f m)"
  by (fastforce simp: reads_def wrapP_def split: prod.splits sum.splits)

lemma reads_bindP [reads_intros]: "\<lbrakk>reads m; \<And>a. reads (k a)\<rbrakk> \<Longrightarrow> reads (bindP m k)"
  by (fastforce simp: reads_def bindP_def split: prod.splits sum.splits)

lemma reads_stmt [reads_intros]:
  "(\<And>k w r w'. f k w = (r, w') \<Longrightarrow> tabs w' = tabs w \<and> seqs w' = seqs w) \<Longrightarrow> reads (stmt env f)"
  by (fastforce simp: reads_def stmt_def Let_def split: option.splits)

lemma reads_repos [reads_intros]:
  "reads (round_trip env)" "reads (sql_select_account env p)" "reads (sql_select_key env u k)"
  "reads (sql_select_transaction env i v)" "reads (sql_select_entries env i)"
  unfolding round_trip_def sql_select_account_def sql_select_key_def sql_select_transaction_def
    sql_select_entries_def
  by (intro reads_intros; auto simp: Let_def split: option.splits)+

lemma reads_queries [reads_intros]:
  "reads (AccountRepo_GetByPublicID env i)" "reads (AccountRepo_GetWalletByUserID env u)"
  "reads (AccountRepo_ListEntries env a b l)" "reads (LedgerRepo_GetTransaction env t v)"
  "reads (IdempotencyRepo_Find env u k)" "reads (LedgerRepo_TrialBalance env)"
  unfolding AccountRepo_GetByPublicID_def AccountRepo_GetWalletByUserID_def
    AccountRepo_ListEntries_def LedgerRepo_GetTransaction_def IdempotencyRepo_Find_def
    LedgerRepo_TrialBalance_def scanAccount_def Let_def
  by (auto intro!: reads_intros split: sum.split if_splits)

section \<open>The interface\<close>

text \<open>
  \<open>answer_recording\<close>: what the protocol needs to be right however other requests interleave with
  its store calls, \<open>later s s'\<close> relating a state to those after it. \<open>idempotent_posting\<close> adds what
  holds when nothing interleaves.
\<close>

locale answer_recording =
  fixes post :: "transaction \<Rightarrow> idempotency_claim \<Rightarrow> ('s, post_result) prog"
    and lookup :: "int64 \<Rightarrow> string \<Rightarrow> ('s, idempotency_record) prog"
    and view :: "'s \<Rightarrow> 'v"
    and answer :: "'v \<Rightarrow> int64 \<Rightarrow> string \<Rightarrow> (string \<times> post_result) option"
    and sound :: "'s \<Rightarrow> bool"
    and later :: "'s \<Rightarrow> 's \<Rightarrow> bool"
  assumes later_refl: "later s s"
    and later_trans: "\<lbrakk>later s s1; later s1 s2\<rbrakk> \<Longrightarrow> later s s2"
    and lookup_step: "\<lbrakk>sound s; lookup u k s = (r, s')\<rbrakk> \<Longrightarrow> sound s' \<and> later s s'"
    and lookup_hit:
      "\<lbrakk>sound s; lookup u k s = (Inr rec, s')\<rbrakk> \<Longrightarrow>
       \<exists>h p. answer (view s') u k = Some (h, p) \<and> clm_RequestHash (irec_Claim rec) = h
         \<and> \<not> IdempotencyRecord_InFlight rec \<and> irec_Result rec = Some p"
    and post_step: "\<lbrakk>sound s; amounts_in_range txn; post txn c s = (q, s')\<rbrakk> \<Longrightarrow> sound s' \<and> later s s'"
    and post_records:
      "\<lbrakk>sound s; amounts_in_range txn; post txn c s = (Inr p, s')\<rbrakk> \<Longrightarrow>
       answer (view s') (clm_UserID c) (clm_Key c) = Some (clm_RequestHash c, p)"
begin

definition uses :: "'s Ledger \<Rightarrow> bool" where
  "uses L \<longleftrightarrow> ls_Post (L_store L) = post \<and> is_Find (L_idem L) = lookup"

lemma replay_later:
  assumes "uses L" "sound s" "replay L c s = (r, s')"
  shows "sound s' \<and> later s s'"
proof -
  obtain q s1 where "lookup (clm_UserID c) (clm_Key c) s = (q, s1)" by fastforce
  with lookup_step [OF assms(2) this] assms(1,3) show ?thesis
    by (auto simp: replay_def uses_def split: sum.splits if_splits)
qed

lemma replay_records:
  assumes "uses L" "sound s" "replay L c s = (Some (Inr p), s')"
  shows "answer (view s') (clm_UserID c) (clm_Key c) = Some (clm_RequestHash c, p)"
proof -
  obtain q s1 where L: "lookup (clm_UserID c) (clm_Key c) s = (q, s1)" by fastforce
  with assms(1,3) obtain rec where q: "q = Inr rec"
    by (auto simp: replay_def uses_def split: sum.splits if_splits)
  from lookup_hit [OF assms(2) L [unfolded q]] assms(1,3) L q show ?thesis
    by (auto simp: replay_def uses_def split: if_splits)
qed

text \<open>Whatever happens in \<open>build\<close>, other requests' postings included, it keeps \<open>sound\<close>.\<close>

definition builds :: "('s, transaction) prog \<Rightarrow> bool" where
  "builds build \<longleftrightarrow> (\<forall>s r s'. sound s \<longrightarrow> build s = (r, s') \<longrightarrow>
     sound s' \<and> later s s' \<and> (\<forall>txn. r = Inr txn \<longrightarrow> amounts_in_range txn))"

text \<open>
  A result comes from the record of an earlier posting or from the last call, a posting of what
  \<open>build\<close> returned.
\<close>

definition from_record :: "'s Ledger \<Rightarrow> idempotency_claim \<Rightarrow> 's \<Rightarrow> post_result \<Rightarrow> 's \<Rightarrow> bool" where
  "from_record L c s p s' \<longleftrightarrow> (\<exists>s1. sound s1 \<and> later s s1 \<and> replay L c s1 = (Some (Inr p), s'))"

definition from_posting ::
    "('s, transaction) prog \<Rightarrow> idempotency_claim \<Rightarrow> 's \<Rightarrow> post_result \<Rightarrow> 's \<Rightarrow> bool" where
  "from_posting build c s p s' \<longleftrightarrow>
     (\<exists>s1 txn s2. sound s1 \<and> later s s1 \<and> build s1 = (Inr txn, s2) \<and> sound s2 \<and> later s1 s2
        \<and> amounts_in_range txn \<and> post txn c s2 = (Inr p, s'))"

lemma post_or_replay_origin:
  assumes "uses L" "sound s" "amounts_in_range txn" "post_or_replay L c txn s = (Inr p, s')"
  shows "post txn c s = (Inr p, s') \<or> from_record L c s p s'"
proof -
  obtain q s1 where P: "post txn c s = (q, s1)" by fastforce
  show ?thesis
  proof (cases q)
    case (Inr res)
    with P assms(1,4) show ?thesis by (auto simp: post_or_replay_def uses_def)
  next
    case (Inl e)
    then have "errors_Is e ErrIdempotencyInFlight" "replay L c s1 = (Some (Inr p), s')"
      using P assms(1,4) by (auto simp: post_or_replay_def uses_def split: if_splits option.splits prod.splits)
    with post_step [OF assms(2,3) P] show ?thesis unfolding from_record_def by blast
  qed
qed

lemma postIdempotent_origin:
  assumes "uses L" "sound s" "builds build" "postIdempotent L c build s = (Inr p, s')"
  shows "from_record L c s p s' \<or> from_posting build c s p s'"
proof -
  obtain q s1 where R: "replay L c s = (q, s1)" by fastforce
  have key: "\<not> (clm_Key c = '''' \<or> length (clm_Key c) > 128)"
    using assms(4) by (auto simp: postIdempotent_def)
  note K = replay_later [OF assms(1,2) R]
  show ?thesis
  proof (cases q)
    case (Some x)
    with assms(4) R key have "x = Inr p" "s' = s1" by (auto simp: postIdempotent_def split: if_splits)
    with R Some assms(2) later_refl show ?thesis unfolding from_record_def by blast
  next
    case None
    let ?tail = "\<lambda>txn. case Transaction_Validate txn of
        Some err \<Rightarrow> failP (Wrapf ''transaksi tidak valid: %w'' [] err)
      | None \<Rightarrow> post_or_replay L c txn"
    have "bindP build ?tail s1 = (Inr p, s')"
      using assms(4) R key None by (simp add: postIdempotent_def)
    then obtain txn s2 where B: "build s1 = (Inr txn, s2)" and T: "?tail txn s2 = (Inr p, s')"
      unfolding bindP_Inr_iff by blast
    from T have P: "post_or_replay L c txn s2 = (Inr p, s')" by (auto split: option.splits)
    from assms(3) K B have s2: "sound s2" "later s1 s2" "amounts_in_range txn" unfolding builds_def by blast+
    from post_or_replay_origin [OF assms(1) s2(1,3) P] show ?thesis
    proof
      assume "post txn c s2 = (Inr p, s')"
      with K B s2 show ?thesis unfolding from_posting_def by blast
    next
      assume "from_record L c s2 p s'"
      with K s2 later_trans show ?thesis unfolding from_record_def by meson
    qed
  qed
qed

lemma returned_is_recorded:
  assumes "uses L" "sound s" "builds build" "postIdempotent L c build s = (Inr p, s')"
  shows "sound s' \<and> later s s' \<and> answer (view s') (clm_UserID c) (clm_Key c) = Some (clm_RequestHash c, p)"
  using postIdempotent_origin [OF assms]
proof
  assume "from_record L c s p s'"
  then obtain s1 where "sound s1" "later s s1" "replay L c s1 = (Some (Inr p), s')"
    unfolding from_record_def by blast
  with replay_later [OF assms(1)] replay_records [OF assms(1)] later_trans show ?thesis by blast
next
  assume "from_posting build c s p s'"
  then obtain s1 txn s2 where "later s s1" "sound s2" "later s1 s2" "amounts_in_range txn"
    "post txn c s2 = (Inr p, s')" unfolding from_posting_def by blast
  with post_step post_records later_trans show ?thesis by metis
qed

end

locale idempotent_posting = answer_recording +
  fixes live :: bool
  assumes lookup_view: "\<lbrakk>sound s; lookup u k s = (r, s')\<rbrakk> \<Longrightarrow> view s' = view s"
    and lookup_miss:
      "\<lbrakk>sound s; lookup u k s = (Inl e, s'); errors_Is e ErrNotFound\<rbrakk> \<Longrightarrow> answer (view s) u k = None"
    and lookup_live:
      "\<lbrakk>sound s; live; answer (view s) u k = Some hp\<rbrakk> \<Longrightarrow> \<exists>rec s'. lookup u k s = (Inr rec, s')"
    and post_fails:
      "\<lbrakk>sound s; amounts_in_range txn; post txn c s = (Inl e, s')\<rbrakk> \<Longrightarrow> view s' = view s"
    and post_answers:
      "\<lbrakk>sound s; amounts_in_range txn; post txn c s = (Inr p, s')\<rbrakk> \<Longrightarrow>
       answer (view s) (clm_UserID c) (clm_Key c) = None
       \<and> (\<forall>u k. answer (view s') u k =
            (if u = clm_UserID c \<and> k = clm_Key c then Some (clm_RequestHash c, p)
             else answer (view s) u k))"
begin

lemma replay_keeps:
  assumes "uses L" "sound s" "replay L c s = (r, s')"
  shows "sound s' \<and> view s' = view s"
proof -
  obtain q s1 where "lookup (clm_UserID c) (clm_Key c) s = (q, s1)" by fastforce
  with lookup_step [OF assms(2) this] lookup_view [OF assms(2) this] assms(1,3) show ?thesis
    by (auto simp: replay_def uses_def split: sum.splits if_splits)
qed

lemma replay_sound:
  assumes "uses L" "sound s" "replay L c s = (Some (Inr p), s')"
  shows "answer (view s) (clm_UserID c) (clm_Key c) = Some (clm_RequestHash c, p)"
  using replay_records [OF assms] replay_keeps [OF assms] by simp

lemma replay_none:
  assumes "uses L" "sound s" "replay L c s = (None, s')"
  shows "answer (view s) (clm_UserID c) (clm_Key c) = None"
proof -
  obtain q s1 where L: "lookup (clm_UserID c) (clm_Key c) s = (q, s1)" by fastforce
  with assms(1,3) obtain e where "q = Inl e" "errors_Is e ErrNotFound"
    by (auto simp: replay_def uses_def split: sum.splits if_splits)
  with lookup_miss [OF assms(2)] L show ?thesis by blast
qed

lemma replay_live:
  assumes "uses L" "sound s" live "answer (view s) (clm_UserID c) (clm_Key c) = Some (h, p)"
  shows "\<exists>s'. replay L c s =
    (Some (if h = clm_RequestHash c then Inr p else Inl ErrIdempotencyConflict), s')"
proof -
  obtain rec s' where R: "lookup (clm_UserID c) (clm_Key c) s = (Inr rec, s')"
    using lookup_live [OF assms(2,3,4)] by blast
  from lookup_hit [OF assms(2) R] lookup_view [OF assms(2) R] assms(1,4) R show ?thesis
    by (auto simp: replay_def uses_def)
qed

lemma retry_same_answer:
  assumes "uses L" "sound s" live "answer (view s) (clm_UserID c) (clm_Key c) = Some (h, p)"
    and "clm_Key c \<noteq> ''''" "length (clm_Key c) \<le> 128"
  shows "\<exists>s'. postIdempotent L c build s =
      (if h = clm_RequestHash c then Inr p else Inl ErrIdempotencyConflict, s') \<and> view s' = view s"
proof -
  obtain s' where R: "replay L c s =
      (Some (if h = clm_RequestHash c then Inr p else Inl ErrIdempotencyConflict), s')"
    using replay_live [OF assms(1-4)] by blast
  with replay_keeps [OF assms(1,2) R] assms(5,6) show ?thesis
    by (simp add: postIdempotent_def)
qed

end

section \<open>The PostgreSQL repositories provide it\<close>

definition pg_answer :: "tables \<Rightarrow> int64 \<Rightarrow> string \<Rightarrow> (string \<times> post_result) option" where
  "pg_answer T u k =
     (case List.find (\<lambda>r. ik_user_id r = u \<and> ik_key r = k) (idempotency_keys T) of
        None \<Rightarrow> None
      | Some r \<Rightarrow> (case stored_of_json (ik_response_body r) of
                     Inl e \<Rightarrow> None
                   | Inr st \<Rightarrow> Some (ik_request_hash r, fromStored st)))"

definition pg_sound :: "pg \<Rightarrow> bool" where
  "pg_sound w \<longleftrightarrow> db_inv (tabs w) (seqs w)"

lemma completed_row_decodes:
  assumes "completed_row S r"
  shows "\<exists>p. stored_of_json (ik_response_body r) = Inr (toStored p) \<and> fromStored (toStored p) = p
    \<and> ik_status_code r \<noteq> 0"
  using assms stored_of_json_of_stored fromStored_toStored by (fastforce simp: completed_row_def)

lemma pg_sound_rows:
  "\<lbrakk>pg_sound w; List.find q (idempotency_keys (tabs w)) = Some r\<rbrakk> \<Longrightarrow>
   completed_row (tr_id ` set (transactions (tabs w))) r"
  by (auto simp: pg_sound_def db_inv_def keys_inv_def dest: find_SomeD)

lemma fault_not_ErrNotFound [simp]: "\<not> errors_Is (fault_err x) ErrNotFound"
  by (cases x) auto

lemma translate_fault [simp]: "translate (fault_err x) \<noteq> ErrNotFound"
  by (cases x) (auto simp: translate_def sqlstate_defs)

lemma pg_lookup_hit:
  assumes "pg_sound w" "IdempotencyRepo_Find env u k w = (Inr rec, w')"
  shows "\<exists>h p. pg_answer (tabs w) u k = Some (h, p) \<and> clm_RequestHash (irec_Claim rec) = h
    \<and> \<not> IdempotencyRecord_InFlight rec \<and> irec_Result rec = Some p"
proof -
  obtain r w1 where S: "sql_select_key env u k w = (Inr r, w1)"
    and R: "(let rec = idem_record_of u k r in
       if IdempotencyRecord_InFlight rec then retP rec
       else case stored_of_json (ik_response_body r) of
              Inl e \<Rightarrow> failP (Wrapf ''membaca hasil tersimpan: %w'' [] e)
            | Inr stored \<Rightarrow> retP (rec\<lparr>irec_Result := Some (fromStored stored)\<rparr>)) w1 = (Inr rec, w')"
    using assms(2) unfolding IdempotencyRepo_Find_def bindP_Inr_iff wrapP_Inr_iff by blast
  from S have F: "List.find (\<lambda>r. ik_user_id r = u \<and> ik_key r = k) (idempotency_keys (tabs w)) = Some r"
    by (auto simp: sql_select_key_def stmt_Inr_iff split: option.splits)
  from completed_row_decodes [OF pg_sound_rows [OF assms(1) F]] obtain p where
    p: "stored_of_json (ik_response_body r) = Inr (toStored p)" "ik_status_code r \<noteq> 0" by blast
  from R p F show ?thesis
    by (auto simp: Let_def IdempotencyRecord_InFlight_def idem_record_of_def pg_answer_def)
qed

lemma pg_lookup_miss:
  assumes "pg_sound w" "IdempotencyRepo_Find env u k w = (Inl e, w')" "errors_Is e ErrNotFound"
  shows "pg_answer (tabs w) u k = None"
proof (cases "List.find (\<lambda>r. ik_user_id r = u \<and> ik_key r = k) (idempotency_keys (tabs w))")
  case None
  then show ?thesis by (simp add: pg_answer_def)
next
  case (Some r)
  from completed_row_decodes [OF pg_sound_rows [OF assms(1) Some]] obtain p where
    "stored_of_json (ik_response_body r) = Inr (toStored p)" "ik_status_code r \<noteq> 0" by blast
  with assms(2,3) Some have False
    by (auto simp: IdempotencyRepo_Find_def bindP_def wrapP_def sql_select_key_def stmt_def Let_def
        IdempotencyRecord_InFlight_def idem_record_of_def split: option.splits if_splits)
  then show ?thesis ..
qed

lemma pg_lookup_live:
  assumes "pg_sound w" "no_faults env" "pg_answer (tabs w) u k = Some hp"
  shows "\<exists>rec w'. IdempotencyRepo_Find env u k w = (Inr rec, w')"
proof -
  obtain r where F: "List.find (\<lambda>r. ik_user_id r = u \<and> ik_key r = k) (idempotency_keys (tabs w)) = Some r"
    using assms(3) by (auto simp: pg_answer_def split: option.splits)
  from completed_row_decodes [OF pg_sound_rows [OF assms(1) F]] obtain p where
    "stored_of_json (ik_response_body r) = Inr (toStored p)" "ik_status_code r \<noteq> 0" by blast
  with assms(2) F show ?thesis
    by (simp add: IdempotencyRepo_Find_def bindP_def wrapP_def sql_select_key_def Let_def
        IdempotencyRecord_InFlight_def idem_record_of_def)
qed

lemma pg_post_answers:
  assumes "pg_sound w" "amounts_in_range txn" "LedgerRepo_Post env txn c w = (Inr p, w')"
  shows "pg_sound w' \<and> pg_answer (tabs w) (clm_UserID c) (clm_Key c) = None
    \<and> (\<forall>u k. pg_answer (tabs w') u k =
         (if u = clm_UserID c \<and> k = clm_Key c then Some (clm_RequestHash c, p)
          else pg_answer (tabs w) u k))"
proof -
  have I: "db_inv (tabs w) (seqs w)" using assms(1) by (simp add: pg_sound_def)
  have I': "db_inv (tabs w') (seqs w')" by (rule Post_db_inv [OF I assms(3,2)])
  have D: "distinct (map acc_ID (accounts (tabs w)))"
    using I by (simp add: db_inv_def ledger_inv_def accounts_ok_def)
  from LedgerRepo_Post_sound [OF assms(3) D assms(2)] obtain tid eid where
    acc: "post_accepts env tid eid txn c (tabs w)"
    and T': "tabs w' = posted_tables env tid eid (seqs w) txn c (tabs w)"
    and p: "p = posted_result env tid (seq_entries (seqs w)) (accounts (tabs w)) txn"
    by metis
  let ?r = "completed_claim env c tid (json_of_stored (toStored p))"
  let ?Ks = "idempotency_keys (tabs w)"
  have keys: "idempotency_keys (tabs w') = ?Ks @ [?r]"
    by (simp add: T' p posted_tables_def Let_def)
  have free: "List.find (\<lambda>r. ik_user_id r = clm_UserID c \<and> ik_key r = clm_Key c) ?Ks = None"
    using acc by (auto simp: post_accepts_def claim_free_def find_None_iff)
  have r: "ik_user_id ?r = clm_UserID c" "ik_key ?r = clm_Key c" "ik_request_hash ?r = clm_RequestHash c"
    "ik_response_body ?r = json_of_stored (toStored p)"
    by (simp_all add: completed_claim_def)
  have "completed_row (tr_id ` set (transactions (tabs w'))) ?r"
    using I' by (simp add: db_inv_def keys_inv_def keys)
  from completed_row_decodes [OF this] obtain p' where
    "stored_of_json (json_of_stored (toStored p)) = Inr (toStored p')" "fromStored (toStored p') = p'"
    by (auto simp: r)
  moreover have "stored_of_json (json_of_stored (toStored p)) = Inr (toStored p)"
  proof -
    have "stored_in_range (toStored p)"
    proof -
      have "seqs_ok (posted_seqs txn (seqs w))"
        using I' LedgerRepo_Post_sound [OF assms(3) D assms(2)] by (metis db_inv_def)
      moreover have "pred_option in_int64 (txn_InitiatedBy txn)"
        using acc I by (cases "txn_InitiatedBy txn")
          (auto simp: post_accepts_def db_inv_def users_inv_def seqs_ok_def in_int64_def)
      ultimately show ?thesis
        using posted_result_in_range [OF _ _ D assms(2)] acc I
        by (auto simp: p post_accepts_def db_inv_def entry_ids_inv_def)
    qed
    then show ?thesis by (rule stored_of_json_of_stored)
  qed
  moreover have "fromStored (toStored p) = p"
    unfolding p by (rule fromStored_toStored [OF posted_form_result])
  ultimately have new: "(case stored_of_json (ik_response_body ?r) of Inl e \<Rightarrow> None
      | Inr st \<Rightarrow> Some (ik_request_hash ?r, fromStored st)) = Some (clm_RequestHash c, p)"
    by (simp add: r)
  have "pg_answer (tabs w') u k = (if u = clm_UserID c \<and> k = clm_Key c then Some (clm_RequestHash c, p)
      else pg_answer (tabs w) u k)" for u k
  proof (cases "u = clm_UserID c \<and> k = clm_Key c")
    case True
    with free new show ?thesis by (simp add: pg_answer_def keys find_append r)
  next
    case False
    let ?q = "\<lambda>r. ik_user_id r = u \<and> ik_key r = k"
    have "\<not> ?q ?r" using False by (auto simp: r)
    then have "List.find ?q (?Ks @ [?r]) = List.find ?q ?Ks"
      by (cases "List.find ?q ?Ks") (auto simp: find_append)
    with False show ?thesis by (simp only: pg_answer_def keys if_False)
  qed
  moreover have "pg_answer (tabs w) (clm_UserID c) (clm_Key c) = None"
    using free by (simp add: pg_answer_def)
  ultimately show ?thesis using I' by (simp add: pg_sound_def)
qed

lemma pg_post_fails:
  assumes "pg_sound w" "amounts_in_range txn" "LedgerRepo_Post env txn c w = (Inl e, w')"
  shows "pg_sound w' \<and> tabs w' = tabs w"
proof -
  have "tabs w' = tabs w"
    using assms(3) by (auto simp: LedgerRepo_Post_def split: option.splits dest: in_tx_Inl_tabs)
  moreover have "db_inv (tabs w') (seqs w')"
    using Post_db_inv assms unfolding pg_sound_def by blast
  ultimately show ?thesis by (simp add: pg_sound_def)
qed

lemma pg_lookup_step:
  assumes "pg_sound w" "IdempotencyRepo_Find env u k w = (r, w')"
  shows "pg_sound w' \<and> tabs w' = tabs w \<and> db_step\<^sup>*\<^sup>* w w'"
  using readsD [OF reads_queries(5) assms(2)] assms(1) by (auto simp: pg_sound_def intro: db_step.read)

lemma pg_post_step:
  assumes "pg_sound w" "amounts_in_range txn" "LedgerRepo_Post env txn c w = (r, w')"
  shows "pg_sound w' \<and> db_step\<^sup>*\<^sup>* w w'"
  using Post_db_inv [OF assms(1) [unfolded pg_sound_def] assms(3,2)] db_step.post [OF assms(3,2)]
  by (auto simp: pg_sound_def)

interpretation pg_idem: idempotent_posting "LedgerRepo_Post env" "IdempotencyRepo_Find env" tabs
    pg_answer pg_sound "db_step\<^sup>*\<^sup>*" "no_faults env" for env
proof unfold_locales
  show "db_step\<^sup>*\<^sup>* s s" for s by simp
  show "db_step\<^sup>*\<^sup>* s s2" if "db_step\<^sup>*\<^sup>* s s1" "db_step\<^sup>*\<^sup>* s1 s2" for s s1 s2
    using that by (rule rtranclp_trans)
  show "pg_sound s' \<and> db_step\<^sup>*\<^sup>* s s'" "tabs s' = tabs s"
    if "pg_sound s" "IdempotencyRepo_Find env u k s = (r, s')" for env s u k r s'
    using pg_lookup_step [OF that] by simp_all
  show "\<exists>h p. pg_answer (tabs s') u k = Some (h, p) \<and> clm_RequestHash (irec_Claim rec) = h
      \<and> \<not> IdempotencyRecord_InFlight rec \<and> irec_Result rec = Some p"
    if "pg_sound s" "IdempotencyRepo_Find env u k s = (Inr rec, s')" for env s u k rec s'
    using pg_lookup_hit [OF that] pg_lookup_step [OF that] by simp
  show "pg_answer (tabs s') (clm_UserID c) (clm_Key c) = Some (clm_RequestHash c, p)"
    if "pg_sound s" "amounts_in_range txn" "LedgerRepo_Post env txn c s = (Inr p, s')" for env s txn c p s'
    using pg_post_answers [OF that] by simp
  show "tabs s' = tabs s"
    if "pg_sound s" "amounts_in_range txn" "LedgerRepo_Post env txn c s = (Inl e, s')" for env s txn c e s'
    using pg_post_fails [OF that] by simp
qed (rule pg_post_step pg_lookup_miss pg_lookup_live pg_post_answers [THEN conjunct2]; assumption)+

section \<open>With other requests in between\<close>

text \<open>
  \<open>raced f m\<close>: other requests, the relay and the consumer take any steps before the store call
  \<open>m\<close> begins; \<open>f\<close> picks them. Every statement counts in \<open>steps\<close>, so that \<open>f\<close> may do different
  things before each call of one request.
\<close>

definition elsewhere :: "(pg \<Rightarrow> pg) \<Rightarrow> pg \<Rightarrow> pg" where
  "elsewhere f w = (if db_step\<^sup>*\<^sup>* w (f w) then f w else w)"

definition raced :: "(pg \<Rightarrow> pg) \<Rightarrow> (pg, 'a) prog \<Rightarrow> (pg, 'a) prog" where
  "raced f m w = m (elsewhere f w)"

lemma elsewhere_steps: "db_step\<^sup>*\<^sup>* w (elsewhere f w)"
  by (simp add: elsewhere_def)

lemma db_steps_sound: "\<lbrakk>db_step\<^sup>*\<^sup>* w w'; pg_sound w\<rbrakk> \<Longrightarrow> pg_sound w'"
  by (induction rule: rtranclp_induct) (auto simp: pg_sound_def db_step_inv)

lemma elsewhere_sound: "pg_sound w \<Longrightarrow> pg_sound (elsewhere f w)"
  by (rule db_steps_sound [OF elsewhere_steps])

interpretation raced_idem: answer_recording "\<lambda>txn c. raced f (LedgerRepo_Post env txn c)"
    "\<lambda>u k. raced f (IdempotencyRepo_Find env u k)" tabs pg_answer pg_sound "db_step\<^sup>*\<^sup>*" for f env
proof unfold_locales
  show "pg_sound s' \<and> db_step\<^sup>*\<^sup>* s s'"
    if "pg_sound s" "raced f (IdempotencyRepo_Find env u k) s = (r, s')" for f env s u k r s'
    using pg_lookup_step [OF elsewhere_sound [OF that(1)] that(2) [unfolded raced_def]]
      elsewhere_steps [of s f] by (meson rtranclp_trans)
  show "pg_sound s' \<and> db_step\<^sup>*\<^sup>* s s'"
    if "pg_sound s" "amounts_in_range txn" "raced f (LedgerRepo_Post env txn c) s = (r, s')" for f env s txn c r s'
    using pg_post_step [OF elsewhere_sound [OF that(1)] that(2) that(3) [unfolded raced_def]]
      elsewhere_steps [of s f] by (meson rtranclp_trans)
  show "\<exists>h p. pg_answer (tabs s') u k = Some (h, p) \<and> clm_RequestHash (irec_Claim rec) = h
      \<and> \<not> IdempotencyRecord_InFlight rec \<and> irec_Result rec = Some p"
    if "pg_sound s" "raced f (IdempotencyRepo_Find env u k) s = (Inr rec, s')" for f env s u k rec s'
    using pg_idem.lookup_hit [OF elsewhere_sound [OF that(1)] that(2) [unfolded raced_def]] .
  show "pg_answer (tabs s') (clm_UserID c) (clm_Key c) = Some (clm_RequestHash c, p)"
    if "pg_sound s" "amounts_in_range txn" "raced f (LedgerRepo_Post env txn c) s = (Inr p, s')" for f env s txn c p s'
    using pg_idem.post_records [OF elsewhere_sound [OF that(1)] that(2) that(3) [unfolded raced_def]] .
qed auto

end
