(* ===== verification/History.thy ===== *)
theory History
  imports Guarantees
begin

text \<open>
  How the ledger's history evolves: what one step of the system may change, that the past is
  never rewritten, and that the balance recorded with each entry is the balance the account
  had right after it.
\<close>

section \<open>The effect of one step on the ledger\<close>

definition quiet :: "tables \<Rightarrow> tables \<Rightarrow> bool" where
  "quiet T T' \<longleftrightarrow>
     entries T' = entries T \<and> transactions T' = transactions T
     \<and> set (idempotency_keys T') \<subseteq> set (idempotency_keys T)
     \<and> (\<exists>new. accounts T' = accounts T @ new \<and> (\<forall>a \<in> set new. acc_Balance a = 0))
     \<and> (\<exists>new. users T' = users T @ new)"

lemma quiet_refl: "quiet T T"
  by (simp add: quiet_def)

lemma quiet_tables:
  "\<lbrakk>entries T' = entries T; transactions T' = transactions T; accounts T' = accounts T;
    users T' = users T; set (idempotency_keys T') \<subseteq> set (idempotency_keys T)\<rbrakk> \<Longrightarrow> quiet T T'"
  by (simp add: quiet_def)

lemma register_quiet:
  assumes "UserRepo_CreateWithWallet env u w = (r, w')"
  shows "quiet (tabs w) (tabs w')"
proof (cases r)
  case (Inl e)
  have "tabs w' = tabs w"
    using assms [unfolded Inl UserRepo_CreateWithWallet_def] by (rule in_tx_Inl_tabs)
  then show ?thesis by (simp add: quiet_refl)
next
  case (Inr va)
  obtain v a where va: "va = (v, a)" by fastforce
  note C = CreateWithWallet_Inr [OF assms [unfolded Inr va]]
  have "acc_Balance a = 0" using C(1) by (auto simp: new_wallet_row_def)
  with C(6) show ?thesis by (simp add: quiet_def)
qed

lemma create_wallet_quiet:
  assumes "AccountRepo_CreateWallet env i w = (r, w')"
  shows "quiet (tabs w) (tabs w')"
proof -
  obtain r0 where S: "sql_insert_wallet env i w = (r0, w')"
    using assms by (auto simp: AccountRepo_CreateWallet_def scanAccount_def wrapP_def
        split: prod.splits sum.splits)
  show ?thesis
  proof (cases r0)
    case (Inl e)
    with S have "tabs w' = tabs w" by (metis sql_insert_wallet_Inl)
    then show ?thesis by (simp add: quiet_refl)
  next
    case (Inr a)
    note C = sql_insert_wallet_Inr [OF S [unfolded Inr]]
    have "acc_Balance a = 0" using C(1) by (auto simp: new_wallet_row_def)
    with C(6) show ?thesis by (simp add: quiet_def)
  qed
qed

lemma tokens_only_quiet:
  assumes "tokens_only T T'"
  shows "quiet T T'"
proof -
  obtain R where "T' = T\<lparr>refresh_tokens := R\<rparr>" using assms unfolding tokens_only_def by blast
  then show ?thesis by (simp add: quiet_tables)
qed

lemma handle_quiet:
  assumes "AuditLog_handle env parse txt d cw = (s, cw')"
  shows "quiet (tabs (cw_pg cw)) (tabs (cw_pg cw'))"
proof (cases "parse (d_MessageId d)")
  case None
  with assms show ?thesis by (simp add: AuditLog_handle_def quiet_refl)
next
  case (Some i)
  obtain q w where P: "sql_insert_processed env i (cw_pg cw) = (q, w)" by fastforce
  have "cw_pg cw' = w"
    using assms Some P by (auto simp: AuditLog_handle_def Let_def split: sum.splits if_splits)
  with sql_insert_processed_cases [OF P] show ?thesis by (auto intro!: quiet_tables)
qed

definition posts :: "sequences \<Rightarrow> tables \<Rightarrow> tables \<Rightarrow> bool" where
  "posts q T T' \<longleftrightarrow>
     (\<exists>env tid eid txn claim. amounts_in_range txn \<and> post_accepts env tid eid txn claim T
        \<and> T' = posted_tables env tid eid q txn claim T)"

lemma db_step_effect:
  assumes "db_step w w'" "db_inv (tabs w) (seqs w)"
  shows "quiet (tabs w) (tabs w') \<or> posts (seqs w) (tabs w) (tabs w')"
  using assms(1)
proof (cases rule: db_step.cases)
  case (post env txn claim r)
  show ?thesis
  proof (cases r)
    case (Inl e)
    with post(1) have "tabs w' = tabs w"
      by (auto simp: LedgerRepo_Post_def split: option.splits dest: in_tx_Inl_tabs)
    then show ?thesis by (simp add: quiet_refl)
  next
    case (Inr res)
    have "distinct (map acc_ID (accounts (tabs w)))"
      using assms(2) by (simp add: db_inv_def ledger_inv_def accounts_ok_def)
    from LedgerRepo_Post_sound [OF post(1) [unfolded Inr] this post(2)] post(2) show ?thesis
      unfolding posts_def by metis
  qed
next
  case (register env u r)
  then show ?thesis using register_quiet by blast
next
  case (create_wallet env i r)
  then show ?thesis using create_wallet_quiet by blast
next
  case (store_token env i h t r)
  then show ?thesis using tokens_only_quiet tokens_only_effect(1) by blast
next
  case (revoke env h r)
  then show ?thesis using tokens_only_quiet tokens_only_effect(2) by blast
next
  case (revoke_all env i r)
  then show ?thesis using tokens_only_quiet tokens_only_effect(3) by blast
next
  case (cleanup env days r)
  from DeleteOlderThan_effect [OF cleanup] show ?thesis by (auto intro!: quiet_tables)
next
  case (relay env out skip rw r rw')
  from PollOnce_step [OF relay(3)] relay(1,2) show ?thesis
    by (auto simp: relay_step_def same_outbox_def intro!: quiet_tables)
next
  case (consume env parse uuid_text d cw s cw')
  then show ?thesis using handle_quiet by blast
next
  case read
  then show ?thesis by (simp add: quiet_refl)
qed

section \<open>The past is never rewritten\<close>

definition frozen :: "txn_row \<Rightarrow> uuid \<times> txn_type \<times> string \<times> int64 option \<times> uuid option \<times> time" where
  "frozen t = (tr_id t, tr_txn_type t, tr_description t, tr_initiated_by t, tr_reverses t, tr_created_at t)"

definition reversed_ids :: "tables \<Rightarrow> uuid set" where
  "reversed_ids T = tr_id ` {t \<in> set (transactions T). tr_status t = TxnReversed}"

definition extends :: "tables \<Rightarrow> tables \<Rightarrow> bool" where
  "extends T T' \<longleftrightarrow>
     (\<exists>new. entries T' = entries T @ new)
     \<and> (\<exists>new. map frozen (transactions T') = map frozen (transactions T) @ new)
     \<and> reversed_ids T \<subseteq> reversed_ids T'
     \<and> (\<exists>new. map acc_key (accounts T') = map acc_key (accounts T) @ new)
     \<and> (\<exists>new. users T' = users T @ new)"

lemma frozen_mark_original: "map frozen (mark_original rv Ts) = map frozen Ts"
  by (simp add: mark_original_def map_update_where frozen_def split: option.split)

lemma quiet_extends: "quiet T T' \<Longrightarrow> extends T T'"
  by (auto simp: quiet_def extends_def reversed_ids_def)

lemma posts_extends:
  assumes "posts q T T'"
  shows "extends T T'"
proof -
  obtain env tid eid txn claim where T': "T' = posted_tables env tid eid q txn claim T"
    using assms by (auto simp: posts_def)
  have "tr_id t \<in> reversed_ids T'" if t: "t \<in> set (transactions T)" "tr_status t = TxnReversed" for t
  proof -
    have "t \<in> set (mark_original (txn_ReversesID txn) (transactions T))"
      using t by (auto simp: mark_original_def set_update_where image_iff split: option.split
          intro!: bexI [of _ t])
    with t show ?thesis by (auto simp: T' reversed_ids_def)
  qed
  then show ?thesis
    by (auto simp: extends_def T' frozen_mark_original reversed_ids_def comp_def)
qed

lemma extends_account:
  assumes "extends T T'" "a \<in> set (accounts T)"
  shows "\<exists>b \<in> set (accounts T'). acc_key b = acc_key a"
proof -
  obtain new where K: "map acc_key (accounts T') = map acc_key (accounts T) @ new"
    using assms(1) by (auto simp: extends_def)
  have "acc_key a \<in> set (map acc_key (accounts T'))" unfolding K using assms(2) by simp
  then obtain b where "acc_key a = acc_key b" "b \<in> set (accounts T')" by auto
  then show ?thesis by (intro bexI [of _ b]) simp_all
qed

lemma extends_refl: "extends T T"
  by (simp add: extends_def)

lemma extends_trans:
  assumes "extends T U" "extends U V"
  shows "extends T V"
  using assms unfolding extends_def by (elim conjE exE) (intro conjI; force)

lemma steps_extend:
  assumes "reachable w" "db_step\<^sup>*\<^sup>* w w'"
  shows "extends (tabs w) (tabs w')"
proof -
  from assms(2) have "reachable w' \<and> extends (tabs w) (tabs w')"
  proof (induction rule: rtranclp_induct)
    case base
    with assms(1) show ?case by (simp add: extends_refl)
  next
    case (step y z)
    then have r: "reachable y" and e: "extends (tabs w) (tabs y)" by blast+
    from db_step_effect [OF step(2) reachable_inv [OF r]] have "extends (tabs y) (tabs z)"
      using quiet_extends posts_extends by blast
    with e reachable.step [OF r step(2)] extends_trans show ?case by blast
  qed
  then show ?thesis by blast
qed

text \<open>
  C8 invariant. History is append-only: whatever happens after a reachable state, through
  any number of steps, every entry stays where it is with all its columns, every transaction
  keeps its id, type, description, initiator, link and time, a reversed transaction stays
  reversed, and no account or user disappears or changes identity.
\<close>

theorem history_append_only:
  assumes "reachable w" "db_step\<^sup>*\<^sup>* w w'"
  shows "extends (tabs w) (tabs w')"
  by (rule steps_extend [OF assms])

theorem history_append_only_witness:
  "\<exists>w'::pg. extends (tabs demo_registered) (tabs w') \<and> length (entries (tabs w')) = 2"
proof -
  obtain res w' where P: "LedgerRepo_Post demo_env demo_topup demo_claim demo_registered = (Inr res, w')"
    and n: "length (entries (tabs w')) = 2" using demo_posted by blast
  from history_append_only [OF demo_registered_reachable r_into_rtranclp [of db_step, OF db_step.post [OF P demo_typed]]]
  show ?thesis using n by blast
qed

section \<open>Balances after each entry\<close>

definition running_ok :: "account list \<Rightarrow> entry_row list \<Rightarrow> bool" where
  "running_ok As Es \<longleftrightarrow>
     (\<forall>i < length Es. \<forall>a \<in> set As. acc_ID a = er_account_id (Es ! i) \<longrightarrow>
        er_balance_after (Es ! i) = computed_balance (take (Suc i) Es) a)"

lemma take_posted_rows:
  "take k (posted_rows env tid n As es) = posted_rows env tid n As (take k es)"
  by (induction es arbitrary: n k) (auto simp: take_Cons' split: nat.split)

lemma length_posted_rows [simp]: "length (posted_rows env tid n As es) = length es"
  by (induction es arbitrary: n) simp_all

lemma nth_posted_rows:
  "i < length es \<Longrightarrow> er_account_id (posted_rows env tid n As es ! i) = ent_AccountID (es ! i)
     \<and> er_balance_after (posted_rows env tid n As es ! i) = balance_after As (es ! i)"
  by (induction es arbitrary: n i) (auto simp: new_entry_row_def nth_Cons split: nat.split)

lemma posts_running_ok:
  assumes run: "running_ok (accounts T) (entries T)" and I: "db_inv T q" and P: "posts q T T'"
  shows "running_ok (accounts T') (entries T')"
  unfolding running_ok_def
proof (intro allI impI ballI)
  obtain env tid eid txn claim where acc: "post_accepts env tid eid txn claim T"
    and T': "T' = posted_tables env tid eid q txn claim T" using P by (auto simp: posts_def)
  let ?es = "txn_Entries txn" and ?n = "seq_entries q" and ?As = "accounts T"
  let ?R = "posted_rows env tid ?n ?As ?es"
  have D: "distinct (map acc_ID ?As)" and nd: "no_drift ?As (entries T)"
    using I by (simp_all add: db_inv_def ledger_inv_def accounts_ok_def)
  have dist: "distinct (map ent_AccountID ?es)"
    using acc by (simp add: post_accepts_def valid_transaction_def well_formed_entries_def)
  fix i a' assume i: "i < length (entries T')" and a': "a' \<in> set (accounts T')"
    and id: "acc_ID a' = er_account_id (entries T' ! i)"
  obtain a where a: "a \<in> set ?As" "a' = settle (env_now env) ?es a" using a' by (auto simp: T')
  have cong: "computed_balance Fs a' = computed_balance Fs a" for Fs
    using a(2) by (intro PostSpec.computed_balance_cong) simp_all
  show "er_balance_after (entries T' ! i) = computed_balance (take (Suc i) (entries T')) a'"
  proof (cases "i < length (entries T)")
    case True
    moreover have "acc_ID a' = acc_ID a" using a(2) by simp
    ultimately show ?thesis using run a(1) id by (simp add: running_ok_def T' nth_append cong)
  next
    case False
    define j where "j = i - length (entries T)"
    have j: "j < length ?es" "i = length (entries T) + j" using False i by (auto simp: T' j_def)
    have row: "er_account_id (entries T' ! i) = ent_AccountID (?es ! j)"
      "er_balance_after (entries T' ! i) = balance_after ?As (?es ! j)"
      using nth_posted_rows [OF j(1)] j by (simp_all add: T' nth_append)
    have ida: "acc_ID a = ent_AccountID (?es ! j)" using id row(1) a(2) by simp
    have tk: "take (Suc i) (entries T') = entries T @ posted_rows env tid ?n ?As (take (Suc j) ?es)"
      using j by (simp add: T' take_posted_rows [symmetric])
    have dk: "distinct (map ent_AccountID (take (Suc j) ?es))"
      using dist by (metis distinct_take take_map)
    have mem: "?es ! j \<in> set (take (Suc j) ?es)" using j(1) by (simp add: take_Suc_conv_app_nth)
    have "List.find (\<lambda>e. ent_AccountID e = acc_ID a) (take (Suc j) ?es) = Some (?es ! j)"
      using find_by_key [OF dk mem] ida by simp
    then have "computed_balance (take (Suc i) (entries T')) a
        = acc_Balance a + entry_delta (?es ! j) (acc_NormalBalance a)"
      using nd a(1) by (simp add: tk PostSpec.computed_balance_append computed_balance_rows [OF dk] no_drift_def)
    moreover have "balance_after ?As (?es ! j) = acc_Balance a + entry_delta (?es ! j) (acc_NormalBalance a)"
      using account_by_id_eq [OF D a(1)] ida by (simp add: balance_after_def)
    ultimately show ?thesis by (simp add: row(2) cong)
  qed
qed

lemma quiet_running_ok:
  assumes run: "running_ok (accounts T) (entries T)" and Q: "quiet T T'"
    and ids: "\<forall>r \<in> set (entries T). er_account_id r \<in> acc_ID ` set (accounts T)"
    and D': "distinct (map acc_ID (accounts T'))"
  shows "running_ok (accounts T') (entries T')"
  unfolding running_ok_def
proof (intro allI impI ballI)
  obtain new where N: "accounts T' = accounts T @ new" and E: "entries T' = entries T"
    using Q by (auto simp: quiet_def)
  fix i a assume i: "i < length (entries T')" and a: "a \<in> set (accounts T')"
    and id: "acc_ID a = er_account_id (entries T' ! i)"
  have "acc_ID a \<in> acc_ID ` set (accounts T)" using ids i id E by (metis nth_mem)
  then have "a \<in> set (accounts T)" using a D' unfolding N by auto
  with run i id E show "er_balance_after (entries T' ! i) = computed_balance (take (Suc i) (entries T')) a"
    by (simp add: running_ok_def)
qed

lemma reachable_running_ok: "reachable w \<Longrightarrow> running_ok (accounts (tabs w)) (entries (tabs w))"
proof (induction rule: reachable.induct)
  case (initial w now ids)
  then show ?case by (simp add: running_ok_def migrated_tables_def)
next
  case (step w w')
  note I = reachable_inv [OF step(1)] and I' = reachable_inv [OF reachable.step [OF step(1,2)]]
  have "distinct (map acc_ID (accounts (tabs w')))"
    using I' by (simp add: db_inv_def ledger_inv_def accounts_ok_def)
  with db_step_effect [OF step(2) I] step(3) show ?case
    using quiet_running_ok db_inv_entries(2) [OF I] posts_running_ok [OF _ I] by blast
qed

text \<open>
  C9 invariant. The balance stored with an entry is the account's balance right after it:
  the sum, over the account's entries up to and including this one in id order, of the
  amounts on its normal side less those on the other. Ids increase strictly with insertion.
\<close>

theorem balance_after_is_running_balance:
  assumes "reachable w" "i < length (entries (tabs w))" "a \<in> set (accounts (tabs w))"
    and "acc_ID a = er_account_id (entries (tabs w) ! i)"
  shows "er_balance_after (entries (tabs w) ! i) = computed_balance (take (Suc i) (entries (tabs w))) a
    \<and> sorted_wrt (<) (map er_id (entries (tabs w)))"
  using reachable_running_ok [OF assms(1)] reachable_inv [OF assms(1)] assms(2-4)
  by (simp add: running_ok_def db_inv_def entry_ids_inv_def)

theorem balance_after_is_running_balance_witness:
  "\<exists>w a. a \<in> set (accounts (tabs w)) \<and> acc_ID a = er_account_id (entries (tabs w) ! 0) \<and>
     length (entries (tabs (w::pg))) = 2 \<and>
     er_balance_after (entries (tabs w) ! 0) = computed_balance (take 1 (entries (tabs w))) a"
proof -
  obtain w where w: "reachable w" "length (entries (tabs w)) = 2" using demo_posted by blast
  then have "entries (tabs w) ! 0 \<in> set (entries (tabs w))" by simp
  with db_inv_entries(2) [OF reachable_inv [OF w(1)]] obtain a where
    a: "a \<in> set (accounts (tabs w))" "acc_ID a = er_account_id (entries (tabs w) ! 0)"
    by (metis imageE)
  from balance_after_is_running_balance [OF w(1) _ a] w a show ?thesis by auto
qed

end
