(* ===== verification/LedgerUse.thy ===== *)
theory LedgerUse
  imports Idempotency History
begin

text \<open>
  The use cases of the service on the PostgreSQL stores: they only take steps of the system,
  what a successful transfer does to the balances, retries, reversals, and who may see what.
\<close>

section \<open>Looking up accounts\<close>

lemma GetWallet_Inr:
  assumes "AccountRepo_GetWalletByUserID env u w = (Inr a, w')"
  shows "a \<in> set (accounts (tabs w))" "acc_UserID a = Some u" "acc_Type a = AccountUserWallet"
    "tabs w' = tabs w" "seqs w' = seqs w"
  using assms
  by (auto simp: AccountRepo_GetWalletByUserID_def scanAccount_def wrapP_Inr_iff
      sql_select_account_def stmt_Inr_iff AccountUserWallet_def split: option.splits
      dest!: find_SomeD)

lemma GetByPublicID_Inr:
  assumes "AccountRepo_GetByPublicID env i w = (Inr a, w')"
  shows "a \<in> set (accounts (tabs w))" "acc_PublicID a = i" "tabs w' = tabs w" "seqs w' = seqs w"
  using assms
  by (auto simp: AccountRepo_GetByPublicID_def scanAccount_def wrapP_Inr_iff
      sql_select_account_def stmt_Inr_iff split: option.splits dest!: find_SomeD)

lemma GetWallet_live:
  assumes "no_faults env" "a \<in> set (accounts (tabs w))" "acc_UserID a = Some u"
    "acc_Type a = AccountUserWallet"
  shows "\<exists>b w'. AccountRepo_GetWalletByUserID env u w = (Inr b, w')"
proof -
  have "List.find (\<lambda>a. acc_UserID a = Some u \<and> acc_Type a = ''USER_WALLET'') (accounts (tabs w)) \<noteq> None"
    using assms(2-4) by (auto simp: find_None_iff AccountUserWallet_def)
  then show ?thesis
    using assms(1)
    by (auto simp: AccountRepo_GetWalletByUserID_def scanAccount_def wrapP_def sql_select_account_def)
qed

lemma liftR_iff [prog_simps]: "liftR r s = (q, t) \<longleftrightarrow> q = r \<and> t = s"
  by (auto simp: liftR_def split: sum.splits)

lemma reads_liftR [reads_intros]: "reads (liftR r)"
  by (simp add: reads_def liftR_iff)

lemma amountWithin_Inr:
  "amountWithin sen lo hi = Inr m \<Longrightarrow> m = sen \<and> 0 < m \<and> lo \<le> m \<and> m \<le> hi \<and> in_int64 m"
  by (auto simp: amountWithin_def NewMoney_Inr_iff maxSafeAmount_def Rupiah_def in_int64_def
      split: sum.splits if_splits)

section \<open>Builders\<close>

definition typed_build :: "(pg, transaction) prog \<Rightarrow> bool" where
  "typed_build build \<longleftrightarrow>
     reads build \<and> (\<forall>w txn w'. db_inv (tabs w) (seqs w) \<longrightarrow> build w = (Inr txn, w') \<longrightarrow> amounts_in_range txn)"

lemma typed_build_retP: "amounts_in_range txn \<Longrightarrow> typed_build (retP txn)"
  by (auto simp: typed_build_def intro!: reads_intros)

lemma NewTopup_typed: "in_int64 m \<Longrightarrow> amounts_in_range (NewTopup c wl m u d)"
  by (simp add: amounts_in_range_def NewTopup_def)

lemma NewWithdraw_typed: "in_int64 m \<Longrightarrow> amounts_in_range (NewWithdraw wl c m u d)"
  by (simp add: amounts_in_range_def NewWithdraw_def)

lemma NewTransfer_typed:
  "\<lbrakk>in_int64 m; in_int64 fee; NewTransfer f t s m fee u d = Inr txn\<rbrakk> \<Longrightarrow> amounts_in_range txn"
  by (auto simp: amounts_in_range_def NewTransfer_Inr_iff)

lemma build_transfer_typed:
  assumes "in_int64 m" "in_int64 (cfg_TransferFee cfg)"
  shows "typed_build (build_transfer intN (pg_ledger env cfg cash fees) req m a)"
  unfolding typed_build_def
proof (intro conjI allI impI)
  show "reads (build_transfer intN (pg_ledger env cfg cash fees) req m a)"
    unfolding build_transfer_def by (auto intro!: reads_intros)
  fix w txn w' assume "build_transfer intN (pg_ledger env cfg cash fees) req m a w = (Inr txn, w')"
  then show "amounts_in_range txn"
    using NewTransfer_typed [OF assms]
    by (auto simp: build_transfer_def bindP_Inr_iff liftR_iff split: if_splits)
qed

lemma GetTransaction_Inr:
  assumes "LedgerRepo_GetTransaction env i v w = (Inr p, w')"
  shows "\<exists>t rows. t \<in> set (transactions (tabs w)) \<and> tr_id t = i
    \<and> (v = None \<or> (\<exists>e \<in> set (entries (tabs w)). er_transaction_id e = i \<and> Some (er_account_id e) = v))
    \<and> set rows = {(e, a). e \<in> set (entries (tabs w)) \<and> a \<in> set (accounts (tabs w))
                        \<and> er_transaction_id e = i \<and> acc_ID a = er_account_id e}
    \<and> pr_Transaction p = \<lparr> txn_ID = tr_id t, txn_Type = tr_txn_type t, txn_Status = tr_status t,
               txn_Description = tr_description t, txn_InitiatedBy = tr_initiated_by t,
               txn_ReversesID = tr_reverses t,
               txn_Entries = map (\<lambda>(e, a). \<lparr> ent_AccountID = er_account_id e,
                   ent_Direction = er_direction e, ent_Amount = er_amount e \<rparr>) rows,
               txn_CreatedAt = tr_created_at t \<rparr>
    \<and> pr_Entries p = map (\<lambda>(e, a).
             \<lparr> pe_ID = er_id e, pe_TransactionID = i, pe_AccountID = er_account_id e,
               pe_AccountPublicID = acc_PublicID a, pe_AccountType = acc_Type a,
               pe_Direction = er_direction e, pe_Amount = er_amount e,
               pe_BalanceAfter = er_balance_after e, pe_CreatedAt = er_created_at e,
               pe_TxnType = tr_txn_type t, pe_Description = tr_description t \<rparr>) rows"
proof -
  obtain t w1 w2 rows w3 where S: "sql_select_transaction env i v w = (Inr t, w1)"
    and R: "round_trip env w1 = (Inr (), w2)" and E: "sql_select_entries env i w2 = (Inr rows, w3)"
    and p: "p = \<lparr> pr_Transaction =
             \<lparr> txn_ID = tr_id t, txn_Type = tr_txn_type t, txn_Status = tr_status t,
               txn_Description = tr_description t, txn_InitiatedBy = tr_initiated_by t,
               txn_ReversesID = tr_reverses t,
               txn_Entries = map (\<lambda>(e, a). \<lparr> ent_AccountID = er_account_id e,
                   ent_Direction = er_direction e, ent_Amount = er_amount e \<rparr>) rows,
               txn_CreatedAt = tr_created_at t \<rparr>,
           pr_Entries = map (\<lambda>(e, a).
             \<lparr> pe_ID = er_id e, pe_TransactionID = i, pe_AccountID = er_account_id e,
               pe_AccountPublicID = acc_PublicID a, pe_AccountType = acc_Type a,
               pe_Direction = er_direction e, pe_Amount = er_amount e,
               pe_BalanceAfter = er_balance_after e, pe_CreatedAt = er_created_at e,
               pe_TxnType = tr_txn_type t, pe_Description = tr_description t \<rparr>) rows,
           pr_ViewerAccountID = None \<rparr>"
    using assms unfolding LedgerRepo_GetTransaction_def bindP_Inr_iff wrapP_Inr_iff by auto
  have T: "tabs w1 = tabs w" "tabs w2 = tabs w1"
    using readsD [OF reads_repos(4) S] readsD [OF reads_repos(1) R] by simp_all
  have "t \<in> set (transactions (tabs w)) \<and> tr_id t = i
    \<and> (v = None \<or> (\<exists>e \<in> set (entries (tabs w)). er_transaction_id e = i \<and> Some (er_account_id e) = v))"
    using S by (auto simp: sql_select_transaction_def stmt_Inr_iff Let_def split: option.splits
        dest!: find_SomeD)
  moreover have "set rows = {(e, a). e \<in> set (entries (tabs w)) \<and> a \<in> set (accounts (tabs w))
                        \<and> er_transaction_id e = i \<and> acc_ID a = er_account_id e}"
    using E T by (fastforce simp: sql_select_entries_def stmt_Inr_iff Let_def)
  ultimately show ?thesis using p by (intro exI [of _ t] exI [of _ rows]) simp
qed

lemma build_reversal_typed: "typed_build (build_reversal (pg_ledger env cfg cash fees) req)"
  unfolding typed_build_def
proof (intro conjI allI impI)
  show "reads (build_reversal (pg_ledger env cfg cash fees) req)"
    unfolding build_reversal_def by (auto intro!: reads_intros)
  fix w txn w' assume I: "db_inv (tabs w) (seqs w)"
    and B: "build_reversal (pg_ledger env cfg cash fees) req w = (Inr txn, w')"
  then obtain p w1 where G: "LedgerRepo_GetTransaction env (rr_TransactionID req) None w = (Inr p, w1)"
    and N: "NewReversal (pr_Transaction p) (act_UserID (rr_Actor req)) (rr_Description req) = Inr txn"
    by (auto simp: build_reversal_def bindP_Inr_iff liftR_iff)
  from N have es: "txn_Entries txn = map reverse_entry (txn_Entries (pr_Transaction p))"
    by (auto simp: NewReversal_Inr_iff)
  have "in_int64 (er_amount e)" if "e \<in> set (entries (tabs w))" for e
    using I that by (simp add: db_inv_def ledger_inv_def entries_ok_def)
  with GetTransaction_Inr [OF G] show "amounts_in_range txn"
    unfolding amounts_in_range_def es by auto
qed

section \<open>The use cases take steps of the system\<close>

lemma reads_step: "\<lbrakk>reads m; m w = (r, w')\<rbrakk> \<Longrightarrow> db_step w w'"
  by (auto dest: readsD intro: db_step.read)

lemma replay_step:
  assumes "replay (pg_ledger env cfg cash fees) c w = (r, w')"
  shows "db_step w w'" "tabs w' = tabs w" "seqs w' = seqs w"
proof -
  obtain q w1 where F: "IdempotencyRepo_Find env (clm_UserID c) (clm_Key c) w = (q, w1)" by fastforce
  with assms have "w1 = w'" by (auto simp: replay_def split: sum.splits if_splits)
  with readsD [OF reads_queries(5) F] show "tabs w' = tabs w" "seqs w' = seqs w" by simp_all
  then show "db_step w w'" by (rule db_step.read)
qed

lemma postIdempotent_steps:
  assumes "typed_build build" "db_inv (tabs w) (seqs w)"
    and "postIdempotent (pg_ledger env cfg cash fees) c build w = (r, w')"
  shows "db_step\<^sup>*\<^sup>* w w'"
proof (cases "clm_Key c = '''' \<or> length (clm_Key c) > 128")
  case True
  with assms(3) show ?thesis by (simp add: postIdempotent_def)
next
  case key: False
  let ?L = "pg_ledger env cfg cash fees"
  obtain q w1 where R: "replay ?L c w = (q, w1)" by fastforce
  note s1 = replay_step [OF R]
  show ?thesis
  proof (cases q)
    case (Some x)
    with assms(3) R key have "w' = w1" by (simp add: postIdempotent_def)
    with s1(1) show ?thesis by auto
  next
    case None
    obtain b w2 where B: "build w1 = (b, w2)" by fastforce
    have s2: "db_step w1 w2" using assms(1) B unfolding typed_build_def by (blast intro: reads_step)
    have t2: "tabs w2 = tabs w" "seqs w2 = seqs w"
      using assms(1) readsD [of build, OF _ B] s1 by (simp_all add: typed_build_def)
    show ?thesis
    proof (cases "\<exists>txn. b = Inr txn \<and> Transaction_Validate txn = None")
      case False
      with assms(3) R key None B have "w' = w2"
        by (cases b) (auto simp: postIdempotent_def bindP_def split: option.splits)
      with s1(1) s2 show ?thesis by auto
    next
      case True
      then obtain txn where b: "b = Inr txn" "Transaction_Validate txn = None" by blast
      have typed: "amounts_in_range txn"
        using assms(1,2) B b s1 unfolding typed_build_def by metis
      have P: "post_or_replay ?L c txn w2 = (r, w')"
        using assms(3) R key None B b by (simp add: postIdempotent_def bindP_def)
      obtain p w3 where Q: "LedgerRepo_Post env txn c w2 = (p, w3)" by fastforce
      have s3: "db_step w2 w3" using Q typed by (rule db_step.post)
      have "db_step\<^sup>*\<^sup>* w3 w'"
      proof (cases "\<exists>e. p = Inl e \<and> errors_Is e ErrIdempotencyInFlight")
        case True
        then obtain e where e: "p = Inl e" "errors_Is e ErrIdempotencyInFlight" by blast
        obtain q2 w4 where R2: "replay ?L c w3 = (q2, w4)" by fastforce
        with P Q e have "w' = w4" by (auto simp: post_or_replay_def split: option.splits)
        with replay_step(1) [OF R2] show ?thesis by auto
      next
        case False
        with P Q have "w' = w3" by (auto simp: post_or_replay_def split: sum.splits)
        then show ?thesis by simp
      qed
      with s1(1) s2 s3 show ?thesis by (meson converse_rtranclp_into_rtranclp)
    qed
  qed
qed

text \<open>One call of the API's use cases, with the service NewLedger builds for a configuration.\<close>

definition config_ok :: "ledger_config \<Rightarrow> bool" where
  "config_ok cfg \<longleftrightarrow>
     0 \<le> cfg_TransferFee cfg \<and> in_int64 (cfg_TransferFee cfg) \<and> 0 < cfg_MinTransfer cfg
     \<and> cfg_MinTransfer cfg \<le> cfg_MaxTransfer cfg"

inductive api_call :: "pg \<Rightarrow> pg \<Rightarrow> bool" where
  topup: "\<lbrakk>config_ok cfg; Ledger_Topup (pg_ledger env cfg cash fees) req w = (r, w')\<rbrakk> \<Longrightarrow> api_call w w'"
| withdraw: "\<lbrakk>config_ok cfg; Ledger_Withdraw (pg_ledger env cfg cash fees) req w = (r, w')\<rbrakk> \<Longrightarrow>
    api_call w w'"
| transfer: "\<lbrakk>config_ok cfg; Ledger_Transfer intN (pg_ledger env cfg cash fees) treq w = (r, w')\<rbrakk> \<Longrightarrow>
    api_call w w'"
| reverse: "\<lbrakk>config_ok cfg; Ledger_Reverse (pg_ledger env cfg cash fees) rreq w = (r, w')\<rbrakk> \<Longrightarrow>
    api_call w w'"
| get_transaction: "Ledger_GetTransaction (pg_ledger env cfg cash fees) actor i w = (r, w') \<Longrightarrow> api_call w w'"
| my_wallet: "Ledger_MyWallet (pg_ledger env cfg cash fees) actor w = (a, w') \<Longrightarrow> api_call w w'"
| my_entries: "Ledger_MyEntries (pg_ledger env cfg cash fees) actor cursor lim w = (p, w') \<Longrightarrow> api_call w w'"
| trial_balance: "Ledger_TrialBalance (pg_ledger env cfg cash fees) actor w = (t, w') \<Longrightarrow> api_call w w'"

text \<open>The common frame of topup, withdraw and transfer: amount, wallet, idempotent posting.\<close>

lemma money_op_steps:
  assumes "\<And>m a. amountWithin sen lo hi = Inr m \<Longrightarrow> typed_build (build m a)"
    and "db_inv (tabs w) (seqs w)"
    and "bindP (liftR (amountWithin sen lo hi)) (\<lambda>amount.
         bindP (AccountRepo_GetWalletByUserID env u) (\<lambda>wallet.
         markViewer (postIdempotent (pg_ledger env cfg cash fees) c (build amount wallet)) (acc_ID wallet))) w
       = (r, w')"
  shows "db_step\<^sup>*\<^sup>* w w'"
proof (cases "amountWithin sen lo hi")
  case (Inl e)
  with assms(3) show ?thesis by (auto simp: bindP_def liftR_def)
next
  case (Inr m)
  obtain q w1 where G: "AccountRepo_GetWalletByUserID env u w = (q, w1)" by fastforce
  have s1: "db_step w w1" by (rule reads_step [OF reads_queries(2) G])
  have t1: "tabs w1 = tabs w" "seqs w1 = seqs w" using readsD [OF reads_queries(2) G] by simp_all
  show ?thesis
  proof (cases q)
    case (Inl e)
    with assms(3) G \<open>amountWithin sen lo hi = Inr m\<close> have "w' = w1" by (auto simp: bindP_def liftR_def)
    with s1 show ?thesis by auto
  next
    case (Inr a)
    obtain p w2 where P: "postIdempotent (pg_ledger env cfg cash fees) c (build m a) w1 = (p, w2)"
      by fastforce
    from assms(3) G Inr P \<open>amountWithin sen lo hi = Inr m\<close> have "w' = w2"
      by (auto simp: bindP_def liftR_def markViewer_def split: sum.splits)
    moreover have "db_step\<^sup>*\<^sup>* w1 w2"
      using postIdempotent_steps [OF assms(1) _ P] assms(2) t1 \<open>amountWithin sen lo hi = Inr m\<close> by simp
    ultimately show ?thesis using s1 by (meson converse_rtranclp_into_rtranclp)
  qed
qed

lemma reads_markViewer [reads_intros]: "reads m \<Longrightarrow> reads (markViewer m i)"
  unfolding markViewer_def by (intro reads_intros)

lemma api_call_steps:
  assumes "api_call w w'" "db_inv (tabs w) (seqs w)"
  shows "db_step\<^sup>*\<^sup>* w w'"
  using assms(1)
proof (cases rule: api_call.cases)
  case (topup cfg env cash fees req r)
  show ?thesis
    using topup(2) unfolding Ledger_Topup_def pg_ledger_simps
    by (rule money_op_steps [OF _ assms(2), rotated])
      (auto intro!: typed_build_retP NewTopup_typed dest: amountWithin_Inr)
next
  case (withdraw cfg env cash fees req r)
  show ?thesis
    using withdraw(2) unfolding Ledger_Withdraw_def pg_ledger_simps
    by (rule money_op_steps [OF _ assms(2), rotated])
      (auto intro!: typed_build_retP NewWithdraw_typed dest: amountWithin_Inr)
next
  case (transfer cfg intN env cash fees treq r)
  show ?thesis
    using transfer(2) unfolding Ledger_Transfer_def pg_ledger_simps
    by (rule money_op_steps [OF _ assms(2), rotated])
      (use transfer(1) in \<open>auto intro!: build_transfer_typed dest: amountWithin_Inr simp: config_ok_def\<close>)
next
  case (reverse cfg env cash fees rreq r)
  then show ?thesis
    using postIdempotent_steps [OF build_reversal_typed assms(2)]
    by (auto simp: Ledger_Reverse_def split: if_splits)
next
  case (get_transaction env cfg cash fees actor i r)
  have "reads (Ledger_GetTransaction (pg_ledger env cfg cash fees) actor i)"
    unfolding Ledger_GetTransaction_def by (auto intro!: reads_intros)
  from reads_step [OF this get_transaction] show ?thesis by auto
next
  case (my_wallet env cfg cash fees actor a)
  have "reads (Ledger_MyWallet (pg_ledger env cfg cash fees) actor)"
    unfolding Ledger_MyWallet_def by (auto intro!: reads_intros)
  from reads_step [OF this my_wallet] show ?thesis by auto
next
  case (my_entries env cfg cash fees actor cursor lim p)
  have "reads (Ledger_MyEntries (pg_ledger env cfg cash fees) actor cursor lim)"
    unfolding Ledger_MyEntries_def Let_def by (auto intro!: reads_intros)
  from reads_step [OF this my_entries] show ?thesis by auto
next
  case (trial_balance env cfg cash fees actor t)
  have "reads (Ledger_TrialBalance (pg_ledger env cfg cash fees) actor)"
    unfolding Ledger_TrialBalance_def by (auto intro!: reads_intros)
  from reads_step [OF this trial_balance] show ?thesis by auto
qed

lemma reachable_steps: "\<lbrakk>db_step\<^sup>*\<^sup>* w w'; reachable w\<rbrakk> \<Longrightarrow> reachable w'"
  by (induction rule: rtranclp_induct) (auto intro: reachable.step)

end
