(* ===== verification/UseCases.thy ===== *)
theory UseCases
  imports LedgerUse
begin

text \<open>
  What the use cases of the service do to the ledger, end to end: the accounts \<open>NewLedger\<close>
  finds at startup, the balances a transfer or a reversal moves, the answer to a retry, and
  whose transactions a user can read. An operation that answers \<open>Inr p\<close> either repeats the
  answer recorded for its idempotency key and changes no table, or posted its transaction.
\<close>

section \<open>One posting\<close>

text \<open>The recorded answer of an earlier call, on which the operation changes no table.\<close>

definition replayed :: "pg \<Rightarrow> idempotency_claim \<Rightarrow> post_result \<Rightarrow> pg \<Rightarrow> bool" where
  "replayed w c p w' \<longleftrightarrow>
     tabs w' = tabs w \<and> pg_answer (tabs w) (clm_UserID c) (clm_Key c) = Some (clm_RequestHash c, p)"

definition posted_now ::
    "env \<Rightarrow> pg \<Rightarrow> idempotency_claim \<Rightarrow> transaction \<Rightarrow> post_result \<Rightarrow> pg \<Rightarrow> bool" where
  "posted_now env w c txn p w' \<longleftrightarrow>
     amounts_in_range txn \<and> (\<exists>tid eid. post_accepts env tid eid txn c (tabs w)
       \<and> tabs w' = posted_tables env tid eid (seqs w) txn c (tabs w)
       \<and> p = posted_result env tid (seq_entries (seqs w)) (accounts (tabs w)) txn)"

lemma pg_ledger_uses: "pg_idem.uses env (pg_ledger env cfg cash fees)"
  by (simp add: pg_idem.uses_def)

lemma postIdempotent_cases:
  assumes B: "typed_build build" and I: "db_inv (tabs w) (seqs w)"
    and R: "postIdempotent (pg_ledger env cfg cash fees) c build w = (Inr p, w')"
  shows "replayed w c p w'
    \<or> (\<exists>w1 w2 txn. build w1 = (Inr txn, w2) \<and> tabs w1 = tabs w \<and> seqs w1 = seqs w
         \<and> posted_now env w c txn p w')"
proof -
  let ?L = "pg_ledger env cfg cash fees"
  have key: "\<not> (clm_Key c = '''' \<or> length (clm_Key c) > 128)"
    using R by (auto simp: postIdempotent_def)
  obtain q w1 where Q: "replay ?L c w = (q, w1)" by fastforce
  note t1 = replay_step(2,3) [OF Q]
  show ?thesis
  proof (cases q)
    case (Some x)
    with R Q key have "x = Inr p" "w' = w1" by (auto simp: postIdempotent_def split: if_splits)
    from I have "pg_sound w" by (simp add: pg_sound_def)
    from pg_idem.replay_sound [OF pg_ledger_uses this] Q Some \<open>x = Inr p\<close> \<open>w' = w1\<close> t1 show ?thesis
      by (simp add: replayed_def)
  next
    case None
    let ?tail = "\<lambda>txn. case Transaction_Validate txn of
        Some err \<Rightarrow> failP (Wrapf ''transaksi tidak valid: %w'' [] err)
      | None \<Rightarrow> post_or_replay ?L c txn"
    have "bindP build ?tail w1 = (Inr p, w')" using R Q key None by (simp add: postIdempotent_def)
    then obtain txn w2 where build: "build w1 = (Inr txn, w2)" and T: "?tail txn w2 = (Inr p, w')"
      unfolding bindP_Inr_iff by blast
    from T have P: "post_or_replay ?L c txn w2 = (Inr p, w')" by (auto split: option.splits)
    have t2: "tabs w2 = tabs w" "seqs w2 = seqs w"
      using B readsD [of build, OF _ build] t1 by (simp_all add: typed_build_def)
    have typed: "amounts_in_range txn" using B I build t1 unfolding typed_build_def by metis
    obtain r w3 where Po: "LedgerRepo_Post env txn c w2 = (r, w3)" by fastforce
    show ?thesis
    proof (cases r)
      case (Inr res)
      with P Po have "res = p" "w3 = w'" by (auto simp: post_or_replay_def)
      moreover have "distinct (map acc_ID (accounts (tabs w2)))"
        using I t2 by (simp add: db_inv_def ledger_inv_def accounts_ok_def)
      ultimately obtain tid eid where "post_accepts env tid eid txn c (tabs w)"
        "tabs w' = posted_tables env tid eid (seqs w) txn c (tabs w)"
        "p = posted_result env tid (seq_entries (seqs w)) (accounts (tabs w)) txn"
        using LedgerRepo_Post_sound [OF Po [unfolded Inr] _ typed] t2 by metis
      with typed build t1 show ?thesis unfolding posted_now_def by blast
    next
      case (Inl e)
      then have tabs3: "tabs w3 = tabs w2"
        using Po by (auto simp: LedgerRepo_Post_def split: option.splits dest: in_tx_Inl_tabs)
      have I3: "pg_sound w3"
        using Post_db_inv [OF _ Po typed] I t2 by (simp add: pg_sound_def)
      have "errors_Is e ErrIdempotencyInFlight"
        using P Po Inl by (auto simp: post_or_replay_def split: if_splits)
      with P Po Inl have "replay ?L c w3 = (Some (Inr p), w')"
        by (auto simp: post_or_replay_def split: prod.splits option.splits)
      with pg_idem.replay_sound [OF pg_ledger_uses I3] replay_step(2) tabs3 t2 show ?thesis
        unfolding replayed_def by metis
    qed
  qed
qed

section \<open>Balances\<close>

definition balance_in :: "tables \<Rightarrow> int64 \<Rightarrow> int" where
  "balance_in T i = (case account_by_id (accounts T) i of None \<Rightarrow> 0 | Some a \<Rightarrow> acc_Balance a)"

lemma balance_in_eq:
  "\<lbrakk>db_inv T q; a \<in> set (accounts T)\<rbrakk> \<Longrightarrow> balance_in T (acc_ID a) = acc_Balance a"
  by (simp add: balance_in_def account_by_id_eq db_inv_def ledger_inv_def accounts_ok_def)

lemma account_by_id_settle:
  "account_by_id (map (settle now es) As) i = map_option (settle now es) (account_by_id As i)"
  by (induction As) (auto simp: account_by_id_def)

lemma balance_in_posted:
  "balance_in (posted_tables env tid eid sq txn c T) i =
     balance_in T i + (case account_by_id (accounts T) i of
        None \<Rightarrow> 0
      | Some a \<Rightarrow> (case List.find (\<lambda>e. ent_AccountID e = i) (txn_Entries txn) of
                     None \<Rightarrow> 0 | Some e \<Rightarrow> entry_delta e (acc_NormalBalance a)))"
  by (auto simp: balance_in_def account_by_id_settle settle_Balance split: option.split
      dest: account_by_id_SomeD)

lemma normal_side:
  assumes "db_inv T q" "a \<in> set (accounts T)"
  shows "acc_NormalBalance a = (if acc_Type a = AccountSystemCash then DirectionDebit else DirectionCredit)"
proof -
  have "accounts_check a = None"
    using assms by (simp add: db_inv_def ledger_inv_def accounts_ok_def)
  then show ?thesis by (auto simp: accounts_check_def check_normal_balance_def split: if_splits)
qed

section \<open>Startup\<close>

definition fee_shards :: "tables \<Rightarrow> int64 list \<Rightarrow> bool" where
  "fee_shards T fees \<longleftrightarrow>
     fees \<noteq> [] \<and> (\<forall>i \<in> set fees. \<exists>a \<in> set (accounts T). acc_ID a = i
                     \<and> acc_Type a = AccountSystemFeeRevenue)"

definition cash_account :: "tables \<Rightarrow> int64 \<Rightarrow> bool" where
  "cash_account T i \<longleftrightarrow> (\<exists>a \<in> set (accounts T). acc_ID a = i \<and> acc_Type a = AccountSystemCash)"

lemma pickFeeShard_in:
  "\<lbrakk>L_feeIDs L \<noteq> []; \<And>n. 0 < n \<Longrightarrow> intN n < n\<rbrakk> \<Longrightarrow> pickFeeShard intN L \<in> set (L_feeIDs L)"
  by (auto simp: pickFeeShard_def)


lemma money_op_Inr:
  assumes "bindP (liftR (amountWithin sen lo hi)) (\<lambda>amount.
         bindP (AccountRepo_GetWalletByUserID env u) (\<lambda>wallet.
         markViewer (postIdempotent (pg_ledger env cfg cash fees) c (build amount wallet)) (acc_ID wallet))) w
       = (Inr p, w')"
  shows "\<exists>a w1 q. amountWithin sen lo hi = Inr sen \<and> 0 < sen \<and> lo \<le> sen \<and> sen \<le> hi \<and> in_int64 sen
    \<and> a \<in> set (accounts (tabs w)) \<and> acc_UserID a = Some u \<and> acc_Type a = AccountUserWallet
    \<and> tabs w1 = tabs w \<and> seqs w1 = seqs w
    \<and> postIdempotent (pg_ledger env cfg cash fees) c (build sen a) w1 = (Inr q, w')
    \<and> p = q\<lparr>pr_ViewerAccountID := Some (acc_ID a)\<rparr>"
proof -
  from assms obtain m w0 a w1 where A: "liftR (amountWithin sen lo hi) w = (Inr m, w0)"
    "AccountRepo_GetWalletByUserID env u w0 = (Inr a, w1)"
    and M: "markViewer (postIdempotent (pg_ledger env cfg cash fees) c (build m a)) (acc_ID a) w1 = (Inr p, w')"
    unfolding bindP_Inr_iff by blast
  from A have m: "amountWithin sen lo hi = Inr m" and G: "AccountRepo_GetWalletByUserID env u w = (Inr a, w1)"
    by (simp_all add: liftR_iff)
  from M obtain q where P: "postIdempotent (pg_ledger env cfg cash fees) c (build m a) w1 = (Inr q, w')"
      "p = q\<lparr>pr_ViewerAccountID := Some (acc_ID a)\<rparr>"
    unfolding markViewer_def bindP_Inr_iff by auto
  from amountWithin_Inr [OF m] have "m = sen" "0 < sen" "lo \<le> sen" "sen \<le> hi" "in_int64 sen" by auto
  with m GetWallet_Inr [OF G] P show ?thesis by blast
qed

definition transfer_delta :: "int64 \<Rightarrow> int64 \<Rightarrow> int64 \<Rightarrow> money \<Rightarrow> money \<Rightarrow> int64 \<Rightarrow> int" where
  "transfer_delta from to shard amount fee i =
     (if i = from then - (amount + fee) else if i = to then amount else if i = shard then fee else 0)"

lemma posted_transfer_balances:
  assumes I: "db_inv T q" and ab: "a \<in> set (accounts T)" "b \<in> set (accounts T)"
      "acc_Type a = AccountUserWallet" "acc_Type b = AccountUserWallet"
    and shard: "s \<in> set (accounts T)" "acc_Type s = AccountSystemFeeRevenue"
    and m: "in_int64 m" "in_int64 fee"
    and N: "NewTransfer (acc_ID a) (acc_ID b) (acc_ID s) m fee u d = Inr txn"
    and acc: "post_accepts env tid eid txn c T"
  shows "balance_in (posted_tables env tid eid sq txn c T) i =
      balance_in T i + transfer_delta (acc_ID a) (acc_ID b) (acc_ID s) m fee i"
    and "m + fee \<le> balance_in T (acc_ID a)"
proof -
  note es = N [unfolded NewTransfer_Inr_iff [OF m]]
  have nb: "acc_NormalBalance x = DirectionCredit" if "x \<in> {a, b, s}" for x
    using that normal_side [OF I] ab shard by auto
  have dist: "distinct (map ent_AccountID (txn_Entries txn))"
    using acc by (simp add: post_accepts_def valid_transaction_def well_formed_entries_def)
  have by_id: "account_by_id (accounts T) (acc_ID x) = Some x" if "x \<in> set (accounts T)" for x
    using account_by_id_eq that I by (simp add: db_inv_def ledger_inv_def accounts_ok_def)
  note ids = by_id [OF ab(1)] by_id [OF ab(2)] by_id [OF shard(1)]
  show "balance_in (posted_tables env tid eid sq txn c T) i =
      balance_in T i + transfer_delta (acc_ID a) (acc_ID b) (acc_ID s) m fee i"
  proof -
    consider "i = acc_ID a" | "i = acc_ID b" "i \<noteq> acc_ID a" | "i = acc_ID s" "i \<noteq> acc_ID a" "i \<noteq> acc_ID b"
      | "i \<noteq> acc_ID a" "i \<noteq> acc_ID b" "i \<noteq> acc_ID s" by blast
    then show ?thesis
    proof cases
      case 1
      with es ids nb show ?thesis
        by (simp add: balance_in_posted transfer_delta_def entry_delta_def)
    next
      case 2
      with es ids nb show ?thesis
        by (simp add: balance_in_posted transfer_delta_def entry_delta_def)
    next
      case 3
      with es ids nb show ?thesis
        by (simp add: balance_in_posted transfer_delta_def entry_delta_def)
    next
      case 4
      with es show ?thesis
        by (simp add: balance_in_posted transfer_delta_def split: option.split)
    qed
  qed
  have "\<lparr> ent_AccountID = acc_ID a, ent_Direction = DirectionDebit, ent_Amount = m + fee \<rparr>
      \<in> set (txn_Entries txn)" using es by simp
  with acc obtain x where "x \<in> set (accounts T)" "acc_ID x = acc_ID a"
    "acc_Type x = AccountUserWallet \<longrightarrow> 0 \<le> acc_Balance x + entry_delta
       \<lparr> ent_AccountID = acc_ID a, ent_Direction = DirectionDebit, ent_Amount = m + fee \<rparr>
       (acc_NormalBalance x)"
    by (fastforce simp: post_accepts_def entry_accepts_def)
  moreover from this have "x = a" using by_id ids(1) by fastforce
  ultimately show "m + fee \<le> balance_in T (acc_ID a)"
    using ab nb ids(1) by (simp add: balance_in_def entry_delta_def)
qed

section \<open>When an operation succeeds\<close>

text \<open>\<open>gen_random_uuid()\<close> does not repeat an id that is in use.\<close>

definition fresh_uuids :: "env \<Rightarrow> tables \<Rightarrow> bool" where
  "fresh_uuids env T \<longleftrightarrow>
     (\<forall>k. env_uuid env k \<notin> tr_id ` set (transactions T) \<and> env_uuid env k \<notin> ob_event_id ` set (outbox_events T))"

lemma replay_fresh:
  assumes "no_faults env" "claim_free (tabs w) c"
  shows "\<exists>w1. replay (pg_ledger env cfg cash fees) c w = (None, w1)"
proof -
  have "List.find (\<lambda>r. ik_user_id r = clm_UserID c \<and> ik_key r = clm_Key c) (idempotency_keys (tabs w)) = None"
    using assms(2) by (auto simp: claim_free_def find_None_iff)
  then show ?thesis
    using assms(1) by (auto simp: replay_def IdempotencyRepo_Find_def bindP_def wrapP_def sql_select_key_def translate_def)
qed

lemma postIdempotent_live:
  assumes nf: "no_faults env" and I: "db_inv (tabs w) (seqs w)" and B: "typed_build build"
    and key: "clm_Key c \<noteq> ''''" "length (clm_Key c) \<le> 128" "claim_free (tabs w) c"
    and build: "\<And>w1. \<lbrakk>tabs w1 = tabs w; seqs w1 = seqs w\<rbrakk> \<Longrightarrow> \<exists>w2. build w1 = (Inr txn, w2)"
    and acc: "\<And>k l. post_accepts env (env_uuid env k) (env_uuid env l) txn c (tabs w)"
    and room: "seq_entries (seqs w) + int (length (txn_Entries txn)) \<le> int64_max"
      "seq_outbox (seqs w) < int64_max"
  shows "\<exists>p w'. postIdempotent (pg_ledger env cfg cash fees) c build w = (Inr p, w')"
proof -
  let ?L = "pg_ledger env cfg cash fees"
  obtain w1 where R: "replay ?L c w = (None, w1)" using replay_fresh [OF nf key(3)] by blast
  note t1 = replay_step(2,3) [OF R]
  obtain w2 where b: "build w1 = (Inr txn, w2)" using build t1 by blast
  have t2: "tabs w2 = tabs w" "seqs w2 = seqs w"
    using B readsD [of build, OF _ b] t1 by (simp_all add: typed_build_def)
  have typed: "amounts_in_range txn" using B I b t1 unfolding typed_build_def by metis
  have "Transaction_Validate txn = None"
    using acc typed by (simp add: post_accepts_def Validate_None_iff)
  moreover obtain p w' where "LedgerRepo_Post env txn c w2 = (Inr p, w')"
    using LedgerRepo_Post_complete [OF nf, of w2 txn c] I acc typed room t2
    by (auto simp: db_inv_def)
  ultimately show ?thesis
    using R b key by (simp add: postIdempotent_def bindP_def post_or_replay_def)
qed

text \<open>What a transfer needs: both wallets and all fee accounts usable, and enough money.\<close>

definition usable :: "account \<Rightarrow> int \<Rightarrow> bool" where
  "usable a d \<longleftrightarrow>
     acc_Status a = AccountActive \<and> acc_Balance a + d \<le> int64_max \<and> acc_Version a < int64_max
     \<and> int64_min \<le> acc_Version a"

definition request_ready :: "tables \<Rightarrow> sequences \<Rightarrow> idempotency_claim \<Rightarrow> string \<Rightarrow> bool" where
  "request_ready T q c desc \<longleftrightarrow>
     1 \<le> char_length (clm_Key c) \<and> length (clm_Key c) \<le> 128 \<and> claim_free T c
     \<and> clm_UserID c \<in> usr_ID ` set (users T) \<and> length desc \<le> 255
     \<and> seq_entries q + 3 \<le> int64_max \<and> seq_outbox q < int64_max"

definition transfer_ready ::
    "tables \<Rightarrow> sequences \<Rightarrow> ledger_config \<Rightarrow> int64 list \<Rightarrow> transfer_request \<Rightarrow> account \<Rightarrow> account \<Rightarrow> bool" where
  "transfer_ready T q cfg fees req a b \<longleftrightarrow>
     request_ready T q (MoneyRequest_claim req ''transfer'') (mr_Description req)
     \<and> a \<in> set (accounts T) \<and> acc_UserID a = Some (act_UserID (mr_Actor req))
     \<and> acc_Type a = AccountUserWallet \<and> usable a 0
     \<and> b \<in> set (accounts T) \<and> acc_PublicID b = mr_ToAccountPublicID req
     \<and> acc_Type b = AccountUserWallet \<and> usable b (mr_AmountSen req) \<and> acc_ID a \<noteq> acc_ID b
     \<and> (\<forall>s \<in> set (accounts T). acc_ID s \<in> set fees \<longrightarrow> usable s (cfg_TransferFee cfg))
     \<and> cfg_MinTransfer cfg \<le> mr_AmountSen req \<and> mr_AmountSen req \<le> cfg_MaxTransfer cfg
     \<and> mr_AmountSen req \<le> maxSafeAmount
     \<and> mr_AmountSen req + cfg_TransferFee cfg \<le> acc_Balance a"

lemma char_length_le: "char_length s \<le> length s"
  by (simp add: char_length_def)

lemma key_nonempty: "1 \<le> char_length s \<Longrightarrow> s \<noteq> ''''"
  by (auto simp: char_length_def)

lemma transactions_check_header:
  "\<lbrakk>txn_Type txn \<in> set enum_txn_type; txn_Type txn = TxnReversal \<longleftrightarrow> txn_ReversesID txn \<noteq> None;
    length (txn_Description txn) \<le> 255\<rbrakk> \<Longrightarrow> transactions_check (header_row env tid txn) = None"
  using char_length_le [of "txn_Description txn"]
  by (auto simp: transactions_check_def header_row_def new_txn_row_def)

lemma entry_acceptsI:
  assumes "a \<in> set As" "acc_ID a = ent_AccountID e" "in_int64 (acc_Balance a)"
    and "usable a (entry_delta e (acc_NormalBalance a))"
    and "acc_Type a = AccountUserWallet \<Longrightarrow> 0 \<le> acc_Balance a + entry_delta e (acc_NormalBalance a)"
    and "int64_min \<le> acc_Balance a + entry_delta e (acc_NormalBalance a)"
  shows "entry_accepts As e"
  using assms unfolding entry_accepts_def usable_def in_int64_def by (intro bexI [of _ a]) auto

lemma wallet_unique:
  assumes "db_inv T q" "a \<in> set (accounts T)" "b \<in> set (accounts T)"
    "acc_Type a = AccountUserWallet" "acc_Type b = AccountUserWallet" "acc_UserID a = acc_UserID b"
  shows "a = b"
proof -
  have "\<forall>x \<in> set (accounts T). \<forall>y \<in> set (accounts T). acc_Type x = AccountUserWallet \<longrightarrow>
      acc_Type y = AccountUserWallet \<longrightarrow> acc_UserID x = acc_UserID y \<longrightarrow> acc_ID x = acc_ID y"
    using assms(1) unfolding db_inv_def accounts_inv_def by blast
  with assms(2-) have "acc_ID a = acc_ID b" by blast
  with assms(1-3) show ?thesis
    using distinct_key_eq [of acc_ID "accounts T"] by (simp add: db_inv_def ledger_inv_def accounts_ok_def)
qed

lemma account_id_unique:
  assumes "db_inv T q" "a \<in> set (accounts T)" "b \<in> set (accounts T)" "acc_ID a = acc_ID b"
  shows "a = b"
  using assms distinct_key_eq [of acc_ID "accounts T"]
  by (simp add: db_inv_def ledger_inv_def accounts_ok_def)

lemma public_id_unique:
  assumes "db_inv T q" "a \<in> set (accounts T)" "b \<in> set (accounts T)" "acc_PublicID a = acc_PublicID b"
  shows "a = b"
  using assms distinct_key_eq [of acc_PublicID "accounts T"] by (simp add: db_inv_def accounts_inv_def)

lemma fee_account:
  assumes "db_inv T q" "fee_shards T fees" "i \<in> set fees"
  obtains s where "s \<in> set (accounts T)" "acc_ID s = i" "acc_Type s = AccountSystemFeeRevenue"
    "acc_NormalBalance s = DirectionCredit"
proof -
  obtain s where s: "s \<in> set (accounts T)" "acc_ID s = i" "acc_Type s = AccountSystemFeeRevenue"
    using assms(2,3) unfolding fee_shards_def by blast
  with normal_side [OF assms(1) s(1)] that show ?thesis by simp
qed

lemma transfer_accepted:
  assumes I: "db_inv T q" and cfg: "config_ok cfg" and fees: "fee_shards T fees" "acc_ID s \<in> set fees"
    and s: "s \<in> set (accounts T)" "acc_Type s = AccountSystemFeeRevenue"
    and ready: "transfer_ready T q cfg fees req a b"
    and fresh: "tid \<notin> tr_id ` set (transactions T)" "eid \<notin> ob_event_id ` set (outbox_events T)"
    and N: "NewTransfer (acc_ID a) (acc_ID b) (acc_ID s) (mr_AmountSen req) (cfg_TransferFee cfg)
              (act_UserID (mr_Actor req)) (mr_Description req) = Inr txn"
  shows "post_accepts env tid eid txn (MoneyRequest_claim req ''transfer'') T"
proof -
  let ?m = "mr_AmountSen req" and ?fee = "cfg_TransferFee cfg"
  note r = ready [unfolded transfer_ready_def request_ready_def]
  have bal: "in_int64 (acc_Balance x)" if "x \<in> set (accounts T)" for x
    using I that by (simp add: db_inv_def ledger_inv_def accounts_ok_def)
  have m: "in_int64 ?m" "0 < ?m" "in_int64 ?fee" "0 \<le> ?fee"
    using r cfg by (auto simp: config_ok_def in_int64_def maxSafeAmount_def Rupiah_def)
  note t = N [unfolded NewTransfer_Inr_iff [OF m(1,3)]]
  have distinct: "acc_ID s \<noteq> acc_ID a" "acc_ID s \<noteq> acc_ID b"
    using account_id_unique [OF I s(1), of a] account_id_unique [OF I s(1), of b] s(2) r
    by (auto simp: AccountUserWallet_def AccountSystemFeeRevenue_def)
  have nb: "acc_NormalBalance x = DirectionCredit" if "x \<in> {a, b, s}" for x
    using that normal_side [OF I] r s by auto
  have "Transaction_Validate txn = None" "amounts_in_range txn"
    using NewTransfer_valid [OF N m(1,2,3)] distinct r by auto
  then have valid: "valid_transaction txn" by (simp add: Validate_None_iff)
  have ea: "entry_accepts (accounts T) \<lparr> ent_AccountID = acc_ID a, ent_Direction = DirectionDebit, ent_Amount = ?m + ?fee \<rparr>"
    using r m nb bal [of a] by (intro entry_acceptsI [of a]) (auto simp: entry_delta_def usable_def in_int64_def)
  have eb: "entry_accepts (accounts T) \<lparr> ent_AccountID = acc_ID b, ent_Direction = DirectionCredit, ent_Amount = ?m \<rparr>"
  proof -
    have "0 \<le> acc_Balance b"
      using I r by (auto simp: db_inv_def ledger_inv_def accounts_ok_def accounts_check_def
          check_wallet_non_negative_def split: if_splits)
    with r m nb bal [of b] show ?thesis
      by (intro entry_acceptsI [of b]) (auto simp: entry_delta_def usable_def in_int64_def)
  qed
  have es: "entry_accepts (accounts T) \<lparr> ent_AccountID = acc_ID s, ent_Direction = DirectionCredit, ent_Amount = ?fee \<rparr>"
    using r m nb bal [of s] s fees(2)
    by (intro entry_acceptsI [of s]) (auto simp: entry_delta_def in_int64_def AccountSystemFeeRevenue_def AccountUserWallet_def)
  have "\<forall>e \<in> set (txn_Entries txn). entry_accepts (accounts T) e"
    using t ea eb es by auto
  moreover have "transactions_check (header_row env tid txn) = None"
    using t r by (intro transactions_check_header) (auto simp: enum_txn_type_def txn_type_defs)
  ultimately show ?thesis
    using valid t r fresh char_length_le [of "mr_IdempotencyKey req"]
    by (auto simp: post_accepts_def reversal_accepts_def MoneyRequest_claim_def)
qed

lemma build_transfer_found:
  assumes nf: "no_faults env" and I: "db_inv (tabs w) (seqs w)"
    and b: "b \<in> set (accounts (tabs w))" "acc_PublicID b = mr_ToAccountPublicID req" "acc_Type b = AccountUserWallet"
    and t: "tabs w1 = tabs w"
  shows "\<exists>w2. build_transfer intN (pg_ledger env cfg cash fees) req m a w1
    = (NewTransfer (acc_ID a) (acc_ID b) (pickFeeShard intN (pg_ledger env cfg cash fees)) m
         (cfg_TransferFee cfg) (act_UserID (mr_Actor req)) (mr_Description req), w2)"
proof -
  have "List.find (\<lambda>a. acc_PublicID a = mr_ToAccountPublicID req) (accounts (tabs w1)) \<noteq> None"
    using b t by (auto simp: find_None_iff)
  then obtain y w2 where Y: "AccountRepo_GetByPublicID env (mr_ToAccountPublicID req) w1 = (Inr y, w2)"
    using nf by (auto simp: AccountRepo_GetByPublicID_def scanAccount_def wrapP_def sql_select_account_def)
  then have "y = b" using GetByPublicID_Inr [OF Y] b t public_id_unique [OF I] by auto
  with Y b show ?thesis by (simp add: build_transfer_def bindP_def liftR_def split: sum.split)
qed

lemma Ledger_Transfer_live:
  assumes nf: "no_faults env" and I: "db_inv (tabs w) (seqs w)" and cfg: "config_ok cfg"
    and fees: "fee_shards (tabs w) fees" and intN: "\<And>n. 0 < n \<Longrightarrow> intN n < n"
    and ready: "transfer_ready (tabs w) (seqs w) cfg fees req a b" and fresh: "fresh_uuids env (tabs w)"
  shows "\<exists>p w'. Ledger_Transfer intN (pg_ledger env cfg cash fees) req w = (Inr p, w')"
proof -
  let ?T = "tabs w" and ?m = "mr_AmountSen req" and ?fee = "cfg_TransferFee cfg"
  let ?c = "MoneyRequest_claim req ''transfer''" and ?L = "pg_ledger env cfg cash fees"
  note r = ready [unfolded transfer_ready_def request_ready_def]
  have m: "in_int64 ?m" "0 < ?m" "in_int64 ?fee" "0 \<le> ?fee"
    using r cfg by (auto simp: config_ok_def in_int64_def maxSafeAmount_def Rupiah_def)
  have within: "amountWithin ?m (cfg_MinTransfer cfg) (cfg_MaxTransfer cfg) = Inr ?m"
    using r m(2) by (auto simp: amountWithin_def NewMoney_def)
  obtain x w1 where G: "AccountRepo_GetWalletByUserID env (act_UserID (mr_Actor req)) w = (Inr x, w1)"
    using GetWallet_live [OF nf, of a w] r by blast
  have x: "x = a" using GetWallet_Inr [OF G] r wallet_unique [OF I] by auto
  have w1: "tabs w1 = ?T" "seqs w1 = seqs w" using GetWallet_Inr [OF G] by auto
  have "pickFeeShard intN ?L \<in> set fees"
    using pickFeeShard_in [of ?L intN] fees intN by (simp add: fee_shards_def)
  with fee_account [OF I fees] obtain s where s: "s \<in> set (accounts ?T)" "acc_ID s = pickFeeShard intN ?L"
    "acc_Type s = AccountSystemFeeRevenue" "acc_ID s \<in> set fees" by metis
  have "in_int64 (?m + ?fee)"
  proof -
    have "in_int64 (acc_Balance a)" using I r by (simp add: db_inv_def ledger_inv_def accounts_ok_def)
    with r m show ?thesis by (auto simp: in_int64_def)
  qed
  then obtain txn where N: "NewTransfer (acc_ID a) (acc_ID b) (acc_ID s) ?m ?fee
      (act_UserID (mr_Actor req)) (mr_Description req) = Inr txn"
    using r m unfolding NewTransfer_Inr_iff [OF m(1,3)] by blast
  have build: "\<exists>w3. build_transfer intN ?L req ?m a w2 = (Inr txn, w3)" if w2: "tabs w2 = tabs w1" for w2
    using build_transfer_found [OF nf I, of b req w2 intN cfg cash fees ?m a] r N s(2) w1(1) w2 by metis
  have acc: "post_accepts env (env_uuid env k) (env_uuid env l) txn ?c (tabs w1)" for k l
    using transfer_accepted [OF I cfg fees s(4,1,3) ready _ _ N] fresh w1 by (simp add: fresh_uuids_def)
  have "length (txn_Entries txn) \<le> 3" using N unfolding NewTransfer_Inr_iff [OF m(1,3)] by auto
  then have room: "seq_entries (seqs w1) + int (length (txn_Entries txn)) \<le> int64_max"
    "seq_outbox (seqs w1) < int64_max" using r w1 by auto
  have "clm_Key ?c \<noteq> ''''" using r key_nonempty [of "clm_Key ?c"] by blast
  then obtain q w' where P: "postIdempotent ?L ?c (build_transfer intN ?L req ?m a) w1 = (Inr q, w')"
    using postIdempotent_live [OF nf _ build_transfer_typed [OF m(1,3)] _ _ _ _ acc room] I w1 r build
    by metis
  then show ?thesis
    using within G x by (simp add: Ledger_Transfer_def bindP_def liftR_def markViewer_def)
qed

end
