(* ===== verification/Operations.thy ===== *)
theory Operations
  imports UseCases
begin

text \<open>
  The guarantees of the service's operations on PostgreSQL. The \<open>demo\<close> database continues the
  one of theory Guarantees: two registered users, the first one's wallet funded by a topup.
\<close>

section \<open>Two users, one of them with money\<close>

definition demo_user2 :: user where
  "demo_user2 = demo_user\<lparr>usr_Email := ''b@c.id'', usr_FullName := ''Budi''\<rparr>"

definition demo_two :: pg where
  "demo_two =
     \<lparr> tabs = (tabs demo_registered)\<lparr>
         users := users (tabs demo_registered) @ [new_user_row demo_env 2 105 demo_user2],
         accounts := accounts (tabs demo_registered) @ [new_wallet_row demo_env 12 106 2]\<rparr>,
       seqs = migrated_seqs\<lparr>seq_users := 2, seq_accounts := 12\<rparr>, steps = 8 \<rparr>"

definition demo_cfg :: ledger_config where
  "demo_cfg = \<lparr> cfg_TransferFee = 100, cfg_MinTransfer = 1000, cfg_MaxTransfer = 100000 \<rparr>"

definition demo_actor :: "int64 \<Rightarrow> role \<Rightarrow> actor" where
  "demo_actor u role = \<lparr> act_UserID = u, act_Role = role \<rparr>"

definition demo_transfer :: transfer_request where
  "demo_transfer = \<lparr> mr_Actor = demo_actor 1 ''USER'', mr_IdempotencyKey = ''k2'', mr_RequestHash = ''h2'',
     mr_AmountSen = 3000, mr_Description = ''bayar'', mr_ToAccountPublicID = 106 \<rparr>"

definition demo_env2 :: "uuid \<Rightarrow> env" where
  "demo_env2 x = demo_env\<lparr>env_uuid := (\<lambda>k. x)\<rparr>"

lemma demo_cfg_ok: "config_ok demo_cfg"
  by (simp add: config_ok_def demo_cfg_def in_int64_def)

lemma demo_register2:
  "UserRepo_CreateWithWallet demo_env demo_user2 demo_registered
     = (Inr (new_user_row demo_env 2 105 demo_user2, new_wallet_row demo_env 12 106 2), demo_two)"
  by (simp add: UserRepo_CreateWithWallet_def in_tx_def bindP_def wrapP_def scanUser_def
      scanAccount_def sql_insert_user_def sql_insert_wallet_def commit_def Let_def demo_two_def
      demo_registered_def migrated_tables_def migrated_seqs_def users_check_def new_user_row_def
      demo_user_def demo_user2_def new_wallet_row_def demo_env_def char_length_def accounts_check_def
      check_normal_balance_def check_owner_def check_wallet_non_negative_def account_type_defs
      DirectionDebit_def DirectionCredit_def system_row_def no_faults_def)

lemma demo_two_reachable: "reachable demo_two"
  by (rule reachable.step [OF demo_registered_reachable]) (rule db_step.register [OF demo_register2])

lemma demo_two_accepts:
  "post_accepts demo_env (env_uuid demo_env (post_txn_stmt demo_two demo_topup))
     (env_uuid demo_env (post_event_stmt demo_two demo_topup)) demo_topup demo_claim (tabs demo_two)"
  by (simp add: post_accepts_def valid_transaction_def demo_topup_def NewTopup_def demo_claim_def
      well_formed_entries_def char_length_def claim_free_def demo_two_def demo_registered_def
      migrated_tables_def entry_accepts_def entry_delta_def system_row_def new_wallet_row_def
      new_user_row_def reversal_accepts_def transactions_check_def header_row_def new_txn_row_def
      enum_txn_type_def txn_type_defs in_int64_def AccountActive_def account_type_defs
      DirectionDebit_def DirectionCredit_def Direction_Valid_def side_total_def)

text \<open>The funded database, by what is known of it.\<close>

definition funded :: "pg \<Rightarrow> bool" where
  "funded w \<longleftrightarrow> reachable w \<and> seqs w = posted_seqs demo_topup (seqs demo_two)
     \<and> (\<exists>tid eid. tabs w =
          posted_tables demo_env tid eid (seqs demo_two) demo_topup demo_claim (tabs demo_two))"

lemma demo_funded: "\<exists>w. funded w"
proof -
  obtain res w where P: "LedgerRepo_Post demo_env demo_topup demo_claim demo_two = (Inr res, w)"
    using LedgerRepo_Post_complete [OF demo_no_faults _ demo_typed demo_two_accepts]
      reachable_inv [OF demo_two_reachable]
    by (auto simp: db_inv_def demo_two_def demo_topup_def NewTopup_def migrated_seqs_def)
  have "distinct (map acc_ID (accounts (tabs demo_two)))"
    using reachable_inv [OF demo_two_reachable] by (simp add: db_inv_def ledger_inv_def accounts_ok_def)
  from LedgerRepo_Post_sound [OF P this demo_typed] obtain tid eid where
    "tabs w = posted_tables demo_env tid eid (seqs demo_two) demo_topup demo_claim (tabs demo_two)"
    "seqs w = posted_seqs demo_topup (seqs demo_two)" by metis
  moreover have "reachable w"
    by (rule reachable.step [OF demo_two_reachable db_step.post [OF P demo_typed]])
  ultimately show ?thesis unfolding funded_def by blast
qed

lemma fresh_word: "\<exists>x::uuid. x \<noteq> a \<and> x \<noteq> b"
proof -
  have "(0::uuid) \<noteq> 1" "(0::uuid) \<noteq> 2" "(1::uuid) \<noteq> 2" by simp_all
  then have "0 \<notin> {a, b} \<or> 1 \<notin> {a, b} \<or> 2 \<notin> {a, b}" by auto
  then show ?thesis by blast
qed

lemma funded_fresh:
  assumes "funded w"
  shows "\<exists>x. fresh_uuids (demo_env2 x) (tabs w)"
proof -
  obtain tid eid where T: "tabs w =
      posted_tables demo_env tid eid (seqs demo_two) demo_topup demo_claim (tabs demo_two)"
    using assms by (auto simp: funded_def)
  obtain x where "x \<noteq> tid" "x \<noteq> eid" using fresh_word by blast
  then have "fresh_uuids (demo_env2 x) (tabs w)"
    by (simp add: fresh_uuids_def demo_env2_def T posted_tables_def Let_def demo_two_def
        demo_registered_def migrated_tables_def mark_original_def demo_topup_def NewTopup_def
        header_row_def new_txn_row_def new_outbox_row_def)
  then show ?thesis by blast
qed

text \<open>The wallets of the funded database.\<close>

lemma funded_accounts:
  assumes "funded w"
  shows "accounts (tabs w) = map (settle 1000 (txn_Entries demo_topup)) (accounts (tabs demo_two))"
  using assms by (auto simp: funded_def demo_env_def)

definition demo_wallet1 :: account where
  "demo_wallet1 = settle 1000 (txn_Entries demo_topup) (new_wallet_row demo_env 11 102 1)"

definition demo_wallet2 :: account where
  "demo_wallet2 = new_wallet_row demo_env 12 106 2"

lemma funded_fees: "funded w \<Longrightarrow> fee_shards (tabs w) [2, 4]"
  by (simp add: fee_shards_def funded_accounts demo_two_def demo_registered_def migrated_tables_def
      system_row_def settle_def demo_topup_def NewTopup_def account_type_defs)

lemma funded_ready:
  assumes "funded w"
  shows "transfer_ready (tabs w) (seqs w) demo_cfg [2, 4] demo_transfer demo_wallet1 demo_wallet2"
proof -
  obtain tid eid where T: "tabs w =
      posted_tables demo_env tid eid (seqs demo_two) demo_topup demo_claim (tabs demo_two)"
    using assms by (auto simp: funded_def)
  have q: "seqs w = posted_seqs demo_topup (seqs demo_two)" using assms by (simp add: funded_def)
  have "request_ready (tabs w) (seqs w) (MoneyRequest_claim demo_transfer ''transfer'') (mr_Description demo_transfer)"
    by (simp add: request_ready_def T q posted_tables_def Let_def completed_claim_def new_idem_row_def
        claim_free_def demo_claim_def MoneyRequest_claim_def demo_transfer_def demo_actor_def
        char_length_def demo_two_def demo_registered_def new_user_row_def migrated_seqs_def
        posted_seqs_def demo_topup_def NewTopup_def migrated_tables_def)
  then show ?thesis
    by (simp add: transfer_ready_def funded_accounts [OF assms] demo_two_def demo_registered_def
        migrated_tables_def demo_transfer_def demo_actor_def demo_cfg_def demo_wallet1_def
        demo_wallet2_def settle_def demo_topup_def NewTopup_def new_wallet_row_def system_row_def
        usable_def add_to_balance_def entry_delta_def maxSafeAmount_def Rupiah_def
        account_type_defs AccountActive_def DirectionDebit_def DirectionCredit_def demo_env_def)
qed

lemma demo_env2_no_faults [simp]: "no_faults (demo_env2 x)"
  by (simp add: no_faults_def demo_env2_def demo_env_def)

lemma demo_transferred:
  assumes "funded w"
  shows "\<exists>x p w'. Ledger_Transfer (\<lambda>n. 0) (pg_ledger (demo_env2 x) demo_cfg 1 [2, 4]) demo_transfer w
    = (Inr p, w')"
proof -
  have "db_inv (tabs w) (seqs w)" using assms by (intro reachable_inv) (simp add: funded_def)
  note live = Ledger_Transfer_live [where intN = "\<lambda>n. 0" and cash = 1,
      OF demo_env2_no_faults this demo_cfg_ok funded_fees [OF assms] _ funded_ready [OF assms]]
  obtain x where "fresh_uuids (demo_env2 x) (tabs w)" using funded_fresh [OF assms] by blast
  from live [OF _ this] show ?thesis by blast
qed

section \<open>The use cases keep the system's invariants\<close>

text \<open>
  The use cases of the API never leave the system's state space: from a
  reachable database, any number of calls with any arguments, configuration and faults,
  interleaved with any other steps, leads to a reachable database, in which all the
  invariants of the ledger hold.
\<close>

lemma api_stays_reachable:
  assumes "reachable w" "(\<lambda>x y. api_call x y \<or> db_step x y)\<^sup>*\<^sup>* w w'"
  shows "reachable w' \<and> db_inv (tabs w') (seqs w')"
  using assms(2)
proof (induction rule: rtranclp_induct)
  case base
  with assms(1) reachable_inv show ?case by blast
next
  case (step y z)
  then have y: "reachable y" "db_inv (tabs y) (seqs y)" by blast+
  have "db_step\<^sup>*\<^sup>* y z" using step(2) api_call_steps y(2) by blast
  from reachable_steps [OF this y(1)] reachable_inv show ?case by blast
qed

lemma api_stays_reachable_witness:
  "\<exists>w'. reachable w' \<and> (\<exists>w p x. funded w
     \<and> Ledger_Transfer (\<lambda>n. 0) (pg_ledger (demo_env2 x) demo_cfg 1 [2, 4]) demo_transfer w = (Inr p, w'))"
proof -
  obtain w where w: "funded w" using demo_funded by blast
  then have r: "reachable w" by (simp add: funded_def)
  obtain x p w' where T: "Ledger_Transfer (\<lambda>n. 0) (pg_ledger (demo_env2 x) demo_cfg 1 [2, 4]) demo_transfer w
      = (Inr p, w')" using demo_transferred [OF w] by blast
  have "(\<lambda>x y. api_call x y \<or> db_step x y)\<^sup>*\<^sup>* w w'"
    using api_call.transfer [OF demo_cfg_ok T] by blast
  with api_stays_reachable [OF r] T w show ?thesis by blast
qed

section \<open>What a new answer shows\<close>

text \<open>
  The answer \<open>q\<close> of a posting that took the tables \<open>T\<close> to \<open>T'\<close>: it shows the transaction and the
  entries that were appended, which are those of \<open>txn\<close>, and after each entry the balance its
  account has now.
\<close>

definition posting_answer :: "tables \<Rightarrow> tables \<Rightarrow> transaction \<Rightarrow> post_result \<Rightarrow> bool" where
  "posting_answer T T' txn q \<longleftrightarrow>
     (\<exists>h rows. transactions T' = transactions T @ [h] \<and> entries T' = entries T @ rows
        \<and> tr_txn_type h = txn_Type txn \<and> tr_description h = txn_Description txn
        \<and> tr_initiated_by h = txn_InitiatedBy txn
        \<and> pr_Transaction q = txn\<lparr>txn_ID := tr_id h, txn_CreatedAt := tr_created_at h, txn_Status := tr_status h\<rparr>
        \<and> map (\<lambda>r. (er_account_id r, er_direction r, er_amount r)) rows
          = map (\<lambda>e. (ent_AccountID e, ent_Direction e, ent_Amount e)) (txn_Entries txn)
        \<and> map (\<lambda>e. (pe_ID e, pe_TransactionID e, pe_AccountID e, pe_Direction e, pe_Amount e, pe_BalanceAfter e,
              pe_CreatedAt e)) (pr_Entries q)
          = map (\<lambda>r. (er_id r, tr_id h, er_account_id r, er_direction r, er_amount r, er_balance_after r,
              er_created_at r)) rows)
     \<and> (\<forall>e \<in> set (pr_Entries q). pe_BalanceAfter e = balance_in T' (pe_AccountID e))
     \<and> pr_ViewerAccountID q = None"

lemma posted_rows_shown:
  "map (\<lambda>r. (er_account_id r, er_direction r, er_amount r)) (posted_rows env tid n As es)
     = map (\<lambda>e. (ent_AccountID e, ent_Direction e, ent_Amount e)) es"
  "map (\<lambda>e. (pe_ID e, pe_TransactionID e, pe_AccountID e, pe_Direction e, pe_Amount e, pe_BalanceAfter e,
              pe_CreatedAt e)) (map (posted_entry_of txn As') (posted_rows env tid n As es))
     = map (\<lambda>r. (er_id r, tid, er_account_id r, er_direction r, er_amount r, er_balance_after r,
              er_created_at r)) (posted_rows env tid n As es)"
  by (induction es arbitrary: n) (simp_all add: new_entry_row_def posted_entry_of_def)

lemma balance_after_now:
  assumes "post_accepts env tid eid txn c T" "e \<in> set (txn_Entries txn)"
  shows "balance_after (accounts T) e = balance_in (posted_tables env tid eid sq txn c T) (ent_AccountID e)"
proof -
  have D: "distinct (map ent_AccountID (txn_Entries txn))"
    using assms(1) by (simp add: post_accepts_def valid_transaction_def well_formed_entries_def)
  have "List.find (\<lambda>x. ent_AccountID x = ent_AccountID e) (txn_Entries txn) = Some e"
    using find_by_key [OF D assms(2)] by simp
  moreover obtain a where "a \<in> set (accounts T)" "acc_ID a = ent_AccountID e"
    using assms by (auto simp: post_accepts_def entry_accepts_def)
  then have "account_by_id (accounts T) (ent_AccountID e) \<noteq> None"
    by (auto simp: account_by_id_def find_None_iff)
  ultimately show ?thesis
    unfolding balance_in_posted balance_after_def by (auto simp: balance_in_def)
qed

lemma posted_now_answer:
  assumes "posted_now env w c txn q w'" "txn_ReversesID txn = None"
  shows "posting_answer (tabs w) (tabs w') txn q"
proof -
  obtain tid eid where A: "post_accepts env tid eid txn c (tabs w)"
    and T': "tabs w' = posted_tables env tid eid (seqs w) txn c (tabs w)"
    and q: "q = posted_result env tid (seq_entries (seqs w)) (accounts (tabs w)) txn"
    using assms(1) by (auto simp: posted_now_def)
  let ?rows = "posted_rows env tid (seq_entries (seqs w)) (accounts (tabs w)) (txn_Entries txn)"
  have E: "entries (tabs w') = entries (tabs w) @ ?rows"
    "transactions (tabs w') = transactions (tabs w) @ [header_row env tid txn]"
    using assms(2) by (simp_all add: T' posted_tables_def Let_def mark_original_def)
  have es: "pr_Entries q = map (posted_entry_of txn (accounts (tabs w))) ?rows"
    by (simp add: q posted_result_def)
  have "pe_BalanceAfter x = balance_in (tabs w') (pe_AccountID x)" if x: "x \<in> set (pr_Entries q)" for x
  proof -
    obtain r where r: "r \<in> set ?rows" "x = posted_entry_of txn (accounts (tabs w)) r"
      using x unfolding es set_map by (elim imageE)
    from posted_rowsD [OF r(1)] obtain e where "e \<in> set (txn_Entries txn)" "er_account_id r = ent_AccountID e"
      "er_balance_after r = balance_after (accounts (tabs w)) e" by blast
    with balance_after_now [OF A] r(2) show ?thesis by (simp add: posted_entry_of_def T')
  qed
  moreover have "pr_ViewerAccountID q = None" by (simp add: q posted_result_def)
  moreover have "pr_Transaction q
      = txn\<lparr>txn_ID := tid, txn_CreatedAt := env_now env, txn_Status := TxnPosted\<rparr>" by (simp add: q posted_result_def)
  moreover have "tr_id (header_row env tid txn) = tid" "tr_txn_type (header_row env tid txn) = txn_Type txn"
    "tr_description (header_row env tid txn) = txn_Description txn" "tr_initiated_by (header_row env tid txn) = txn_InitiatedBy txn"
    "tr_created_at (header_row env tid txn) = env_now env" "tr_status (header_row env tid txn) = TxnPosted"
    by (simp_all add: header_row_def new_txn_row_def)
  ultimately show ?thesis
    unfolding posting_answer_def
    by (intro conjI ballI exI [of _ "header_row env tid txn"] exI [of _ ?rows] E)
      (simp_all only: es posted_rows_shown)
qed

lemma typed_build_builds: "typed_build build \<Longrightarrow> pg_idem.builds build"
  unfolding pg_idem.builds_def typed_build_def pg_sound_def
  by (metis (no_types, lifting) readsD db_step.read r_into_rtranclp)

section \<open>Transfers\<close>

text \<open>
  C11 functional. A transfer that succeeds answers with the result recorded under its user, key
  and request hash, marked with the caller's wallet. Either this result was recorded before and
  no table changes, or it shows exactly what the transfer has appended: its transaction, its
  entries and the balances after them. Then the amount is moved exactly: the sender's wallet,
  which covers it, loses amount plus fee, the recipient's wallet gains the amount, one fee
  account gains the fee, and no other balance changes. The amount lies within the configured
  limits and sender and recipient differ.
\<close>

theorem transfer_moves_money:
  assumes "reachable w" "config_ok cfg" "fee_shards (tabs w) fees" "\<And>n. 0 < n \<Longrightarrow> intN n < n"
    and "Ledger_Transfer intN (pg_ledger env cfg cash fees) req w = (Inr p, w')"
  shows "cfg_MinTransfer cfg \<le> mr_AmountSen req \<and> mr_AmountSen req \<le> cfg_MaxTransfer cfg
    \<and> (\<exists>q. \<exists>a \<in> set (accounts (tabs w)).
         acc_UserID a = Some (act_UserID (mr_Actor req)) \<and> acc_Type a = AccountUserWallet
         \<and> p = q\<lparr>pr_ViewerAccountID := Some (acc_ID a)\<rparr>
         \<and> pg_answer (tabs w') (act_UserID (mr_Actor req)) (mr_IdempotencyKey req) = Some (mr_RequestHash req, q)
         \<and> (replayed w (MoneyRequest_claim req ''transfer'') q w'
            \<or> (\<exists>b \<in> set (accounts (tabs w)). \<exists>s \<in> set fees. \<exists>txn.
                 acc_PublicID b = mr_ToAccountPublicID req \<and> acc_Type b = AccountUserWallet \<and> a \<noteq> b
                 \<and> NewTransfer (acc_ID a) (acc_ID b) s (mr_AmountSen req) (cfg_TransferFee cfg)
                     (act_UserID (mr_Actor req)) (mr_Description req) = Inr txn
                 \<and> posting_answer (tabs w) (tabs w') txn q
                 \<and> mr_AmountSen req + cfg_TransferFee cfg \<le> balance_in (tabs w) (acc_ID a)
                 \<and> (\<forall>i. balance_in (tabs w') i = balance_in (tabs w) i
                       + transfer_delta (acc_ID a) (acc_ID b) s (mr_AmountSen req) (cfg_TransferFee cfg) i))))"
proof -
  let ?T = "tabs w" and ?m = "mr_AmountSen req" and ?fee = "cfg_TransferFee cfg"
  let ?c = "MoneyRequest_claim req ''transfer''" and ?L = "pg_ledger env cfg cash fees"
  have I: "db_inv ?T (seqs w)" by (rule reachable_inv [OF assms(1)])
  have fee: "in_int64 ?fee" using assms(2) by (simp add: config_ok_def)
  obtain a w1 q where R: "0 < ?m" "cfg_MinTransfer cfg \<le> ?m" "?m \<le> cfg_MaxTransfer cfg" "in_int64 ?m"
    and a: "a \<in> set (accounts ?T)" "acc_UserID a = Some (act_UserID (mr_Actor req))"
      "acc_Type a = AccountUserWallet"
    and w1: "tabs w1 = ?T" "seqs w1 = seqs w"
    and P: "postIdempotent ?L ?c (build_transfer intN ?L req ?m a) w1 = (Inr q, w')"
    and p: "p = q\<lparr>pr_ViewerAccountID := Some (acc_ID a)\<rparr>"
    using money_op_Inr [OF assms(5) [unfolded Ledger_Transfer_def pg_ledger_simps]] by blast
  note typed = build_transfer_typed [OF R(4) fee]
  have "pg_sound w1" using I w1 by (simp add: pg_sound_def)
  from pg_idem.returned_is_recorded [OF pg_ledger_uses this typed_build_builds [OF typed] P]
  have rec: "pg_answer (tabs w') (act_UserID (mr_Actor req)) (mr_IdempotencyKey req) = Some (mr_RequestHash req, q)"
    by (simp add: MoneyRequest_claim_def)
  from postIdempotent_cases [OF typed _ P] I w1
  consider "replayed w1 ?c q w'" | w2 w3 txn where
    "build_transfer intN ?L req ?m a w2 = (Inr txn, w3)" "tabs w2 = ?T" "posted_now env w1 ?c txn q w'"
    by metis
  then show ?thesis
  proof cases
    case 1
    with w1 have "replayed w ?c q w'" by (simp add: replayed_def)
    with R a p rec show ?thesis by blast
  next
    case 2
    obtain b where b: "b \<in> set (accounts ?T)" "acc_PublicID b = mr_ToAccountPublicID req"
      "acc_Type b = AccountUserWallet"
      and N: "NewTransfer (acc_ID a) (acc_ID b) (pickFeeShard intN ?L) ?m ?fee
        (act_UserID (mr_Actor req)) (mr_Description req) = Inr txn"
      using 2(1,2) GetByPublicID_Inr
      by (fastforce simp: build_transfer_def bindP_Inr_iff liftR_iff split: if_splits)
    have "pickFeeShard intN ?L \<in> set fees"
      using pickFeeShard_in [of ?L intN] assms(3,4) by (simp add: fee_shards_def)
    with assms(3) obtain s where s: "s \<in> set (accounts ?T)" "acc_Type s = AccountSystemFeeRevenue"
      "acc_ID s = pickFeeShard intN ?L" "acc_ID s \<in> set fees"
      unfolding fee_shards_def by metis
    obtain tid eid where post: "post_accepts env tid eid txn ?c ?T"
      "tabs w' = posted_tables env tid eid (seqs w1) txn ?c ?T"
      using 2(3) w1 by (auto simp: posted_now_def)
    note B = posted_transfer_balances [OF I a(1) b(1) a(3) b(3) s(1,2) R(4) fee
        N [folded s(3)] post(1)]
    have "txn_ReversesID txn = None" using N by (auto simp: NewTransfer_def Let_def split: if_splits sum.splits)
    from posted_now_answer [OF 2(3) this] w1 have ans: "posting_answer ?T (tabs w') txn q" by simp
    have "a \<noteq> b" using N by (auto simp: NewTransfer_def)
    moreover have "?m + ?fee \<le> balance_in ?T (acc_ID a)
      \<and> (\<forall>i. balance_in (tabs w') i = balance_in ?T i + transfer_delta (acc_ID a) (acc_ID b) (acc_ID s) ?m ?fee i)"
      using B post(2) by fastforce
    ultimately show ?thesis using R a b(1-3) s(4) N [folded s(3)] ans rec p by blast
  qed
qed

theorem transfer_moves_money_witness:
  "\<exists>w x p q txn w'. funded w
     \<and> Ledger_Transfer (\<lambda>n. 0) (pg_ledger (demo_env2 x) demo_cfg 1 [2, 4]) demo_transfer w = (Inr p, w')
     \<and> p = q\<lparr>pr_ViewerAccountID := Some 11\<rparr> \<and> posting_answer (tabs w) (tabs w') txn q
     \<and> balance_in (tabs w') 11 = balance_in (tabs w) 11 - 3100
     \<and> balance_in (tabs w') 12 = balance_in (tabs w) 12 + 3000"
proof -
  obtain w where w: "funded w" using demo_funded by blast
  then have r: "reachable w" by (simp add: funded_def)
  obtain x p w' where T: "Ledger_Transfer (\<lambda>n. 0) (pg_ledger (demo_env2 x) demo_cfg 1 [2, 4]) demo_transfer w
      = (Inr p, w')" using demo_transferred [OF w] by blast
  note ready = funded_ready [OF w, unfolded transfer_ready_def request_ready_def]
  note I = reachable_inv [OF r]
  have ids: "acc_ID demo_wallet1 = 11" "acc_ID demo_wallet2 = 12"
    by (simp_all add: demo_wallet1_def demo_wallet2_def new_wallet_row_def)
  have "pg_answer (tabs w) (clm_UserID (MoneyRequest_claim demo_transfer ''transfer''))
      (clm_Key (MoneyRequest_claim demo_transfer ''transfer'')) = None"
    using ready by (auto simp: claim_free_def pg_answer_def find_None_iff split: option.split
        dest!: find_SomeD)
  then have new: "\<not> replayed w (MoneyRequest_claim demo_transfer ''transfer'') q w'" for q
    by (simp add: replayed_def)
  obtain q a b s txn where a: "a \<in> set (accounts (tabs w))" "acc_UserID a = Some (act_UserID (mr_Actor demo_transfer))"
      "acc_Type a = AccountUserWallet"
    and p: "p = q\<lparr>pr_ViewerAccountID := Some (acc_ID a)\<rparr>"
    and b: "b \<in> set (accounts (tabs w))" "acc_PublicID b = mr_ToAccountPublicID demo_transfer"
    and shown: "posting_answer (tabs w) (tabs w') txn q"
    and bal: "\<forall>i. balance_in (tabs w') i = balance_in (tabs w) i
       + transfer_delta (acc_ID a) (acc_ID b) s (mr_AmountSen demo_transfer) (cfg_TransferFee demo_cfg) i"
    using transfer_moves_money [OF r demo_cfg_ok funded_fees [OF w] _ T] new by blast
  have a1: "a = demo_wallet1" using ready a by (intro wallet_unique [OF I]) auto
  have "b = demo_wallet2" using ready b by (intro public_id_unique [OF I]) auto
  with a1 have "balance_in (tabs w') 11 = balance_in (tabs w) 11 - 3100"
      "balance_in (tabs w') 12 = balance_in (tabs w) 12 + 3000"
    using bal [rule_format, of 11] bal [rule_format, of 12] ids
    by (simp_all add: transfer_delta_def demo_transfer_def demo_cfg_def)
  moreover have "p = q\<lparr>pr_ViewerAccountID := Some 11\<rparr>" using p a1 ids by simp
  ultimately show ?thesis using w T shown by blast
qed

text \<open>
  C12 liveness. A transfer succeeds when nothing stands against it: no statement fails, the
  amount is within the limits, both wallets and the fee accounts are active and can hold the
  sums, the sender's balance covers amount and fee, the idempotency key is new, and the
  random ids are not in use.
\<close>

theorem transfer_succeeds:
  assumes "reachable w" "no_faults env" "config_ok cfg" "fee_shards (tabs w) fees"
    and "\<And>n. 0 < n \<Longrightarrow> intN n < n" "fresh_uuids env (tabs w)"
    and "transfer_ready (tabs w) (seqs w) cfg fees req a b"
  shows "\<exists>p w'. Ledger_Transfer intN (pg_ledger env cfg cash fees) req w = (Inr p, w')"
  using Ledger_Transfer_live [OF assms(2) reachable_inv [OF assms(1)] assms(3,4,5,7,6)] .

theorem transfer_succeeds_witness:
  "\<exists>w x p w'. Ledger_Transfer (\<lambda>n. 0) (pg_ledger (demo_env2 x) demo_cfg 1 [2, 4]) demo_transfer w = (Inr p, w')"
proof -
  obtain w where w: "funded w" using demo_funded by blast
  then have r: "reachable w" by (simp add: funded_def)
  obtain x where x: "fresh_uuids (demo_env2 x) (tabs w)" using funded_fresh [OF w] by blast
  have "\<exists>p w'. Ledger_Transfer (\<lambda>n. 0) (pg_ledger (demo_env2 x) demo_cfg 1 [2, 4]) demo_transfer w = (Inr p, w')"
    by (rule transfer_succeeds [OF r demo_env2_no_faults demo_cfg_ok funded_fees [OF w] _ x funded_ready [OF w]])
  then show ?thesis by blast
qed

end
