(* ===== verification/Reading.thy ===== *)
theory Reading
  imports Operations
begin

text \<open>
  The reading side of the service: the accounts found at startup, the pages of a wallet's
  history, and which transactions a user may read.
\<close>

section \<open>Startup\<close>

lemma owner_of_type:
  assumes "db_inv T q" "a \<in> set (accounts T)"
  shows "acc_UserID a = None \<longleftrightarrow> acc_Type a \<noteq> AccountUserWallet"
proof -
  have "accounts_check a = None" using assms by (simp add: db_inv_def ledger_inv_def accounts_ok_def)
  then show ?thesis by (auto simp: accounts_check_def check_owner_def split: if_splits)
qed

lemma accounts_of_type:
  assumes "db_inv T q" "typ \<noteq> AccountUserWallet"
  shows "length (filter (\<lambda>a. acc_Type a = typ \<and> acc_UserID a = None) (accounts T))
    = length (filter (\<lambda>t. t = typ) system_types)"
proof -
  let ?sys = "filter (\<lambda>a. acc_Type a \<noteq> AccountUserWallet) (accounts T)"
  have "filter (\<lambda>a. acc_Type a = typ \<and> acc_UserID a = None) (accounts T)
      = filter (\<lambda>a. acc_Type a = typ) ?sys"
    using assms owner_of_type [OF assms(1)] unfolding filter_filter
    by (intro filter_cong) auto
  moreover have types: "map acc_Type ?sys = system_types"
    using assms(1) by (simp add: db_inv_def accounts_inv_def)
  moreover have "length (filter (\<lambda>t. t = typ) (map acc_Type ?sys)) = length (filter (\<lambda>a. acc_Type a = typ) ?sys)"
    by (simp only: filter_map length_map comp_def)
  ultimately show ?thesis by simp
qed

definition ledger_config_ok :: "ledger_config \<Rightarrow> bool" where
  "ledger_config_ok cfg \<longleftrightarrow>
     0 \<le> cfg_TransferFee cfg \<and> 0 < cfg_MinTransfer cfg \<and> cfg_MinTransfer cfg \<le> cfg_MaxTransfer cfg"

lemma fee_shards_later:
  assumes "fee_shards T fees" "extends T T'"
  shows "fee_shards T' fees"
proof -
  have "\<exists>b \<in> set (accounts T'). acc_ID b = acc_ID a \<and> acc_Type b = acc_Type a"
    if "a \<in> set (accounts T)" for a
    using extends_account [OF assms(2) that] by (auto simp: acc_key_def)
  with assms(1) show ?thesis unfolding fee_shards_def by (metis (no_types, lifting))
qed

lemma NewLedger_starts:
  assumes "reachable w" "no_faults env"
  shows "(\<not> ledger_config_ok cfg \<longrightarrow> (\<exists>e. NewLedger (pg_ledger_store env) (pg_account_store env)
            (pg_idempotency_store env) cfg w = (Inl e, w)))
    \<and> (ledger_config_ok cfg \<longrightarrow> (\<exists>cash fees w'. NewLedger (pg_ledger_store env) (pg_account_store env)
            (pg_idempotency_store env) cfg w = (Inr (pg_ledger env cfg cash fees), w')
         \<and> tabs w' = tabs w \<and> cash_account (tabs w) cash \<and> length fees = 8 \<and> distinct fees
         \<and> (\<forall>w2. db_step\<^sup>*\<^sup>* w' w2 \<longrightarrow> fee_shards (tabs w2) fees)))"
proof (intro conjI impI)
  assume "\<not> ledger_config_ok cfg"
  then show "\<exists>e. NewLedger (pg_ledger_store env) (pg_account_store env) (pg_idempotency_store env) cfg w
      = (Inl e, w)"
    by (auto simp: NewLedger_def ledger_config_ok_def)
next
  assume cfg: "ledger_config_ok cfg"
  let ?T = "tabs w"
  let ?cash = "\<lambda>a. acc_Type a = AccountSystemCash \<and> acc_UserID a = None"
  let ?fee = "\<lambda>a. acc_Type a = AccountSystemFeeRevenue \<and> acc_UserID a = None"
  have I: "db_inv ?T (seqs w)" by (rule reachable_inv [OF assms(1)])
  have n: "length (filter ?cash (accounts ?T)) = 1" "length (filter ?fee (accounts ?T)) = 8"
    using accounts_of_type [OF I] by (simp_all add: system_types_def account_type_defs)
  from n(1) have "filter ?cash (accounts ?T) \<noteq> []" by auto
  then have "List.find ?cash (accounts ?T) \<noteq> None" unfolding find_None_iff filter_empty_conv by blast
  then obtain c where c: "List.find ?cash (accounts ?T) = Some c" by blast
  from n(2) have ne: "filter ?fee (accounts ?T) \<noteq> []" by auto
  define fees where "fees = map acc_ID (filter ?fee (accounts ?T))"
  define w3 where "w3 = w\<lparr>steps := steps w + 3\<rparr>"
  have types: "AccountSystemCash \<in> set enum_account_type" "AccountSystemFeeRevenue \<in> set enum_account_type"
    by (simp_all add: enum_account_type_def)
  have cash: "AccountRepo_SystemAccount env AccountSystemCash w = (Inr c, w\<lparr>steps := Suc (steps w)\<rparr>)"
    using assms(2) c types
    by (simp add: AccountRepo_SystemAccount_def scanAccount_def wrapP_def sql_select_account_def)
  have shards: "AccountRepo_SystemAccounts env AccountSystemFeeRevenue (w\<lparr>steps := Suc (steps w)\<rparr>)
      = (Inr (filter ?fee (accounts ?T)), w3)"
    using assms(2) types
    by (simp add: AccountRepo_SystemAccounts_def bindP_def wrapP_def w3_def)
  have "NewLedger (pg_ledger_store env) (pg_account_store env) (pg_idempotency_store env) cfg w
      = (Inr (pg_ledger env cfg (acc_ID c) fees), w3)"
    using cfg cash shards ne
    by (simp add: NewLedger_def ledger_config_ok_def bindP_def wrapP_def pg_ledger_def fees_def)
  moreover have "tabs w3 = ?T" "seqs w3 = seqs w" by (simp_all add: w3_def)
  moreover have "cash_account ?T (acc_ID c)" using find_SomeD [OF c] by (auto simp: cash_account_def)
  moreover have "length fees = 8" using n(2) by (simp add: fees_def)
  moreover have "distinct fees"
    using I by (simp add: fees_def db_inv_def ledger_inv_def accounts_ok_def distinct_map_filter)
  moreover have "fee_shards (tabs w2) fees" if "db_step\<^sup>*\<^sup>* w3 w2" for w2
  proof -
    have "db_step w w3" by (rule db_step.read) (simp_all add: w3_def)
    with that have "extends ?T (tabs w2)" using steps_extend [OF assms(1)] by (meson converse_rtranclp_into_rtranclp)
    moreover have "fee_shards ?T fees" using n(2) by (force simp: fee_shards_def fees_def)
    ultimately show ?thesis by (rule fee_shards_later [rotated])
  qed
  ultimately show "\<exists>cash fees w'. NewLedger (pg_ledger_store env) (pg_account_store env)
            (pg_idempotency_store env) cfg w = (Inr (pg_ledger env cfg cash fees), w')
         \<and> tabs w' = tabs w \<and> cash_account (tabs w) cash \<and> length fees = 8 \<and> distinct fees
         \<and> (\<forall>w2. db_step\<^sup>*\<^sup>* w' w2 \<longrightarrow> fee_shards (tabs w2) fees)"
    by blast
qed

text \<open>
  Started on a reachable database with a sound configuration and no failing
  statement, NewLedger finds the cash account and all eight distinct fee accounts, and
  these stay the fee accounts of every later state, so the transfers of the running service
  always have a shard to credit. With an unsound configuration it refuses to start.
\<close>

theorem service_starts:
  assumes "reachable w" "no_faults env"
  shows "(\<not> ledger_config_ok cfg \<longrightarrow> (\<exists>e. NewLedger (pg_ledger_store env) (pg_account_store env)
            (pg_idempotency_store env) cfg w = (Inl e, w)))
    \<and> (ledger_config_ok cfg \<longrightarrow> (\<exists>cash fees w'. NewLedger (pg_ledger_store env) (pg_account_store env)
            (pg_idempotency_store env) cfg w = (Inr (pg_ledger env cfg cash fees), w')
         \<and> tabs w' = tabs w \<and> cash_account (tabs w) cash \<and> length fees = 8 \<and> distinct fees
         \<and> (\<forall>w2. db_step\<^sup>*\<^sup>* w' w2 \<longrightarrow> fee_shards (tabs w2) fees)))"
  by (rule NewLedger_starts [OF assms])

theorem service_starts_witness:
  "\<exists>cash fees w'. NewLedger (pg_ledger_store demo_env) (pg_account_store demo_env)
     (pg_idempotency_store demo_env) demo_cfg demo_start = (Inr (pg_ledger demo_env demo_cfg cash fees), w')
     \<and> length fees = 8"
  using service_starts [OF demo_start_reachable demo_no_faults, of demo_cfg]
  by (auto simp: ledger_config_ok_def demo_cfg_def)

section \<open>Pages of a wallet's history\<close>

text \<open>A client that follows the cursors, for at most the given number of requests.\<close>

fun walk_pages ::
    "nat \<Rightarrow> (string \<Rightarrow> ('s, entries_page) prog) \<Rightarrow> string \<Rightarrow> ('s, posted_entry list) prog" where
  "walk_pages 0 get c = retP []"
| "walk_pages (Suc n) get c =
     bindP (get c) (\<lambda>p.
       if pg_NextCursor p = '''' then retP (pg_Entries p)
       else bindP (walk_pages n get (pg_NextCursor p)) (\<lambda>rest. retP (pg_Entries p @ rest)))"

definition own_rows :: "tables \<Rightarrow> int64 \<Rightarrow> entry_row list" where
  "own_rows T i = rev (filter (\<lambda>e. er_account_id e = i) (entries T))"

definition older :: "int64 option \<Rightarrow> entry_row list \<Rightarrow> entry_row list" where
  "older b rows = filter (\<lambda>e. case b of None \<Rightarrow> True | Some k \<Rightarrow> er_id e < k) rows"

lemma sort_key_ids:
  "sorted_wrt (<) (map er_id rows) \<Longrightarrow> sort_key er_id (filter p rows) = filter p rows"
  by (intro sort_key_id_if_sorted sorted_filter strict_sorted_imp_sorted)

lemma page_rows:
  assumes "db_inv T q"
  shows "\<exists>f. (\<forall>r. pe_ID (f r) = er_id r \<and> pe_Amount (f r) = er_amount r
                \<and> pe_BalanceAfter (f r) = er_balance_after r)
    \<and> (\<forall>b. entry_page_rows T i b = map f (older b (own_rows T i)))"
proof -
  let ?txn = "\<lambda>e. hd (filter (\<lambda>t. tr_id t = er_transaction_id e) (transactions T))"
  let ?acc = "\<lambda>e. hd (filter (\<lambda>a. acc_ID a = er_account_id e) (accounts T))"
  let ?row = "\<lambda>e t a. \<lparr> pe_ID = er_id e, pe_TransactionID = er_transaction_id e, pe_AccountID = i,
           pe_AccountPublicID = acc_PublicID a, pe_AccountType = acc_Type a,
           pe_Direction = er_direction e, pe_Amount = er_amount e,
           pe_BalanceAfter = er_balance_after e, pe_CreatedAt = er_created_at e,
           pe_TxnType = tr_txn_type t, pe_Description = tr_description t \<rparr>"
  define f where "f e = ?row e (?txn e) (?acc e)" for e :: entry_row
  note I = assms [unfolded db_inv_def ledger_inv_def accounts_ok_def transactions_ok_def entries_ok_def entry_ids_inv_def]
  have one: "\<exists>t. filter (\<lambda>t. tr_id t = er_transaction_id e) (transactions T) = [t]"
    "\<exists>a. filter (\<lambda>a. acc_ID a = er_account_id e) (accounts T) = [a]" if "e \<in> set (entries T)" for e
  proof -
    from that I obtain t where t: "t \<in> set (transactions T)" "tr_id t = er_transaction_id e" by fastforce
    have "filter (\<lambda>t. tr_id t = er_transaction_id e) (transactions T) = [t]"
      using filter_by_key [of tr_id "transactions T" t] t I by simp
    then show "\<exists>t. filter (\<lambda>t. tr_id t = er_transaction_id e) (transactions T) = [t]" by blast
    from that I obtain a where a: "a \<in> set (accounts T)" "acc_ID a = er_account_id e" by fastforce
    have "filter (\<lambda>a. acc_ID a = er_account_id e) (accounts T) = [a]"
      using filter_by_key [of acc_ID "accounts T" a] a I by simp
    then show "\<exists>a. filter (\<lambda>a. acc_ID a = er_account_id e) (accounts T) = [a]" by blast
  qed
  have "entry_page_rows T i b = map f (older b (own_rows T i))" for b
  proof -
    let ?p = "\<lambda>e. er_account_id e = i \<and> (case b of None \<Rightarrow> True | Some b \<Rightarrow> er_id e < b)"
    have rows: "rev (sort_key er_id (filter ?p (entries T))) = older b (own_rows T i)"
      using I by (simp add: sort_key_ids older_def own_rows_def rev_filter conj_commute)
    have one_row: "concat (map (\<lambda>t. map (?row e t)
         (filter (\<lambda>a. acc_ID a = er_account_id e) (accounts T)))
         (filter (\<lambda>t. tr_id t = er_transaction_id e) (transactions T))) = [f e]" if e: "e \<in> set (entries T)" for e
    proof -
      obtain t a where "filter (\<lambda>t. tr_id t = er_transaction_id e) (transactions T) = [t]"
        "filter (\<lambda>a. acc_ID a = er_account_id e) (accounts T) = [a]" using one [OF e] by blast
      then show ?thesis by (simp add: f_def)
    qed
    have "set (older b (own_rows T i)) \<subseteq> set (entries T)" by (auto simp: older_def own_rows_def)
    then have "concat (map (\<lambda>e. concat (map (\<lambda>t. map (?row e t)
         (filter (\<lambda>a. acc_ID a = er_account_id e) (accounts T)))
         (filter (\<lambda>t. tr_id t = er_transaction_id e) (transactions T)))) (older b (own_rows T i)))
       = concat (map (\<lambda>e. [f e]) (older b (own_rows T i)))"
      using one_row by (intro arg_cong [of _ _ concat] map_cong) auto
    then show ?thesis unfolding entry_page_rows_def rows by simp
  qed
  moreover have "pe_ID (f r) = er_id r \<and> pe_Amount (f r) = er_amount r \<and> pe_BalanceAfter (f r) = er_balance_after r" for r
    by (simp add: f_def)
  ultimately show ?thesis by blast
qed

lemma own_rows_descending:
  "db_inv T q \<Longrightarrow> sorted_wrt (\<lambda>a b. er_id b < er_id a) (own_rows T i)"
  by (auto simp: own_rows_def sorted_wrt_rev sorted_wrt_filter db_inv_def entry_ids_inv_def sorted_wrt_map)

lemma older_next:
  assumes "sorted_wrt (\<lambda>a b. er_id b < er_id a) R" "n < length (older b R)"
  shows "older (Some (er_id (older b R ! n))) R = drop (Suc n) (older b R)"
proof -
  let ?S = "older b R"
  have S: "sorted_wrt (\<lambda>a b. er_id b < er_id a) ?S"
    using assms(1) by (simp add: older_def sorted_wrt_filter)
  have "?S ! n \<in> set ?S" using assms(2) by simp
  then have below: "er_id e < er_id (?S ! n) \<Longrightarrow> (case b of None \<Rightarrow> True | Some k \<Rightarrow> er_id e < k)" for e
    by (auto simp: older_def split: option.splits)
  have "older (Some (er_id (?S ! n))) R = filter (\<lambda>e. er_id e < er_id (?S ! n)) ?S"
    using below by (auto simp: older_def intro!: filter_cong)
  also have "\<dots> = filter (\<lambda>e. er_id e < er_id (?S ! n)) (take (Suc n) ?S @ drop (Suc n) ?S)" by simp
  also have "\<dots> = drop (Suc n) ?S"
  proof -
    have "\<not> er_id e < er_id (?S ! n)" if "e \<in> set (take (Suc n) ?S)" for e
    proof -
      from that obtain k where k: "k \<le> n" "e = ?S ! k" using assms(2) by (auto simp: in_set_conv_nth less_Suc_eq_le)
      then show ?thesis using sorted_wrt_nth_less [OF S, of k n] assms(2) by (cases "k = n") auto
    qed
    then have "filter (\<lambda>e. er_id e < er_id (?S ! n)) (take (Suc n) ?S) = []" by (auto simp: filter_empty_conv)
    moreover have "er_id e < er_id (?S ! n)" if "e \<in> set (drop (Suc n) ?S)" for e
    proof -
      from that obtain k where k: "k < length ?S - Suc n" "e = ?S ! (Suc n + k)"
        by (auto simp: in_set_conv_nth)
      then show ?thesis using sorted_wrt_nth_less [OF S, of n "Suc n + k"] by auto
    qed
    then have "filter (\<lambda>e. er_id e < er_id (?S ! n)) (drop (Suc n) ?S) = drop (Suc n) ?S"
      by (simp add: filter_id_conv)
    ultimately show ?thesis by (simp only: filter_append append_Nil)
  qed
  finally show ?thesis .
qed

lemma normalizeLimit_range: "1 \<le> normalizeLimit lim \<and> normalizeLimit lim \<le> 100"
  by (simp add: normalizeLimit_def DefaultPageLimit_def MaxPageLimit_def)

lemma MyEntries_page:
  assumes nf: "no_faults env" and I: "db_inv (tabs w) (seqs w)"
    and a: "a \<in> set (accounts (tabs w))" "acc_UserID a = Some (act_UserID actor)" "acc_Type a = AccountUserWallet"
    and c: "decodeCursor c = Inr b"
    and f: "\<forall>b. entry_page_rows (tabs w) (acc_ID a) b = map f (older b (own_rows (tabs w) (acc_ID a)))"
      "\<forall>r. pe_ID (f r) = er_id r"
    and S: "S = older b (own_rows (tabs w) (acc_ID a))" and l: "l = normalizeLimit lim"
  shows "\<exists>w'. Ledger_MyEntries (pg_ledger env cfg cash fees) actor c lim w =
      (Inr (if int (length S) > l
            then \<lparr> pg_Entries = map f (take (nat l) S), pg_NextCursor = encodeCursor (er_id (S ! nat (l - 1))) \<rparr>
            else \<lparr> pg_Entries = map f S, pg_NextCursor = '''' \<rparr>), w')
    \<and> tabs w' = tabs w \<and> seqs w' = seqs w"
proof -
  have lr: "1 \<le> l" "l \<le> 100" using normalizeLimit_range l by auto
  obtain x w1 where G: "AccountRepo_GetWalletByUserID env (act_UserID actor) w = (Inr x, w1)"
    using GetWallet_live [OF nf a] by blast
  have x: "x = a" using GetWallet_Inr [OF G] wallet_unique [OF I _ a(1)] a by simp
  have t1: "tabs w1 = tabs w" "seqs w1 = seqs w" using GetWallet_Inr [OF G] by auto
  have w64: "wrap64 (l + 1) = l + 1" using lr by (intro wrap64_id) (simp add: in_int64_def)
  have "take (nat (l + 1)) (map f S) ! nat (l - 1) = f (S ! nat (l - 1))" if "int (length S) > l"
    using that lr by (simp add: nth_take)
  then have "page_of (take (nat (l + 1)) (map f S)) l = (if int (length S) > l
            then \<lparr> pg_Entries = map f (take (nat l) S), pg_NextCursor = encodeCursor (er_id (S ! nat (l - 1))) \<rparr>
            else \<lparr> pg_Entries = map f S, pg_NextCursor = '''' \<rparr>)"
    using lr f(2) by (auto simp: page_of_def take_map min_def)
  moreover have "\<exists>w2. AccountRepo_ListEntries env (acc_ID a) b l w1 = (Inr (take (nat (l + 1)) (map f S)), w2)
      \<and> tabs w2 = tabs w1 \<and> seqs w2 = seqs w1"
    using nf lr w64 f(1) t1 S by (simp add: AccountRepo_ListEntries_def bindP_def wrapP_def)
  ultimately show ?thesis
    using c G x l t1 by (auto simp: Ledger_MyEntries_def bindP_def liftR_def Let_def)
qed

lemma walk_pages_rows:
  assumes nf: "no_faults env" and I: "db_inv T q"
    and a: "a \<in> set (accounts T)" "acc_UserID a = Some (act_UserID actor)" "acc_Type a = AccountUserWallet"
    and f: "\<forall>b. entry_page_rows T (acc_ID a) b = map f (older b (own_rows T (acc_ID a)))"
      "\<forall>r. pe_ID (f r) = er_id r"
  shows "\<lbrakk>tabs w = T; seqs w = q; decodeCursor c = Inr b; S = older b (own_rows T (acc_ID a)); length S < n\<rbrakk> \<Longrightarrow>
    \<exists>w'. walk_pages n (\<lambda>c. Ledger_MyEntries (pg_ledger env cfg cash fees) actor c lim) c w
      = (Inr (map f S), w') \<and> tabs w' = T"
proof (induction n arbitrary: w c b S)
  case (Suc n)
  let ?L = "pg_ledger env cfg cash fees" and ?l = "normalizeLimit lim" and ?R = "own_rows T (acc_ID a)"
  note page = MyEntries_page [where lim = lim and cfg = cfg and cash = cash and fees = fees and S = S and w = w,
      OF nf _ _ a(2,3) Suc.prems(3) _ f(2) _ refl, unfolded Suc.prems(1,2), OF I a(1) f(1) Suc.prems(4)]
  show ?case
  proof (cases "int (length S) > ?l")
    case False
    with page obtain w' where "Ledger_MyEntries ?L actor c lim w = (Inr \<lparr> pg_Entries = map f S, pg_NextCursor = '''' \<rparr>, w')"
      "tabs w' = T" by auto
    then show ?thesis by (simp add: bindP_def)
  next
    case True
    let ?k = "nat (?l - 1)"
    have k: "Suc ?k = nat ?l" "?k < length S" using True normalizeLimit_range [of lim] by auto
    obtain w1 where P: "Ledger_MyEntries ?L actor c lim w = (Inr \<lparr> pg_Entries = map f (take (nat ?l) S),
          pg_NextCursor = encodeCursor (er_id (S ! ?k)) \<rparr>, w1)" and t1: "tabs w1 = T" "seqs w1 = q"
      using page True by auto
    have "S ! ?k \<in> set S" using k(2) by simp
    then have "S ! ?k \<in> set (entries T)" unfolding Suc.prems(4) by (auto simp: older_def own_rows_def)
    then have id: "in_int64 (er_id (S ! ?k))" "0 < er_id (S ! ?k)"
      using I by (auto simp: db_inv_def entry_ids_inv_def seqs_ok_def in_int64_def)
    have rest: "drop (nat ?l) S = older (Some (er_id (S ! ?k))) ?R"
      using older_next [OF own_rows_descending [OF I], of ?k b] k Suc.prems(4) by simp
    have "length (drop (nat ?l) S) < n" using Suc.prems(5) k normalizeLimit_range [of lim] by simp
    from Suc.IH [OF t1 decode_encode_cursor(2) [OF id] rest this] obtain w2 where
      "walk_pages n (\<lambda>c. Ledger_MyEntries ?L actor c lim) (encodeCursor (er_id (S ! ?k))) w1
        = (Inr (map f (drop (nat ?l) S)), w2)" "tabs w2 = T" by blast
    with P decode_encode_cursor(1) [OF id] show ?thesis
      by (simp add: bindP_def map_append [symmetric] del: map_append)
  qed
qed simp

text \<open>
  C19 functional. Reading a history page by page loses and repeats nothing: a user who starts
  without a cursor and follows the returned cursors, whatever the page size asked for, gets
  every entry of the own wallet exactly once, newest first, with the recorded amounts and
  balances, and the last page carries no cursor; no table changes.
\<close>

theorem pages_cover_history:
  assumes "reachable w" "no_faults env" "a \<in> set (accounts (tabs w))"
    and "acc_UserID a = Some (act_UserID actor)" "acc_Type a = AccountUserWallet"
    and "length (entries (tabs w)) < n"
  shows "\<exists>es w'. walk_pages n (\<lambda>c. Ledger_MyEntries (pg_ledger env cfg cash fees) actor c lim) '''' w = (Inr es, w')
    \<and> tabs w' = tabs w
    \<and> map (\<lambda>e. (pe_ID e, pe_Amount e, pe_BalanceAfter e)) es
      = map (\<lambda>r. (er_id r, er_amount r, er_balance_after r))
          (rev (filter (\<lambda>r. er_account_id r = acc_ID a) (entries (tabs w))))"
proof -
  have I: "db_inv (tabs w) (seqs w)" by (rule reachable_inv [OF assms(1)])
  obtain f where f: "\<forall>r. pe_ID (f r) = er_id r \<and> pe_Amount (f r) = er_amount r
                \<and> pe_BalanceAfter (f r) = er_balance_after r"
    "\<forall>b. entry_page_rows (tabs w) (acc_ID a) b = map f (older b (own_rows (tabs w) (acc_ID a)))"
    using page_rows [OF I] by blast
  have "length (older None (own_rows (tabs w) (acc_ID a))) < n"
    using le_less_trans [OF length_filter_le assms(6)] by (simp add: older_def own_rows_def)
  moreover have "decodeCursor '''' = Inr None" by (simp add: decodeCursor_def)
  ultimately obtain w' where "walk_pages n (\<lambda>c. Ledger_MyEntries (pg_ledger env cfg cash fees) actor c lim) '''' w
      = (Inr (map f (older None (own_rows (tabs w) (acc_ID a)))), w')" "tabs w' = tabs w"
    using walk_pages_rows [OF assms(2) I assms(3,4,5) f(2) _ refl refl _ refl] f(1) by blast
  with f(1) show ?thesis by (auto simp: older_def own_rows_def)
qed

theorem pages_cover_history_witness:
  "\<exists>w es (w'::pg). funded w
     \<and> walk_pages 3 (\<lambda>c. Ledger_MyEntries (pg_ledger demo_env demo_cfg 1 [2, 4]) (demo_actor 1 ''USER'') c 1) '''' w
         = (Inr es, w') \<and> map (\<lambda>e. (pe_Amount e, pe_BalanceAfter e)) es = [(5000, 5000)]"
proof -
  obtain w where w: "funded w" using demo_funded by blast
  then have r: "reachable w" by (simp add: funded_def)
  note ready = funded_ready [OF w, unfolded transfer_ready_def]
  have e: "map (\<lambda>r. (er_account_id r, er_amount r, er_balance_after r)) (entries (tabs w))
      = [(1, 5000, 5000), (11, 5000, 5000)]"
    using w by (auto simp: funded_def demo_two_def demo_registered_def migrated_tables_def migrated_seqs_def
        demo_topup_def NewTopup_def balance_after_def account_by_id_def system_row_def
        new_wallet_row_def entry_delta_def DirectionDebit_def DirectionCredit_def new_entry_row_def)
  from arg_cong [OF this, of length] have n: "length (entries (tabs w)) < 3" by simp
  have a: "demo_wallet1 \<in> set (accounts (tabs w))" "acc_UserID demo_wallet1 = Some (act_UserID (demo_actor 1 ''USER''))"
    "acc_Type demo_wallet1 = AccountUserWallet"
    using ready by (simp_all add: demo_transfer_def demo_actor_def)
  obtain es w' where W: "walk_pages 3 (\<lambda>c. Ledger_MyEntries (pg_ledger demo_env demo_cfg 1 [2, 4])
      (demo_actor 1 ''USER'') c 1) '''' w = (Inr es, w')"
    and m: "map (\<lambda>e. (pe_ID e, pe_Amount e, pe_BalanceAfter e)) es
      = map (\<lambda>r. (er_id r, er_amount r, er_balance_after r))
          (rev (filter (\<lambda>r. er_account_id r = acc_ID demo_wallet1) (entries (tabs w))))"
    using pages_cover_history [OF r demo_no_faults a n] by blast
  have "acc_ID demo_wallet1 = 11" by (simp add: demo_wallet1_def new_wallet_row_def)
  moreover obtain x y where "entries (tabs w) = [x, y]" "er_account_id x = 1" "er_account_id y = 11"
    "er_amount y = 5000" "er_balance_after y = 5000" using e by auto
  ultimately have "map (\<lambda>e. (pe_ID e, pe_Amount e, pe_BalanceAfter e)) es = [(er_id y, 5000, 5000)]"
    using m by simp
  then have m2: "map (\<lambda>e. (pe_Amount e, pe_BalanceAfter e)) es = [(5000, 5000)]" by auto
  show ?thesis by (intro exI conjI) (rule w W m2)+
qed

end
