(* ===== verification/Retry.thy ===== *)
theory Retry
  imports Operations
begin

text \<open>
  Retries with the same idempotency key, and reversals: what a repeated request is answered,
  that a reversal undoes exactly what its transaction did, and that no transaction is
  reversed twice.
\<close>

section \<open>Retries\<close>

lemma pg_answer_kept:
  assumes "db_inv T' q'" "set (idempotency_keys T) \<subseteq> set (idempotency_keys T')"
    and "pg_answer T u k = Some hp"
  shows "pg_answer T' u k = Some hp"
proof -
  let ?p = "\<lambda>r. ik_user_id r = u \<and> ik_key r = k"
  obtain r where r: "List.find ?p (idempotency_keys T) = Some r"
    using assms(3) by (auto simp: pg_answer_def split: option.splits)
  have "r \<in> set (idempotency_keys T')" "?p r" using find_SomeD [OF r] assms(2) by blast+
  moreover have "distinct (map (\<lambda>r. (ik_user_id r, ik_key r)) (idempotency_keys T'))"
    using assms(1) by (simp add: db_inv_def keys_inv_def)
  ultimately have "List.find ?p (idempotency_keys T') = Some r"
    using find_by_key [of "\<lambda>r. (ik_user_id r, ik_key r)" "idempotency_keys T'" r] by simp
  with r assms(3) show ?thesis by (simp add: pg_answer_def)
qed

lemma money_op_retry:
  assumes r: "reachable w" and B: "typed_build (build sen a)"
    and a: "a \<in> set (accounts (tabs w))" "acc_UserID a = Some u" "acc_Type a = AccountUserWallet"
    and t1: "tabs w0 = tabs w" "seqs w0 = seqs w"
    and P: "postIdempotent (pg_ledger env cfg cash fees) c (build sen a) w0 = (Inr q, w1)"
    and later: "reachable w2" "extends (tabs w) (tabs w2)"
      "set (idempotency_keys (tabs w1)) \<subseteq> set (idempotency_keys (tabs w2))"
    and nf: "no_faults env'" and m: "amountWithin sen' lo hi = Inr m"
    and c': "clm_UserID c' = clm_UserID c" "clm_Key c' = clm_Key c"
  shows "\<exists>w3. bindP (liftR (amountWithin sen' lo hi)) (\<lambda>amount.
         bindP (AccountRepo_GetWalletByUserID env' u) (\<lambda>wallet.
         markViewer (postIdempotent (pg_ledger env' cfg' cash' fees') c' (build' amount wallet)) (acc_ID wallet))) w2
    = (if clm_RequestHash c = clm_RequestHash c' then Inr (q\<lparr>pr_ViewerAccountID := Some (acc_ID a)\<rparr>)
       else Inl ErrIdempotencyConflict, w3) \<and> tabs w3 = tabs w2"
proof -
  have I: "pg_sound w0" using reachable_inv [OF r] t1 by (simp add: pg_sound_def)
  have I2: "db_inv (tabs w2) (seqs w2)" by (rule reachable_inv [OF later(1)])
  have "pg_answer (tabs w1) (clm_UserID c) (clm_Key c) = Some (clm_RequestHash c, q)"
    using pg_idem.returned_is_recorded [OF pg_ledger_uses I typed_build_builds [OF B] P] by blast
  then have ans: "pg_answer (tabs w2) (clm_UserID c') (clm_Key c') = Some (clm_RequestHash c, q)"
    using pg_answer_kept [OF I2 later(3)] c' by simp
  obtain b where b: "b \<in> set (accounts (tabs w2))" "acc_key b = acc_key a"
    using extends_account [OF later(2) a(1)] by blast
  then have bk: "acc_ID b = acc_ID a" "acc_UserID b = Some u" "acc_Type b = AccountUserWallet"
    using a by (simp_all add: acc_key_def)
  obtain x w4 where G: "AccountRepo_GetWalletByUserID env' u w2 = (Inr x, w4)"
    using GetWallet_live [OF nf b(1) bk(2,3)] by blast
  have x: "x = b" using GetWallet_Inr [OF G] wallet_unique [OF I2 _ b(1)] bk by simp
  have t4: "tabs w4 = tabs w2" "seqs w4 = seqs w2" using GetWallet_Inr [OF G] by auto
  have I4: "pg_sound w4" using I2 t4 by (simp add: pg_sound_def)
  have key: "clm_Key c' \<noteq> ''''" "length (clm_Key c') \<le> 128"
    using P c' by (auto simp: postIdempotent_def split: if_splits)
  obtain w3 where R: "postIdempotent (pg_ledger env' cfg' cash' fees') c' (build' m x) w4 =
      (if clm_RequestHash c = clm_RequestHash c' then Inr q else Inl ErrIdempotencyConflict, w3)"
    "tabs w3 = tabs w4"
    using pg_idem.retry_same_answer [OF pg_ledger_uses I4 nf _ key] ans t4 by metis
  with m G x bk(1) t4 show ?thesis by (auto simp: bindP_def liftR_def markViewer_def)
qed

text \<open>
  C15 functional. Retrying a transfer is safe. Once a transfer was answered with a result,
  the same user sending the same idempotency key again, after any other steps of the system
  that keep the key and with no statement failing, gets the identical result when the
  request is the same, and IDEMPOTENCY_CONFLICT when its hash differs; either way no table
  changes, so the money moves once.
\<close>

theorem transfer_retry:
  assumes "reachable w" "config_ok cfg"
    and "Ledger_Transfer intN (pg_ledger env cfg cash fees) req w = (Inr p, w1)"
    and "db_step\<^sup>*\<^sup>* w1 w2" "set (idempotency_keys (tabs w1)) \<subseteq> set (idempotency_keys (tabs w2))"
    and "no_faults env'" "act_UserID (mr_Actor req') = act_UserID (mr_Actor req)"
      "mr_IdempotencyKey req' = mr_IdempotencyKey req"
      "amountWithin (mr_AmountSen req') (cfg_MinTransfer cfg') (cfg_MaxTransfer cfg') = Inr m"
  shows "\<exists>w3. Ledger_Transfer intN' (pg_ledger env' cfg' cash' fees') req' w2 =
      (if mr_RequestHash req = mr_RequestHash req' then Inr p else Inl ErrIdempotencyConflict, w3)
    \<and> tabs w3 = tabs w2"
proof -
  let ?L = "pg_ledger env cfg cash fees"
  have "db_step\<^sup>*\<^sup>* w w1"
    using api_call_steps [OF api_call.transfer [OF assms(2,3)] reachable_inv [OF assms(1)]] .
  then have s2: "db_step\<^sup>*\<^sup>* w w2" using assms(4) by auto
  obtain a w0 q where sen: "in_int64 (mr_AmountSen req)"
    and a: "a \<in> set (accounts (tabs w))" "acc_UserID a = Some (act_UserID (mr_Actor req))"
      "acc_Type a = AccountUserWallet"
    and t1: "tabs w0 = tabs w" "seqs w0 = seqs w"
    and P: "postIdempotent ?L (MoneyRequest_claim req ''transfer'')
        (build_transfer intN ?L req (mr_AmountSen req) a) w0 = (Inr q, w1)"
    and p: "p = q\<lparr>pr_ViewerAccountID := Some (acc_ID a)\<rparr>"
    using money_op_Inr [OF assms(3) [unfolded Ledger_Transfer_def pg_ledger_simps]] by blast
  have B: "typed_build (build_transfer intN ?L req (mr_AmountSen req) a)"
    using build_transfer_typed [OF sen] assms(2) by (simp add: config_ok_def)
  have c: "clm_UserID (MoneyRequest_claim req' ''transfer'') = clm_UserID (MoneyRequest_claim req ''transfer'')"
    "clm_Key (MoneyRequest_claim req' ''transfer'') = clm_Key (MoneyRequest_claim req ''transfer'')"
    "clm_RequestHash (MoneyRequest_claim x ''transfer'') = mr_RequestHash x" for x :: transfer_request
    using assms(7,8) by (simp_all add: MoneyRequest_claim_def)
  show ?thesis
    using money_op_retry [where build = "build_transfer intN ?L req" and
        build' = "build_transfer intN' (pg_ledger env' cfg' cash' fees') req'" and
        cfg' = cfg' and cash' = cash' and fees' = fees',
        OF assms(1) B a t1 P reachable_steps [OF s2 assms(1)] steps_extend [OF assms(1) s2] assms(5,6,9) c(1,2)]
    unfolding Ledger_Transfer_def pg_ledger_simps p assms(7) c(3) .
qed

theorem transfer_retry_witness:
  "\<exists>w1 p w3. Ledger_Transfer (\<lambda>n. 0) (pg_ledger demo_env demo_cfg 1 [2, 4]) demo_transfer w1 = (Inr p, w3)
     \<and> tabs w3 = tabs w1"
proof -
  obtain w where w: "funded w" using demo_funded by blast
  then have r: "reachable w" by (simp add: funded_def)
  obtain x p w1 where T: "Ledger_Transfer (\<lambda>n. 0) (pg_ledger (demo_env2 x) demo_cfg 1 [2, 4]) demo_transfer w
      = (Inr p, w1)" using demo_transferred [OF w] by blast
  have m: "amountWithin (mr_AmountSen demo_transfer) (cfg_MinTransfer demo_cfg) (cfg_MaxTransfer demo_cfg) = Inr 3000"
    by (simp add: amountWithin_def NewMoney_def demo_transfer_def demo_cfg_def maxSafeAmount_def Rupiah_def)
  note again = transfer_retry [where intN' = "\<lambda>n. 0" and cash' = 1 and fees' = "[2, 4]",
      OF r demo_cfg_ok T rtranclp.rtrancl_refl subset_refl demo_no_faults refl refl m]
  then show ?thesis unfolding if_P [OF refl] by blast
qed

section \<open>Reversals\<close>

definition entry_of_row :: "entry_row \<times> account \<Rightarrow> entry" where
  "entry_of_row = (\<lambda>(e, a). \<lparr> ent_AccountID = er_account_id e, ent_Direction = er_direction e,
                                ent_Amount = er_amount e \<rparr>)"

lemma reversal_delta:
  assumes I: "db_inv T q" and a: "a \<in> set (accounts T)"
    and rows: "set rows = {(e, a). e \<in> set (entries T) \<and> a \<in> set (accounts T)
                        \<and> er_transaction_id e = i \<and> acc_ID a = er_account_id e}"
  shows "(case List.find (\<lambda>e. ent_AccountID e = acc_ID a) (map reverse_entry (map entry_of_row rows)) of
            None \<Rightarrow> 0 | Some e \<Rightarrow> entry_delta e (acc_NormalBalance a))
    = - computed_balance (filter (\<lambda>r. er_transaction_id r = i) (entries T)) a"
proof (cases "\<exists>r \<in> set (entries T). er_transaction_id r = i \<and> er_account_id r = acc_ID a")
  case True
  then obtain r where r: "r \<in> set (entries T)" "er_transaction_id r = i" "er_account_id r = acc_ID a" by blast
  have E: "entries_ok (accounts T) (transactions T) (entries T)" using I by (simp add: db_inv_def ledger_inv_def)
  then have key: "distinct (map (\<lambda>r. (er_transaction_id r, er_account_id r)) (entries T))"
    by (simp add: entries_ok_def)
  have "filter (\<lambda>x. er_account_id x = acc_ID a) (filter (\<lambda>x. er_transaction_id x = i) (entries T)) = [r]"
    using filter_by_key [OF key r(1)] r(2,3) by (simp add: conj_commute)
  then have C: "computed_balance (filter (\<lambda>x. er_transaction_id x = i) (entries T)) a
      = (if er_direction r = acc_NormalBalance a then er_amount r else - er_amount r)"
    by (simp add: computed_balance_def)
  let ?es = "map reverse_entry (map entry_of_row rows)" and ?p = "\<lambda>e. ent_AccountID e = acc_ID a"
  have "(r, a) \<in> set rows" using rows r a by simp
  then have "List.find ?p ?es \<noteq> None" using r(3) by (auto simp: find_None_iff entry_of_row_def intro!: bexI [of _ "(r, a)"])
  then obtain e where e: "List.find ?p ?es = Some e" by blast
  from find_SomeD [OF e] obtain x b where x: "(x, b) \<in> set rows" "e = reverse_entry (entry_of_row (x, b))"
    "er_account_id x = acc_ID a" by (auto simp: entry_of_row_def)
  then have "x = r" using rows r distinct_key_eq [OF key, of x r] by auto
  moreover have "Direction_Valid (er_direction r)" "Direction_Valid (acc_NormalBalance a)"
    using E r(1) normal_side [OF I a] by (auto simp: entries_ok_def)
  ultimately show ?thesis using e x C
    by (auto simp: entry_delta_def entry_of_row_def Direction_Valid_def Direction_Opposite_eq_iff)
next
  case False
  then have "filter (\<lambda>x. er_account_id x = acc_ID a) (filter (\<lambda>x. er_transaction_id x = i) (entries T)) = []"
    by (auto simp: filter_empty_conv)
  moreover have "List.find (\<lambda>e. ent_AccountID e = acc_ID a) (map reverse_entry (map entry_of_row rows)) = None"
    using False rows by (auto simp: find_None_iff entry_of_row_def)
  ultimately show ?thesis by (simp add: computed_balance_def)
qed

lemma build_reversal_Inr:
  assumes "build_reversal (pg_ledger env cfg cash fees) req w = (Inr txn, w')"
  shows "\<exists>t rows. t \<in> set (transactions (tabs w)) \<and> tr_id t = rr_TransactionID req
    \<and> tr_status t = TxnPosted \<and> tr_txn_type t \<noteq> TxnReversal
    \<and> set rows = {(e, a). e \<in> set (entries (tabs w)) \<and> a \<in> set (accounts (tabs w))
                        \<and> er_transaction_id e = rr_TransactionID req \<and> acc_ID a = er_account_id e}
    \<and> txn_Entries txn = map reverse_entry (map entry_of_row rows)
    \<and> txn_ReversesID txn = Some (rr_TransactionID req) \<and> txn_Type txn = TxnReversal"
proof -
  obtain p w1 where G: "LedgerRepo_GetTransaction env (rr_TransactionID req) None w = (Inr p, w1)"
    and N: "NewReversal (pr_Transaction p) (act_UserID (rr_Actor req)) (rr_Description req) = Inr txn"
    using assms by (auto simp: build_reversal_def bindP_Inr_iff liftR_iff)
  obtain t rows where t: "t \<in> set (transactions (tabs w))" "tr_id t = rr_TransactionID req"
    and rows: "set rows = {(e, a). e \<in> set (entries (tabs w)) \<and> a \<in> set (accounts (tabs w))
                        \<and> er_transaction_id e = rr_TransactionID req \<and> acc_ID a = er_account_id e}"
    and p: "txn_ID (pr_Transaction p) = tr_id t" "txn_Status (pr_Transaction p) = tr_status t"
      "txn_Type (pr_Transaction p) = tr_txn_type t"
      "txn_Entries (pr_Transaction p) = map entry_of_row rows"
    using GetTransaction_Inr [OF G] unfolding entry_of_row_def by fastforce
  note n = N [unfolded NewReversal_Inr_iff]
  show ?thesis
    by (rule exI [of _ t], rule exI [of _ rows]) (use t rows p n in simp)
qed

text \<open>
  C17 functional. A reversal that succeeds was asked for by an administrator, and either
  repeats a recorded answer and changes nothing, or undoes one posted transaction that is
  not itself a reversal: each account's balance changes by the opposite of what the entries
  of that transaction did to it, and the transaction is marked REVERSED.
\<close>

theorem reversal_undoes:
  assumes "reachable w" "Ledger_Reverse (pg_ledger env cfg cash fees) req w = (Inr p, w')"
  shows "Actor_IsAdmin (rr_Actor req) \<and> (replayed w (ReverseRequest_claim req) p w'
    \<or> (\<exists>t \<in> set (transactions (tabs w)). tr_id t = rr_TransactionID req \<and> tr_status t = TxnPosted
         \<and> tr_txn_type t \<noteq> TxnReversal
         \<and> t\<lparr>tr_status := TxnReversed\<rparr> \<in> set (transactions (tabs w'))
         \<and> (\<forall>a \<in> set (accounts (tabs w)). balance_in (tabs w') (acc_ID a) = acc_Balance a
              - computed_balance (filter (\<lambda>r. er_transaction_id r = tr_id t) (entries (tabs w))) a)))"
proof -
  let ?T = "tabs w" and ?c = "ReverseRequest_claim req" and ?L = "pg_ledger env cfg cash fees"
  have I: "db_inv ?T (seqs w)" by (rule reachable_inv [OF assms(1)])
  have admin: "Actor_IsAdmin (rr_Actor req)"
    and P: "postIdempotent ?L ?c (build_reversal ?L req) w = (Inr p, w')"
    using assms(2) by (auto simp: Ledger_Reverse_def split: if_splits)
  from postIdempotent_cases [OF build_reversal_typed I P]
  consider "replayed w ?c p w'" | w1 w2 txn where "build_reversal ?L req w1 = (Inr txn, w2)"
    "tabs w1 = ?T" "posted_now env w ?c txn p w'" by blast
  then show ?thesis
  proof cases
    case 1
    with admin show ?thesis by blast
  next
    case 2
    obtain t rows where t: "t \<in> set (transactions ?T)" "tr_id t = rr_TransactionID req"
      "tr_status t = TxnPosted" "tr_txn_type t \<noteq> TxnReversal"
      and rows: "set rows = {(e, a). e \<in> set (entries ?T) \<and> a \<in> set (accounts ?T)
                        \<and> er_transaction_id e = rr_TransactionID req \<and> acc_ID a = er_account_id e}"
      and txn: "txn_Entries txn = map reverse_entry (map entry_of_row rows)"
        "txn_ReversesID txn = Some (rr_TransactionID req)"
      using build_reversal_Inr [OF 2(1)] unfolding 2(2) by blast
    obtain tid eid where T': "tabs w' = posted_tables env tid eid (seqs w) txn ?c ?T"
      using 2(3) by (auto simp: posted_now_def)
    have "t\<lparr>tr_status := TxnReversed\<rparr> \<in> set (transactions (tabs w'))"
      using t by (auto simp: T' txn(2) mark_original_def set_update_where image_iff intro!: bexI [of _ t])
    moreover have "balance_in (tabs w') (acc_ID a) = acc_Balance a
        - computed_balance (filter (\<lambda>r. er_transaction_id r = tr_id t) (entries ?T)) a"
      if a: "a \<in> set (accounts ?T)" for a
    proof -
      have "account_by_id (accounts ?T) (acc_ID a) = Some a"
        using I a by (simp add: account_by_id_eq db_inv_def ledger_inv_def accounts_ok_def)
      then show ?thesis
        using reversal_delta [OF I a rows] balance_in_eq [OF I a] t(2)
        by (simp add: T' balance_in_posted txn(1))
    qed
    ultimately show ?thesis using admin t by blast
  qed
qed

text \<open>The topup of the funded database, reversed by an administrator.\<close>

definition demo_reverse :: "uuid \<Rightarrow> reverse_request" where
  "demo_reverse tid = \<lparr> rr_Actor = demo_actor 1 ''ADMIN'', rr_IdempotencyKey = ''k3'', rr_RequestHash = ''h3'',
     rr_TransactionID = tid, rr_Description = ''batal'' \<rparr>"

definition demo_reversal :: "uuid \<Rightarrow> transaction" where
  "demo_reversal tid = \<lparr> txn_ID = nil_uuid, txn_Type = TxnReversal, txn_Status = TxnPosted,
     txn_Description = ''batal'', txn_InitiatedBy = Some 1, txn_ReversesID = Some tid,
     txn_Entries = [\<lparr> ent_AccountID = 1, ent_Direction = DirectionCredit, ent_Amount = 5000 \<rparr>,
                    \<lparr> ent_AccountID = 11, ent_Direction = DirectionDebit, ent_Amount = 5000 \<rparr>],
     txn_CreatedAt = zero_time \<rparr>"

lemma demo_reversal_built:
  assumes "tabs w = posted_tables demo_env tid eid (seqs demo_two) demo_topup demo_claim (tabs demo_two)"
  shows "\<exists>w'. build_reversal (pg_ledger (demo_env2 x) demo_cfg 1 [2, 4]) (demo_reverse tid) w
    = (Inr (demo_reversal tid), w')"
proof -
  have es: "entries (tabs w) = [new_entry_row demo_env 1 tid 1 ''DEBIT'' 5000 5000,
      new_entry_row demo_env 2 tid 11 ''CREDIT'' 5000 5000]"
    by (simp add: assms demo_two_def demo_registered_def migrated_tables_def migrated_seqs_def
        demo_topup_def NewTopup_def balance_after_def account_by_id_def system_row_def
        new_wallet_row_def entry_delta_def DirectionDebit_def DirectionCredit_def)
  have ts: "transactions (tabs w) = [header_row demo_env tid demo_topup]"
    by (simp add: assms demo_two_def demo_registered_def migrated_tables_def mark_original_def
        demo_topup_def NewTopup_def)
  have as1: "filter (\<lambda>a. acc_ID a = 1) (accounts (tabs w)) = [settle 1000 (txn_Entries demo_topup)
      (system_row 0 of_nat 1 ''SYSTEM_CASH'' ''DEBIT'')]"
    by (simp add: assms demo_two_def demo_registered_def migrated_tables_def system_row_def
        new_wallet_row_def demo_env_def)
  have as11: "filter (\<lambda>a. acc_ID a = 11) (accounts (tabs w)) = [demo_wallet1]"
    by (simp add: assms demo_two_def demo_registered_def migrated_tables_def system_row_def
        new_wallet_row_def demo_wallet1_def demo_env_def)
  show ?thesis
    by (simp add: build_reversal_def bindP_def wrapP_def LedgerRepo_GetTransaction_def
        sql_select_transaction_def sql_select_entries_def es ts as1 as11 demo_reverse_def liftR_def
        NewReversal_def header_row_def new_txn_row_def new_entry_row_def demo_topup_def NewTopup_def
        txn_type_defs demo_reversal_def reverse_entry_def Direction_Opposite_def DirectionDebit_def
        DirectionCredit_def demo_actor_def Let_def TxnPosted_def)
qed

lemma demo_reversal_accepts:
  assumes "tabs w = posted_tables demo_env tid eid (seqs demo_two) demo_topup demo_claim (tabs demo_two)"
    and "x \<noteq> tid" "x \<noteq> eid"
  shows "post_accepts (demo_env2 x) x x (demo_reversal tid) (ReverseRequest_claim (demo_reverse tid)) (tabs w)"
proof -
  let ?es = "txn_Entries (demo_reversal tid)" and ?T = "tabs w" and ?env = "demo_env2 x"
  let ?c = "ReverseRequest_claim (demo_reverse tid)"
  note defs = demo_two_def demo_registered_def migrated_tables_def demo_topup_def NewTopup_def
  have ts: "transactions ?T = [header_row demo_env tid demo_topup]"
    by (simp add: assms(1) defs mark_original_def)
  have valid: "valid_transaction (demo_reversal tid)"
    by (simp add: valid_transaction_def demo_reversal_def well_formed_entries_def side_total_def
        DirectionDebit_def DirectionCredit_def Direction_Valid_def in_int64_def)
  have entries: "\<forall>e \<in> set ?es. entry_accepts (accounts ?T) e"
    by (simp add: assms(1) defs demo_reversal_def entry_accepts_def settle_def add_to_balance_def
        entry_delta_def system_row_def new_wallet_row_def in_int64_def AccountActive_def
        account_type_defs DirectionDebit_def DirectionCredit_def)
  have free: "claim_free ?T ?c"
    by (simp add: assms(1) defs posted_tables_def Let_def completed_claim_def new_idem_row_def
        claim_free_def demo_claim_def ReverseRequest_claim_def demo_reverse_def)
  have user: "clm_UserID ?c \<in> usr_ID ` set (users ?T)" "pred_option (\<lambda>u. u \<in> usr_ID ` set (users ?T))
      (txn_InitiatedBy (demo_reversal tid))"
    by (simp_all add: assms(1) defs posted_tables_def Let_def new_user_row_def ReverseRequest_claim_def
        demo_reverse_def demo_actor_def demo_reversal_def)
  have rev: "reversal_accepts (transactions ?T) (txn_ReversesID (demo_reversal tid))"
    by (simp add: ts reversal_accepts_def demo_reversal_def header_row_def new_txn_row_def defs TxnPosted_def)
  have check: "transactions_check (header_row ?env x (demo_reversal tid)) = None"
    by (rule transactions_check_header)
      (simp_all add: demo_reversal_def enum_txn_type_def txn_type_defs)
  have key: "1 \<le> char_length (clm_Key ?c) \<and> char_length (clm_Key ?c) \<le> 128"
    by (simp add: ReverseRequest_claim_def demo_reverse_def char_length_def)
  have fresh: "x \<notin> tr_id ` set (transactions ?T)" "x \<notin> ob_event_id ` set (outbox_events ?T)"
    using assms(2,3) by (simp_all add: ts header_row_def new_txn_row_def assms(1) posted_tables_def
        Let_def new_outbox_row_def defs)
  show ?thesis
    unfolding post_accepts_def using valid entries free user rev check key fresh by blast
qed

lemma demo_reversed:
  "\<exists>w x tid p w'. funded w \<and> Ledger_Reverse (pg_ledger (demo_env2 x) demo_cfg 1 [2, 4]) (demo_reverse tid) w
     = (Inr p, w') \<and> pg_answer (tabs w) 1 ''k3'' = None \<and> entries (tabs w) \<noteq> []"
proof -
  obtain w where w: "funded w" using demo_funded by blast
  then obtain tid eid where T: "tabs w =
      posted_tables demo_env tid eid (seqs demo_two) demo_topup demo_claim (tabs demo_two)"
    and q: "seqs w = posted_seqs demo_topup (seqs demo_two)" and r: "reachable w"
    by (auto simp: funded_def)
  obtain x where x: "x \<noteq> tid" "x \<noteq> eid" using fresh_word by blast
  let ?c = "ReverseRequest_claim (demo_reverse tid)" and ?L = "pg_ledger (demo_env2 x) demo_cfg 1 [2, 4]"
  note acc = demo_reversal_accepts [OF T x]
  have c: "clm_UserID ?c = 1" "clm_Key ?c = ''k3''"
    by (simp_all add: ReverseRequest_claim_def demo_reverse_def demo_actor_def)
  have free: "claim_free (tabs w) ?c" using acc by (simp add: post_accepts_def)
  have build: "\<exists>w2. build_reversal ?L (demo_reverse tid) w1 = (Inr (demo_reversal tid), w2)"
    if "tabs w1 = tabs w" for w1
    using demo_reversal_built T that by metis
  have "\<exists>p w'. postIdempotent ?L ?c (build_reversal ?L (demo_reverse tid)) w = (Inr p, w')"
  proof (rule postIdempotent_live [OF demo_env2_no_faults reachable_inv [OF r] build_reversal_typed _ _ free])
    show "clm_Key ?c \<noteq> ''''" "length (clm_Key ?c) \<le> 128" using c by simp_all
    show "post_accepts (demo_env2 x) (env_uuid (demo_env2 x) k) (env_uuid (demo_env2 x) l) (demo_reversal tid)
        ?c (tabs w)" for k l
      using acc by (simp add: demo_env2_def)
  qed (use build q in \<open>simp_all add: posted_seqs_def demo_reversal_def demo_two_def migrated_seqs_def
         demo_topup_def NewTopup_def\<close>)
  then obtain p w' where "Ledger_Reverse ?L (demo_reverse tid) w = (Inr p, w')"
    by (auto simp: Ledger_Reverse_def demo_reverse_def demo_actor_def Actor_IsAdmin_def RoleAdmin_def)
  moreover have "pg_answer (tabs w) 1 ''k3'' = None"
    using free c by (auto simp: pg_answer_def claim_free_def split: option.split dest!: find_SomeD)
  moreover have "entries (tabs w) \<noteq> []" by (simp add: T demo_topup_def NewTopup_def)
  ultimately show ?thesis using w by blast
qed

theorem reversal_undoes_witness:
  "\<exists>w (w'::pg). funded w \<and> (\<exists>t \<in> set (transactions (tabs w)). tr_status t = TxnPosted
     \<and> t\<lparr>tr_status := TxnReversed\<rparr> \<in> set (transactions (tabs w')))"
proof -
  obtain w x tid p w' where w: "funded w" and R: "Ledger_Reverse (pg_ledger (demo_env2 x) demo_cfg 1 [2, 4])
      (demo_reverse tid) w = (Inr p, w')" and new: "pg_answer (tabs w) 1 ''k3'' = None"
    using demo_reversed by blast
  have "reachable w" using w by (simp add: funded_def)
  from reversal_undoes [OF this R] new w show ?thesis
    by (auto simp: replayed_def ReverseRequest_claim_def demo_reverse_def demo_actor_def)
qed

section \<open>No second reversal\<close>

lemma postIdempotent_Inl:
  assumes B: "typed_build build" and I: "db_inv (tabs w) (seqs w)"
    and R: "postIdempotent (pg_ledger env cfg cash fees) c build w = (Inl e, w')"
  shows "tabs w' = tabs w"
proof (cases "clm_Key c = '''' \<or> length (clm_Key c) > 128")
  case True
  with R show ?thesis by (auto simp: postIdempotent_def)
next
  case key: False
  let ?L = "pg_ledger env cfg cash fees"
  obtain q w1 where Q: "replay ?L c w = (q, w1)" by fastforce
  note t1 = replay_step(2,3) [OF Q]
  show ?thesis
  proof (cases q)
    case (Some x)
    with R Q key t1 show ?thesis by (simp add: postIdempotent_def)
  next
    case None
    obtain b w2 where b: "build w1 = (b, w2)" by fastforce
    have t2: "tabs w2 = tabs w" "seqs w2 = seqs w"
      using B readsD [of build, OF _ b] t1 by (simp_all add: typed_build_def)
    show ?thesis
    proof (cases "\<exists>txn. b = Inr txn \<and> Transaction_Validate txn = None")
      case False
      with R Q key None b t2 show ?thesis
        by (cases b) (auto simp: postIdempotent_def bindP_def split: option.splits)
    next
      case True
      then obtain txn where txn: "b = Inr txn" "Transaction_Validate txn = None" by blast
      obtain r w3 where Po: "LedgerRepo_Post env txn c w2 = (r, w3)" by fastforce
      have P: "post_or_replay ?L c txn w2 = (Inl e, w')"
        using R Q key None b txn by (simp add: postIdempotent_def bindP_def)
      then obtain e' where "r = Inl e'" using Po by (cases r) (auto simp: post_or_replay_def)
      then have t3: "tabs w3 = tabs w2"
        using Po by (auto simp: LedgerRepo_Post_def split: option.splits dest: in_tx_Inl_tabs)
      obtain q2 w4 where Q2: "replay ?L c w3 = (q2, w4)" by fastforce
      have "w' = w3 \<or> w' = w4"
        using P Po \<open>r = Inl e'\<close> Q2 by (auto simp: post_or_replay_def split: if_splits option.splits)
      with replay_step(2) [OF Q2] t2 t3 show ?thesis by metis
    qed
  qed
qed

lemma reversed_refused:
  assumes Ts: "transactions_ok (transactions (tabs w))"
    and t: "t \<in> set (transactions (tabs w))" "tr_status t = TxnReversed" "rr_TransactionID req = tr_id t"
    and nf: "no_faults env" and admin: "Actor_IsAdmin (rr_Actor req)"
    and key: "rr_IdempotencyKey req \<noteq> ''''" "length (rr_IdempotencyKey req) \<le> 128"
    and free: "claim_free (tabs w) (ReverseRequest_claim req)"
    and R: "Ledger_Reverse (pg_ledger env cfg cash fees) req w = (r, w')"
  shows "r = Inl ErrAlreadyReversed"
proof -
  let ?T = "tabs w" and ?c = "ReverseRequest_claim req" and ?L = "pg_ledger env cfg cash fees"
  obtain w1 where Q: "replay ?L ?c w = (None, w1)" using replay_fresh [OF nf free] by blast
  have t1: "tabs w1 = ?T" by (rule replay_step(2) [OF Q])
  have "List.find (\<lambda>u. tr_id u = tr_id t) (transactions ?T) = Some t"
    using find_by_key [of tr_id "transactions ?T" t] Ts t(1) by (simp add: transactions_ok_def)
  then obtain p w2 where "LedgerRepo_GetTransaction env (tr_id t) None w1 = (Inr p, w2)"
    "txn_Status (pr_Transaction p) = TxnReversed"
    using nf t1 t(2) by (auto simp: LedgerRepo_GetTransaction_def bindP_def wrapP_def
        sql_select_transaction_def sql_select_entries_def Let_def)
  then have "build_reversal ?L req w1 = (Inl ErrAlreadyReversed, w2)"
    by (simp add: build_reversal_def bindP_def t(3) liftR_def NewReversal_def TxnReversed_def TxnPosted_def)
  with R Q admin key show ?thesis
    by (simp add: Ledger_Reverse_def postIdempotent_def ReverseRequest_claim_def bindP_def)
qed

text \<open>
  C18 safety. No transaction is reversed twice. In a reachable database at most one
  transaction links to a given original, and for an original marked REVERSED the reversal
  operation changes no table: it fails, or repeats the answer recorded for its key. With a
  new key and no failing statement an administrator gets ALREADY_REVERSED.
\<close>

theorem no_double_reversal:
  assumes "reachable w" "t \<in> set (transactions (tabs w))" "tr_status t = TxnReversed"
    and "rr_TransactionID req = tr_id t" "Ledger_Reverse (pg_ledger env cfg cash fees) req w = (r, w')"
  shows "(\<forall>u \<in> set (transactions (tabs w)). \<forall>v \<in> set (transactions (tabs w)).
            tr_reverses u = Some (tr_id t) \<and> tr_reverses v = Some (tr_id t) \<longrightarrow> u = v)
    \<and> tabs w' = tabs w \<and> (\<forall>p. r = Inr p \<longrightarrow> replayed w (ReverseRequest_claim req) p w')
    \<and> (no_faults env \<and> Actor_IsAdmin (rr_Actor req) \<and> rr_IdempotencyKey req \<noteq> ''''
         \<and> length (rr_IdempotencyKey req) \<le> 128 \<and> claim_free (tabs w) (ReverseRequest_claim req)
       \<longrightarrow> r = Inl ErrAlreadyReversed)"
proof -
  let ?T = "tabs w" and ?c = "ReverseRequest_claim req" and ?L = "pg_ledger env cfg cash fees"
  have I: "db_inv ?T (seqs w)" by (rule reachable_inv [OF assms(1)])
  then have Ts: "transactions_ok (transactions ?T)" by (simp add: db_inv_def ledger_inv_def)
  then have uniq: "u = t" if "u \<in> set (transactions ?T)" "tr_id u = tr_id t" for u
    using that assms(2) distinct_key_eq [of tr_id "transactions ?T"] by (simp add: transactions_ok_def)
  have one: "\<forall>u \<in> set (transactions ?T). \<forall>v \<in> set (transactions ?T).
      tr_reverses u = Some (tr_id t) \<and> tr_reverses v = Some (tr_id t) \<longrightarrow> u = v"
    using Ts unfolding transactions_ok_def by (metis option.discI)
  have replay: "replayed w ?c p w'" if p: "r = Inr p" for p
  proof -
    have P: "postIdempotent ?L ?c (build_reversal ?L req) w = (Inr p, w')"
      using assms(5) p by (auto simp: Ledger_Reverse_def split: if_splits)
    from postIdempotent_cases [OF build_reversal_typed I P] show ?thesis
    proof
      assume "\<exists>w1 w2 txn. build_reversal ?L req w1 = (Inr txn, w2) \<and> tabs w1 = ?T \<and> seqs w1 = seqs w
         \<and> posted_now env w ?c txn p w'"
      then obtain w1 w2 txn where "build_reversal ?L req w1 = (Inr txn, w2)" "tabs w1 = ?T" by blast
      from build_reversal_Inr [OF this(1)] this(2) obtain u where u: "u \<in> set (transactions ?T)"
        "tr_id u = tr_id t" and posted: "tr_status u = TxnPosted" unfolding assms(4) by auto
      from uniq [OF u] posted assms(3) show ?thesis by (simp add: TxnPosted_def TxnReversed_def)
    qed
  qed
  have same: "tabs w' = ?T"
  proof (cases r)
    case (Inr p)
    with replay show ?thesis by (simp add: replayed_def)
  next
    case (Inl e)
    with assms(5) show ?thesis
      using postIdempotent_Inl [OF build_reversal_typed I] by (auto simp: Ledger_Reverse_def split: if_splits)
  qed
  have "r = Inl ErrAlreadyReversed" if "no_faults env \<and> Actor_IsAdmin (rr_Actor req) \<and> rr_IdempotencyKey req \<noteq> ''''
      \<and> length (rr_IdempotencyKey req) \<le> 128 \<and> claim_free ?T ?c"
    using that by (intro reversed_refused [OF Ts assms(2-4) _ _ _ _ _ assms(5)]) auto
  with one same replay show ?thesis by blast
qed

theorem no_double_reversal_witness:
  "\<exists>w1 t x req r w2. reachable w1 \<and> t \<in> set (transactions (tabs w1)) \<and> tr_status t = TxnReversed
     \<and> Ledger_Reverse (pg_ledger (demo_env2 x) demo_cfg 1 [2, 4]) req w1 = (r, w2) \<and> tabs w2 = tabs w1"
proof -
  obtain w x tid p w' where w: "funded w" and R: "Ledger_Reverse (pg_ledger (demo_env2 x) demo_cfg 1 [2, 4])
      (demo_reverse tid) w = (Inr p, w')" and new: "pg_answer (tabs w) 1 ''k3'' = None"
    using demo_reversed by blast
  have r: "reachable w" using w by (simp add: funded_def)
  have P: "postIdempotent (pg_ledger (demo_env2 x) demo_cfg 1 [2, 4]) (ReverseRequest_claim (demo_reverse tid))
      (build_reversal (pg_ledger (demo_env2 x) demo_cfg 1 [2, 4]) (demo_reverse tid)) w = (Inr p, w')"
    using R by (auto simp: Ledger_Reverse_def split: if_splits)
  have "\<not> replayed w (ReverseRequest_claim (demo_reverse tid)) p w'"
    using new by (simp add: replayed_def ReverseRequest_claim_def demo_reverse_def demo_actor_def)
  with postIdempotent_cases [OF build_reversal_typed reachable_inv [OF r] P] obtain w1 w2 txn where
    B: "build_reversal (pg_ledger (demo_env2 x) demo_cfg 1 [2, 4]) (demo_reverse tid) w1 = (Inr txn, w2)"
      "tabs w1 = tabs w" and N: "posted_now (demo_env2 x) w (ReverseRequest_claim (demo_reverse tid)) txn p w'"
    by blast
  from build_reversal_Inr [OF B(1)] B(2) obtain t where t: "t \<in> set (transactions (tabs w))" "tr_id t = tid"
    "tr_status t = TxnPosted" "txn_ReversesID txn = Some tid" by (auto simp: demo_reverse_def)
  then have t': "t\<lparr>tr_status := TxnReversed\<rparr> \<in> set (transactions (tabs w'))"
    using N by (auto simp: posted_now_def mark_original_def set_update_where image_iff intro!: bexI [of _ t])
  have r': "reachable w'"
    using reachable_steps [OF api_call_steps [OF api_call.reverse [OF demo_cfg_ok R] reachable_inv [OF r]] r] .
  obtain r2 w3 where R2: "Ledger_Reverse (pg_ledger (demo_env2 x) demo_cfg 1 [2, 4])
      ((demo_reverse tid)\<lparr>rr_IdempotencyKey := ''k4''\<rparr>) w' = (r2, w3)" by fastforce
  have "tabs w3 = tabs w'"
    using no_double_reversal [OF r' t' _ _ R2] t(2) by (simp add: demo_reverse_def)
  with r' t' R2 show ?thesis by (intro exI conjI) (assumption | simp)+
qed

end
