(* ===== verification/Races.thy ===== *)
theory Races
  imports Reading Retry
begin

text \<open>
  Transfers under concurrency: other requests, the relay and the consumer take any steps before
  each store call of a transfer. What it read of the accounts may be out of date when it posts;
  it moves the money all the same, exactly once for its key.
\<close>

section \<open>The ledger service with other requests in between\<close>

definition raced_ledger ::
    "(pg \<Rightarrow> pg) \<Rightarrow> env \<Rightarrow> ledger_config \<Rightarrow> int64 \<Rightarrow> int64 list \<Rightarrow> pg Ledger" where
  "raced_ledger f env cfg cash fees =
     \<lparr> L_store =
         \<lparr> ls_Post = (\<lambda>txn c. raced f (LedgerRepo_Post env txn c)),
           ls_GetTransaction = (\<lambda>i v. raced f (LedgerRepo_GetTransaction env i v)),
           ls_TrialBalance = raced f (LedgerRepo_TrialBalance env),
           ls_BalanceDrift = raced f (LedgerRepo_BalanceDrift env) \<rparr>,
       L_accounts =
         \<lparr> as_GetByPublicID = (\<lambda>i. raced f (AccountRepo_GetByPublicID env i)),
           as_GetWalletByUserID = (\<lambda>u. raced f (AccountRepo_GetWalletByUserID env u)),
           as_SystemAccount = (\<lambda>t. raced f (AccountRepo_SystemAccount env t)),
           as_SystemAccounts = (\<lambda>t. raced f (AccountRepo_SystemAccounts env t)),
           as_ListEntries = (\<lambda>a c l. raced f (AccountRepo_ListEntries env a c l)) \<rparr>,
       L_idem = \<lparr> is_Find = (\<lambda>u k. raced f (IdempotencyRepo_Find env u k)) \<rparr>,
       L_cfg = cfg, L_cashID = cash, L_feeIDs = fees \<rparr>"

lemma raced_ledger_simps [simp]:
  "ls_Post (L_store (raced_ledger f env cfg cash fees)) = (\<lambda>txn c. raced f (LedgerRepo_Post env txn c))"
  "as_GetByPublicID (L_accounts (raced_ledger f env cfg cash fees)) = (\<lambda>i. raced f (AccountRepo_GetByPublicID env i))"
  "as_GetWalletByUserID (L_accounts (raced_ledger f env cfg cash fees)) = (\<lambda>u. raced f (AccountRepo_GetWalletByUserID env u))"
  "is_Find (L_idem (raced_ledger f env cfg cash fees)) = (\<lambda>u k. raced f (IdempotencyRepo_Find env u k))"
  "L_cfg (raced_ledger f env cfg cash fees) = cfg" "L_feeIDs (raced_ledger f env cfg cash fees) = fees"
  by (simp_all add: raced_ledger_def)

lemma raced_uses: "raced_idem.uses f env (raced_ledger f env cfg cash fees)"
  by (simp add: raced_idem.uses_def)

lemma raced_replay:
  "replay (raced_ledger f env cfg cash fees) c w = replay (pg_ledger env cfg cash fees) c (elsewhere f w)"
  by (simp add: replay_def raced_def)

text \<open>A store call that reads, with what it returns and where it leaves the database.\<close>

lemma raced_reads:
  assumes "reads m" "raced f m w = (r, w')"
  shows "m (elsewhere f w) = (r, w')" "db_step\<^sup>*\<^sup>* w w'" "tabs w' = tabs (elsewhere f w)"
    "pg_sound w \<Longrightarrow> pg_sound w'"
proof -
  show m: "m (elsewhere f w) = (r, w')" using assms(2) by (simp add: raced_def)
  note R = readsD [OF assms(1) m]
  have "db_step (elsewhere f w) w'" using R by (auto intro: db_step.read)
  with elsewhere_steps show s: "db_step\<^sup>*\<^sup>* w w'" by (rule rtranclp.rtrancl_into_rtrancl)
  show "tabs w' = tabs (elsewhere f w)" using R by simp
  show "pg_sound w \<Longrightarrow> pg_sound w'" by (rule db_steps_sound [OF s])
qed

lemma raced_build_transfer:
  assumes "build_transfer intN (raced_ledger f env cfg cash fees) req m a w = (r, w')"
  shows "db_step\<^sup>*\<^sup>* w w'"
    and "r = Inr txn \<Longrightarrow> \<exists>b. b \<in> set (accounts (tabs w')) \<and> acc_PublicID b = mr_ToAccountPublicID req
      \<and> acc_Type b = AccountUserWallet
      \<and> NewTransfer (acc_ID a) (acc_ID b) (pickFeeShard intN (pg_ledger env cfg cash fees)) m
          (cfg_TransferFee cfg) (act_UserID (mr_Actor req)) (mr_Description req) = Inr txn"
proof -
  obtain q w1 where G: "raced f (AccountRepo_GetByPublicID env (mr_ToAccountPublicID req)) w = (q, w1)" by fastforce
  note R = raced_reads [OF reads_queries(1) G]
  have w': "w' = w1" using assms G
    by (auto simp: build_transfer_def bindP_def liftR_def split: sum.splits if_splits)
  then show "db_step\<^sup>*\<^sup>* w w'" using R(2) by simp
  have pick: "pickFeeShard intN (raced_ledger f env cfg cash fees) = pickFeeShard intN (pg_ledger env cfg cash fees)"
    by (simp add: pickFeeShard_def)
  show "\<exists>b. b \<in> set (accounts (tabs w')) \<and> acc_PublicID b = mr_ToAccountPublicID req
      \<and> acc_Type b = AccountUserWallet
      \<and> NewTransfer (acc_ID a) (acc_ID b) (pickFeeShard intN (pg_ledger env cfg cash fees)) m
          (cfg_TransferFee cfg) (act_UserID (mr_Actor req)) (mr_Description req) = Inr txn" if "r = Inr txn"
    using assms that G GetByPublicID_Inr R(1) w' pick
    by (fastforce simp: build_transfer_def bindP_Inr_iff liftR_iff split: if_splits)
qed

lemma raced_build_transfer_builds:
  assumes "in_int64 m" "in_int64 (cfg_TransferFee cfg)"
  shows "raced_idem.builds (build_transfer intN (raced_ledger f env cfg cash fees) req m a)"
  unfolding raced_idem.builds_def
proof (intro allI impI conjI)
  fix w r w' assume I: "pg_sound w"
    and B: "build_transfer intN (raced_ledger f env cfg cash fees) req m a w = (r, w')"
  show s: "db_step\<^sup>*\<^sup>* w w'" by (rule raced_build_transfer(1) [OF B])
  show "pg_sound w'" by (rule db_steps_sound [OF s I])
  show "amounts_in_range txn" if "r = Inr txn" for txn
    using raced_build_transfer(2) [OF B that] NewTransfer_typed [OF assms] by blast
qed

section \<open>A transfer that races\<close>

text \<open>
  A posting of the transfer \<open>req\<close> from \<open>w1\<close> to \<open>w'\<close>: what it does to the balances.
\<close>

definition transferred_at ::
    "ledger_config \<Rightarrow> int64 list \<Rightarrow> transfer_request \<Rightarrow> pg \<Rightarrow> pg \<Rightarrow> bool" where
  "transferred_at cfg fees req w1 w' \<longleftrightarrow>
     (\<exists>a \<in> set (accounts (tabs w1)). \<exists>b \<in> set (accounts (tabs w1)). \<exists>s \<in> set fees.
         acc_UserID a = Some (act_UserID (mr_Actor req)) \<and> acc_Type a = AccountUserWallet
         \<and> acc_PublicID b = mr_ToAccountPublicID req \<and> acc_Type b = AccountUserWallet \<and> acc_ID a \<noteq> acc_ID b
         \<and> cfg_MinTransfer cfg \<le> mr_AmountSen req \<and> mr_AmountSen req \<le> cfg_MaxTransfer cfg
         \<and> mr_AmountSen req + cfg_TransferFee cfg \<le> balance_in (tabs w1) (acc_ID a)
         \<and> (\<forall>i. balance_in (tabs w') i = balance_in (tabs w1) i
               + transfer_delta (acc_ID a) (acc_ID b) s (mr_AmountSen req) (cfg_TransferFee cfg) i))"

lemma posted_transfer_at:
  assumes r: "reachable w0" "db_step\<^sup>*\<^sup>* w0 w1" and sh: "fee_shards (tabs w0) fees"
    and a: "a \<in> set (accounts (tabs w0))" "acc_UserID a = Some (act_UserID (mr_Actor req))" "acc_Type a = AccountUserWallet"
    and b: "b \<in> set (accounts (tabs wb))" "acc_PublicID b = mr_ToAccountPublicID req" "acc_Type b = AccountUserWallet"
      "reachable wb" "db_step\<^sup>*\<^sup>* wb w1"
    and s: "s \<in> set fees" and lim: "cfg_MinTransfer cfg \<le> mr_AmountSen req" "mr_AmountSen req \<le> cfg_MaxTransfer cfg"
    and m: "in_int64 (mr_AmountSen req)" "in_int64 (cfg_TransferFee cfg)"
    and N: "NewTransfer (acc_ID a) (acc_ID b) s (mr_AmountSen req) (cfg_TransferFee cfg) u d = Inr txn"
    and P: "LedgerRepo_Post env txn c w1 = (Inr q, w')"
  shows "transferred_at cfg fees req w1 w'"
proof -
  have r1: "reachable w1" by (rule reachable_steps [OF r(2,1)])
  note I = reachable_inv [OF r1]
  obtain a1 where a1: "a1 \<in> set (accounts (tabs w1))" "acc_key a1 = acc_key a"
    using extends_account [OF steps_extend [OF r] a(1)] by blast
  obtain b1 where b1: "b1 \<in> set (accounts (tabs w1))" "acc_key b1 = acc_key b"
    using extends_account [OF steps_extend [OF b(4,5)] b(1)] by blast
  have ka: "acc_ID a1 = acc_ID a" "acc_UserID a1 = acc_UserID a" "acc_Type a1 = acc_Type a"
    and kb: "acc_ID b1 = acc_ID b" "acc_PublicID b1 = acc_PublicID b" "acc_Type b1 = acc_Type b"
    using a1(2) b1(2) by (simp_all add: acc_key_def)
  obtain s1 where s1: "s1 \<in> set (accounts (tabs w1))" "acc_Type s1 = AccountSystemFeeRevenue" "acc_ID s1 = s"
    using fee_shards_later [OF sh steps_extend [OF r]] s unfolding fee_shards_def by blast
  have typed: "amounts_in_range txn" by (rule NewTransfer_typed [OF m N])
  have D: "distinct (map acc_ID (accounts (tabs w1)))"
    using I by (simp add: db_inv_def ledger_inv_def accounts_ok_def)
  from LedgerRepo_Post_sound [OF P D typed] obtain tid eid where
    acc: "post_accepts env tid eid txn c (tabs w1)"
    and T: "tabs w' = posted_tables env tid eid (seqs w1) txn c (tabs w1)" by metis
  have N1: "NewTransfer (acc_ID a1) (acc_ID b1) (acc_ID s1) (mr_AmountSen req) (cfg_TransferFee cfg) u d = Inr txn"
    using N ka kb s1 by simp
  note B = posted_transfer_balances [OF I a1(1) b1(1) _ _ s1(1,2) m N1 acc]
  have "acc_ID a1 \<noteq> acc_ID b1" using N1 by (auto simp: NewTransfer_def)
  with B a1(1) b1(1) a b ka kb s1(3) s lim T show ?thesis
    unfolding transferred_at_def by (intro bexI [of _ a1] bexI [of _ b1] bexI [of _ s]) auto
qed

text \<open>How a transfer that returns got there: the wallet it read, and the run of the protocol.\<close>

lemma raced_transfer_Inr:
  assumes r: "reachable w" "config_ok cfg"
    and T: "Ledger_Transfer intN (raced_ledger f env cfg cash fees) req w = (Inr p, w')"
  shows "\<exists>a w2 q. db_step\<^sup>*\<^sup>* w w2 \<and> a \<in> set (accounts (tabs w2))
    \<and> acc_UserID a = Some (act_UserID (mr_Actor req)) \<and> acc_Type a = AccountUserWallet
    \<and> cfg_MinTransfer cfg \<le> mr_AmountSen req \<and> mr_AmountSen req \<le> cfg_MaxTransfer cfg
    \<and> in_int64 (mr_AmountSen req) \<and> p = q\<lparr>pr_ViewerAccountID := Some (acc_ID a)\<rparr>
    \<and> postIdempotent (raced_ledger f env cfg cash fees) (MoneyRequest_claim req ''transfer'')
        (build_transfer intN (raced_ledger f env cfg cash fees) req (mr_AmountSen req) a) w2 = (Inr q, w')"
proof -
  let ?L = "raced_ledger f env cfg cash fees" and ?c = "MoneyRequest_claim req ''transfer''"
  from T obtain m w0 a w2 where A: "liftR (amountWithin (mr_AmountSen req) (cfg_MinTransfer cfg) (cfg_MaxTransfer cfg)) w = (Inr m, w0)"
      "raced f (AccountRepo_GetWalletByUserID env (act_UserID (mr_Actor req))) w0 = (Inr a, w2)"
    and M: "markViewer (postIdempotent ?L ?c (build_transfer intN ?L req m a)) (acc_ID a) w2 = (Inr p, w')"
    unfolding Ledger_Transfer_def raced_ledger_simps bindP_Inr_iff by blast
  from A have m: "amountWithin (mr_AmountSen req) (cfg_MinTransfer cfg) (cfg_MaxTransfer cfg) = Inr m"
    and G: "raced f (AccountRepo_GetWalletByUserID env (act_UserID (mr_Actor req))) w = (Inr a, w2)"
    by (simp_all add: liftR_iff)
  from M obtain q where "postIdempotent ?L ?c (build_transfer intN ?L req m a) w2 = (Inr q, w')"
      "p = q\<lparr>pr_ViewerAccountID := Some (acc_ID a)\<rparr>" unfolding markViewer_def bindP_Inr_iff by auto
  moreover note R = raced_reads [OF reads_queries(2) G]
  moreover have "a \<in> set (accounts (tabs w2))" "acc_UserID a = Some (act_UserID (mr_Actor req))"
    "acc_Type a = AccountUserWallet" using GetWallet_Inr [OF R(1)] R(3) by simp_all
  moreover have "m = mr_AmountSen req" "cfg_MinTransfer cfg \<le> m" "m \<le> cfg_MaxTransfer cfg" "in_int64 m"
    using amountWithin_Inr [OF m] by auto
  ultimately show ?thesis by blast
qed

text \<open>A result that comes from the record, and one that was posted.\<close>

lemma raced_from_record:
  assumes "raced_idem.from_record (raced_ledger f env cfg cash fees) c w q w'"
  shows "\<exists>w1. db_step\<^sup>*\<^sup>* w w1 \<and> replayed w1 c q w'"
proof -
  let ?L = "raced_ledger f env cfg cash fees"
  obtain s1 where s1: "pg_sound s1" "db_step\<^sup>*\<^sup>* w s1" "replay ?L c s1 = (Some (Inr q), w')"
    using assms unfolding raced_idem.from_record_def by blast
  note X = s1(3) [unfolded raced_replay]
  have "replayed (elsewhere f s1) c q w'"
    using pg_idem.replay_sound [OF pg_ledger_uses elsewhere_sound [OF s1(1)] X] replay_step(2) [OF X]
    by (simp add: replayed_def)
  with s1(2) elsewhere_steps show ?thesis by (meson rtranclp_trans)
qed

lemma raced_from_posting:
  assumes w: "reachable w" "fee_shards (tabs w) fees" "\<And>n. 0 < n \<Longrightarrow> intN n < n"
    and a: "a \<in> set (accounts (tabs w))" "acc_UserID a = Some (act_UserID (mr_Actor req))" "acc_Type a = AccountUserWallet"
    and lim: "cfg_MinTransfer cfg \<le> mr_AmountSen req" "mr_AmountSen req \<le> cfg_MaxTransfer cfg"
    and m: "in_int64 (mr_AmountSen req)" "in_int64 (cfg_TransferFee cfg)"
    and P: "raced_idem.from_posting f env (build_transfer intN (raced_ledger f env cfg cash fees) req (mr_AmountSen req) a)
      c w q w'"
  shows "\<exists>w1. db_step\<^sup>*\<^sup>* w w1 \<and> transferred_at cfg fees req w1 w'"
proof -
  let ?L = "raced_ledger f env cfg cash fees" and ?s = "pickFeeShard intN (pg_ledger env cfg cash fees)"
  obtain s1 txn s2 where s: "db_step\<^sup>*\<^sup>* w s1" "build_transfer intN ?L req (mr_AmountSen req) a s1 = (Inr txn, s2)"
    "raced f (LedgerRepo_Post env txn c) s2 = (Inr q, w')"
    using P unfolding raced_idem.from_posting_def by blast
  obtain b where b: "b \<in> set (accounts (tabs s2))" "acc_PublicID b = mr_ToAccountPublicID req"
    "acc_Type b = AccountUserWallet"
    and N: "NewTransfer (acc_ID a) (acc_ID b) ?s (mr_AmountSen req) (cfg_TransferFee cfg)
      (act_UserID (mr_Actor req)) (mr_Description req) = Inr txn"
    using raced_build_transfer(2) [OF s(2) refl] by blast
  have shard: "?s \<in> set fees"
    using pickFeeShard_in [of "pg_ledger env cfg cash fees" intN] w(2,3) by (simp add: fee_shards_def)
  have st: "db_step\<^sup>*\<^sup>* w s2" using s(1) raced_build_transfer(1) [OF s(2)] by (meson rtranclp_trans)
  then have later: "db_step\<^sup>*\<^sup>* w (elsewhere f s2)" using elsewhere_steps by (meson rtranclp_trans)
  have "transferred_at cfg fees req (elsewhere f s2) w'"
    using posted_transfer_at [OF w(1) later w(2) a b reachable_steps [OF st w(1)] elsewhere_steps shard lim m N] s(3)
    by (simp add: raced_def)
  with later show ?thesis by blast
qed

text \<open>
  A race: the client has sent the same transfer twice, and the other copy is posted after this
  one checked its amounts and before it reads the wallet.
\<close>

lemma demo_raced:
  "\<exists>w x f p w'. funded w \<and> tabs (elsewhere f w) \<noteq> tabs w
     \<and> Ledger_Transfer (\<lambda>n. 0) (raced_ledger f (demo_env2 x) demo_cfg 1 [2, 4]) demo_transfer w = (Inr p, w')"
proof -
  let ?c = "MoneyRequest_claim demo_transfer ''transfer''" and ?t = demo_transfer
  obtain w where w: "funded w" using demo_funded by blast
  then have r: "reachable w" by (simp add: funded_def)
  obtain x p w1 where T: "Ledger_Transfer (\<lambda>n. 0) (pg_ledger (demo_env2 x) demo_cfg 1 [2, 4]) ?t w = (Inr p, w1)"
    using demo_transferred [OF w] by blast
  have s1: "db_step\<^sup>*\<^sup>* w w1"
    by (rule api_call_steps [OF api_call.transfer [OF demo_cfg_ok T] reachable_inv [OF r]])
  have I1: "db_inv (tabs w1) (seqs w1)" by (rule reachable_inv [OF reachable_steps [OF s1 r]])
  obtain a w0 q where A: "amountWithin (mr_AmountSen ?t) (cfg_MinTransfer demo_cfg) (cfg_MaxTransfer demo_cfg)
        = Inr (mr_AmountSen ?t)" "in_int64 (mr_AmountSen ?t)"
    and a: "a \<in> set (accounts (tabs w))" "acc_UserID a = Some (act_UserID (mr_Actor ?t))"
      "acc_Type a = AccountUserWallet"
    and t0: "tabs w0 = tabs w" "seqs w0 = seqs w"
    and P: "postIdempotent (pg_ledger (demo_env2 x) demo_cfg 1 [2, 4]) ?c
       (build_transfer (\<lambda>n. 0) (pg_ledger (demo_env2 x) demo_cfg 1 [2, 4]) ?t (mr_AmountSen ?t) a) w0 = (Inr q, w1)"
    using money_op_Inr [OF T [unfolded Ledger_Transfer_def pg_ledger_simps]] by blast
  have "typed_build (build_transfer (\<lambda>n. 0) (pg_ledger (demo_env2 x) demo_cfg 1 [2, 4]) ?t (mr_AmountSen ?t) a)"
    using build_transfer_typed [OF A(2)] demo_cfg_ok by (simp add: config_ok_def)
  moreover have "pg_sound w0" using reachable_inv [OF r] t0 by (simp add: pg_sound_def)
  ultimately have ans: "pg_answer (tabs w1) (clm_UserID ?c) (clm_Key ?c) = Some (clm_RequestHash ?c, q)"
    using pg_idem.returned_is_recorded [OF pg_ledger_uses _ typed_build_builds P] by blast
  have key: "clm_Key ?c \<noteq> ''''" "length (clm_Key ?c) \<le> 128" using P by (auto simp: postIdempotent_def split: if_splits)
  have "pg_answer (tabs w) (clm_UserID ?c) (clm_Key ?c) = None"
    using funded_ready [OF w] by (auto simp: transfer_ready_def request_ready_def claim_free_def pg_answer_def
        find_None_iff split: option.split dest!: find_SomeD)
  with ans have new: "tabs w1 \<noteq> tabs w" by auto
  let ?f = "\<lambda>v. if tabs v = tabs w then w1 else v"
  have e: "elsewhere ?f w = w1" "tabs v \<noteq> tabs w \<Longrightarrow> elsewhere ?f v = v" for v
    using s1 by (simp_all add: elsewhere_def)
  obtain b where b: "b \<in> set (accounts (tabs w1))" "acc_key b = acc_key a"
    using extends_account [OF steps_extend [OF r s1] a(1)] by blast
  obtain y w4 where G: "AccountRepo_GetWalletByUserID (demo_env2 x) (act_UserID (mr_Actor ?t)) w1 = (Inr y, w4)"
    using GetWallet_live [OF demo_env2_no_faults b(1)] b(2) a by (fastforce simp: acc_key_def)
  have t4: "tabs w4 = tabs w1" "pg_sound w4" using GetWallet_Inr [OF G] I1 by (auto simp: pg_sound_def)
  obtain w5 where "replay (pg_ledger (demo_env2 x) demo_cfg 1 [2, 4]) ?c w4 = (Some (Inr q), w5)"
    using pg_idem.replay_live [OF pg_ledger_uses t4(2) demo_env2_no_faults, of ?c "clm_RequestHash ?c" q x demo_cfg 1
        "[2, 4]"] ans t4(1) by auto
  then have "replay (raced_ledger ?f (demo_env2 x) demo_cfg 1 [2, 4]) ?c w4 = (Some (Inr q), w5)"
    using e(2) t4(1) new by (simp add: raced_replay)
  moreover have "raced ?f (AccountRepo_GetWalletByUserID (demo_env2 x) (act_UserID (mr_Actor ?t))) w = (Inr y, w4)"
    using G e(1) by (simp add: raced_def)
  ultimately have "\<exists>p w'. Ledger_Transfer (\<lambda>n. 0) (raced_ledger ?f (demo_env2 x) demo_cfg 1 [2, 4]) ?t w = (Inr p, w')"
    using A(1) key by (simp add: Ledger_Transfer_def bindP_def liftR_def markViewer_def postIdempotent_def retP_def)
  moreover have "tabs (elsewhere ?f w) \<noteq> tabs w" unfolding e(1) by (rule new)
  ultimately show ?thesis using w by blast
qed

text \<open>
  C16 functional. Racing requests do not hurt a transfer. Let other requests do anything the
  system can do before each database call of a transfer. If it returns a result, this result is
  recorded under its user, key and request hash when it returns; and either it comes from the
  record, and the last call changed no table, or the last call posted the transfer on the
  database \<open>w1\<close> of that instant: the sender's wallet covers amount and fee there, the recipient
  gains the amount, one fee account the fee, and no other balance changes.
\<close>

theorem racing_transfer:
  assumes "reachable w" "config_ok cfg" "fee_shards (tabs w) fees" "\<And>n. 0 < n \<Longrightarrow> intN n < n"
    and "Ledger_Transfer intN (raced_ledger f env cfg cash fees) req w = (Inr p, w')"
  shows "reachable w' \<and> (\<exists>q i. p = q\<lparr>pr_ViewerAccountID := Some i\<rparr>
    \<and> pg_answer (tabs w') (act_UserID (mr_Actor req)) (mr_IdempotencyKey req) = Some (mr_RequestHash req, q)
    \<and> (\<exists>w1. db_step\<^sup>*\<^sup>* w w1 \<and> (replayed w1 (MoneyRequest_claim req ''transfer'') q w'
         \<or> transferred_at cfg fees req w1 w')))"
proof -
  let ?L = "raced_ledger f env cfg cash fees" and ?c = "MoneyRequest_claim req ''transfer''"
  have c: "clm_UserID ?c = act_UserID (mr_Actor req)" "clm_Key ?c = mr_IdempotencyKey req"
    "clm_RequestHash ?c = mr_RequestHash req" by (simp_all add: MoneyRequest_claim_def)
  have fee: "in_int64 (cfg_TransferFee cfg)" using assms(2) by (simp add: config_ok_def)
  obtain a w2 q where s: "db_step\<^sup>*\<^sup>* w w2"
    and a: "a \<in> set (accounts (tabs w2))" "acc_UserID a = Some (act_UserID (mr_Actor req))" "acc_Type a = AccountUserWallet"
    and m: "cfg_MinTransfer cfg \<le> mr_AmountSen req" "mr_AmountSen req \<le> cfg_MaxTransfer cfg" "in_int64 (mr_AmountSen req)"
    and p: "p = q\<lparr>pr_ViewerAccountID := Some (acc_ID a)\<rparr>"
    and P: "postIdempotent ?L ?c (build_transfer intN ?L req (mr_AmountSen req) a) w2 = (Inr q, w')"
    using raced_transfer_Inr [OF assms(1,2,5)] by blast
  have r2: "reachable w2" by (rule reachable_steps [OF s assms(1)])
  then have S2: "pg_sound w2" using reachable_inv by (simp add: pg_sound_def)
  have sh: "fee_shards (tabs w2) fees" by (rule fee_shards_later [OF assms(3) steps_extend [OF assms(1) s]])
  note run = raced_uses S2 raced_build_transfer_builds [OF m(3) fee] P
  have "db_step\<^sup>*\<^sup>* w2 w'" and rec: "pg_answer (tabs w') (clm_UserID ?c) (clm_Key ?c) = Some (clm_RequestHash ?c, q)"
    using raced_idem.returned_is_recorded [OF run] by simp_all
  then have rw: "reachable w'" using reachable_steps r2 by blast
  have "\<exists>w1. db_step\<^sup>*\<^sup>* w2 w1 \<and> (replayed w1 ?c q w' \<or> transferred_at cfg fees req w1 w')"
    using raced_idem.postIdempotent_origin [OF run] raced_from_record
      raced_from_posting [OF r2 sh assms(4) a m fee] by blast
  then have "\<exists>w1. db_step\<^sup>*\<^sup>* w w1 \<and> (replayed w1 ?c q w' \<or> transferred_at cfg fees req w1 w')"
    using s by (meson rtranclp_trans)
  with p rec rw show ?thesis unfolding c by blast
qed

theorem racing_transfer_witness:
  "\<exists>w x f p w'. tabs (elsewhere f w) \<noteq> tabs w
     \<and> Ledger_Transfer (\<lambda>n. 0) (raced_ledger f (demo_env2 x) demo_cfg 1 [2, 4]) demo_transfer w = (Inr p, w')
     \<and> reachable w' \<and> (\<exists>q. pg_answer (tabs w') 1 ''k2'' = Some (mr_RequestHash demo_transfer, q))"
proof -
  obtain w x f p w' where w: "funded w" and d: "tabs (elsewhere f w) \<noteq> tabs w"
    and T: "Ledger_Transfer (\<lambda>n. 0) (raced_ledger f (demo_env2 x) demo_cfg 1 [2, 4]) demo_transfer w = (Inr p, w')"
    using demo_raced by blast
  have "reachable w" using w by (simp add: funded_def)
  from racing_transfer [OF this demo_cfg_ok funded_fees [OF w] _ T] obtain q where "reachable w'"
    "pg_answer (tabs w') (act_UserID (mr_Actor demo_transfer)) (mr_IdempotencyKey demo_transfer)
     = Some (mr_RequestHash demo_transfer, q)" by auto
  moreover have "act_UserID (mr_Actor demo_transfer) = 1" "mr_IdempotencyKey demo_transfer = ''k2''"
    by (simp_all add: demo_transfer_def demo_actor_def)
  ultimately show ?thesis using d T by metis
qed

end
