(* ===== verification/Refusals.thy ===== *)
theory Refusals
  imports Operations
begin

text \<open>
  When the service says no: without faults, which error a posting, a transfer and a withdrawal
  answer on accounts that are not active and on wallets that do not hold enough, and that a
  refusal leaves every table as it was.
\<close>

section \<open>Refused postings\<close>

text \<open>The answer is the error \<open>err\<close>, as it is or with one message around it.\<close>

definition answers :: "err \<Rightarrow> err \<Rightarrow> bool" where
  "answers err e \<longleftrightarrow> e = err \<or> (\<exists>f args. e = Wrapf f args err)"

lemma answers_simps [simp]: "answers err err" "answers err (Wrapf f args err)"
  by (simp_all add: answers_def)

definition refused :: "pg \<Rightarrow> err \<Rightarrow> 'a result \<Rightarrow> pg \<Rightarrow> bool" where
  "refused w err r w' \<longleftrightarrow> (\<exists>e. r = Inl e \<and> answers err e) \<and> tabs w' = tabs w"

lemma Post_refuses:
  assumes nf: "no_faults env" and V: "Transaction_Validate txn = None"
    and B: "\<And>w1. \<lbrakk>tabs w1 = tabs w; seqs w1 = seqs w\<rbrakk> \<Longrightarrow>
      \<exists>e w2. post_body env txn c w1 = (Inl e, w2) \<and> answers err e"
  shows "\<exists>r w'. LedgerRepo_Post env txn c w = (r, w') \<and> refused w err r w'"
proof -
  obtain e w2 where b: "post_body env txn c (w\<lparr>steps := Suc (steps w)\<rparr>) = (Inl e, w2)" "answers err e"
    using B [of "w\<lparr>steps := Suc (steps w)\<rparr>"] by auto
  then have "in_tx env ce (post_body env txn c) w = (Inl e, w2\<lparr>tabs := tabs w\<rparr>)" for ce
    using nf by (simp add: in_tx_def bindP_def)
  with V b(2) show ?thesis by (simp add: LedgerRepo_Post_def refused_def)
qed

text \<open>What every posting needs before it looks at balances.\<close>

definition claim_ready :: "tables \<Rightarrow> idempotency_claim \<Rightarrow> bool" where
  "claim_ready T c \<longleftrightarrow>
     claim_free T c \<and> clm_UserID c \<in> usr_ID ` set (users T)
     \<and> 1 \<le> char_length (clm_Key c) \<and> length (clm_Key c) \<le> 128"

lemma claim_runs:
  assumes "no_faults env" "claim_ready (tabs w) c"
  shows "\<exists>w'. post_claim env c w = (Inr (), w')
    \<and> tabs w' = (tabs w)\<lparr>idempotency_keys := idempotency_keys (tabs w) @ [new_idem_row env c]\<rparr>"
proof -
  have "char_length (clm_Key c) \<le> 128" using assms(2) char_length_le [of "clm_Key c"] by (simp add: claim_ready_def)
  with post_claim_run [OF assms(1), of w c] assms(2) obtain w' where "post_claim env c w = (Inr (), w')"
    by (auto simp: claim_ready_def)
  with post_claim_Inr(5) [OF this] show ?thesis by blast
qed

subsection \<open>Accounts that are not active\<close>

lemma lock_map_refuses:
  "\<exists>a \<in> set as. la_Status a \<noteq> AccountActive \<Longrightarrow>
   \<exists>e. lock_map as m = Inl e \<and> answers ErrAccountNotActive e"
  by (induction as arbitrary: m) auto

lemma inactive_refuses:
  assumes nf: "no_faults env" and c: "claim_ready (tabs w) c" and D: "distinct (map acc_ID (accounts (tabs w)))"
    and known: "ent_AccountID ` set (txn_Entries txn) \<subseteq> acc_ID ` set (accounts (tabs w))"
    and V: "Transaction_Validate txn = None"
    and a: "a \<in> set (accounts (tabs w))" "acc_ID a \<in> ent_AccountID ` set (txn_Entries txn)"
      "acc_Status a \<noteq> AccountActive"
  shows "\<exists>r w'. LedgerRepo_Post env txn c w = (r, w') \<and> refused w ErrAccountNotActive r w'"
proof (rule Post_refuses [OF nf V])
  fix w1 :: pg assume t: "tabs w1 = tabs w"
  let ?ids = "Transaction_AccountIDs txn" and ?As = "accounts (tabs w)"
  obtain w2 where C: "post_claim env c w1 = (Inr (), w2)" and A: "accounts (tabs w2) = ?As"
    using claim_runs [OF nf, of w1 c] c t by auto
  have "\<exists>l \<in> set (map lockedAccount_of (selected ?ids ?As)). la_Status l \<noteq> AccountActive"
    using a by (auto intro!: bexI [of _ a])
  from lock_map_refuses [OF this] obtain e where
    e: "lock_map (map lockedAccount_of (selected ?ids ?As)) Map.empty = Inl e" "answers ErrAccountNotActive e" by blast
  obtain w3 where "post_lock env txn w2 = (Inl e, w3)"
    using post_lock_run_known [OF nf, of w2 txn] D known A e(1) by auto
  with C e(2) show "\<exists>e w2. post_body env txn c w1 = (Inl e, w2) \<and> answers ErrAccountNotActive e"
    by (simp add: post_body_def bindP_def)
qed

subsection \<open>Wallets that do not hold enough\<close>

lemma post_entry_overdraft:
  assumes "byID (ent_AccountID e) = Some (lockedAccount_of a)" "acc_Type a = AccountUserWallet"
    and "in_int64 (acc_Balance a)" "0 \<le> acc_Balance a" "in_int64 (ent_Amount e)" "0 < ent_Amount e"
    and "acc_Balance a + entry_delta e (acc_NormalBalance a) < 0"
  shows "post_entry env txn tid byID e w
    = (Inl (Wrapf ''%w: akun %d'' [AInt (ent_AccountID e)] ErrInsufficientBalance), w)"
proof -
  have d: "BalanceDelta e (acc_NormalBalance a) = entry_delta e (acc_NormalBalance a)"
    using assms(5,6) by (simp add: BalanceDelta_exact entry_delta_def)
  have "in_int64 (acc_Balance a + entry_delta e (acc_NormalBalance a))"
    using assms(3-7) by (auto simp: in_int64_def entry_delta_def split: if_splits)
  then have "Money_Add (acc_Balance a) (entry_delta e (acc_NormalBalance a))
      = Inr (acc_Balance a + entry_delta e (acc_NormalBalance a))"
    using assms(3) BalanceDelta_in_int64 [OF assms(5), of "acc_NormalBalance a"] d by (simp add: Money_Add_cases)
  with assms(1,2,7) d show ?thesis by (simp add: post_entry_def Let_def)
qed

lemma overdraft_refuses:
  assumes nf: "no_faults env" and c: "claim_ready (tabs w) c" and I: "db_inv (tabs w) (seqs w)"
    and V: "Transaction_Validate txn = None" "amounts_in_range txn"
    and es: "txn_Entries txn = e # es" "txn_ReversesID txn = None" "length (txn_Description txn) \<le> 255"
      "txn_Type txn \<in> set enum_txn_type" "txn_Type txn \<noteq> TxnReversal" "txn_InitiatedBy txn = Some (clm_UserID c)"
    and known: "\<forall>e \<in> set (txn_Entries txn). \<exists>a \<in> set (accounts (tabs w)).
        acc_ID a = ent_AccountID e \<and> acc_Status a = AccountActive"
    and a: "a \<in> set (accounts (tabs w))" "acc_ID a = ent_AccountID e" "acc_Type a = AccountUserWallet"
      "acc_Balance a + entry_delta e (acc_NormalBalance a) < 0"
    and fresh: "fresh_uuids env (tabs w)"
  shows "\<exists>r w'. LedgerRepo_Post env txn c w = (r, w') \<and> refused w ErrInsufficientBalance r w'"
proof (rule Post_refuses [OF nf V(1)])
  fix w1 :: pg assume t: "tabs w1 = tabs w"
  let ?T = "tabs w"
  have D: "distinct (map acc_ID (accounts ?T))" and okA: "accounts_ok (accounts ?T)"
    using I by (simp_all add: db_inv_def ledger_inv_def accounts_ok_def)
  have valid: "valid_transaction txn" using V by (simp add: Validate_None_iff)
  obtain w2 where C: "post_claim env c w1 = (Inr (), w2)"
    and t2: "tabs w2 = ?T\<lparr>idempotency_keys := idempotency_keys ?T @ [new_idem_row env c]\<rparr>"
    using claim_runs [OF nf, of w1 c] c t by auto
  have "\<forall>l \<in> set (map lockedAccount_of (selected (Transaction_AccountIDs txn) (accounts ?T))). la_Status l = AccountActive"
    using known D by (fastforce dest: distinct_key_eq)
  from lock_map_total [OF this] obtain byID where
    "lock_map (map lockedAccount_of (selected (Transaction_AccountIDs txn) (accounts ?T))) Map.empty = Inr byID" by blast
  moreover have "ent_AccountID ` set (txn_Entries txn) \<subseteq> acc_ID ` set (accounts ?T)"
    using known by (metis (no_types, lifting) image_eqI image_subsetI)
  ultimately obtain w3 where L: "post_lock env txn w2 = (Inr byID, w3)"
    using post_lock_run_known [OF nf, of w2 txn] D t2 by auto
  have A2: "accounts (tabs w2) = accounts ?T" using t2 by simp
  note lock = post_lock_Inr [OF L, unfolded A2, OF D]
  have "\<exists>tid at w4. post_header env txn w3 = (Inr (tid, at), w4)"
  proof -
    have "transactions_check (header_row env tid txn) = None" for tid
      using transactions_check_header es(2-5) by blast
    moreover have "transactions (tabs w3) = mark_original (txn_ReversesID txn) (transactions (tabs w3))"
      using es(2) by (simp add: mark_original_def)
    moreover have "reversal_accepts (transactions (tabs w3)) (txn_ReversesID txn)"
      using es(2) by (simp add: reversal_accepts_def)
    ultimately show ?thesis
      using post_header_run [OF nf refl, of w3 txn "transactions (tabs w3)"] fresh c lock(1) t2 es(6)
      by (auto simp: fresh_uuids_def claim_ready_def)
  qed
  then obtain tid tm w4 where H: "post_header env txn w3 = (Inr (tid, tm), w4)" by blast
  from lock(3) es(1) obtain b where "b \<in> set (accounts ?T)" "acc_ID b = ent_AccountID e"
    "byID (ent_AccountID e) = Some (lockedAccount_of b)" by (auto simp: locked_match_def)
  with a D have held: "byID (ent_AccountID e) = Some (lockedAccount_of a)" by (metis distinct_key_eq)
  have "in_int64 (acc_Balance a)" "0 \<le> acc_Balance a" "in_int64 (ent_Amount e)" "0 < ent_Amount e"
    using okA a valid V(2) es(1) by (auto simp: accounts_ok_def accounts_check_def check_wallet_non_negative_def
        valid_transaction_def well_formed_entries_def amounts_in_range_def split: if_splits)
  from post_entry_overdraft [of byID e a, OF held a(3) this a(4)]
  have "\<exists>x. post_entries env txn tid byID (txn_Entries txn) w4 = (Inl x, w4) \<and> answers ErrInsufficientBalance x"
    by (simp add: es(1) bindP_def)
  with C L H es(2) show "\<exists>e w2. post_body env txn c w1 = (Inl e, w2) \<and> answers ErrInsufficientBalance e"
    by (auto simp: post_body_def post_mark_reversed_def bindP_def retP_def)
qed

section \<open>Refused requests\<close>

lemma answers_not_in_flight:
  "\<lbrakk>answers err e; err = ErrAccountNotActive \<or> err = ErrInsufficientBalance\<rbrakk> \<Longrightarrow>
   \<not> errors_Is e ErrIdempotencyInFlight"
  by (auto simp: answers_def)

lemma postIdempotent_refuses:
  assumes nf: "no_faults env" and c: "claim_ready (tabs w) c" and B: "reads build"
    and build: "\<And>w1. \<lbrakk>tabs w1 = tabs w; seqs w1 = seqs w\<rbrakk> \<Longrightarrow> \<exists>w2. build w1 = (Inr txn, w2)"
    and V: "Transaction_Validate txn = None"
    and post: "\<And>w2. \<lbrakk>tabs w2 = tabs w; seqs w2 = seqs w\<rbrakk> \<Longrightarrow>
      \<exists>r w3. LedgerRepo_Post env txn c w2 = (r, w3) \<and> refused w2 err r w3"
    and err: "err = ErrAccountNotActive \<or> err = ErrInsufficientBalance"
  shows "\<exists>r w'. postIdempotent (pg_ledger env cfg cash fees) c build w = (r, w') \<and> refused w err r w'"
proof -
  have key: "clm_Key c \<noteq> ''''" "length (clm_Key c) \<le> 128" "claim_free (tabs w) c"
    using c key_nonempty [of "clm_Key c"] by (auto simp: claim_ready_def)
  obtain w1 where R: "replay (pg_ledger env cfg cash fees) c w = (None, w1)" using replay_fresh [OF nf key(3)] by blast
  note t1 = replay_step(2,3) [OF R]
  obtain w2 where b: "build w1 = (Inr txn, w2)" using build [OF t1] by blast
  have t2: "tabs w2 = tabs w" "seqs w2 = seqs w" using readsD [OF B b] t1 by simp_all
  obtain e w3 where "LedgerRepo_Post env txn c w2 = (Inl e, w3)" "answers err e" "tabs w3 = tabs w"
    using post [OF t2] t2 by (auto simp: refused_def)
  with answers_not_in_flight [OF _ err] R b V key show ?thesis
    by (auto simp: postIdempotent_def bindP_def post_or_replay_def refused_def)
qed

lemma postIdempotent_build_fails:
  assumes "no_faults env" "claim_ready (tabs w) c" "reads build"
    and build: "\<And>w1. tabs w1 = tabs w \<Longrightarrow> \<exists>e w2. build w1 = (Inl e, w2) \<and> answers err e"
  shows "\<exists>r w'. postIdempotent (pg_ledger env cfg cash fees) c build w = (r, w') \<and> refused w err r w'"
proof -
  have key: "clm_Key c \<noteq> ''''" "length (clm_Key c) \<le> 128" "claim_free (tabs w) c"
    using assms(2) key_nonempty [of "clm_Key c"] by (auto simp: claim_ready_def)
  obtain w1 where R: "replay (pg_ledger env cfg cash fees) c w = (None, w1)" using replay_fresh [OF assms(1) key(3)] by blast
  note t1 = replay_step(2) [OF R]
  obtain e w2 where b: "build w1 = (Inl e, w2)" "answers err e" using build [OF t1] by blast
  have "tabs w2 = tabs w" using readsD [OF assms(3) b(1)] t1 by simp
  with R b key show ?thesis by (auto simp: postIdempotent_def bindP_def refused_def)
qed

text \<open>The wallet of the caller is found, so that a refusal comes from the protocol.\<close>

lemma money_op_refuses:
  assumes nf: "no_faults env" and I: "db_inv (tabs w) (seqs w)"
    and a: "a \<in> set (accounts (tabs w))" "acc_UserID a = Some u" "acc_Type a = AccountUserWallet"
    and sen: "amountWithin sen lo hi = Inr sen"
    and P: "\<And>w1. \<lbrakk>tabs w1 = tabs w; seqs w1 = seqs w\<rbrakk> \<Longrightarrow>
      \<exists>r w2. postIdempotent L c (build sen a) w1 = (r, w2) \<and> refused w1 err r w2"
  shows "\<exists>r w'. bindP (liftR (amountWithin sen lo hi)) (\<lambda>amount.
         bindP (AccountRepo_GetWalletByUserID env u) (\<lambda>wallet.
         markViewer (postIdempotent L c (build amount wallet)) (acc_ID wallet))) w = (r, w') \<and> refused w err r w'"
proof -
  obtain b w1 where G: "AccountRepo_GetWalletByUserID env u w = (Inr b, w1)" using GetWallet_live [OF nf a] by blast
  have b: "b = a" using GetWallet_Inr [OF G] a wallet_unique [OF I] by auto
  have t1: "tabs w1 = tabs w" "seqs w1 = seqs w" using GetWallet_Inr [OF G] by auto
  obtain e w2 where "postIdempotent L c (build sen a) w1 = (Inl e, w2)" "answers err e" "tabs w2 = tabs w1"
    using P [OF t1] by (auto simp: refused_def)
  with sen G b t1 show ?thesis by (simp add: bindP_def liftR_def markViewer_def refused_def)
qed

section \<open>Transfers\<close>

lemma build_transfer_missing:
  assumes nf: "no_faults env" and t: "tabs w1 = tabs w"
    and none: "\<forall>b \<in> set (accounts (tabs w)). acc_PublicID b = mr_ToAccountPublicID req \<longrightarrow> acc_Type b \<noteq> AccountUserWallet"
  shows "\<exists>e w2. build_transfer intN (pg_ledger env cfg cash fees) req m a w1 = (Inl e, w2) \<and> answers ErrAccountNotFound e"
proof (cases "AccountRepo_GetByPublicID env (mr_ToAccountPublicID req) w1")
  case (Pair r w2)
  show ?thesis
  proof (cases r)
    case (Inr b)
    with GetByPublicID_Inr [OF Pair [unfolded Inr]] none t Pair show ?thesis
      by (auto simp: build_transfer_def bindP_def)
  next
    case (Inl e)
    with Pair nf have "answers ErrAccountNotFound e"
      by (auto simp: AccountRepo_GetByPublicID_def scanAccount_def wrapP_def sql_select_account_def translate_def
          split: option.splits if_splits)
    with Pair Inl show ?thesis by (simp add: build_transfer_def bindP_def)
  qed
qed

text \<open>A transfer between two wallets, ready but for what the accounts are and hold.\<close>

definition transfer_asked ::
    "tables \<Rightarrow> ledger_config \<Rightarrow> transfer_request \<Rightarrow> account \<Rightarrow> bool" where
  "transfer_asked T cfg req a \<longleftrightarrow>
     claim_ready T (MoneyRequest_claim req ''transfer'') \<and> length (mr_Description req) \<le> 255
     \<and> a \<in> set (accounts T) \<and> acc_UserID a = Some (act_UserID (mr_Actor req)) \<and> acc_Type a = AccountUserWallet
     \<and> cfg_MinTransfer cfg \<le> mr_AmountSen req \<and> mr_AmountSen req \<le> cfg_MaxTransfer cfg
     \<and> mr_AmountSen req \<le> maxSafeAmount \<and> in_int64 (mr_AmountSen req + cfg_TransferFee cfg)"

lemma transfer_refusal:
  assumes nf: "no_faults env" and I: "db_inv (tabs w) (seqs w)" and cfg: "config_ok cfg"
    and ask: "transfer_asked (tabs w) cfg req a"
    and P: "\<And>w1. \<lbrakk>tabs w1 = tabs w; seqs w1 = seqs w\<rbrakk> \<Longrightarrow>
      \<exists>r w2. postIdempotent (pg_ledger env cfg cash fees) (MoneyRequest_claim req ''transfer'')
        (build_transfer intN (pg_ledger env cfg cash fees) req (mr_AmountSen req) a) w1 = (r, w2) \<and> refused w1 err r w2"
    and T: "Ledger_Transfer intN (pg_ledger env cfg cash fees) req w = (r, w')"
  shows "refused w err r w'"
proof -
  have "amountWithin (mr_AmountSen req) (cfg_MinTransfer cfg) (cfg_MaxTransfer cfg) = Inr (mr_AmountSen req)"
    using ask cfg by (auto simp: transfer_asked_def config_ok_def amountWithin_def NewMoney_def)
  with money_op_refuses [where build = "build_transfer intN (pg_ledger env cfg cash fees) req" and a = a,
      OF nf I _ _ _ this P] ask T show ?thesis
    unfolding Ledger_Transfer_def pg_ledger_simps by (fastforce simp: transfer_asked_def)
qed

text \<open>The transaction of a transfer between two wallets, valid whatever they hold.\<close>

lemma transfer_built:
  assumes I: "db_inv T q" and cfg: "config_ok cfg" and ask: "transfer_asked T cfg req a"
    and b: "b \<in> set (accounts T)" "acc_Type b = AccountUserWallet" "b \<noteq> a"
    and s: "s \<in> set (accounts T)" "acc_Type s = AccountSystemFeeRevenue"
  shows "\<exists>txn. NewTransfer (acc_ID a) (acc_ID b) (acc_ID s) (mr_AmountSen req) (cfg_TransferFee cfg)
      (act_UserID (mr_Actor req)) (mr_Description req) = Inr txn
    \<and> Transaction_Validate txn = None \<and> amounts_in_range txn"
proof -
  let ?m = "mr_AmountSen req" and ?fee = "cfg_TransferFee cfg"
  have m: "in_int64 ?m" "0 < ?m" "in_int64 ?fee" "0 \<le> ?fee" "in_int64 (?m + ?fee)" "length (mr_Description req) \<le> 255"
    using ask cfg by (auto simp: transfer_asked_def config_ok_def in_int64_def maxSafeAmount_def Rupiah_def)
  have a: "a \<in> set (accounts T)" "acc_Type a = AccountUserWallet" using ask by (simp_all add: transfer_asked_def)
  have "acc_Type s \<noteq> AccountUserWallet" using s by (simp add: AccountUserWallet_def AccountSystemFeeRevenue_def)
  then have distinct: "acc_ID a \<noteq> acc_ID b" "acc_ID s \<noteq> acc_ID a" "acc_ID s \<noteq> acc_ID b"
    using account_id_unique [OF I a(1) b(1)] account_id_unique [OF I s(1) a(1)] account_id_unique [OF I s(1) b(1)]
      b(2,3) a(2) by auto
  obtain txn where N: "NewTransfer (acc_ID a) (acc_ID b) (acc_ID s) ?m ?fee (act_UserID (mr_Actor req))
      (mr_Description req) = Inr txn"
    using m distinct(1) unfolding NewTransfer_Inr_iff [OF m(1,3)] by blast
  with NewTransfer_valid [OF N m(1,2,3) distinct(2,3) m(6)] show ?thesis by blast
qed

lemma transfer_post_refused:
  assumes nf: "no_faults env" and I: "db_inv (tabs w) (seqs w)" and cfg: "config_ok cfg"
    and ask: "transfer_asked (tabs w) cfg req a"
    and b: "b \<in> set (accounts (tabs w))" "acc_PublicID b = mr_ToAccountPublicID req" "acc_Type b = AccountUserWallet"
    and N: "NewTransfer (acc_ID a) (acc_ID b) (pickFeeShard intN (pg_ledger env cfg cash fees)) (mr_AmountSen req)
      (cfg_TransferFee cfg) (act_UserID (mr_Actor req)) (mr_Description req) = Inr txn"
      "Transaction_Validate txn = None"
    and T: "Ledger_Transfer intN (pg_ledger env cfg cash fees) req w = (r, w')"
    and err: "err = ErrAccountNotActive \<or> err = ErrInsufficientBalance"
    and P: "\<And>w2. \<lbrakk>tabs w2 = tabs w; seqs w2 = seqs w\<rbrakk> \<Longrightarrow>
      \<exists>r w3. LedgerRepo_Post env txn (MoneyRequest_claim req ''transfer'') w2 = (r, w3) \<and> refused w2 err r w3"
  shows "refused w err r w'"
proof (rule transfer_refusal [OF nf I cfg ask _ T])
  let ?L = "pg_ledger env cfg cash fees" and ?m = "mr_AmountSen req" and ?c = "MoneyRequest_claim req ''transfer''"
  fix w1 :: pg assume t1: "tabs w1 = tabs w" "seqs w1 = seqs w"
  show "\<exists>r w2. postIdempotent ?L ?c (build_transfer intN ?L req ?m a) w1 = (r, w2) \<and> refused w1 err r w2"
  proof (rule postIdempotent_refuses [OF nf _ _ _ N(2) _ err])
    show "claim_ready (tabs w1) ?c" using ask t1 by (simp add: transfer_asked_def)
    have "in_int64 ?m" "in_int64 (cfg_TransferFee cfg)"
      using ask cfg by (auto simp: transfer_asked_def config_ok_def in_int64_def maxSafeAmount_def Rupiah_def)
    then show "reads (build_transfer intN ?L req ?m a)" using build_transfer_typed by (simp add: typed_build_def)
    show "\<exists>w3. build_transfer intN ?L req ?m a w2 = (Inr txn, w3)" if "tabs w2 = tabs w1" for w2
      using build_transfer_found [OF nf I b, where intN = intN and cfg = cfg and a = a and m = ?m] N(1) that t1 by metis
    show "\<exists>r w3. LedgerRepo_Post env txn ?c w2 = (r, w3) \<and> refused w2 err r w3"
      if "tabs w2 = tabs w1" "seqs w2 = seqs w1" for w2
      by (rule P) (simp_all add: that t1)
  qed
qed

lemma transfer_not_active:
  assumes nf: "no_faults env" and I: "db_inv (tabs w) (seqs w)" and cfg: "config_ok cfg"
    and fees: "fee_shards (tabs w) fees" "\<And>n. 0 < n \<Longrightarrow> intN n < n"
    and ask: "transfer_asked (tabs w) cfg req a"
    and b: "b \<in> set (accounts (tabs w))" "acc_PublicID b = mr_ToAccountPublicID req" "acc_Type b = AccountUserWallet"
      "b \<noteq> a"
    and T: "Ledger_Transfer intN (pg_ledger env cfg cash fees) req w = (r, w')"
  shows "acc_Status a \<noteq> AccountActive \<or> acc_Status b \<noteq> AccountActive \<Longrightarrow> refused w ErrAccountNotActive r w'"
    and "\<lbrakk>acc_Status a = AccountActive; acc_Status b = AccountActive; fresh_uuids env (tabs w);
        \<forall>s \<in> set (accounts (tabs w)). acc_ID s \<in> set fees \<longrightarrow> acc_Status s = AccountActive;
        acc_Balance a < mr_AmountSen req + cfg_TransferFee cfg\<rbrakk> \<Longrightarrow> refused w ErrInsufficientBalance r w'"
proof -
  let ?m = "mr_AmountSen req" and ?fee = "cfg_TransferFee cfg" and ?L = "pg_ledger env cfg cash fees"
  let ?c = "MoneyRequest_claim req ''transfer''"
  have m: "in_int64 ?m" "in_int64 ?fee" and a: "a \<in> set (accounts (tabs w))" "acc_Type a = AccountUserWallet"
    and c: "claim_ready (tabs w) ?c" and d: "length (mr_Description req) \<le> 255"
    using ask cfg by (auto simp: transfer_asked_def config_ok_def in_int64_def maxSafeAmount_def Rupiah_def)
  have D: "distinct (map acc_ID (accounts (tabs w)))"
    using I by (simp add: db_inv_def ledger_inv_def accounts_ok_def)
  have "pickFeeShard intN ?L \<in> set fees"
    using pickFeeShard_in [of ?L intN] fees by (simp add: fee_shards_def)
  with fee_account [OF I fees(1)] obtain s where s: "s \<in> set (accounts (tabs w))" "acc_ID s = pickFeeShard intN ?L"
    "acc_Type s = AccountSystemFeeRevenue" "acc_ID s \<in> set fees" by metis
  obtain txn where N: "NewTransfer (acc_ID a) (acc_ID b) (acc_ID s) ?m ?fee (act_UserID (mr_Actor req))
      (mr_Description req) = Inr txn" and V: "Transaction_Validate txn = None" "amounts_in_range txn"
    using transfer_built [OF I cfg ask b(1,3,4) s(1,3)] by blast
  note t = N [unfolded NewTransfer_Inr_iff [OF m]]
  have known: "ent_AccountID ` set (txn_Entries txn) \<subseteq> acc_ID ` set (accounts (tabs w))"
    using t a(1) b(1) s(1) by auto
  note refuse = transfer_post_refused [OF nf I cfg ask b(1-3) N [unfolded s(2)] V(1) T]
  show "refused w ErrAccountNotActive r w'" if inact: "acc_Status a \<noteq> AccountActive \<or> acc_Status b \<noteq> AccountActive"
  proof (rule refuse)
    fix w2 :: pg assume t2: "tabs w2 = tabs w"
    obtain x where "x \<in> set (accounts (tabs w))" "acc_Status x \<noteq> AccountActive"
      "acc_ID x \<in> ent_AccountID ` set (txn_Entries txn)" using inact a(1) b(1) t by auto
    then show "\<exists>r w3. LedgerRepo_Post env txn ?c w2 = (r, w3) \<and> refused w2 ErrAccountNotActive r w3"
      using inactive_refuses [OF nf, of w2 ?c txn x] c D known V(1) t2 by simp
  qed simp
  show "refused w ErrInsufficientBalance r w'"
    if st: "acc_Status a = AccountActive" "acc_Status b = AccountActive" and fresh: "fresh_uuids env (tabs w)"
    and sh: "\<forall>s \<in> set (accounts (tabs w)). acc_ID s \<in> set fees \<longrightarrow> acc_Status s = AccountActive"
    and short: "acc_Balance a < ?m + ?fee"
  proof (rule refuse)
    fix w2 :: pg assume t2: "tabs w2 = tabs w" "seqs w2 = seqs w"
    let ?e = "\<lparr> ent_AccountID = acc_ID a, ent_Direction = DirectionDebit, ent_Amount = ?m + ?fee \<rparr>"
    have act: "\<forall>e \<in> set (txn_Entries txn). \<exists>a \<in> set (accounts (tabs w)). acc_ID a = ent_AccountID e \<and> acc_Status a = AccountActive"
      using t a(1) b(1) s st sh by auto
    have neg: "acc_Balance a + entry_delta ?e (acc_NormalBalance a) < 0"
      using short normal_side [OF I a(1)] a(2) by (simp add: entry_delta_def AccountUserWallet_def AccountSystemCash_def)
    obtain es where es: "txn_Entries txn = ?e # es" using t by auto
    show "\<exists>r w3. LedgerRepo_Post env txn ?c w2 = (r, w3) \<and> refused w2 ErrInsufficientBalance r w3"
      using overdraft_refuses [OF nf _ _ V es, of w2 ?c a] c I act a neg fresh t d t2
      by (simp add: MoneyRequest_claim_def enum_txn_type_def txn_type_defs)
  qed simp
qed

lemma transfer_no_recipient:
  assumes nf: "no_faults env" and I: "db_inv (tabs w) (seqs w)" and cfg: "config_ok cfg"
    and ask: "transfer_asked (tabs w) cfg req a"
    and T: "Ledger_Transfer intN (pg_ledger env cfg cash fees) req w = (r, w')"
  shows "\<forall>b \<in> set (accounts (tabs w)). acc_PublicID b = mr_ToAccountPublicID req \<longrightarrow> acc_Type b \<noteq> AccountUserWallet
      \<Longrightarrow> refused w ErrAccountNotFound r w'"
    and "acc_PublicID a = mr_ToAccountPublicID req \<Longrightarrow> refused w ErrSelfTransfer r w'"
proof -
  let ?build = "build_transfer intN (pg_ledger env cfg cash fees) req (mr_AmountSen req) a"
  have m: "in_int64 (mr_AmountSen req)" "in_int64 (cfg_TransferFee cfg)"
    and a: "a \<in> set (accounts (tabs w))" "acc_Type a = AccountUserWallet"
    and c: "claim_ready (tabs w) (MoneyRequest_claim req ''transfer'')"
    using ask cfg by (auto simp: transfer_asked_def config_ok_def in_int64_def maxSafeAmount_def Rupiah_def)
  have reads: "reads ?build" using build_transfer_typed [OF m] by (simp add: typed_build_def)
  have refuse: "refused w err r w'"
    if B: "\<And>w2. tabs w2 = tabs w \<Longrightarrow> \<exists>e w3. ?build w2 = (Inl e, w3) \<and> answers err e" for err
  proof (rule transfer_refusal [OF nf I cfg ask _ T])
    fix w1 :: pg assume t1: "tabs w1 = tabs w"
    show "\<exists>r w2. postIdempotent (pg_ledger env cfg cash fees) (MoneyRequest_claim req ''transfer'') ?build w1 = (r, w2)
        \<and> refused w1 err r w2"
      by (rule postIdempotent_build_fails [OF nf _ reads B]) (simp_all add: t1 c)
  qed
  show "refused w ErrAccountNotFound r w'" if none: "\<forall>b \<in> set (accounts (tabs w)).
      acc_PublicID b = mr_ToAccountPublicID req \<longrightarrow> acc_Type b \<noteq> AccountUserWallet"
    by (rule refuse) (rule build_transfer_missing [OF nf _ none])
  show "refused w ErrSelfTransfer r w'" if self: "acc_PublicID a = mr_ToAccountPublicID req"
  proof (rule refuse)
    fix w2 :: pg assume "tabs w2 = tabs w"
    from build_transfer_found [OF nf I a(1) self a(2) this, where a = a and intN = intN and m = "mr_AmountSen req"
      and cfg = cfg and cash = cash and fees = fees]
    obtain w3 where "?build w2 = (Inl ErrSelfTransfer, w3)" by (auto simp: NewTransfer_def)
    then show "\<exists>e w3. ?build w2 = (Inl e, w3) \<and> answers ErrSelfTransfer e" by simp
  qed
qed

text \<open>
  The program never changes the status of an account; an operator does, with an UPDATE that
  changes nothing else. The invariant of the database does not depend on it.
\<close>

definition set_status :: "int64 \<Rightarrow> account_status \<Rightarrow> tables \<Rightarrow> tables" where
  "set_status i st T =
     T\<lparr>accounts := map (\<lambda>a. if acc_ID a = i then a\<lparr>acc_Status := st\<rparr> else a) (accounts T)\<rparr>"

lemma set_status_inv:
  assumes "db_inv T q"
  shows "db_inv (set_status i st T) q"
proof -
  define g where "g a = (if acc_ID a = i then a\<lparr>acc_Status := st\<rparr> else a)" for a :: account
  have f: "acc_ID (g a) = acc_ID a" "acc_PublicID (g a) = acc_PublicID a" "acc_UserID (g a) = acc_UserID a"
    "acc_Type (g a) = acc_Type a" "acc_Balance (g a) = acc_Balance a" for a
    by (simp_all add: g_def)
  have c: "accounts_check (g a) = accounts_check a" "computed_balance Es (g a) = computed_balance Es a" for a Es
    by (cases "acc_ID a = i"; simp add: g_def accounts_check_def check_normal_balance_def check_owner_def
        check_wallet_non_negative_def computed_balance_def)+
  have T: "set_status i st T = T\<lparr>accounts := map g (accounts T)\<rparr>" by (simp add: set_status_def g_def)
  have m: "map acc_ID (map g As) = map acc_ID As" "map acc_PublicID (map g As) = map acc_PublicID As"
    "acc_ID ` set (map g As) = acc_ID ` set As"
    "map acc_Type (filter (\<lambda>a. acc_Type a \<noteq> AccountUserWallet) (map g As))
      = map acc_Type (filter (\<lambda>a. acc_Type a \<noteq> AccountUserWallet) As)" for As
    by (simp_all add: f comp_def image_image filter_map)
  have A: "accounts_ok (accounts T)" "entries_ok (accounts T) (transactions T) (entries T)"
    "no_drift (accounts T) (entries T)" "accounts_inv (accounts T) q"
    using assms by (simp_all add: db_inv_def ledger_inv_def)
  have "accounts_ok (map g (accounts T))" using A(1) unfolding accounts_ok_def m by (auto simp: f c)
  moreover have "entries_ok (map g (accounts T)) (transactions T) (entries T)" using A(2) unfolding entries_ok_def m .
  moreover have "no_drift (map g (accounts T)) (entries T)" using A(3) by (simp add: no_drift_def f c)
  moreover have "accounts_inv (map g (accounts T)) q"
    using A(4) unfolding accounts_inv_def m set_map ball_simps(9) f .
  ultimately show ?thesis
    using assms by (simp add: db_inv_def ledger_inv_def T references_ok_def)
qed



end
