(* ===== verification/Cash.thy ===== *)
theory Cash
  imports Refusals
begin

text \<open>
  Topups and withdrawals: what they do to the wallet and the cash account, and when a withdrawal
  is refused.
\<close>

section \<open>The balances a topup and a withdrawal move\<close>

definition cash_txn :: "int64 \<Rightarrow> account \<Rightarrow> money \<Rightarrow> int \<Rightarrow> transaction \<Rightarrow> bool" where
  "cash_txn cash a m \<delta> txn \<longleftrightarrow>
     (\<exists>u desc. txn = NewTopup cash (acc_ID a) m u desc \<and> \<delta> = m
        \<or> txn = NewWithdraw (acc_ID a) cash m u desc \<and> \<delta> = - m)"

text \<open>The wallet \<open>a\<close> and the cash account change by \<open>\<delta>\<close>, which the wallet covers, and no other balance.\<close>

definition cash_moved :: "tables \<Rightarrow> tables \<Rightarrow> int64 \<Rightarrow> int64 \<Rightarrow> int \<Rightarrow> bool" where
  "cash_moved T T' a cash \<delta> \<longleftrightarrow>
     0 \<le> balance_in T a + \<delta>
     \<and> (\<forall>i. balance_in T' i = balance_in T i + (if i \<in> {a, cash} then \<delta> else 0))"

lemma posted_cash_balances:
  assumes I: "db_inv T q" and a: "a \<in> set (accounts T)" "acc_Type a = AccountUserWallet"
    and cash: "cash_account T cash" and t: "cash_txn cash a m \<delta> txn"
    and acc: "post_accepts env tid eid txn c T"
  shows "balance_in (posted_tables env tid eid sq txn c T) i
      = balance_in T i + (if i \<in> {acc_ID a, cash} then \<delta> else 0)"
    and "0 \<le> balance_in T (acc_ID a) + \<delta>"
proof -
  obtain x where x: "x \<in> set (accounts T)" "acc_ID x = cash" "acc_Type x = AccountSystemCash"
    using cash unfolding cash_account_def by blast
  have nb: "acc_NormalBalance a = DirectionCredit" "acc_NormalBalance x = DirectionDebit"
    using normal_side [OF I a(1)] normal_side [OF I x(1)] a(2) x(3)
    by (simp_all add: AccountUserWallet_def AccountSystemCash_def)
  have ne: "acc_ID a \<noteq> cash"
    using account_id_unique [OF I a(1) x(1)] a(2) x(2,3) by (auto simp: AccountUserWallet_def AccountSystemCash_def)
  have by_id: "account_by_id (accounts T) (acc_ID a) = Some a" "account_by_id (accounts T) cash = Some x"
    using account_by_id_eq [of "accounts T"] I a(1) x(1,2) by (auto simp: db_inv_def ledger_inv_def accounts_ok_def)
  consider "i = acc_ID a" | "i = cash" | "i \<noteq> acc_ID a" "i \<noteq> cash" by blast
  then show "balance_in (posted_tables env tid eid sq txn c T) i
      = balance_in T i + (if i \<in> {acc_ID a, cash} then \<delta> else 0)"
  proof cases
    case 3
    with t show ?thesis
      by (auto simp: balance_in_posted cash_txn_def NewTopup_def NewWithdraw_def split: option.split)
  qed (use t ne by_id nb in \<open>auto simp: balance_in_posted cash_txn_def NewTopup_def NewWithdraw_def
      entry_delta_def DirectionDebit_def DirectionCredit_def\<close>)
  have "\<exists>e \<in> set (txn_Entries txn). ent_AccountID e = acc_ID a \<and> entry_delta e DirectionCredit = \<delta>"
    using t by (auto simp: cash_txn_def NewTopup_def NewWithdraw_def entry_delta_def DirectionDebit_def DirectionCredit_def)
  then obtain e where e: "e \<in> set (txn_Entries txn)" "ent_AccountID e = acc_ID a"
    "entry_delta e DirectionCredit = \<delta>" by blast
  from acc e(1) obtain b where b: "b \<in> set (accounts T)" "acc_ID b = acc_ID a"
    "acc_Type b = AccountUserWallet \<longrightarrow> 0 \<le> acc_Balance b + entry_delta e (acc_NormalBalance b)"
    using e(2) by (auto simp: post_accepts_def entry_accepts_def)
  with account_id_unique [OF I b(1) a(1)] a(2) nb(1) e(3) by_id(1)
  show "0 \<le> balance_in T (acc_ID a) + \<delta>" by (simp add: balance_in_def)
qed

lemma cash_op_moves:
  assumes I: "db_inv (tabs w) (seqs w)" and cash: "cash_account (tabs w) cash"
    and build: "\<And>m a. cash_txn cash a m (s * m) (build m a)" "\<And>m a. in_int64 m \<Longrightarrow> amounts_in_range (build m a)"
    and R: "bindP (liftR (amountWithin sen lo hi)) (\<lambda>amount.
         bindP (AccountRepo_GetWalletByUserID env u) (\<lambda>wallet.
         markViewer (postIdempotent (pg_ledger env cfg cash fees) c (retP (build amount wallet))) (acc_ID wallet))) w
       = (Inr p, w')"
    and once: "\<And>m a. txn_ReversesID (build m a) = None"
  shows "lo \<le> sen \<and> sen \<le> hi \<and> (\<exists>q. \<exists>a \<in> set (accounts (tabs w)).
      acc_UserID a = Some u \<and> acc_Type a = AccountUserWallet
      \<and> p = q\<lparr>pr_ViewerAccountID := Some (acc_ID a)\<rparr>
      \<and> pg_answer (tabs w') (clm_UserID c) (clm_Key c) = Some (clm_RequestHash c, q)
      \<and> (replayed w c q w'
         \<or> posting_answer (tabs w) (tabs w') (build sen a) q
            \<and> cash_moved (tabs w) (tabs w') (acc_ID a) cash (s * sen)))"
proof -
  obtain a w1 q where lim: "lo \<le> sen" "sen \<le> hi" "in_int64 sen"
    and a: "a \<in> set (accounts (tabs w))" "acc_UserID a = Some u" "acc_Type a = AccountUserWallet"
    and t1: "tabs w1 = tabs w" "seqs w1 = seqs w"
    and P: "postIdempotent (pg_ledger env cfg cash fees) c (retP (build sen a)) w1 = (Inr q, w')"
    and p: "p = q\<lparr>pr_ViewerAccountID := Some (acc_ID a)\<rparr>"
    using money_op_Inr [where build = "\<lambda>m a. retP (build m a)", OF R] by blast
  note typed = typed_build_retP [OF build(2) [OF lim(3)]]
  have "pg_sound w1" using I t1 by (simp add: pg_sound_def)
  from pg_idem.returned_is_recorded [OF pg_ledger_uses this typed_build_builds [OF typed] P]
  have rec: "pg_answer (tabs w') (clm_UserID c) (clm_Key c) = Some (clm_RequestHash c, q)" by simp
  from postIdempotent_cases [OF typed _ P] I t1
  consider "replayed w c q w'" | "posted_now env w1 c (build sen a) q w'"
    by (auto simp: replayed_def retP_def)
  then show ?thesis
  proof cases
    case 1
    with lim a p rec show ?thesis by blast
  next
    case 2
    then obtain tid eid where "post_accepts env tid eid (build sen a) c (tabs w)"
      "tabs w' = posted_tables env tid eid (seqs w1) (build sen a) c (tabs w)"
      using t1 by (auto simp: posted_now_def)
    with posted_cash_balances [OF I a(1,3) cash build(1) this(1)]
    have "cash_moved (tabs w) (tabs w') (acc_ID a) cash (s * sen)" unfolding cash_moved_def by auto
    with posted_now_answer [OF 2 once] t1 lim a p rec show ?thesis by auto
  qed
qed

section \<open>What a withdrawal needs\<close>

text \<open>A withdrawal from the wallet \<open>a\<close> by way of the cash account \<open>x\<close>, but for what they are and hold.\<close>

definition withdraw_asked :: "tables \<Rightarrow> ledger_config \<Rightarrow> money_request \<Rightarrow> account \<Rightarrow> account \<Rightarrow> bool" where
  "withdraw_asked T cfg req a x \<longleftrightarrow>
     claim_ready T (MoneyRequest_claim req ''withdraw'') \<and> length (mr_Description req) \<le> 255
     \<and> a \<in> set (accounts T) \<and> acc_UserID a = Some (act_UserID (mr_Actor req)) \<and> acc_Type a = AccountUserWallet
     \<and> x \<in> set (accounts T) \<and> acc_Type x = AccountSystemCash
     \<and> 1 \<le> mr_AmountSen req \<and> mr_AmountSen req \<le> cfg_MaxTransfer cfg \<and> mr_AmountSen req \<le> maxSafeAmount"

abbreviation withdrawal :: "money_request \<Rightarrow> account \<Rightarrow> account \<Rightarrow> transaction" where
  "withdrawal req a x \<equiv>
     NewWithdraw (acc_ID a) (acc_ID x) (mr_AmountSen req) (act_UserID (mr_Actor req)) (mr_Description req)"

lemma withdraw_askedD:
  assumes "db_inv T q" "withdraw_asked T cfg req a x"
  shows "in_int64 (mr_AmountSen req)" "Transaction_Validate (withdrawal req a x) = None"
    "amounts_in_range (withdrawal req a x)" "typed_build (retP (withdrawal req a x))"
    "acc_NormalBalance a = DirectionCredit" "acc_NormalBalance x = DirectionDebit"
    "amountWithin (mr_AmountSen req) 1 (cfg_MaxTransfer cfg) = Inr (mr_AmountSen req)"
proof -
  note k = assms(2) [unfolded withdraw_asked_def]
  show m: "in_int64 (mr_AmountSen req)" using k by (auto simp: in_int64_def maxSafeAmount_def Rupiah_def)
  have "acc_ID x \<noteq> acc_ID a"
    using account_id_unique [OF assms(1), of x a] k by (auto simp: AccountUserWallet_def AccountSystemCash_def)
  with NewWithdraw_valid [of "acc_ID x" "acc_ID a" "mr_AmountSen req"] m k
  show "Transaction_Validate (withdrawal req a x) = None" by simp
  show "amounts_in_range (withdrawal req a x)" using m by (rule NewWithdraw_typed)
  then show "typed_build (retP (withdrawal req a x))" by (rule typed_build_retP)
  show "acc_NormalBalance a = DirectionCredit" "acc_NormalBalance x = DirectionDebit"
    using normal_side [OF assms(1)] k by (auto simp: AccountUserWallet_def AccountSystemCash_def)
  show "amountWithin (mr_AmountSen req) 1 (cfg_MaxTransfer cfg) = Inr (mr_AmountSen req)"
    using k by (simp add: amountWithin_def NewMoney_def)
qed

lemma withdraw_refused:
  assumes nf: "no_faults env" and I: "db_inv (tabs w) (seqs w)" and ask: "withdraw_asked (tabs w) cfg req a x"
    and W: "Ledger_Withdraw (pg_ledger env cfg (acc_ID x) fees) req w = (r, w')"
  shows "acc_Status a \<noteq> AccountActive \<or> acc_Status x \<noteq> AccountActive \<Longrightarrow> refused w ErrAccountNotActive r w'"
    and "\<lbrakk>acc_Status a = AccountActive; acc_Status x = AccountActive; fresh_uuids env (tabs w);
        acc_Balance a < mr_AmountSen req\<rbrakk> \<Longrightarrow> refused w ErrInsufficientBalance r w'"
proof -
  let ?c = "MoneyRequest_claim req ''withdraw''" and ?t = "withdrawal req a x"
  note k = ask [unfolded withdraw_asked_def] and t = withdraw_askedD [OF I ask]
  have D: "distinct (map acc_ID (accounts (tabs w)))"
    using I by (simp add: db_inv_def ledger_inv_def accounts_ok_def)
  have refuse: "refused w err r w'" if err: "err = ErrAccountNotActive \<or> err = ErrInsufficientBalance"
    and P: "\<And>w2. \<lbrakk>tabs w2 = tabs w; seqs w2 = seqs w\<rbrakk> \<Longrightarrow>
      \<exists>r w3. LedgerRepo_Post env ?t ?c w2 = (r, w3) \<and> refused w2 err r w3" for err
  proof -
    have "\<exists>r w2. postIdempotent (pg_ledger env cfg (acc_ID x) fees) ?c (retP ?t) w1 = (r, w2) \<and> refused w1 err r w2"
      if t1: "tabs w1 = tabs w" "seqs w1 = seqs w" for w1
      by (rule postIdempotent_refuses [OF nf _ _ _ t(2) _ err])
        (use k t(4) t1 P in \<open>simp_all add: typed_build_def retP_def\<close>)
    from money_op_refuses [where a = a and build = "\<lambda>m a. retP (NewWithdraw (acc_ID a) (acc_ID x) m
        (act_UserID (mr_Actor req)) (mr_Description req))", OF nf I _ _ _ t(7) this] k W
    show ?thesis unfolding Ledger_Withdraw_def pg_ledger_simps by fastforce
  qed
  show "refused w ErrAccountNotActive r w'" if inact: "acc_Status a \<noteq> AccountActive \<or> acc_Status x \<noteq> AccountActive"
  proof (rule refuse)
    fix w2 :: pg assume t2: "tabs w2 = tabs w"
    obtain y where "y \<in> set (accounts (tabs w))" "acc_Status y \<noteq> AccountActive"
      "acc_ID y \<in> ent_AccountID ` set (txn_Entries ?t)" using inact k by (auto simp: NewWithdraw_def)
    then show "\<exists>r w3. LedgerRepo_Post env ?t ?c w2 = (r, w3) \<and> refused w2 ErrAccountNotActive r w3"
      using inactive_refuses [OF nf, of w2 ?c ?t y] k D t(2) t2 by (simp add: NewWithdraw_def)
  qed simp
  show "refused w ErrInsufficientBalance r w'" if st: "acc_Status a = AccountActive" "acc_Status x = AccountActive"
    and fresh: "fresh_uuids env (tabs w)" and short: "acc_Balance a < mr_AmountSen req"
  proof (rule refuse)
    fix w2 :: pg assume t2: "tabs w2 = tabs w" "seqs w2 = seqs w"
    let ?e = "\<lparr> ent_AccountID = acc_ID a, ent_Direction = DirectionDebit, ent_Amount = mr_AmountSen req \<rparr>"
    have es: "txn_Entries ?t = [?e, \<lparr> ent_AccountID = acc_ID x, ent_Direction = DirectionCredit,
        ent_Amount = mr_AmountSen req \<rparr>]" by (simp add: NewWithdraw_def)
    have act: "\<forall>e \<in> set (txn_Entries ?t). \<exists>b \<in> set (accounts (tabs w)). acc_ID b = ent_AccountID e \<and> acc_Status b = AccountActive"
      unfolding es using k st by auto
    have neg: "acc_Balance a + entry_delta ?e (acc_NormalBalance a) < 0"
      using short t(5) by (simp add: entry_delta_def)
    show "\<exists>r w3. LedgerRepo_Post env ?t ?c w2 = (r, w3) \<and> refused w2 ErrInsufficientBalance r w3"
      by (rule overdraft_refuses [OF nf _ _ t(2,3) es, of w2 ?c a])
        (use k I act neg fresh t2 in \<open>simp_all add: MoneyRequest_claim_def NewWithdraw_def enum_txn_type_def txn_type_defs\<close>)
  qed simp
qed

lemma Ledger_Withdraw_live:
  assumes nf: "no_faults env" and I: "db_inv (tabs w) (seqs w)" and ask: "withdraw_asked (tabs w) cfg req a x"
    and use: "usable a 0" "usable x 0" "mr_AmountSen req \<le> acc_Balance a" "int64_min \<le> acc_Balance x - mr_AmountSen req"
    and room: "seq_entries (seqs w) + 2 \<le> int64_max" "seq_outbox (seqs w) < int64_max"
    and fresh: "fresh_uuids env (tabs w)"
  shows "\<exists>p w'. Ledger_Withdraw (pg_ledger env cfg (acc_ID x) fees) req w = (Inr p, w')"
proof -
  let ?c = "MoneyRequest_claim req ''withdraw''" and ?t = "withdrawal req a x"
  note k = ask [unfolded withdraw_asked_def claim_ready_def] and t = withdraw_askedD [OF I ask]
  have bal: "in_int64 (acc_Balance a)" "in_int64 (acc_Balance x)"
    using I k by (simp_all add: db_inv_def ledger_inv_def accounts_ok_def)
  have "entry_accepts (accounts (tabs w)) \<lparr> ent_AccountID = acc_ID a, ent_Direction = DirectionDebit, ent_Amount = mr_AmountSen req \<rparr>"
    using k t(5) bal(1) use by (intro entry_acceptsI [of a]) (auto simp: entry_delta_def usable_def in_int64_def)
  moreover have "entry_accepts (accounts (tabs w)) \<lparr> ent_AccountID = acc_ID x, ent_Direction = DirectionCredit, ent_Amount = mr_AmountSen req \<rparr>"
    using k t(6) bal(2) use by (intro entry_acceptsI [of x])
      (auto simp: entry_delta_def usable_def AccountSystemCash_def AccountUserWallet_def)
  ultimately have acc: "post_accepts env (env_uuid env i) (env_uuid env j) ?t ?c (tabs w)" for i j
    using t(2,3) k fresh transactions_check_header [of ?t env "env_uuid env i"] char_length_le [of "clm_Key ?c"]
    by (auto simp: post_accepts_def Validate_None_iff NewWithdraw_def reversal_accepts_def enum_txn_type_def
        txn_type_defs fresh_uuids_def MoneyRequest_claim_def)
  obtain b w1 where G: "AccountRepo_GetWalletByUserID env (act_UserID (mr_Actor req)) w = (Inr b, w1)"
    using GetWallet_live [OF nf, of a w] k by blast
  have b: "b = a" using GetWallet_Inr [OF G] k wallet_unique [OF I] by auto
  have t1: "tabs w1 = tabs w" "seqs w1 = seqs w" using GetWallet_Inr [OF G] by auto
  have key: "clm_Key ?c \<noteq> ''''" "length (clm_Key ?c) \<le> 128" "claim_free (tabs w1) ?c"
    using k t1 key_nonempty [of "clm_Key ?c"] by auto
  have "\<exists>p w'. postIdempotent (pg_ledger env cfg (acc_ID x) fees) ?c (retP ?t) w1 = (Inr p, w')"
    by (rule postIdempotent_live [where txn = ?t, OF nf _ t(4) key])
      (use I t1 acc room in \<open>simp_all add: retP_def NewWithdraw_def\<close>)
  with t(7) G b show ?thesis by (auto simp: Ledger_Withdraw_def bindP_def liftR_def markViewer_def)
qed

section \<open>Cash in and out\<close>

definition demo_withdraw :: money_request where
  "demo_withdraw = \<lparr> mr_Actor = demo_actor 1 ''USER'', mr_IdempotencyKey = ''k2'', mr_RequestHash = ''h2'',
     mr_AmountSen = 4000, mr_Description = ''bayar'' \<rparr>"

definition demo_cash :: account where
  "demo_cash = settle 1000 (txn_Entries demo_topup) (hd (accounts (tabs demo_two)))"

text \<open>
  C14 functional. A topup or a withdrawal that succeeds answers with the result recorded under its
  user, key and request hash, marked with the caller's wallet, and its amount is at least one sen
  and at most the configured maximum. Either this result was recorded before and no table
  changes, or it shows exactly what was appended: the transaction, its entries and the balances
  after them. Then a topup adds the amount to the caller's wallet and to the cash account, a
  withdrawal takes it from both and never more than the wallet holds, and no other balance changes.
\<close>

theorem cash_in_and_out:
  assumes "reachable w" "cash_account (tabs w) cash"
  shows "(Ledger_Topup (pg_ledger env cfg cash fees) req w = (Inr p, w') \<longrightarrow>
      1 \<le> mr_AmountSen req \<and> mr_AmountSen req \<le> cfg_MaxTransfer cfg
      \<and> (\<exists>q. \<exists>a \<in> set (accounts (tabs w)).
           acc_UserID a = Some (act_UserID (mr_Actor req)) \<and> acc_Type a = AccountUserWallet
           \<and> p = q\<lparr>pr_ViewerAccountID := Some (acc_ID a)\<rparr>
           \<and> pg_answer (tabs w') (act_UserID (mr_Actor req)) (mr_IdempotencyKey req) = Some (mr_RequestHash req, q)
           \<and> (replayed w (MoneyRequest_claim req ''topup'') q w'
              \<or> posting_answer (tabs w) (tabs w')
                   (NewTopup cash (acc_ID a) (mr_AmountSen req) (act_UserID (mr_Actor req)) (mr_Description req)) q
                 \<and> cash_moved (tabs w) (tabs w') (acc_ID a) cash (mr_AmountSen req))))
    \<and> (Ledger_Withdraw (pg_ledger env cfg cash fees) req w = (Inr p, w') \<longrightarrow>
      1 \<le> mr_AmountSen req \<and> mr_AmountSen req \<le> cfg_MaxTransfer cfg
      \<and> (\<exists>q. \<exists>a \<in> set (accounts (tabs w)).
           acc_UserID a = Some (act_UserID (mr_Actor req)) \<and> acc_Type a = AccountUserWallet
           \<and> p = q\<lparr>pr_ViewerAccountID := Some (acc_ID a)\<rparr>
           \<and> pg_answer (tabs w') (act_UserID (mr_Actor req)) (mr_IdempotencyKey req) = Some (mr_RequestHash req, q)
           \<and> (replayed w (MoneyRequest_claim req ''withdraw'') q w'
              \<or> posting_answer (tabs w) (tabs w')
                   (NewWithdraw (acc_ID a) cash (mr_AmountSen req) (act_UserID (mr_Actor req)) (mr_Description req)) q
                 \<and> cash_moved (tabs w) (tabs w') (acc_ID a) cash (- mr_AmountSen req))))"
proof -
  note I = reachable_inv [OF assms(1)]
  let ?u = "act_UserID (mr_Actor req)" and ?d = "mr_Description req"
  have t: "cash_txn cash a m (1 * m) (NewTopup cash (acc_ID a) m ?u ?d)"
    "cash_txn cash a m (-1 * m) (NewWithdraw (acc_ID a) cash m ?u ?d)" for a m
    by (auto simp: cash_txn_def)
  have once: "txn_ReversesID (NewTopup cash i m ?u ?d) = None" "txn_ReversesID (NewWithdraw i cash m ?u ?d) = None" for i m
    by (simp_all add: NewTopup_def NewWithdraw_def)
  have c: "clm_UserID (MoneyRequest_claim req e) = ?u" "clm_Key (MoneyRequest_claim req e) = mr_IdempotencyKey req"
    "clm_RequestHash (MoneyRequest_claim req e) = mr_RequestHash req" for e
    by (simp_all add: MoneyRequest_claim_def)
  show ?thesis
    unfolding Ledger_Topup_def Ledger_Withdraw_def pg_ledger_simps
    using cash_op_moves [where build = "\<lambda>m a. NewTopup cash (acc_ID a) m ?u ?d" and cfg = cfg and fees = fees
          and c = "MoneyRequest_claim req ''topup''", OF I assms(2) t(1) NewTopup_typed _ once(1), unfolded c]
      cash_op_moves [where build = "\<lambda>m a. NewWithdraw (acc_ID a) cash m ?u ?d" and cfg = cfg and fees = fees
          and c = "MoneyRequest_claim req ''withdraw''", OF I assms(2) t(2) NewWithdraw_typed _ once(2), unfolded c]
    by simp
qed

theorem cash_in_and_out_witness:
  "\<exists>w x p w'. funded w
     \<and> Ledger_Withdraw (pg_ledger (demo_env2 x) demo_cfg 1 [2, 4]) demo_withdraw w = (Inr p, w')
     \<and> cash_moved (tabs w) (tabs w') 11 1 (- 4000)"
proof -
  obtain w where w: "funded w" using demo_funded by blast
  then have r: "reachable w" by (simp add: funded_def)
  note I = reachable_inv [OF r] and ready = funded_ready [OF w, unfolded transfer_ready_def request_ready_def]
  obtain x where x: "fresh_uuids (demo_env2 x) (tabs w)" using funded_fresh [OF w] by blast
  have cash: "demo_cash \<in> set (accounts (tabs w))" "acc_ID demo_cash = 1" "acc_Type demo_cash = AccountSystemCash"
    "usable demo_cash 0" "acc_Balance demo_cash = 5000"
    by (simp_all add: demo_cash_def funded_accounts [OF w] demo_two_def demo_registered_def migrated_tables_def
        usable_def settle_def demo_topup_def NewTopup_def system_row_def add_to_balance_def entry_delta_def
        account_type_defs AccountActive_def DirectionDebit_def DirectionCredit_def)
  have bal: "acc_Balance demo_wallet1 = 5000"
    by (simp add: demo_wallet1_def demo_topup_def NewTopup_def new_wallet_row_def settle_def
        entry_delta_def add_to_balance_def DirectionDebit_def DirectionCredit_def)
  have c: "MoneyRequest_claim demo_withdraw ''withdraw'' = (MoneyRequest_claim demo_transfer ''transfer'')\<lparr>clm_Endpoint := ''withdraw''\<rparr>"
    by (simp add: MoneyRequest_claim_def demo_withdraw_def demo_transfer_def)
  have free: "claim_free (tabs w) (MoneyRequest_claim demo_withdraw ''withdraw'')"
    using ready unfolding c by (simp add: claim_free_def)
  have ask: "withdraw_asked (tabs w) demo_cfg demo_withdraw demo_wallet1 demo_cash"
    using ready cash free unfolding withdraw_asked_def claim_ready_def c
    by (simp add: demo_withdraw_def demo_transfer_def demo_cfg_def maxSafeAmount_def Rupiah_def)
  have "usable demo_wallet1 0" "mr_AmountSen demo_withdraw \<le> acc_Balance demo_wallet1"
    "int64_min \<le> acc_Balance demo_cash - mr_AmountSen demo_withdraw"
    using ready bal cash(5) by (simp_all add: demo_withdraw_def)
  moreover have "seq_entries (seqs w) + 2 \<le> int64_max" "seq_outbox (seqs w) < int64_max" using ready by auto
  ultimately obtain p w' where W: "Ledger_Withdraw (pg_ledger (demo_env2 x) demo_cfg 1 [2, 4]) demo_withdraw w = (Inr p, w')"
    using Ledger_Withdraw_live [where fees = "[2, 4]", OF demo_env2_no_faults I ask _ cash(4) _ _ _ _ x,
        unfolded cash(2)] by blast
  have "pg_answer (tabs w) (clm_UserID (MoneyRequest_claim demo_withdraw ''withdraw''))
      (clm_Key (MoneyRequest_claim demo_withdraw ''withdraw'')) = None"
    using free by (auto simp: claim_free_def pg_answer_def find_None_iff split: option.split dest!: find_SomeD)
  then have new: "\<not> replayed w (MoneyRequest_claim demo_withdraw ''withdraw'') q w'" for q by (simp add: replayed_def)
  have "cash_account (tabs w) 1" using cash unfolding cash_account_def by blast
  from cash_in_and_out [OF r this, THEN conjunct2, THEN mp, OF W, THEN conjunct2, THEN conjunct2] new
  obtain a where a: "a \<in> set (accounts (tabs w))" "acc_UserID a = Some (act_UserID (mr_Actor demo_withdraw))"
      "acc_Type a = AccountUserWallet"
    and M: "cash_moved (tabs w) (tabs w') (acc_ID a) 1 (- mr_AmountSen demo_withdraw)" by blast
  have "a = demo_wallet1"
    using ready a by (intro wallet_unique [OF I]) (auto simp: demo_withdraw_def demo_transfer_def)
  moreover have "acc_ID demo_wallet1 = 11" "mr_AmountSen demo_withdraw = 4000"
    by (simp_all add: demo_wallet1_def new_wallet_row_def demo_withdraw_def)
  ultimately have "cash_moved (tabs w) (tabs w') 11 1 (- 4000)" using M by simp
  with w W show ?thesis by blast
qed

end
