(* ===== verification/RateLimit.thy ===== *)
theory RateLimit
  imports Errors
begin

text \<open>
  The rate limiters of internal/platform/ratelimit: \<open>Limiter\<close> (memory.go), which keeps its
  counters in the process, and \<open>RedisLimiter\<close> (redis.go), which keeps them in Redis behind a
  Lua script. An operation takes the reading of the clock as an argument. \<open>Allow\<close> of memory.go
  reads the clock and then takes the mutex, which makes the rest one step: concurrent calls are
  a sequence of steps in the order of the mutex, but their readings need not be in this order.

  The locale \<open>fixed_window\<close> is the contract of a counter per key and window; what a client
  may rely on (a bound on what is let through in any interval of the window's length, and no
  refusal below the limit) is proved there once, for readings late by at most \<open>d\<close>, and read off
  for \<open>Limiter\<close> and for \<open>RedisLimiter\<close>. The commands of Redis are parameters, with what Redis
  documents of them as hypotheses; the script that calls them is code of the program.
\<close>

section \<open>memory.go\<close>

record bucket =
  bk_count :: int64
  bk_resetAt :: time

record Limiter =
  lim_limit :: int64
  lim_window :: duration
  lim_buckets :: "string \<Rightarrow> bucket option"
  lim_lastGC :: time

text \<open>The zero \<open>time.Time\<close> (year 1), and \<open>Time.Sub\<close>, which saturates.\<close>

definition zero_time :: time where
  "zero_time = - 62135596800 * 1000000000"

definition Time_Sub :: "time \<Rightarrow> time \<Rightarrow> duration" where
  "Time_Sub t u = (if t - u > int64_max then int64_max
                   else if t - u < int64_min then int64_min else t - u)"

definition ratelimit_New :: "int64 \<Rightarrow> duration \<Rightarrow> Limiter" where
  "ratelimit_New limit window =
     \<lparr> lim_limit = limit, lim_window = window, lim_buckets = (\<lambda>k. None), lim_lastGC = zero_time \<rparr>"

definition gc :: "time \<Rightarrow> Limiter \<Rightarrow> Limiter" where
  "gc now l =
     l\<lparr> lim_buckets := (\<lambda>k. case lim_buckets l k of
                             None \<Rightarrow> None
                           | Some b \<Rightarrow> if bk_resetAt b < now then None else Some b),
        lim_lastGC := now \<rparr>"

definition Limiter_Allow :: "time \<Rightarrow> string \<Rightarrow> Limiter \<Rightarrow> bool \<times> Limiter" where
  "Limiter_Allow now key l0 =
     (if key = [] then (False, l0)
      else
        let l = (if Time_Sub now (lim_lastGC l0) > lim_window l0 then gc now l0 else l0);
            fresh = (1 \<le> lim_limit l,
                     l\<lparr> lim_buckets := (lim_buckets l)(key \<mapsto>
                          \<lparr> bk_count = 1, bk_resetAt = now + lim_window l \<rparr>) \<rparr>)
        in case lim_buckets l key of
             None \<Rightarrow> fresh
           | Some b \<Rightarrow>
               if bk_resetAt b < now then fresh
               else let b' = b\<lparr> bk_count := wrap64 (bk_count b + 1) \<rparr>
                    in (bk_count b' \<le> lim_limit l,
                        l\<lparr> lim_buckets := (lim_buckets l)(key \<mapsto> b') \<rparr>))"

section \<open>redis.go\<close>

text \<open>
  Redis is a parameter: the commands the script calls, at the instant \<open>now\<close> of the server, and
  \<open>rd_Eval\<close>, which stands for \<open>client.Eval(ctx, ...).Int64()\<close> under the deadline of the context. A
  command that fails ends the script with its error. \<open>incrScript\<close> is the Lua text, line by line.
\<close>

record 'r redis =
  rd_INCR :: "time \<Rightarrow> string \<Rightarrow> ('r, int64) prog"
  rd_PEXPIRE :: "time \<Rightarrow> string \<Rightarrow> int64 \<Rightarrow> ('r, int64) prog"
  rd_Eval :: "('r, int64) prog \<Rightarrow> duration \<Rightarrow> ('r, int64) prog"

definition incrScript :: "'r redis \<Rightarrow> time \<Rightarrow> string list \<Rightarrow> int64 list \<Rightarrow> ('r, int64) prog" where
  "incrScript rd now KEYS ARGV =
     bindP (rd_INCR rd now (KEYS ! 0)) (\<lambda>n.
     bindP (if n = 1 then rd_PEXPIRE rd now (KEYS ! 0) (ARGV ! 0) else retP 0) (\<lambda>_.
     retP n))"

record RedisLimiter =
  rl_limit :: int64
  rl_window :: duration
  rl_prefix :: string
  rl_timeout :: duration

definition NewRedis :: "int64 \<Rightarrow> duration \<Rightarrow> RedisLimiter" where
  "NewRedis limit window =
     \<lparr> rl_limit = limit, rl_window = window, rl_prefix = ''ratelimit:'',
       rl_timeout = 500 * 1000000 \<rparr>"

definition RedisLimiter_Allow :: "'r redis \<Rightarrow> time \<Rightarrow> RedisLimiter \<Rightarrow> string \<Rightarrow> 'r \<Rightarrow> bool \<times> 'r" where
  "RedisLimiter_Allow rd now l key r =
     (if key = [] then (False, r)
      else case rd_Eval rd (incrScript rd now [rl_prefix l @ key] [rl_window l sdiv 1000000]) (rl_timeout l) r of
             (Inl e, r') \<Rightarrow> (False, r')
           | (Inr n, r') \<Rightarrow> (n \<le> rl_limit l, r'))"

section \<open>Runs of calls\<close>

text \<open>A run is a sequence of calls of \<open>Allow\<close>, each with its instant and key.\<close>

primrec run_calls :: "(time \<Rightarrow> string \<Rightarrow> 's \<Rightarrow> bool \<times> 's) \<Rightarrow> (time \<times> string) list \<Rightarrow> 's \<Rightarrow> bool list \<times> 's" where
  "run_calls step [] s = ([], s)"
| "run_calls step (c # cs) s =
     (let (ok, s') = step (fst c) (snd c) s; (oks, s'') = run_calls step cs s' in (ok # oks, s''))"

text \<open>
  \<open>calls_in k t u h\<close> counts the calls for the key \<open>k\<close> in a history \<open>h\<close> of calls with their
  answers whose instant lies between \<open>t\<close> and \<open>u\<close>; \<open>allowed_in\<close> those that were allowed.
\<close>

type_synonym answered = "(time \<times> string) \<times> bool"

definition calls_in :: "string \<Rightarrow> time \<Rightarrow> time \<Rightarrow> answered list \<Rightarrow> int" where
  "calls_in k t u h = int (length (filter (\<lambda>((i, k'), ok). k' = k \<and> t \<le> i \<and> i \<le> u) h))"

definition allowed_in :: "string \<Rightarrow> time \<Rightarrow> time \<Rightarrow> answered list \<Rightarrow> int" where
  "allowed_in k t u h = calls_in k t u (filter snd h)"

lemma calls_in_append [simp]: "calls_in k t u (h @ h') = calls_in k t u h + calls_in k t u h'"
  by (simp add: calls_in_def)

lemma calls_in_Nil [simp]: "calls_in k t u [] = 0"
  by (simp add: calls_in_def)

lemma calls_in_one:
  "calls_in k t u [((i, k'), ok)] = (if k' = k \<and> t \<le> i \<and> i \<le> u then 1 else 0)"
  by (simp add: calls_in_def)

lemma calls_in_nonneg [simp]: "0 \<le> calls_in k t u h"
  by (simp add: calls_in_def)

lemma calls_in_le_length: "calls_in k t u h \<le> int (length h)"
  by (simp add: calls_in_def)

lemma calls_in_mono: "\<lbrakk>t' \<le> t; u \<le> u'\<rbrakk> \<Longrightarrow> calls_in k t u h \<le> calls_in k t' u' h"
  unfolding calls_in_def
proof (induction h)
  case (Cons a h)
  then show ?case by (cases a; cases "fst a") auto
qed simp

lemma calls_in_later:
  assumes "\<forall>x \<in> set h. fst (fst x) < t"
  shows "calls_in k t u h = 0"
proof -
  have "filter (\<lambda>((i, k'), ok). k' = k \<and> t \<le> i \<and> i \<le> u) h = []"
    using assms by (fastforce simp: filter_empty_conv)
  then show ?thesis by (simp add: calls_in_def)
qed

lemma allowed_in_append [simp]: "allowed_in k t u (h @ h') = allowed_in k t u h + allowed_in k t u h'"
  by (simp add: allowed_in_def)

lemma allowed_in_Nil [simp]: "allowed_in k t u [] = 0"
  by (simp add: allowed_in_def)

lemma allowed_in_one:
  "allowed_in k t u [((i, k'), ok)] = (if ok \<and> k' = k \<and> t \<le> i \<and> i \<le> u then 1 else 0)"
  by (simp add: allowed_in_def calls_in_one)

lemma allowed_in_mono: "\<lbrakk>t' \<le> t; u \<le> u'\<rbrakk> \<Longrightarrow> allowed_in k t u h \<le> allowed_in k t' u' h"
  by (simp add: allowed_in_def calls_in_mono)

section \<open>Counting in windows\<close>

definition within :: "time \<Rightarrow> time \<Rightarrow> time list \<Rightarrow> int" where
  "within t u xs = int (length (filter (\<lambda>x. t \<le> x \<and> x \<le> u) xs))"

lemma within_Cons: "within t u (x # xs) = (if t \<le> x \<and> x \<le> u then 1 else 0) + within t u xs"
  by (simp add: within_def)

lemma within_Nil [simp]: "within t u [] = 0"
  by (simp add: within_def)

lemma within_le: "within t u xs \<le> int (length xs)"
  by (simp add: within_def)

text \<open>Points more than \<open>g\<close> apart, the latest first: an interval of length \<open>n * g\<close> holds at most \<open>n\<close>.\<close>

abbreviation spaced :: "int \<Rightarrow> time list \<Rightarrow> bool" where
  "spaced g \<equiv> sorted_wrt (\<lambda>x y. y + g < x)"

lemma spaced_first:
  assumes "spaced g ts" "0 \<le> g" "filter (\<lambda>x. a \<le> x \<and> x \<le> b) ts = f # rest"
  shows "int (length rest) * g \<le> f - a \<and> (rest \<noteq> [] \<longrightarrow> int (length rest) * g < f - a)"
  using assms(1,3)
proof (induction ts arbitrary: f rest)
  case (Cons x ts)
  show ?case
  proof (cases "a \<le> x \<and> x \<le> b")
    case False
    with Cons show ?thesis by (auto split: if_splits)
  next
    case True
    with Cons.prems have f: "f = x" "rest = filter (\<lambda>x. a \<le> x \<and> x \<le> b) ts" by auto
    show ?thesis
    proof (cases rest)
      case Nil
      with True f show ?thesis by simp
    next
      case (Cons f' rest')
      with f have r: "filter (\<lambda>x. a \<le> x \<and> x \<le> b) ts = f' # rest'" by simp
      then have "f' \<in> set ts" by (metis filter_eq_ConsD in_set_conv_decomp)
      with Cons.prems(1) have "f' + g < x" by simp
      moreover have "int (length rest') * g \<le> f' - a" using Cons.IH [OF _ r] Cons.prems(1) by simp
      moreover have "int (length rest) * g = int (length rest') * g + g"
        using Cons by (simp add: algebra_simps)
      ultimately show ?thesis using True f(1) by linarith
    qed
  qed
qed simp

lemma spaced_count:
  assumes "spaced g ts" "0 \<le> g" "b - a \<le> n * g" "0 < n"
  shows "within a b ts \<le> n"
proof (cases "filter (\<lambda>x. a \<le> x \<and> x \<le> b) ts")
  case Nil
  with assms(4) show ?thesis by (simp add: within_def)
next
  case (Cons f rest)
  have "f \<in> set (filter (\<lambda>x. a \<le> x \<and> x \<le> b) ts)" using Cons by simp
  then have "f \<le> b" by simp
  show ?thesis
  proof (rule ccontr)
    assume "\<not> within a b ts \<le> n"
    with Cons have len: "n \<le> int (length rest)" by (simp add: within_def)
    then have "rest \<noteq> []" using assms(4) by auto
    with spaced_first [OF assms(1,2) Cons] have "int (length rest) * g < f - a" by simp
    moreover have "n * g \<le> int (length rest) * g" by (rule mult_right_mono [OF len assms(2)])
    ultimately show False using \<open>f \<le> b\<close> assms(3) by linarith
  qed
qed

section \<open>The contract of a fixed window counter\<close>

text \<open>
  \<open>stored k s\<close> is the counter of the key \<open>k\<close>, its count and the end of its window. A call at a
  reading after this end opens a new window, any other is counted; counters of other keys may be
  dropped once they have run out. Unless \<open>sure\<close>, a call may also fail: it is refused, counted or
  not.
\<close>

locale fixed_window =
  fixes step :: "time \<Rightarrow> string \<Rightarrow> 's \<Rightarrow> bool \<times> 's"
    and stored :: "string \<Rightarrow> 's \<Rightarrow> (int \<times> time) option"
    and limit :: int
    and window :: duration
    and inv :: "'s \<Rightarrow> bool"
    and sure :: bool
  assumes window_nonneg: "0 \<le> window"
    and keeps: "\<lbrakk>inv s; step now k s = (ok, s')\<rbrakk> \<Longrightarrow> inv s'"
    and empty_key: "step now [] s = (False, s)"
    and opens: "\<lbrakk>inv s; k \<noteq> []; case stored k s of None \<Rightarrow> True | Some (c, r) \<Rightarrow> r < now; step now k s = (ok, s')\<rbrakk>
        \<Longrightarrow> ok = (1 \<le> limit) \<and> stored k s' = Some (1, now + window)
          \<or> \<not> sure \<and> \<not> ok \<and> stored k s' \<in> {stored k s, Some (1, now + window)}"
    and counts: "\<lbrakk>inv s; k \<noteq> []; stored k s = Some (c, r); now \<le> r; 0 \<le> c; c < int64_max; step now k s = (ok, s')\<rbrakk>
        \<Longrightarrow> ok = (c + 1 \<le> limit) \<and> stored k s' = Some (c + 1, r)
          \<or> \<not> sure \<and> \<not> ok \<and> stored k s' \<in> {stored k s, Some (c + 1, r)}"
    and other_keys: "\<lbrakk>inv s; step now k s = (ok, s'); k' \<noteq> k\<rbrakk> \<Longrightarrow>
        stored k' s' = stored k' s \<or> stored k' s' = None \<and> (\<exists>c r. stored k' s = Some (c, r) \<and> r < now)"
begin

text \<open>
  A window is its opening and the readings of the calls it let through. \<open>windows d ws\<close>: the
  windows of one key, the latest first, when readings come late by at most \<open>d\<close>.
\<close>

definition windows :: "int \<Rightarrow> (time \<times> time list) list \<Rightarrow> bool" where
  "windows d ws \<longleftrightarrow>
     spaced (window - d) (map fst ws)
     \<and> (\<forall>(b, xs) \<in> set ws. int (length xs) \<le> max 0 limit \<and> (\<forall>x \<in> set xs. b - d \<le> x \<and> x \<le> b + window))"

definition counted :: "(time \<times> time list) list \<Rightarrow> time \<Rightarrow> time \<Rightarrow> int" where
  "counted ws t u = (\<Sum>w \<leftarrow> ws. within t u (snd w))"

text \<open>What the counter of \<open>k\<close> knows of the history \<open>h\<close> and the latest window.\<close>

definition linked :: "int \<Rightarrow> string \<Rightarrow> answered list \<Rightarrow> (time \<times> time list) list \<Rightarrow> (int \<times> time) option \<Rightarrow> bool" where
  "linked d k h ws x \<longleftrightarrow>
     (case x of
        None \<Rightarrow> (case ws of [] \<Rightarrow> True | w # _ \<Rightarrow> \<exists>y \<in> set h. fst w + window < fst (fst y))
      | Some (c, r) \<Rightarrow>
          0 \<le> c \<and> c \<le> int (length h) \<and> (\<exists>y \<in> set h. fst (fst y) = r - window)
          \<and> (\<exists>xs ws'. ws = (r - window, xs) # ws' \<and> int (length xs) \<le> c)
          \<and> (\<forall>u. (\<forall>y \<in> set h. fst (fst y) \<le> u) \<longrightarrow> c \<le> calls_in k (r - window - d) u h))"

definition tracks :: "int \<Rightarrow> string \<Rightarrow> answered list \<Rightarrow> 's \<Rightarrow> bool" where
  "tracks d k h s \<longleftrightarrow>
     inv s \<and> (\<exists>ws. windows d ws \<and> (\<forall>t u. allowed_in k t u h = counted ws t u) \<and> linked d k h ws (stored k s))"

definition most :: "int \<Rightarrow> int" where
  "most d = (if d = 0 then 2 else 3)"

definition served :: "int \<Rightarrow> string \<Rightarrow> answered list \<Rightarrow> bool" where
  "served d k h \<longleftrightarrow>
     (\<forall>t. allowed_in k t (t + window) h \<le> most d * max 0 limit)
     \<and> (sure \<longrightarrow> (\<forall>h1 i h2. h = h1 @ ((i, k), False) # h2 \<longrightarrow> limit \<le> calls_in k (i - window - d) (i + d) h1))"

lemma counted_bound:
  assumes W: "windows d ws" and d: "0 \<le> d" "4 * d \<le> window"
  shows "counted ws t (t + window) \<le> most d * max 0 limit"
proof -
  have "within t (t + window) (snd w)
      \<le> (if t - window \<le> fst w \<and> fst w \<le> t + window + d then max 0 limit else 0)" if "w \<in> set ws" for w
  proof -
    obtain b xs where w: "w = (b, xs)" by fastforce
    have x: "int (length xs) \<le> max 0 limit" "\<forall>x \<in> set xs. b - d \<le> x \<and> x \<le> b + window"
      using W that w unfolding windows_def by auto
    show ?thesis
    proof (cases "t - window \<le> b \<and> b \<le> t + window + d")
      case True
      with x(1) within_le [of t "t + window" xs] show ?thesis by (simp add: w)
    next
      case False
      have "\<not> (t \<le> x \<and> x \<le> t + window)" if "x \<in> set xs" for x
        using bspec [OF x(2) that] False by linarith
      then have "within t (t + window) xs = 0" by (simp add: within_def filter_empty_conv)
      with False show ?thesis by (simp add: w)
    qed
  qed
  then have "counted ws t (t + window)
      \<le> (\<Sum>w \<leftarrow> ws. if t - window \<le> fst w \<and> fst w \<le> t + window + d then max 0 limit else 0)"
    unfolding counted_def by (rule sum_list_mono)
  also have "\<dots> = within (t - window) (t + window + d) (map fst ws) * max 0 limit"
    by (induction ws) (simp_all add: within_Cons algebra_simps)
  also have "\<dots> \<le> most d * max 0 limit"
  proof (rule mult_right_mono)
    show "within (t - window) (t + window + d) (map fst ws) \<le> most d"
      by (rule spaced_count [where g = "window - d"])
        (use W d in \<open>auto simp: windows_def most_def algebra_simps\<close>)
  qed simp
  finally show ?thesis .
qed

text \<open>A call that changes neither the windows nor the counter of \<open>k\<close>, but for dropping it.\<close>

lemma linked_idle:
  assumes L: "linked d k h ws x" and late: "0 \<le> d"
    and x': "x' = x \<or> x' = None \<and> (\<exists>c r. x = Some (c, r) \<and> r < i)"
  shows "linked d k (h @ [((i, k'), ok)]) ws x'"
  using x'
proof
  assume "x' = x"
  with L show ?thesis
    by (fastforce simp: linked_def calls_in_one split: option.splits list.splits)
next
  assume "x' = None \<and> (\<exists>c r. x = Some (c, r) \<and> r < i)"
  with L show ?thesis by (auto simp: linked_def)
qed

lemma windows_open:
  assumes W: "windows d ws" and L: "linked d k h ws x" and d: "0 \<le> d" "d \<le> window"
    and late: "\<forall>y \<in> set h. fst (fst y) \<le> i + d" and dead: "case x of None \<Rightarrow> True | Some (c, r) \<Rightarrow> r < i"
    and xs: "int (length xs) \<le> max 0 limit" "set xs \<subseteq> {i}"
  shows "windows d ((i, xs) # ws)"
proof -
  have "b + (window - d) < i" if "b \<in> set (map fst ws)" for b
  proof (cases ws)
    case (Cons w ws')
    have first: "fst w + (window - d) < i"
      using L dead late d Cons by (fastforce simp: linked_def split: option.splits)
    have "b = fst w \<or> b + (window - d) < fst w" using W that Cons by (auto simp: windows_def)
    with first d show ?thesis by auto
  qed (use that in simp)
  with W xs d show ?thesis by (auto simp: windows_def)
qed

lemma linked_open:
  assumes "0 \<le> d" "length xs \<le> 1" "0 \<le> window"
  shows "linked d k (h @ [((i, k), ok)]) ((i, xs) # ws) (Some (1, i + window))"
  using assms by (auto simp: linked_def calls_in_one)


text \<open>A call counted in the window that is open.\<close>

lemma linked_count:
  assumes "linked d k h ((r - window, xs) # ws) (Some (c, r))" "int (length xs') \<le> c + 1"
    and "r - window \<le> i + d"
  shows "linked d k (h @ [((i, k), ok)]) ((r - window, xs') # ws) (Some (c + 1, r))"
proof -
  have "c + 1 \<le> calls_in k (r - window - d) u (h @ [((i, k), ok)])"
    if "\<forall>y \<in> set (h @ [((i, k), ok)]). fst (fst y) \<le> u" for u
  proof -
    have "c \<le> calls_in k (r - window - d) u h" using assms(1) that by (auto simp: linked_def)
    with that assms(3) show ?thesis by (simp add: calls_in_one)
  qed
  with assms(1,2) show ?thesis unfolding linked_def by auto
qed

lemma windows_count:
  assumes W: "windows d ((r - window, xs) # ws)" and "int (length xs') \<le> max 0 limit"
    and "set xs' \<subseteq> insert i (set xs)" "r - window \<le> i + d" "i \<le> r"
  shows "windows d ((r - window, xs') # ws)"
  using assms by (fastforce simp: windows_def)

lemma linked_Some:
  assumes "linked d k h ws (Some (c, r))"
  shows "\<exists>xs ws'. ws = (r - window, xs) # ws' \<and> int (length xs) \<le> c"
    and "0 \<le> c" and "c \<le> int (length h)" and "\<exists>y \<in> set h. fst (fst y) = r - window"
    and "\<forall>y \<in> set h. fst (fst y) \<le> u \<Longrightarrow> c \<le> calls_in k (r - window - d) u h"
  using assms by (auto simp: linked_def)

lemma tracksI:
  "\<lbrakk>inv s; windows d ws; \<And>t u. allowed_in k t u h = counted ws t u; linked d k h ws (stored k s)\<rbrakk>
    \<Longrightarrow> tracks d k h s"
  unfolding tracks_def by blast

lemma tracks_step:
  assumes T: "tracks d k h s" and s: "step i k' s = (ok, s')" and k: "k \<noteq> []"
    and d: "0 \<le> d" "d \<le> window" and late: "\<forall>y \<in> set h. fst (fst y) \<le> i + d"
    and few: "int (length h) < int64_max"
  shows "tracks d k (h @ [((i, k'), ok)]) s'"
    and "\<lbrakk>k' = k; \<not> ok; sure\<rbrakk> \<Longrightarrow> limit \<le> calls_in k (i - window - d) (i + d) h"
proof -
  from T obtain ws where I: "inv s" and W: "windows d ws"
    and A: "\<And>t u. allowed_in k t u h = counted ws t u" and L: "linked d k h ws (stored k s)"
    unfolding tracks_def by blast
  note I' = keeps [OF I s]
  have idle: "tracks d k (h @ [((i, k'), ok)]) s'"
    if "stored k s' = stored k s \<or> stored k s' = None \<and> (\<exists>c r. stored k s = Some (c, r) \<and> r < i)"
      and "k' \<noteq> k \<or> \<not> ok"
    by (rule tracksI [OF I' W _ linked_idle [OF L d(1) that(1)]])
      (use that(2) in \<open>auto simp: A allowed_in_one\<close>)
  have open_window: "tracks d k (h @ [((i, k), ok)]) s'"
    if "case stored k s of None \<Rightarrow> True | Some (c, r) \<Rightarrow> r < i" "stored k s' = Some (1, i + window)"
      "ok \<longrightarrow> 1 \<le> limit"
  proof (rule tracksI [OF I'])
    let ?xs = "if ok then [i] else []"
    show "windows d ((i, ?xs) # ws)"
      by (rule windows_open [OF W L d late that(1)]) (use that(3) in auto)
    show "allowed_in k t u (h @ [((i, k), ok)]) = counted ((i, ?xs) # ws) t u" for t u
      unfolding allowed_in_append A by (simp add: counted_def allowed_in_one within_Cons)
    show "linked d k (h @ [((i, k), ok)]) ((i, ?xs) # ws) (stored k s')"
      unfolding that(2) by (rule linked_open) (use d window_nonneg in auto)
  qed
  have count: "tracks d k (h @ [((i, k), ok)]) s'"
    if c: "stored k s = Some (c, r)" "i \<le> r" "stored k s' = Some (c + 1, r)" "ok \<longrightarrow> c + 1 \<le> limit" for c r
  proof -
    from linked_Some(1) [OF L [unfolded c(1)]] obtain xs ws' where ws: "ws = (r - window, xs) # ws'"
      and xs: "int (length xs) \<le> c" by metis
    have b: "r - window \<le> i + d" using linked_Some(4) [OF L [unfolded c(1)]] late by fastforce
    let ?xs = "if ok then i # xs else xs"
    show ?thesis
    proof (rule tracksI [OF I'])
      show "windows d ((r - window, ?xs) # ws')"
        by (rule windows_count [OF W [unfolded ws] _ _ b c(2)])
          (use W ws xs c(4) in \<open>auto simp: windows_def\<close>)
      show "allowed_in k t u (h @ [((i, k), ok)]) = counted ((r - window, ?xs) # ws') t u" for t u
        unfolding allowed_in_append A ws by (simp add: counted_def allowed_in_one within_Cons)
      show "linked d k (h @ [((i, k), ok)]) ((r - window, ?xs) # ws') (stored k s')"
        unfolding c(3) by (rule linked_count [OF L [unfolded ws c(1)] _ b]) (use xs in auto)
    qed
  qed
  show "tracks d k (h @ [((i, k'), ok)]) s'"
  proof (cases "k' = k")
    case False
    then show ?thesis by (intro idle) (use other_keys [OF I s, of k] in auto)
  next
    case same: True
    show ?thesis
    proof (cases "case stored k s of None \<Rightarrow> True | Some (c, r) \<Rightarrow> r < i")
      case True
      from opens [OF I k True s [unfolded same]]
      consider (new) "ok \<longrightarrow> 1 \<le> limit" "stored k s' = Some (1, i + window)"
        | (failed) "\<not> ok" "stored k s' = stored k s" by blast
      then show ?thesis
      proof cases
        case new
        with open_window [OF True] show ?thesis by (simp add: same)
      next
        case failed
        then show ?thesis by (intro idle) simp_all
      qed
    next
      case False
      then obtain c r where c: "stored k s = Some (c, r)" "i \<le> r" by (auto split: option.splits)
      from linked_Some(2,3) [OF L [unfolded c(1)]] few have "0 \<le> c" "c < int64_max" by simp_all
      from counts [OF I k c this s [unfolded same]]
      consider (counted) "ok \<longrightarrow> c + 1 \<le> limit" "stored k s' = Some (c + 1, r)"
        | (failed) "\<not> ok" "stored k s' = stored k s" by blast
      then show ?thesis
      proof cases
        case counted
        with count [OF c] show ?thesis by (simp add: same)
      next
        case failed
        then show ?thesis by (intro idle) simp_all
      qed
    qed
  qed
  show "limit \<le> calls_in k (i - window - d) (i + d) h" if refused: "k' = k" "\<not> ok" "sure"
  proof (cases "case stored k s of None \<Rightarrow> True | Some (c, r) \<Rightarrow> r < i")
    case True
    from opens [OF I k this s [unfolded refused(1)]] refused have "limit \<le> 0" by auto
    then show ?thesis using calls_in_nonneg order_trans by blast
  next
    case False
    then obtain c r where c: "stored k s = Some (c, r)" "i \<le> r" by (auto split: option.splits)
    from linked_Some(2,3) [OF L [unfolded c(1)]] few have cc: "0 \<le> c" "c < int64_max" by simp_all
    from linked_Some(5) [OF L [unfolded c(1)] late] have cs: "c \<le> calls_in k (r - window - d) (i + d) h" .
    from counts [OF I k c cc s [unfolded refused(1)]] refused have "limit \<le> c" by auto
    also note cs
    also have "calls_in k (r - window - d) (i + d) h \<le> calls_in k (i - window - d) (i + d) h"
      by (rule calls_in_mono) (use c(2) in auto)
    finally show ?thesis .
  qed
qed

lemma tracks_served:
  assumes "tracks d k h s" "0 \<le> d" "4 * d \<le> window"
  shows "allowed_in k t (t + window) h \<le> most d * max 0 limit"
  using assms(1) counted_bound [OF _ assms(2,3)] unfolding tracks_def by metis

lemma served_step:
  assumes T: "tracks d k h s" and S: "served d k h" and s: "step i k' s = (ok, s')" and k: "k \<noteq> []"
    and d: "0 \<le> d" "4 * d \<le> window" and late: "\<forall>y \<in> set h. fst (fst y) \<le> i + d"
    and few: "int (length h) < int64_max"
  shows "served d k (h @ [((i, k'), ok)])"
proof -
  have dw: "d \<le> window" using d by linarith
  note T' = tracks_step [OF T s k d(1) dw late few]
  have "limit \<le> calls_in k (j - window - d) (j + d) h1"
    if u: "sure" and e: "h @ [((i, k'), ok)] = h1 @ ((j, k), False) # h2" for h1 j h2
  proof (cases h2 rule: rev_cases)
    case Nil
    with e have "h1 = h" "j = i" "k' = k" "\<not> ok" by auto
    with T'(2) u show ?thesis by simp
  next
    case (snoc h3 y)
    with e have "h = h1 @ ((j, k), False) # h3" by simp
    with S u show ?thesis unfolding served_def by blast
  qed
  with tracks_served [OF T'(1) d] show ?thesis unfolding served_def by blast
qed

lemma run_served:
  assumes "run_calls step cs s = (oks, s')" "tracks d k h s" "served d k h" "k \<noteq> []"
    and d: "0 \<le> d" "4 * d \<le> window"
    and "sorted_wrt (\<lambda>x y. fst x \<le> fst y + d) (map fst h @ cs)"
    and "int (length h + length cs) \<le> int64_max"
  shows "served d k (h @ zip cs oks) \<and> length oks = length cs"
  using assms(1-3,7,8)
proof (induction cs arbitrary: h s oks)
  case Nil
  then show ?case by simp
next
  case (Cons c cs)
  obtain i k' where c: "c = (i, k')" by fastforce
  obtain ok s1 oks1 where S: "step i k' s = (ok, s1)" "run_calls step cs s1 = (oks1, s')" "oks = ok # oks1"
    using Cons.prems(1) by (auto simp: c Let_def split: prod.splits)
  have late: "\<forall>y \<in> set h. fst (fst y) \<le> i + d" "int (length h) < int64_max" "d \<le> window"
    using Cons.prems(4,5) d by (auto simp: sorted_wrt_append c)
  note T = tracks_step(1) [OF Cons.prems(2) S(1) assms(4) d(1) late(3,1,2)]
  note V = served_step [OF Cons.prems(2,3) S(1) assms(4) d late(1,2)]
  have "sorted_wrt (\<lambda>x y. fst x \<le> fst y + d) (map fst (h @ [((i, k'), ok)]) @ cs)"
    "int (length (h @ [((i, k'), ok)]) + length cs) \<le> int64_max"
    using Cons.prems(4,5) by (simp_all add: c)
  from Cons.IH [OF S(2) T V this] show ?case by (simp add: S(3) c)
qed

lemma fresh_run_served:
  assumes "run_calls step cs s = (oks, s')" "inv s" "stored k s = None" "k \<noteq> []"
    and "0 \<le> d" "4 * d \<le> window" "sorted_wrt (\<lambda>x y. fst x \<le> fst y + d) cs"
    and "int (length cs) \<le> int64_max"
  shows "served d k (zip cs oks)"
proof -
  have "tracks d k [] s"
    by (rule tracksI [OF assms(2), where ws = "[]"])
      (simp_all add: windows_def counted_def linked_def assms(3))
  moreover have "served d k []" by (simp add: served_def most_def)
  ultimately show ?thesis
    using run_served [OF assms(1) _ _ assms(4-6), of "[]"] assms(7,8) by simp
qed

lemma empty_key_refused:
  "\<lbrakk>run_calls step cs s = (oks, s'); (x, ok) \<in> set (zip cs oks); snd x = []\<rbrakk> \<Longrightarrow> \<not> ok"
proof (induction cs arbitrary: s oks)
  case (Cons c cs)
  obtain ok1 s1 oks1 where S: "step (fst c) (snd c) s = (ok1, s1)" "run_calls step cs s1 = (oks1, s')" "oks = ok1 # oks1"
    using Cons.prems(1) by (auto simp: Let_def split: prod.splits)
  with Cons.prems(2,3) Cons.IH [OF S(2)] show ?case by (auto simp: empty_key)
qed simp


end


section \<open>Limiter keeps the contract\<close>

definition bucket_of :: "string \<Rightarrow> Limiter \<Rightarrow> (int \<times> time) option" where
  "bucket_of k l = map_option (\<lambda>b. (bk_count b, bk_resetAt b)) (lim_buckets l k)"

definition configured :: "int64 \<Rightarrow> duration \<Rightarrow> Limiter \<Rightarrow> bool" where
  "configured limit window l \<longleftrightarrow> lim_limit l = limit \<and> lim_window l = window"

definition swept :: "time \<Rightarrow> Limiter \<Rightarrow> Limiter" where
  "swept now l = (if Time_Sub now (lim_lastGC l) > lim_window l then gc now l else l)"

text \<open>The clean-up of \<open>gc\<close> removes only counters that have run out.\<close>

lemma bucket_of_swept:
  "bucket_of k (swept now l) = bucket_of k l
   \<or> bucket_of k (swept now l) = None \<and> (\<exists>c r. bucket_of k l = Some (c, r) \<and> r < now)"
  by (auto simp: bucket_of_def swept_def gc_def split: option.splits)

lemma configured_swept [simp]: "configured limit window (swept now l) = configured limit window l"
  by (simp add: swept_def configured_def gc_def)

lemma Limiter_Allow_swept:
  assumes "k \<noteq> []"
  shows "Limiter_Allow now k l =
     (let l' = swept now l;
          (c, r) = (case bucket_of k l' of
                      None \<Rightarrow> (1, now + lim_window l')
                    | Some (c, r) \<Rightarrow> if r < now then (1, now + lim_window l') else (wrap64 (c + 1), r))
      in (c \<le> lim_limit l', l'\<lparr> lim_buckets := (lim_buckets l')(k \<mapsto> \<lparr> bk_count = c, bk_resetAt = r \<rparr>) \<rparr>))"
proof (cases "lim_buckets (swept now l) k")
  case None
  with assms show ?thesis
    by (simp add: Limiter_Allow_def Let_def swept_def [symmetric] bucket_of_def)
next
  case (Some b)
  with assms show ?thesis
    by (cases b) (simp add: Limiter_Allow_def Let_def swept_def [symmetric] bucket_of_def)
qed

lemma Limiter_Allow_bucket:
  assumes "configured limit window l" "k \<noteq> []" "Limiter_Allow now k l = (ok, l')"
  shows "configured limit window l'"
    and "k' \<noteq> k \<Longrightarrow> bucket_of k' l' = bucket_of k' (swept now l)"
    and "case bucket_of k (swept now l) of None \<Rightarrow> True | Some (c, r) \<Rightarrow> r < now \<Longrightarrow>
      ok = (1 \<le> limit) \<and> bucket_of k l' = Some (1, now + window)"
    and "bucket_of k (swept now l) = Some (c, r) \<Longrightarrow> now \<le> r \<Longrightarrow>
      ok = (wrap64 (c + 1) \<le> limit) \<and> bucket_of k l' = Some (wrap64 (c + 1), r)"
proof -
  have C: "lim_limit (swept now l) = limit" "lim_window (swept now l) = window"
    using assms(1) configured_swept [of limit window now l] by (simp_all add: configured_def)
  note A = assms(3) [unfolded Limiter_Allow_swept [OF assms(2)] Let_def C]
  show "configured limit window l'" using A C by (auto simp: configured_def split: option.splits prod.splits)
  show "bucket_of k' l' = bucket_of k' (swept now l)" if "k' \<noteq> k"
    using A that by (auto simp: bucket_of_def split: prod.splits)
  show "ok = (1 \<le> limit) \<and> bucket_of k l' = Some (1, now + window)"
    if "case bucket_of k (swept now l) of None \<Rightarrow> True | Some (c, r) \<Rightarrow> r < now"
    using A that by (cases "bucket_of k (swept now l)") (auto simp: bucket_of_def)
  show "ok = (wrap64 (c + 1) \<le> limit) \<and> bucket_of k l' = Some (wrap64 (c + 1), r)"
    if "bucket_of k (swept now l) = Some (c, r)" "now \<le> r"
    using A that by (auto simp: bucket_of_def)
qed

lemma Limiter_fixed_window:
  assumes "0 \<le> window"
  shows "fixed_window Limiter_Allow bucket_of limit window (configured limit window) True"
proof
  show "0 \<le> window" by (rule assms)
next
  fix l now k ok l' assume "configured limit window l" "Limiter_Allow now k l = (ok, l')"
  then show "configured limit window l'"
    using Limiter_Allow_bucket(1) by (cases "k = []") (auto simp: Limiter_Allow_def)
next
  fix now l show "Limiter_Allow now [] l = (False, l)" by (simp add: Limiter_Allow_def)
next
  fix l k now ok l'
  assume a: "configured limit window l" "k \<noteq> []" "Limiter_Allow now k l = (ok, l')"
    and dead: "case bucket_of k l of None \<Rightarrow> True | Some (c, r) \<Rightarrow> r < now"
  from dead have "case bucket_of k (swept now l) of None \<Rightarrow> True | Some (c, r) \<Rightarrow> r < now"
    using bucket_of_swept [of k now l] by (auto split: option.splits)
  from Limiter_Allow_bucket(3) [OF a this]
  show "ok = (1 \<le> limit) \<and> bucket_of k l' = Some (1, now + window)
      \<or> \<not> True \<and> \<not> ok \<and> bucket_of k l' \<in> {bucket_of k l, Some (1, now + window)}" by simp
next
  fix l k c r now ok l'
  assume a: "configured limit window l" "k \<noteq> []" "Limiter_Allow now k l = (ok, l')"
    and b: "bucket_of k l = Some (c, r)" "now \<le> r" and c: "0 \<le> c" "c < int64_max"
  from b have "bucket_of k (swept now l) = Some (c, r)" using bucket_of_swept [of k now l] by auto
  from Limiter_Allow_bucket(4) [OF a this b(2)]
  have "ok = (wrap64 (c + 1) \<le> limit) \<and> bucket_of k l' = Some (wrap64 (c + 1), r)" .
  moreover have "wrap64 (c + 1) = c + 1" using c by (intro wrap64_id) (simp add: in_int64_def)
  ultimately show "ok = (c + 1 \<le> limit) \<and> bucket_of k l' = Some (c + 1, r)
      \<or> \<not> True \<and> \<not> ok \<and> bucket_of k l' \<in> {bucket_of k l, Some (c + 1, r)}" by simp
next
  fix l now k ok l' k'
  assume a: "configured limit window l" "Limiter_Allow now k l = (ok, l')" "k' \<noteq> k"
  show "bucket_of k' l' = bucket_of k' l
      \<or> bucket_of k' l' = None \<and> (\<exists>c r. bucket_of k' l = Some (c, r) \<and> r < now)"
  proof (cases "k = []")
    case True
    with a(2) show ?thesis by (simp add: Limiter_Allow_def)
  next
    case False
    with bucket_of_swept [of k' now l] Limiter_Allow_bucket(2) [OF a(1) False a(2,3)] show ?thesis by simp
  qed
qed

interpretation limiter:
  fixed_window Limiter_Allow bucket_of limit "int w" "configured limit (int w)" True for limit w
  by (rule Limiter_fixed_window) simp

text \<open>
  C30 bounds. \<open>Allow\<close> of memory.go reads the clock before it takes the mutex, so a reading may
  reach the counter after a later one. When no reading comes after one more than \<open>d\<close> ahead of
  it, the limiter holds its promise for any limit, any window of at least \<open>4 * d\<close> and any
  sequence of fewer than \<open>2\<^sup>6\<^sup>3\<close> calls: in any interval of the window's length a key is let
  through at most twice the limit if the readings come in order (\<open>d = 0\<close>), at most three times
  the limit otherwise, and a call is refused only when at least \<open>limit\<close> earlier calls for its
  key read the clock between one window and \<open>d\<close> before it and \<open>d\<close> after it. The empty key is
  always refused.
\<close>

theorem limiter_bounds:
  assumes "0 \<le> d" "4 * d \<le> window" "sorted_wrt (\<lambda>x y. fst x \<le> fst y + d) cs"
    and "int (length cs) \<le> int64_max"
    and "run_calls Limiter_Allow cs (ratelimit_New limit window) = (oks, l)"
    and "k \<noteq> []"
  shows "(\<forall>t. allowed_in k t (t + window) (zip cs oks) \<le> (if d = 0 then 2 else 3) * max 0 limit)
    \<and> (\<forall>h1 i h2. zip cs oks = h1 @ ((i, k), False) # h2 \<longrightarrow>
         limit \<le> calls_in k (i - window - d) (i + d) h1)
    \<and> (\<forall>i ok. ((i, []), ok) \<in> set (zip cs oks) \<longrightarrow> \<not> ok)"
proof -
  have W: "0 \<le> window" using assms(1,2) by simp
  then have w: "int (nat window) = window" by simp
  have "configured limit window (ratelimit_New limit window)" "bucket_of k (ratelimit_New limit window) = None"
    by (simp_all add: configured_def ratelimit_New_def bucket_of_def)
  then have S: "limiter.served limit (nat window) d k (zip cs oks)"
    by (intro limiter.fresh_run_served [OF assms(5) _ _ assms(6,1) _ assms(3,4)]) (simp_all add: W assms(2))
  have "\<not> ok" if "((i, []), ok) \<in> set (zip cs oks)" for i ok
    using limiter.empty_key_refused [OF assms(5) that] by simp
  with S show ?thesis unfolding limiter.served_def limiter.most_def unfolding w by blast
qed

theorem limiter_bounds_witness:
  "run_calls Limiter_Allow [(1, ''a''), (0, ''a''), (2, ''b''), (12, ''a'')] (ratelimit_New 1 10)
     = ([True, False, True, True],
        snd (run_calls Limiter_Allow [(1, ''a''), (0, ''a''), (2, ''b''), (12, ''a'')] (ratelimit_New 1 10)))
   \<and> (\<forall>t. allowed_in ''a'' t (t + 10)
        (zip [(1, ''a''), (0, ''a''), (2, ''b''), (12, ''a'')] [True, False, True, True]) \<le> 3)"
proof -
  let ?cs = "[(1, ''a''), (0, ''a''), (2, ''b''), (12, ''a'')]"
  have run: "run_calls Limiter_Allow ?cs (ratelimit_New 1 10)
      = ([True, False, True, True], snd (run_calls Limiter_Allow ?cs (ratelimit_New 1 10)))"
    by (simp add: Limiter_Allow_def ratelimit_New_def Time_Sub_def zero_time_def gc_def wrap64_def Let_def)
  show ?thesis
    using limiter_bounds [of 1, OF _ _ _ _ run, of "''a''"] run by simp
qed

text \<open>
  Without a bound on how late a reading comes, no such bound holds: with the limit 3 and the
  window 10 these nine calls all pass, seven of them with readings between 10 and 20.
\<close>

lemma late_readings_pass:
  "fst (run_calls Limiter_Allow
       (map (\<lambda>i. (i, ''a'')) [0, 10, 10, 20, 10, 10, 31, 20, 20]) (ratelimit_New 3 10)) = replicate 9 True"
  "allowed_in ''a'' 10 20
     (zip (map (\<lambda>i. (i, ''a'')) [0, 10, 10, 20, 10, 10, 31, 20, 20]) (replicate 9 True)) = 7"
  by (simp_all add: Limiter_Allow_def ratelimit_New_def Time_Sub_def zero_time_def gc_def wrap64_def Let_def
      allowed_in_def calls_in_def eval_nat_numeral)


section \<open>The Redis limiter keeps the contract\<close>

lemma redis_limiter_fails_closed:
  "(fst (RedisLimiter_Allow rd now (NewRedis limit window) key r)
     \<longleftrightarrow> key \<noteq> [] \<and>
         (\<exists>n r'. rd_Eval rd (incrScript rd now [''ratelimit:'' @ key] [window sdiv 1000000]) 500000000 r = (Inr n, r')
            \<and> n \<le> limit))
   \<and> RedisLimiter_Allow rd now (NewRedis limit window) [] r = (False, r)"
  by (auto simp: RedisLimiter_Allow_def NewRedis_def split: prod.splits sum.splits)

text \<open>
  What Redis documents of its commands, on a server whose keys hold counters. \<open>entry r k\<close> is the
  value of the key \<open>k\<close> and, when it has one, the end of its life, after which it counts as absent.
  INCR counts up from an absent key, which it creates without an end of life, and keeps the end
  of another; it fails at the largest 64 bit integer. PEXPIRE sets the end of life of a key that
  exists. No command touches another key but to drop one that has run out. EVAL runs the script
  as one step and answers its result; the client may still see an error, whether the server ran
  the script or not. (A retry of the client is a further call, made at its own instant.)
\<close>

definition alive :: "time \<Rightarrow> (int \<times> time option) option \<Rightarrow> (int \<times> time option) option" where
  "alive now x = (case x of Some (c, Some e) \<Rightarrow> if e < now then None else x | _ \<Rightarrow> x)"

definition untouched :: "('r \<Rightarrow> string \<Rightarrow> (int \<times> time option) option) \<Rightarrow> time \<Rightarrow> string \<Rightarrow> 'r \<Rightarrow> 'r \<Rightarrow> bool" where
  "untouched entry now k r r' \<longleftrightarrow>
     (\<forall>k'. k' \<noteq> k \<longrightarrow> entry r' k' = entry r k' \<or> entry r' k' = None \<and> alive now (entry r k') = None)"

definition redis_laws :: "'r redis \<Rightarrow> ('r \<Rightarrow> string \<Rightarrow> (int \<times> time option) option) \<Rightarrow> bool" where
  "redis_laws rd entry \<longleftrightarrow>
     (\<forall>now k r. untouched entry now k r (snd (rd_INCR rd now k r)) \<and>
        (case alive now (entry r k) of
           None \<Rightarrow> fst (rd_INCR rd now k r) = Inr 1 \<and> entry (snd (rd_INCR rd now k r)) k = Some (1, None)
         | Some (c, e) \<Rightarrow>
             if c < int64_max
             then fst (rd_INCR rd now k r) = Inr (c + 1) \<and> entry (snd (rd_INCR rd now k r)) k = Some (c + 1, e)
             else isl (fst (rd_INCR rd now k r)) \<and> entry (snd (rd_INCR rd now k r)) k = entry r k))
     \<and> (\<forall>now k ms r. untouched entry now k r (snd (rd_PEXPIRE rd now k ms r)) \<and>
        (\<forall>c e. alive now (entry r k) = Some (c, e) \<and> 0 < ms \<and> ms * 1000000 \<le> int64_max \<longrightarrow>
           fst (rd_PEXPIRE rd now k ms r) = Inr 1
           \<and> entry (snd (rd_PEXPIRE rd now k ms r)) k = Some (c, Some (now + ms * 1000000))))
     \<and> (\<forall>m t r. \<exists>e. rd_Eval rd m t r \<in> {m r, (Inl e, r), (Inl e, snd (m r))})"

text \<open>Whatever a limiter writes has an end of life: this is what the script is atomic for.\<close>

definition expiring :: "('r \<Rightarrow> string \<Rightarrow> (int \<times> time option) option) \<Rightarrow> 'r \<Rightarrow> bool" where
  "expiring entry r \<longleftrightarrow> (\<forall>k c e. entry r k = Some (c, e) \<longrightarrow> 1 \<le> c \<and> e \<noteq> None)"

lemma untouched_trans:
  "\<lbrakk>untouched entry now k r1 r2; untouched entry now k r2 r3\<rbrakk> \<Longrightarrow> untouched entry now k r1 r3"
  unfolding untouched_def by (metis (no_types, opaque_lifting) alive_def option.case(1))

lemma expiring_untouched:
  assumes "expiring entry r" "untouched entry now k r r'"
    and "\<And>c e. entry r' k = Some (c, e) \<Longrightarrow> 1 \<le> c \<and> e \<noteq> None"
  shows "expiring entry r'"
  unfolding expiring_def
proof (intro allI impI)
  fix k' c e assume e: "entry r' k' = Some (c, e)"
  show "1 \<le> c \<and> e \<noteq> None"
  proof (cases "k' = k")
    case True
    with assms(3) e show ?thesis by blast
  next
    case False
    with assms(2) e have "entry r k' = Some (c, e)" unfolding untouched_def by fastforce
    with assms(1) show ?thesis unfolding expiring_def by blast
  qed
qed

lemma redis_laws_INCR:
  assumes "redis_laws rd entry"
  shows "untouched entry now k r (snd (rd_INCR rd now k r))"
    and "alive now (entry r k) = None \<Longrightarrow>
      fst (rd_INCR rd now k r) = Inr 1 \<and> entry (snd (rd_INCR rd now k r)) k = Some (1, None)"
    and "\<lbrakk>alive now (entry r k) = Some (c, e); c < int64_max\<rbrakk> \<Longrightarrow>
      fst (rd_INCR rd now k r) = Inr (c + 1) \<and> entry (snd (rd_INCR rd now k r)) k = Some (c + 1, e)"
    and "\<lbrakk>alive now (entry r k) = Some (c, e); \<not> c < int64_max\<rbrakk> \<Longrightarrow>
      isl (fst (rd_INCR rd now k r)) \<and> entry (snd (rd_INCR rd now k r)) k = entry r k"
  using assms [unfolded redis_laws_def, THEN conjunct1, THEN spec, of now, THEN spec, of k, THEN spec, of r]
  by (simp_all split: option.splits)

lemma redis_laws_PEXPIRE:
  assumes "redis_laws rd entry"
  shows "untouched entry now k r (snd (rd_PEXPIRE rd now k ms r))"
    and "\<lbrakk>alive now (entry r k) = Some (c, e); 0 < ms; ms * 1000000 \<le> int64_max\<rbrakk> \<Longrightarrow>
      fst (rd_PEXPIRE rd now k ms r) = Inr 1
      \<and> entry (snd (rd_PEXPIRE rd now k ms r)) k = Some (c, Some (now + ms * 1000000))"
  using assms [unfolded redis_laws_def, THEN conjunct2, THEN conjunct1, THEN spec, of now, THEN spec, of k,
      THEN spec, of ms, THEN spec, of r]
  by simp_all

lemma redis_laws_Eval:
  assumes "redis_laws rd entry"
  obtains e where "rd_Eval rd m t r = m r \<or> rd_Eval rd m t r = (Inl e, r) \<or> rd_Eval rd m t r = (Inl e, snd (m r))"
  using assms [unfolded redis_laws_def, THEN conjunct2, THEN conjunct2, THEN spec, of m, THEN spec, of t, THEN spec, of r]
  by auto

text \<open>One run of the script: it starts a key with the life of one window, or counts it up.\<close>

lemma incrScript_run:
  assumes R: "redis_laws rd entry" and X: "expiring entry r" and ms: "0 < ms" "ms * 1000000 \<le> int64_max"
  shows "untouched entry now k r (snd (incrScript rd now [k] [ms] r))"
    and "alive now (entry r k) = None \<Longrightarrow>
      fst (incrScript rd now [k] [ms] r) = Inr 1
      \<and> entry (snd (incrScript rd now [k] [ms] r)) k = Some (1, Some (now + ms * 1000000))"
    and "\<lbrakk>alive now (entry r k) = Some (c, e); c < int64_max\<rbrakk> \<Longrightarrow>
      fst (incrScript rd now [k] [ms] r) = Inr (c + 1) \<and> entry (snd (incrScript rd now [k] [ms] r)) k = Some (c + 1, e)"
    and "\<lbrakk>alive now (entry r k) = Some (c, e); \<not> c < int64_max\<rbrakk> \<Longrightarrow>
      isl (fst (incrScript rd now [k] [ms] r)) \<and> entry (snd (incrScript rd now [k] [ms] r)) k = entry r k"
proof -
  note I = redis_laws_INCR [OF R, where now = now and k = k and r = r]
  let ?r1 = "snd (rd_INCR rd now k r)"
  note P = redis_laws_PEXPIRE [OF R, where now = now and k = k and r = ?r1 and ms = ms]
  have pos: "1 \<le> c" if "alive now (entry r k) = Some (c, e)" for c e
    using X that by (auto simp: expiring_def alive_def split: option.splits if_splits)
  show "untouched entry now k r (snd (incrScript rd now [k] [ms] r))"
    using I(1) untouched_trans [OF I(1) P(1)]
    by (auto simp: incrScript_def bindP_def retP_def split: sum.splits prod.splits)
  show "fst (incrScript rd now [k] [ms] r) = Inr 1
      \<and> entry (snd (incrScript rd now [k] [ms] r)) k = Some (1, Some (now + ms * 1000000))"
    if "alive now (entry r k) = None"
  proof -
    from I(2) [OF that] have "rd_INCR rd now k r = (Inr 1, ?r1)" "alive now (entry ?r1 k) = Some (1, None)"
      by (auto simp: alive_def prod_eq_iff)
    with P(2) [OF _ ms, of 1 None] show ?thesis
      by (auto simp: incrScript_def bindP_def retP_def split: sum.splits prod.splits)
  qed
  show "fst (incrScript rd now [k] [ms] r) = Inr (c + 1) \<and> entry (snd (incrScript rd now [k] [ms] r)) k = Some (c + 1, e)"
    if a: "alive now (entry r k) = Some (c, e)" "c < int64_max"
  proof -
    from I(3) [OF a] obtain r1 where "rd_INCR rd now k r = (Inr (c + 1), r1)" "entry r1 k = Some (c + 1, e)"
      by (metis prod.collapse)
    with pos [OF a(1)] show ?thesis by (simp add: incrScript_def bindP_def retP_def)
  qed
  show "isl (fst (incrScript rd now [k] [ms] r)) \<and> entry (snd (incrScript rd now [k] [ms] r)) k = entry r k"
    if a: "alive now (entry r k) = Some (c, e)" "\<not> c < int64_max"
    using I(4) [OF a] by (auto simp: incrScript_def bindP_def split: sum.splits prod.splits)
qed


lemma milliseconds: "0 < ms \<Longrightarrow> (ms * 1000000) sdiv 1000000 = (ms :: int)"
  by (simp add: signed_divide_int_def)

definition counter_of :: "('r \<Rightarrow> string \<Rightarrow> (int \<times> time option) option) \<Rightarrow> string \<Rightarrow> 'r \<Rightarrow> (int \<times> time) option" where
  "counter_of entry k r =
     (case entry r (''ratelimit:'' @ k) of Some (c, Some e) \<Rightarrow> Some (c, e) | _ \<Rightarrow> None)"

lemma RedisLimiter_Allow_cases:
  assumes R: "redis_laws rd entry" and ms: "0 < ms" and k: "k \<noteq> []"
    and S: "RedisLimiter_Allow rd now (NewRedis limit (ms * 1000000)) k r = (ok, r')"
    and sure: "sure \<longrightarrow> (\<forall>m t r. rd_Eval rd m t r = m r)"
  shows "(ok = (case fst (incrScript rd now [''ratelimit:'' @ k] [ms] r) of Inl e \<Rightarrow> False | Inr n \<Rightarrow> n \<le> limit))
        \<and> r' = snd (incrScript rd now [''ratelimit:'' @ k] [ms] r)
      \<or> \<not> sure \<and> \<not> ok \<and> r' \<in> {r, snd (incrScript rd now [''ratelimit:'' @ k] [ms] r)}"
proof -
  let ?m = "incrScript rd now [''ratelimit:'' @ k] [ms]"
  have E: "(ok, r') = (case rd_Eval rd ?m 500000000 r of (Inl e, r') \<Rightarrow> (False, r') | (Inr n, r') \<Rightarrow> (n \<le> limit, r'))"
    using S k by (auto simp: RedisLimiter_Allow_def NewRedis_def milliseconds [OF ms] split: prod.splits sum.splits)
  obtain e where C: "rd_Eval rd ?m 500000000 r = ?m r \<or> rd_Eval rd ?m 500000000 r = (Inl e, r)
      \<or> rd_Eval rd ?m 500000000 r = (Inl e, snd (?m r))"
    by (rule redis_laws_Eval [OF R])
  show ?thesis
  proof (cases "rd_Eval rd ?m 500000000 r = ?m r")
    case True
    with E show ?thesis by (cases "?m r") (auto split: sum.splits)
  next
    case False
    with sure have "\<not> sure" by blast
    with C False E show ?thesis by auto
  qed
qed

lemma alive_counter:
  assumes "expiring entry r"
  shows "alive now (entry r (''ratelimit:'' @ k)) =
    (case counter_of entry k r of None \<Rightarrow> None | Some (c, e) \<Rightarrow> if e < now then None else Some (c, Some e))"
  using assms by (auto simp: alive_def counter_of_def expiring_def split: option.splits)

lemma counter_untouched:
  assumes "expiring entry r" "untouched entry now (''ratelimit:'' @ k) r r'" "k' \<noteq> k"
  shows "counter_of entry k' r' = counter_of entry k' r
    \<or> counter_of entry k' r' = None \<and> (\<exists>c e. counter_of entry k' r = Some (c, e) \<and> e < now)"
proof -
  have "entry r' (''ratelimit:'' @ k') = entry r (''ratelimit:'' @ k')
      \<or> entry r' (''ratelimit:'' @ k') = None \<and> alive now (entry r (''ratelimit:'' @ k')) = None"
    using assms(2,3) unfolding untouched_def by simp
  with alive_counter [OF assms(1), of now k'] show ?thesis
    by (auto simp: counter_of_def split: option.splits if_splits)
qed

lemma expiring_run:
  assumes R: "redis_laws rd entry" and X: "expiring entry r" and ms: "0 < ms" "ms * 1000000 \<le> int64_max"
  shows "expiring entry (snd (incrScript rd now [k] [ms] r))"
proof (rule expiring_untouched [OF X incrScript_run(1) [OF R X ms]])
  fix c e assume e: "entry (snd (incrScript rd now [k] [ms] r)) k = Some (c, e)"
  note S = incrScript_run(2-4) [OF R X ms, where now = now and k = k]
  show "1 \<le> c \<and> e \<noteq> None"
  proof (cases "alive now (entry r k)")
    case None
    with S(1) e show ?thesis by simp
  next
    case (Some p)
    obtain c0 e0 where p: "alive now (entry r k) = Some (c0, e0)" using Some by (cases p) simp
    then have o: "entry r k = Some (c0, e0)" by (auto simp: alive_def split: option.splits if_splits)
    with X have "1 \<le> c0 \<and> e0 \<noteq> None" unfolding expiring_def by blast
    with S(2,3) [OF p] o e show ?thesis by (cases "c0 < int64_max") auto
  qed
qed

lemma redis_fixed_window:
  assumes R: "redis_laws rd entry" and ms: "0 < ms" "ms * 1000000 \<le> int64_max"
    and sure: "sure \<longrightarrow> (\<forall>m t r. rd_Eval rd m t r = m r)"
  shows "fixed_window (\<lambda>now k. RedisLimiter_Allow rd now (NewRedis limit (ms * 1000000)) k)
    (counter_of entry) limit (ms * 1000000) (expiring entry) sure"
proof
  show "0 \<le> ms * 1000000" using ms by simp
  show "RedisLimiter_Allow rd now (NewRedis limit (ms * 1000000)) [] r = (False, r)" for now r
    by (simp add: RedisLimiter_Allow_def)
next
  fix r now k ok r'
  assume X: "expiring entry r" and S: "RedisLimiter_Allow rd now (NewRedis limit (ms * 1000000)) k r = (ok, r')"
  show "expiring entry r'"
  proof (cases "k = []")
    case True
    with S X show ?thesis by (simp add: RedisLimiter_Allow_def)
  next
    case False
    with RedisLimiter_Allow_cases [OF R ms(1) False S sure] X expiring_run [OF R X ms] show ?thesis by auto
  qed
next
  fix r k now ok r'
  assume X: "expiring entry r" and k: "k \<noteq> []"
    and dead: "case counter_of entry k r of None \<Rightarrow> True | Some (c, e) \<Rightarrow> e < now"
    and S: "RedisLimiter_Allow rd now (NewRedis limit (ms * 1000000)) k r = (ok, r')"
  have "alive now (entry r (''ratelimit:'' @ k)) = None"
    using dead alive_counter [OF X, of now k] by (auto split: option.splits)
  from incrScript_run(2) [OF R X ms, OF this] RedisLimiter_Allow_cases [OF R ms(1) k S sure]
  show "ok = (1 \<le> limit) \<and> counter_of entry k r' = Some (1, now + ms * 1000000)
      \<or> \<not> sure \<and> \<not> ok \<and> counter_of entry k r' \<in> {counter_of entry k r, Some (1, now + ms * 1000000)}"
    by (auto simp: counter_of_def)
next
  fix r k c e now ok r'
  assume X: "expiring entry r" and k: "k \<noteq> []" and c: "counter_of entry k r = Some (c, e)" "now \<le> e"
    and "0 \<le> c" and less: "c < int64_max"
    and S: "RedisLimiter_Allow rd now (NewRedis limit (ms * 1000000)) k r = (ok, r')"
  have "alive now (entry r (''ratelimit:'' @ k)) = Some (c, Some e)"
    using c alive_counter [OF X, of now k] by simp
  from incrScript_run(3) [OF R X ms, OF this less] RedisLimiter_Allow_cases [OF R ms(1) k S sure]
  show "ok = (c + 1 \<le> limit) \<and> counter_of entry k r' = Some (c + 1, e)
      \<or> \<not> sure \<and> \<not> ok \<and> counter_of entry k r' \<in> {counter_of entry k r, Some (c + 1, e)}"
    by (auto simp: counter_of_def)
next
  fix r now k ok r' k'
  assume X: "expiring entry r" and S: "RedisLimiter_Allow rd now (NewRedis limit (ms * 1000000)) k r = (ok, r')"
    and k': "k' \<noteq> k"
  show "counter_of entry k' r' = counter_of entry k' r
      \<or> counter_of entry k' r' = None \<and> (\<exists>c e. counter_of entry k' r = Some (c, e) \<and> e < now)"
  proof (cases "k = []")
    case True
    with S show ?thesis by (simp add: RedisLimiter_Allow_def)
  next
    case False
    from RedisLimiter_Allow_cases [OF R ms(1) False S sure]
    have "r' = r \<or> r' = snd (incrScript rd now [''ratelimit:'' @ k] [ms] r)" by auto
    moreover have "untouched entry now (''ratelimit:'' @ k) r (snd (incrScript rd now [''ratelimit:'' @ k] [ms] r))"
      by (rule incrScript_run(1) [OF R X ms])
    ultimately show ?thesis using counter_untouched [OF X _ k'] by metis
  qed
qed



text \<open>A Redis server of two commands.\<close>

type_synonym demo_server = "string \<rightharpoonup> int \<times> time option"

definition demo_redis :: "demo_server redis" where
  "demo_redis = \<lparr>
     rd_INCR = (\<lambda>now k r. case alive now (r k) of
         None \<Rightarrow> (Inr 1, r(k \<mapsto> (1, None)))
       | Some (c, e) \<Rightarrow> if c < int64_max then (Inr (c + 1), r(k \<mapsto> (c + 1, e))) else (Inl (NewError ''overflow''), r)),
     rd_PEXPIRE = (\<lambda>now k ms r. case alive now (r k) of
         None \<Rightarrow> (Inr 0, r)
       | Some (c, e) \<Rightarrow> (Inr 1, r(k \<mapsto> (c, Some (now + ms * 1000000))))),
     rd_Eval = (\<lambda>m t r. m r) \<rparr>"

lemma demo_redis_laws: "redis_laws demo_redis (\<lambda>r. r)"
  unfolding redis_laws_def
  by (auto simp: demo_redis_def untouched_def split: option.splits)


text \<open>
  Two Redis limiters of different use cases count under the same Redis key when they are
  called with the same key: the prefix does not name the limiter. With the same window the
  state of the server is the same after a call of either.
\<close>

lemma redis_limiters_share_counters:
  "snd (RedisLimiter_Allow rd now (NewRedis limit window) key r)
     = snd (RedisLimiter_Allow rd now (NewRedis limit' window) key r)"
  by (auto simp: RedisLimiter_Allow_def NewRedis_def split: prod.splits sum.splits)

end
