(* ===== verification/Config.thy ===== *)
theory Config
  imports RateLimit
begin

text \<open>
  internal/config/config.go and the configuration of cmd/worker/main.go. The reading of the
  process environment by the library caarlos0/env is the parameter \<open>parse\<close>; what the struct
  tags say is written down as the configuration it yields when only the required variables
  are set (\<open>default_config\<close>).
\<close>

definition EnvDevelopment :: string where "EnvDevelopment = ''development''"
definition EnvProduction :: string where "EnvProduction = ''production''"
definition EnvTest :: string where "EnvTest = ''test''"

record Config =
  cf_Addr :: string
  cf_PprofAddr :: string
  cf_Env :: string
  cf_LogLevel :: string
  cf_DatabaseURL :: string
  cf_MigrationDatabaseURL :: string
  cf_JWTSecret :: string
  cf_AccessTokenTTL :: duration
  cf_RefreshTokenTTL :: duration
  cf_TransferFeeSen :: int64
  cf_MinTransferSen :: int64
  cf_MaxTransferSen :: int64
  cf_ShutdownWait :: duration
  cf_DriftCheckInterval :: duration
  cf_RunMigrations :: bool
  cf_RedisURL :: string
  cf_LoginRateLimit :: int64
  cf_LoginRateWindow :: duration
  cf_TransferRateLimit :: int64
  cf_TransferRateWindow :: duration
  cf_RegisterRateLimit :: int64
  cf_RegisterRateWindow :: duration
  cf_RefreshRateLimit :: int64
  cf_RefreshRateWindow :: duration
  cf_MoneyRateLimit :: int64
  cf_MoneyRateWindow :: duration

abbreviation second :: duration where "second \<equiv> 1000000000"
abbreviation minute :: duration where "minute \<equiv> 60 * second"
abbreviation hour :: duration where "hour \<equiv> 60 * minute"

definition default_config :: "string \<Rightarrow> string \<Rightarrow> Config" where
  "default_config databaseURL jwtSecret =
     \<lparr> cf_Addr = '':8080'', cf_PprofAddr = ''127.0.0.1:6060'', cf_Env = ''development'',
       cf_LogLevel = ''info'', cf_DatabaseURL = databaseURL, cf_MigrationDatabaseURL = '''',
       cf_JWTSecret = jwtSecret, cf_AccessTokenTTL = 15 * minute, cf_RefreshTokenTTL = 720 * hour,
       cf_TransferFeeSen = 100000, cf_MinTransferSen = 1000000, cf_MaxTransferSen = 5000000000,
       cf_ShutdownWait = 30 * second, cf_DriftCheckInterval = 60 * second, cf_RunMigrations = False,
       cf_RedisURL = '''',
       cf_LoginRateLimit = 5, cf_LoginRateWindow = 15 * minute,
       cf_TransferRateLimit = 20, cf_TransferRateWindow = 1 * minute,
       cf_RegisterRateLimit = 10, cf_RegisterRateWindow = 15 * minute,
       cf_RefreshRateLimit = 10, cf_RefreshRateWindow = 15 * minute,
       cf_MoneyRateLimit = 20, cf_MoneyRateWindow = 1 * minute \<rparr>"

text \<open>None is \<open>nil\<close>.\<close>

definition Config_validate :: "Config \<Rightarrow> err option" where
  "Config_validate c =
     (if cf_Env c \<notin> {EnvDevelopment, EnvProduction, EnvTest}
      then Some (Errorf ''APP_ENV %q tidak dikenal'' [AStr (cf_Env c)])
      else if cf_Env c = EnvProduction \<and> length (cf_JWTSecret c) < 32
      then Some (NewError ''JWT_SECRET minimal 32 byte di produksi'')
      else if cf_TransferFeeSen c < 0
      then Some (NewError ''TRANSFER_FEE_SEN tidak boleh negatif'')
      else if cf_MinTransferSen c \<le> 0 \<or> cf_MaxTransferSen c \<le> cf_MinTransferSen c
      then Some (NewError ''batas transfer tidak masuk akal: MIN harus > 0 dan MAX > MIN'')
      else if cf_AccessTokenTTL c \<le> 0 \<or> cf_RefreshTokenTTL c \<le> cf_AccessTokenTTL c
      then Some (NewError ''umur token tidak masuk akal: REFRESH harus lebih lama dari ACCESS'')
      else if cf_ShutdownWait c \<le> 0 \<or> cf_DriftCheckInterval c \<le> 0
      then Some (NewError ''SHUTDOWN_WAIT dan DRIFT_CHECK_INTERVAL harus > 0'')
      else None)"

definition Config_Load :: "Config result \<Rightarrow> Config result" where
  "Config_Load parse =
     (case parse of
        Inl err \<Rightarrow> Inl (Wrapf ''memuat konfigurasi: %w'' [] err)
      | Inr c \<Rightarrow>
          (case Config_validate c of
             Some err \<Rightarrow> Inl (Wrapf ''konfigurasi tidak valid: %w'' [] err)
           | None \<Rightarrow> Inr c))"

definition Config_IsProduction :: "Config \<Rightarrow> bool" where
  "Config_IsProduction c \<longleftrightarrow> cf_Env c = EnvProduction"

definition Config_MigrationURL :: "Config \<Rightarrow> string" where
  "Config_MigrationURL c =
     (if cf_MigrationDatabaseURL c \<noteq> '''' then cf_MigrationDatabaseURL c else cf_DatabaseURL c)"

section \<open>cmd/worker\<close>

record workerConfig =
  wc_DatabaseURL :: string
  wc_MigrationDatabaseURL :: string
  wc_RabbitMQURL :: string
  wc_LogLevel :: string
  wc_RunMigrations :: bool
  wc_RelayInterval :: duration

definition default_worker_config :: "string \<Rightarrow> string \<Rightarrow> workerConfig" where
  "default_worker_config databaseURL rabbitURL =
     \<lparr> wc_DatabaseURL = databaseURL, wc_MigrationDatabaseURL = '''', wc_RabbitMQURL = rabbitURL,
       wc_LogLevel = ''info'', wc_RunMigrations = False, wc_RelayInterval = 1 * second \<rparr>"

definition workerConfig_migrationURL :: "workerConfig \<Rightarrow> string" where
  "workerConfig_migrationURL c =
     (if wc_MigrationDatabaseURL c \<noteq> '''' then wc_MigrationDatabaseURL c else wc_DatabaseURL c)"

section \<open>The rate limiters of cmd/api\<close>

text \<open>
  \<open>newLimiters\<close>: \<open>ParseURL\<close> and \<open>Ping\<close> of the Redis client are the parameters; a limiter is
  either in memory or in Redis.
\<close>

datatype limiter = InMemory Limiter | InRedis RedisLimiter

record apiLimiters =
  al_login :: limiter
  al_transfer :: limiter
  al_register :: limiter
  al_refresh :: limiter
  al_money :: limiter

definition newLimiters :: "(string \<Rightarrow> 'o result) \<Rightarrow> ('o \<Rightarrow> err option) \<Rightarrow> Config \<Rightarrow> apiLimiters result" where
  "newLimiters ParseURL Ping cfg =
     (if cf_RedisURL cfg = ''''
      then Inr \<lparr> al_login = InMemory (ratelimit_New (cf_LoginRateLimit cfg) (cf_LoginRateWindow cfg)),
                 al_transfer = InMemory (ratelimit_New (cf_TransferRateLimit cfg) (cf_TransferRateWindow cfg)),
                 al_register = InMemory (ratelimit_New (cf_RegisterRateLimit cfg) (cf_RegisterRateWindow cfg)),
                 al_refresh = InMemory (ratelimit_New (cf_RefreshRateLimit cfg) (cf_RefreshRateWindow cfg)),
                 al_money = InMemory (ratelimit_New (cf_MoneyRateLimit cfg) (cf_MoneyRateWindow cfg)) \<rparr>
      else case ParseURL (cf_RedisURL cfg) of
             Inl err \<Rightarrow> Inl (Wrapf ''REDIS_URL tidak valid: %w'' [] err)
           | Inr opts \<Rightarrow>
               (case Ping opts of
                  Some err \<Rightarrow> Inl (Wrapf ''connect redis: %w'' [] err)
                | None \<Rightarrow>
                    Inr \<lparr> al_login = InRedis (NewRedis (cf_LoginRateLimit cfg) (cf_LoginRateWindow cfg)),
                          al_transfer = InRedis (NewRedis (cf_TransferRateLimit cfg) (cf_TransferRateWindow cfg)),
                          al_register = InRedis (NewRedis (cf_RegisterRateLimit cfg) (cf_RegisterRateWindow cfg)),
                          al_refresh = InRedis (NewRedis (cf_RefreshRateLimit cfg) (cf_RefreshRateWindow cfg)),
                          al_money = InRedis (NewRedis (cf_MoneyRateLimit cfg) (cf_MoneyRateWindow cfg)) \<rparr>))"

section \<open>What a loaded configuration guarantees\<close>

lemma Config_Load_Inr:
  assumes "Config_Load parse = Inr c"
  shows "parse = Inr c" "cf_Env c \<in> {EnvDevelopment, EnvProduction, EnvTest}"
    "0 \<le> cf_TransferFeeSen c" "0 < cf_MinTransferSen c" "cf_MinTransferSen c < cf_MaxTransferSen c"
    "0 < cf_AccessTokenTTL c" "cf_AccessTokenTTL c < cf_RefreshTokenTTL c"
    "0 < cf_ShutdownWait c" "0 < cf_DriftCheckInterval c"
    "Config_IsProduction c \<Longrightarrow> 32 \<le> length (cf_JWTSecret c)"
proof -
  have v: "parse = Inr c \<and> Config_validate c = None"
    using assms by (auto simp: Config_Load_def split: sum.splits option.splits)
  then show "parse = Inr c" by simp
  show "cf_Env c \<in> {EnvDevelopment, EnvProduction, EnvTest}"
    "0 \<le> cf_TransferFeeSen c" "0 < cf_MinTransferSen c" "cf_MinTransferSen c < cf_MaxTransferSen c"
    "0 < cf_AccessTokenTTL c" "cf_AccessTokenTTL c < cf_RefreshTokenTTL c"
    "0 < cf_ShutdownWait c" "0 < cf_DriftCheckInterval c"
    "Config_IsProduction c \<Longrightarrow> 32 \<le> length (cf_JWTSecret c)"
    using v unfolding Config_validate_def Config_IsProduction_def by (auto split: if_splits)
qed

lemma default_config_loads: "Config_Load (Inr (default_config url secret)) = Inr (default_config url secret)"
  by (simp add: Config_Load_def Config_validate_def default_config_def EnvDevelopment_def EnvProduction_def)

end
