(* ===== verification/GoText.thy ===== *)
theory GoText
  imports Encoding
begin

text \<open>
  The text functions of the Go standard library the program calls: decoding of UTF-8
  (\<open>unicode/utf8\<close>, where an invalid byte reads as the rune U+FFFD of width one), the functions
  of \<open>strings\<close>, and the reading of decimal numbers by \<open>fmt.Sscanf\<close>. A Go string is a list of
  bytes (\<open>char\<close>).
\<close>

section \<open>UTF-8\<close>

definition in_range :: "nat \<Rightarrow> nat \<Rightarrow> char \<Rightarrow> bool" where
  "in_range lo hi c = (lo \<le> (of_char c :: nat) \<and> (of_char c :: nat) \<le> hi)"

definition RuneError :: nat where
  "RuneError = 0xFFFD"

text \<open>\<open>utf8.DecodeRuneInString\<close>: the rune and its width in bytes.\<close>

definition decode_rune :: "string \<Rightarrow> nat \<times> nat" where
  "decode_rune s =
     (let b = (\<lambda>i. of_char (s ! i) :: nat); n = length s;
          is = (\<lambda>i lo hi. i < n \<and> in_range lo hi (s ! i));
          second = (if is 0 0xE0 0xE0 then is 1 0xA0 0xBF
                    else if is 0 0xED 0xED then is 1 0x80 0x9F
                    else if is 0 0xF0 0xF0 then is 1 0x90 0xBF
                    else if is 0 0xF4 0xF4 then is 1 0x80 0x8F
                    else is 1 0x80 0xBF)
      in if s = [] then (RuneError, 0)
         else if is 0 0 0x7F then (b 0, 1)
         else if is 0 0xC2 0xDF \<and> second then ((b 0 - 0xC0) * 64 + (b 1 - 0x80), 2)
         else if is 0 0xE0 0xEF \<and> second \<and> is 2 0x80 0xBF
         then ((b 0 - 0xE0) * 4096 + (b 1 - 0x80) * 64 + (b 2 - 0x80), 3)
         else if is 0 0xF0 0xF4 \<and> second \<and> is 2 0x80 0xBF \<and> is 3 0x80 0xBF
         then ((b 0 - 0xF0) * 262144 + (b 1 - 0x80) * 4096 + (b 2 - 0x80) * 64 + (b 3 - 0x80), 4)
         else (RuneError, 1))"

lemma decode_rune_width:
  assumes "s \<noteq> []"
  shows "1 \<le> snd (decode_rune s)" "snd (decode_rune s) \<le> 4"
  using assms by (simp_all add: decode_rune_def Let_def)

lemma decode_rune_ascii:
  "of_char c < (128 :: nat) \<Longrightarrow> decode_rune (c # s) = (of_char c, 1)"
  by (simp add: decode_rune_def Let_def in_range_def)

text \<open>The runes of a string, as a \<open>range\<close> loop yields them.\<close>

function runes :: "string \<Rightarrow> nat list" where
  "runes s = (if s = [] then []
              else let (r, n) = decode_rune s in r # runes (drop n s))"
  by auto
termination
proof (relation "measure length", simp)
  fix s :: string and x r n
  assume "s \<noteq> []" and d: "x = decode_rune s" "(r, n) = x"
  then have "1 \<le> n" using decode_rune_width(1) [of s] by (metis snd_conv)
  then show "(drop n s, s) \<in> measure length" using \<open>s \<noteq> []\<close> by simp
qed

declare runes.simps [simp del]

definition RuneCountInString :: "string \<Rightarrow> nat" where
  "RuneCountInString s = length (runes s)"

lemma runes_Nil [simp]: "runes [] = []"
  by (simp add: runes.simps)

lemma runes_ascii: "of_char c < (128 :: nat) \<Longrightarrow> runes (c # s) = of_char c # runes s"
  by (subst runes.simps) (simp add: decode_rune_ascii)

lemma RuneCount_le_length: "RuneCountInString s \<le> length s"
proof (induction s rule: runes.induct)
  case (1 s)
  show ?case
  proof (cases "s = []")
    case False
    obtain r n where d: "decode_rune s = (r, n)" by fastforce
    with False decode_rune_width(1) [of s] have "1 \<le> n" by simp
    then have "RuneCountInString (drop n s) \<le> length (drop n s)"
      using 1 False d by simp
    moreover have "length s - n < length s" using False \<open>1 \<le> n\<close> by simp
    ultimately have "Suc (RuneCountInString (drop n s)) \<le> length s" by simp
    then show ?thesis
      using False d by (simp add: RuneCountInString_def runes.simps [of s])
  qed (simp add: RuneCountInString_def)
qed

text \<open>Four bytes at most per rune: what bounds the bytes of a text bounded in runes.\<close>

lemma length_le_RuneCount: "length s \<le> 4 * RuneCountInString s"
proof (induction s rule: runes.induct)
  case (1 s)
  show ?case
  proof (cases "s = []")
    case False
    obtain r n where d: "decode_rune s = (r, n)" by fastforce
    with False decode_rune_width(2) [of s] have "n \<le> 4" by simp
    moreover have "length (drop n s) \<le> 4 * RuneCountInString (drop n s)"
      using 1 False d by simp
    ultimately show ?thesis
      using False d by (simp add: RuneCountInString_def runes.simps [of s])
  qed simp
qed

text \<open>\<open>utf8.DecodeLastRuneInString\<close>.\<close>

definition decode_last_rune :: "string \<Rightarrow> nat \<times> nat" where
  "decode_last_rune s =
     (if s = [] then (RuneError, 0)
      else if in_range 0 0x7F (last s) then (of_char (last s), 1)
      else case find (\<lambda>k. k \<le> length s \<and> \<not> in_range 0x80 0xBF (s ! (length s - k))) [2, 3, 4] of
             None \<Rightarrow> (RuneError, 1)
           | Some k \<Rightarrow> (let (r, n) = decode_rune (drop (length s - k) s)
                        in if n = k then (r, n) else (RuneError, 1)))"

section \<open>The package strings\<close>

text \<open>\<open>unicode.IsSpace\<close>, and the table of \<open>fmt\<close>, which is the same set.\<close>

definition IsSpace :: "nat \<Rightarrow> bool" where
  "IsSpace r = (r \<in> {9, 10, 11, 12, 13, 32, 0x85, 0xA0, 0x1680, 0x2028, 0x2029, 0x202F, 0x205F, 0x3000}
                \<or> (0x2000 \<le> r \<and> r \<le> 0x200A))"

function trimLeft :: "string \<Rightarrow> string" where
  "trimLeft s = (if s = [] then []
                 else let (r, n) = decode_rune s in if IsSpace r then trimLeft (drop n s) else s)"
  by auto
termination
proof (relation "measure length", simp)
  fix s :: string and x r n
  assume "s \<noteq> []" and d: "x = decode_rune s" "(r, n) = x"
  then have "1 \<le> n" using decode_rune_width(1) [of s] by (metis snd_conv)
  then show "(drop n s, s) \<in> measure length" using \<open>s \<noteq> []\<close> by simp
qed

declare trimLeft.simps [simp del]

lemma decode_last_rune_width:
  assumes "s \<noteq> []"
  shows "1 \<le> snd (decode_last_rune s)"
proof (cases "find (\<lambda>k. k \<le> length s \<and> \<not> in_range 0x80 0xBF (s ! (length s - k))) [2, 3, 4]")
  case None
  then show ?thesis using assms by (simp only: decode_last_rune_def) simp
next
  case (Some k)
  then have "2 \<le> k" by (auto split: if_splits)
  with Some show ?thesis
    using assms by (simp only: decode_last_rune_def) (auto split: prod.split)
qed

function trimRight :: "string \<Rightarrow> string" where
  "trimRight s = (if s = [] then []
                  else let (r, n) = decode_last_rune s
                       in if IsSpace r then trimRight (take (length s - n) s) else s)"
  by auto
termination
proof (relation "measure length", simp)
  fix s :: string and x r n
  assume "s \<noteq> []" and d: "x = decode_last_rune s" "(r, n) = x"
  then have "1 \<le> n" using decode_last_rune_width [of s] by (metis snd_conv)
  then show "(take (length s - n) s, s) \<in> measure length" using \<open>s \<noteq> []\<close> by simp
qed

declare trimRight.simps [simp del]

definition TrimSpace :: "string \<Rightarrow> string" where
  "TrimSpace s = trimRight (trimLeft s)"

lemma length_trimLeft: "length (trimLeft s) \<le> length s"
  by (induction s rule: trimLeft.induct) (subst trimLeft.simps, force split: prod.split)

lemma length_trimRight: "length (trimRight s) \<le> length s"
  by (induction s rule: trimRight.induct) (subst trimRight.simps, force split: prod.split)

lemma length_TrimSpace: "length (TrimSpace s) \<le> length s"
  unfolding TrimSpace_def using length_trimLeft length_trimRight order_trans by blast

text \<open>A text that starts and ends with an ASCII character that is no blank stays as it is.\<close>

lemma TrimSpace_id:
  assumes "s \<noteq> []" "of_char (hd s) < (128 :: nat)" "\<not> IsSpace (of_char (hd s))"
    and "of_char (last s) < (128 :: nat)" "\<not> IsSpace (of_char (last s))"
  shows "TrimSpace s = s"
proof -
  obtain c t where s: "s = c # t" using assms(1) by (cases s) auto
  have "trimLeft s = s"
    using assms(2,3) by (subst trimLeft.simps) (simp add: s decode_rune_ascii)
  moreover have "decode_last_rune s = (of_char (last s), 1)"
    using assms(1,4) by (simp add: decode_last_rune_def in_range_def)
  then have "trimRight s = s"
    using assms(1,5) by (subst trimRight.simps) simp
  ultimately show ?thesis by (simp add: TrimSpace_def)
qed

definition HasPrefix :: "string \<Rightarrow> string \<Rightarrow> bool" where
  "HasPrefix s p = (take (length p) s = p)"

definition TrimPrefix :: "string \<Rightarrow> string \<Rightarrow> string" where
  "TrimPrefix s p = (if HasPrefix s p then drop (length p) s else s)"

text \<open>\<open>strings.ContainsAny\<close> for an ASCII character set, and \<open>strings.Split\<close> at one character.\<close>

definition ContainsAny :: "string \<Rightarrow> string \<Rightarrow> bool" where
  "ContainsAny s chars = (\<exists>c \<in> set chars. c \<in> set s)"

fun Split :: "char \<Rightarrow> string \<Rightarrow> string list" where
  "Split sep [] = [[]]"
| "Split sep (c # s) =
     (if c = sep then [] # Split sep s
      else case Split sep s of [] \<Rightarrow> [[c]] | p # ps \<Rightarrow> (c # p) # ps)"

lemma Split_not_Nil [simp]: "Split sep s \<noteq> []"
  by (induction s) (auto split: list.split)

lemma Split_plain: "sep \<notin> set s \<Longrightarrow> Split sep s = [s]"
  by (induction s) auto

lemma Split_append_sep: "sep \<notin> set s \<Longrightarrow> Split sep (s @ sep # t) = s # Split sep t"
  by (induction s) (auto split: list.split)

section \<open>fmt.Sscanf\<close>

text \<open>
  A scanner maps the rest of the input to an error or a value and the new rest. A literal of
  the format must match as it is; \<open>%d\<close> skips blanks, but not a newline, then reads an optional
  sign (for a signed operand) and the digits.
\<close>

fun skip_space_from :: "string \<Rightarrow> nat \<Rightarrow> string result" where
  "skip_space_from s 0 = Inr s"
| "skip_space_from s (Suc fuel) =
     (if s = [] then Inr []
      else let (r, n) = decode_rune s; rest = drop n s
           in if r = 13 \<and> rest \<noteq> [] \<and> hd rest = CHR 0x0A then skip_space_from rest fuel
              else if r = 10 then Inl (NewError ''unexpected newline'')
              else if IsSpace r then skip_space_from rest fuel else Inr s)"

text \<open>Every round consumes a byte, so the length of the input is fuel enough.\<close>

definition skip_space :: "string \<Rightarrow> string result" where
  "skip_space s = skip_space_from s (length s)"

definition scan_literal :: "string \<Rightarrow> string \<Rightarrow> string result" where
  "scan_literal lit s =
     (if HasPrefix s lit then Inr (drop (length lit) s)
      else if HasPrefix lit s then Inl (NewError ''unexpected EOF'')
      else Inl (NewError ''input does not match format''))"

definition is_digit :: "char \<Rightarrow> bool" where
  "is_digit c = (digit_val c \<noteq> None)"

definition scan_number :: "bool \<Rightarrow> int \<Rightarrow> int \<Rightarrow> string \<Rightarrow> (int \<times> string) result" where
  "scan_number with_sign lo hi s0 =
     (case skip_space s0 of
        Inl e \<Rightarrow> Inl e
      | Inr s \<Rightarrow>
          if s = [] then Inl (NewError ''unexpected EOF'')
          else
            let neg = (with_sign \<and> hd s = CHR ''-'');
                body = (if with_sign \<and> (hd s = CHR ''-'' \<or> hd s = CHR ''+'') then tl s else s);
                digits = takeWhile is_digit body
            in if body = [] then Inl (NewError ''unexpected EOF'')
               else if digits = [] then Inl (NewError ''expected integer'')
               else case read_digits 0 digits of
                      None \<Rightarrow> Inl (NewError ''expected integer'')
                    | Some n \<Rightarrow>
                        let v = (if neg then - int n else int n)
                        in if lo \<le> v \<and> v \<le> hi then Inr (v, dropWhile is_digit body)
                           else Inl (Errorf ''integer overflow on token %s'' [AStr digits]))"

definition scan_int :: "string \<Rightarrow> (int \<times> string) result" where
  "scan_int = scan_number True int64_min int64_max"

definition scan_uint :: "nat \<Rightarrow> string \<Rightarrow> (int \<times> string) result" where
  "scan_uint bits = scan_number False 0 (2 ^ bits - 1)"

lemma is_digit_decimal: "c \<in> set (decimal n) \<Longrightarrow> is_digit c"
proof (induction n rule: decimal.induct)
  case (1 n)
  have d: "is_digit (digit_char k)" if "k < 10" for k
    using that by (simp add: is_digit_def digit_val_digit_char)
  show ?case
  proof (cases "n < 10")
    case True
    with 1 d show ?thesis by (simp add: decimal_small)
  next
    case False
    with 1 d [of "n mod 10"] show ?thesis by (auto simp: decimal_step)
  qed
qed

lemma is_digit_plain:
  assumes "is_digit c"
  shows "c \<noteq> CHR ''-''" "c \<noteq> CHR ''+''" "c \<noteq> CHR ''$''" "of_char c < (128 :: nat)" "\<not> IsSpace (of_char c)"
  using assms by (auto simp: is_digit_def digit_val_def IsSpace_def Let_def split: if_splits)

lemma skip_space_digit:
  assumes "s \<noteq> []" "is_digit (hd s)"
  shows "skip_space s = Inr s"
proof -
  obtain c t where s: "s = c # t" using assms(1) by (cases s) auto
  note c = is_digit_plain [of c]
  have d: "is_digit c" using assms(2) s by simp
  have "of_char c \<noteq> (10 :: nat)" "of_char c \<noteq> (13 :: nat)"
    using c(5) [OF d] by (auto simp: IsSpace_def)
  then show ?thesis
    using c(4,5) [OF d] by (simp add: s skip_space_def decode_rune_ascii)
qed

text \<open>A number printed by \<open>%d\<close> reads back, whatever non-digit follows it.\<close>

lemma scan_number_decimal:
  assumes "t = [] \<or> \<not> is_digit (hd t)" "lo \<le> int n" "int n \<le> hi"
  shows "scan_number with_sign lo hi (decimal n @ t) = Inr (int n, t)"
proof -
  let ?s = "decimal n @ t"
  have h: "is_digit (hd ?s)" using is_digit_decimal [OF hd_in_set [OF decimal_not_Nil]] by simp
  have k: "skip_space ?s = Inr ?s" using h by (intro skip_space_digit) simp_all
  have take: "takeWhile is_digit ?s = decimal n" and drop: "dropWhile is_digit ?s = t"
    using assms(1) is_digit_decimal [of _ n]
    by (cases t; simp add: takeWhile_append2 dropWhile_append2)+
  show ?thesis
    using assms(2,3) is_digit_plain(1,2) [OF h] k
    by (simp add: scan_number_def Let_def take drop read_digits_decimal_0)
qed

end
