(* ===== verification/Jwt.thy ===== *)
theory Jwt
  imports Account GoText
begin

text \<open>
  internal/platform/token/jwt.go: access tokens. The library golang-jwt, which is not part
  of the repository, is the parameter \<open>lib\<close>: signing, parsing under the options the code
  passes, and the rounding of \<open>NewNumericDate\<close>. \<open>jwt_laws\<close> states its documented behaviour,
  and is used as a hypothesis where a theorem depends on it.
\<close>

record Claims =
  jc_UserID :: int64
  jc_Role :: role
  jc_Issuer :: string
  jc_Subject :: string
  jc_ID :: string
  jc_IssuedAt :: time
  jc_NotBefore :: time
  jc_ExpiresAt :: time

record JWT =
  jwt_secret :: string
  jwt_ttl :: duration

text \<open>The options of \<open>ParseWithClaims\<close>, in the order the code gives them.\<close>

record parse_options =
  po_secret :: string
  po_methods :: "string list"
  po_issuer :: string
  po_expiration_required :: bool
  po_now :: time

record jwt_lib =
  lib_numeric_date :: "time \<Rightarrow> time"
  lib_sign_HS256 :: "Claims \<Rightarrow> string \<Rightarrow> string result"
  lib_parse :: "string \<Rightarrow> parse_options \<Rightarrow> Claims result"

definition token_issuer :: string where
  "token_issuer = ''nusaledger''"

definition NewJWT :: "string \<Rightarrow> duration \<Rightarrow> JWT result" where
  "NewJWT secret ttl =
     (if length secret < 32 then Inl (NewError ''JWT secret terlalu pendek (minimal 32 byte)'')
      else if ttl \<le> 0 then Inl (NewError ''umur access token harus > 0'')
      else Inr \<lparr> jwt_secret = secret, jwt_ttl = ttl \<rparr>)"

text \<open>\<open>now\<close> is the clock, \<open>jti\<close> the random id of \<open>uuid.NewString\<close>, \<open>subject\<close> the text of the public id.\<close>

definition JWT_Issue ::
    "jwt_lib \<Rightarrow> JWT \<Rightarrow> time \<Rightarrow> string \<Rightarrow> int64 \<Rightarrow> string \<Rightarrow> role \<Rightarrow> (string \<times> time) result" where
  "JWT_Issue lib j now jti userID subject role =
     (let expiry = now + jwt_ttl j;
          claims = \<lparr> jc_UserID = userID, jc_Role = role, jc_Issuer = token_issuer,
                     jc_Subject = subject, jc_ID = jti,
                     jc_IssuedAt = lib_numeric_date lib now, jc_NotBefore = lib_numeric_date lib now,
                     jc_ExpiresAt = lib_numeric_date lib expiry \<rparr>
      in case lib_sign_HS256 lib claims (jwt_secret j) of
           Inl e \<Rightarrow> Inl (Wrapf ''menandatangani token: %w'' [] e)
         | Inr tok \<Rightarrow> Inr (tok, expiry))"

definition JWT_Parse :: "jwt_lib \<Rightarrow> JWT \<Rightarrow> time \<Rightarrow> string \<Rightarrow> Claims result" where
  "JWT_Parse lib j now tokenString =
     (case lib_parse lib tokenString
             \<lparr> po_secret = jwt_secret j, po_methods = [''HS256''], po_issuer = token_issuer,
               po_expiration_required = True, po_now = now \<rparr> of
        Inl e \<Rightarrow> Inl (Wrapf2 ''%w: %w'' ErrInvalidToken e)
      | Inr claims \<Rightarrow>
          if jc_UserID claims \<le> 0 \<or> (jc_Role claims \<noteq> RoleUser \<and> jc_Role claims \<noteq> RoleAdmin)
          then Inl ErrInvalidToken else Inr claims)"

text \<open>
  The documented behaviour of the library: dates are cut to whole seconds, and a token signed
  with HS256 parses to its claims under the same secret and issuer exactly while its time
  conditions hold.
\<close>

definition jwt_laws :: "jwt_lib \<Rightarrow> bool" where
  "jwt_laws lib \<longleftrightarrow>
     (\<forall>t. lib_numeric_date lib t = t - t mod 1000000000)
     \<and> (\<forall>c secret s opts. lib_sign_HS256 lib c secret = Inr s \<longrightarrow>
          po_secret opts = secret \<longrightarrow> ''HS256'' \<in> set (po_methods opts) \<longrightarrow> jc_Issuer c = po_issuer opts \<longrightarrow>
          (if jc_NotBefore c \<le> po_now opts \<and> po_now opts < jc_ExpiresAt c
           then lib_parse lib s opts = Inr c else \<exists>e. lib_parse lib s opts = Inl e))"

lemma JWT_Parse_valid:
  assumes "JWT_Parse lib j now s = Inr c"
  shows "0 < jc_UserID c" "jc_Role c = RoleUser \<or> jc_Role c = RoleAdmin"
  using assms by (auto simp: JWT_Parse_def split: sum.splits if_splits)

lemma JWT_Parse_error:
  "JWT_Parse lib j now s = Inl e \<Longrightarrow> errors_Is e ErrInvalidToken"
  by (auto simp: JWT_Parse_def split: sum.splits if_splits)

lemma numeric_date:
  assumes "jwt_laws lib"
  shows "lib_numeric_date lib t \<le> t" "t - 1000000000 < lib_numeric_date lib t"
  using assms by (simp_all add: jwt_laws_def)

lemma JWT_Issue_parses:
  assumes L: "jwt_laws lib" and I: "JWT_Issue lib j now jti uid subject role = Inr (tok, expiry)"
    and ok: "0 < uid" "role = RoleUser \<or> role = RoleAdmin" and t: "now \<le> now'"
  shows "if now' < lib_numeric_date lib expiry
         then \<exists>c. JWT_Parse lib j now' tok = Inr c \<and> jc_UserID c = uid \<and> jc_Role c = role
         else \<exists>e. JWT_Parse lib j now' tok = Inl e \<and> errors_Is e ErrInvalidToken"
proof -
  let ?c = "\<lparr> jc_UserID = uid, jc_Role = role, jc_Issuer = token_issuer, jc_Subject = subject,
      jc_ID = jti, jc_IssuedAt = lib_numeric_date lib now, jc_NotBefore = lib_numeric_date lib now,
      jc_ExpiresAt = lib_numeric_date lib expiry \<rparr>"
  let ?o = "\<lparr> po_secret = jwt_secret j, po_methods = [''HS256''], po_issuer = token_issuer,
      po_expiration_required = True, po_now = now' \<rparr>"
  have s: "lib_sign_HS256 lib ?c (jwt_secret j) = Inr tok"
    using I by (auto simp: JWT_Issue_def Let_def split: sum.splits)
  have "lib_numeric_date lib now \<le> now'"
    using numeric_date(1) [OF L, of now] t by linarith
  then have P: "if now' < lib_numeric_date lib expiry then lib_parse lib tok ?o = Inr ?c
      else \<exists>e. lib_parse lib tok ?o = Inl e"
    using L [unfolded jwt_laws_def, THEN conjunct2, rule_format, OF s, of ?o] by simp
  then show ?thesis
    using ok by (auto simp: JWT_Parse_def split: if_splits)
qed

text \<open>
  C29 roundtrip. The token issued for a user stands for this user until it expires: as long
  as the clock has not reached the expiry cut to the second, \<open>Parse\<close> yields the user's id and
  role, from then on it fails with \<open>ErrInvalidToken\<close>; the reported expiry is \<open>ttl\<close> after the
  issue. Whatever the token, \<open>Parse\<close> yields only positive ids and known roles.
\<close>

theorem jwt_roundtrip:
  assumes "jwt_laws lib" "JWT_Issue lib j now jti uid subject role = Inr (tok, expiry)"
    and "0 < uid" "role = RoleUser \<or> role = RoleAdmin" "now \<le> now'"
  shows "(if now' < lib_numeric_date lib expiry
          then \<exists>c. JWT_Parse lib j now' tok = Inr c \<and> jc_UserID c = uid \<and> jc_Role c = role
          else \<exists>e. JWT_Parse lib j now' tok = Inl e \<and> errors_Is e ErrInvalidToken)
    \<and> expiry = now + jwt_ttl j
    \<and> (\<forall>s c. JWT_Parse lib j now' s = Inr c \<longrightarrow>
         0 < jc_UserID c \<and> (jc_Role c = RoleUser \<or> jc_Role c = RoleAdmin))"
proof -
  have "expiry = now + jwt_ttl j"
    using assms(2) by (auto simp: JWT_Issue_def Let_def split: sum.splits)
  then show ?thesis
    using JWT_Issue_parses [OF assms] JWT_Parse_valid by blast
qed

text \<open>
  A library that keeps the laws: it signs one set of claims, with a text that carries the
  secret, and accepts that text only.
\<close>

definition demo_jwt_text :: "Claims \<Rightarrow> string \<Rightarrow> string" where
  "demo_jwt_text c secret =
     FormatInt (jc_UserID c) @ '' '' @ FormatInt (jc_ExpiresAt c) @ '' '' @ secret"

definition demo_claims :: Claims where
  "demo_claims = \<lparr> jc_UserID = 7, jc_Role = RoleUser, jc_Issuer = token_issuer, jc_Subject = ''s'',
     jc_ID = ''i'', jc_IssuedAt = 0, jc_NotBefore = 0, jc_ExpiresAt = 900000000000 \<rparr>"

definition demo_lib :: jwt_lib where
  "demo_lib = \<lparr> lib_numeric_date = (\<lambda>t. t - t mod 1000000000),
     lib_sign_HS256 = (\<lambda>c s. if c = demo_claims then Inr (demo_jwt_text c s) else Inl (NewError ''key'')),
     lib_parse = (\<lambda>t o1. if t = demo_jwt_text demo_claims (po_secret o1)
                   \<and> 0 \<le> po_now o1 \<and> po_now o1 < 900000000000
                   then Inr demo_claims else Inl (NewError ''token'')) \<rparr>"

theorem jwt_roundtrip_witness:
  "\<exists>c. JWT_Parse demo_lib \<lparr> jwt_secret = replicate 32 (CHR ''k''), jwt_ttl = 900000000000 \<rparr> 5
      (demo_jwt_text demo_claims (replicate 32 (CHR ''k''))) = Inr c \<and> jc_UserID c = 7 \<and> jc_Role c = RoleUser"
proof -
  have L: "jwt_laws demo_lib"
    by (auto simp: jwt_laws_def demo_lib_def demo_claims_def split: if_splits)
  have I: "JWT_Issue demo_lib \<lparr> jwt_secret = replicate 32 (CHR ''k''), jwt_ttl = 900000000000 \<rparr> 0 ''i'' 7 ''s'' RoleUser
      = Inr (demo_jwt_text demo_claims (replicate 32 (CHR ''k'')), 900000000000)"
    by (simp add: JWT_Issue_def demo_lib_def demo_claims_def Let_def)
  show ?thesis
    using jwt_roundtrip [OF L I, of 5] by (simp add: demo_lib_def)
qed

end
