(* ===== verification/Password.thy ===== *)
theory Password
  imports GoText
begin

text \<open>
  internal/platform/password/argon2.go: hashing of passwords into the PHC text form and
  verification against it. The key derivation \<open>argon2.IDKey\<close>, the constant \<open>argon2.Version\<close>
  and the random source are not part of the repository; they are the parameters \<open>idkey\<close>,
  \<open>version\<close> and \<open>rnd\<close>. Base 64, \<open>strings.Split\<close> and \<open>fmt.Sscanf\<close> are those of \<open>GoText\<close>.
\<close>

record Params =
  Memory :: "32 word"
  Iterations :: "32 word"
  Parallelism :: "8 word"
  SaltLen :: "32 word"
  KeyLen :: "32 word"

definition DefaultParams :: Params where
  "DefaultParams = \<lparr> Memory = 64 * 1024, Iterations = 3, Parallelism = 1, SaltLen = 16, KeyLen = 32 \<rparr>"

definition FastParams :: Params where
  "FastParams = \<lparr> Memory = 8 * 1024, Iterations = 1, Parallelism = 1, SaltLen = 16, KeyLen = 32 \<rparr>"

text \<open>The parameters of \<open>argon2.IDKey\<close>: password, salt, time, memory, threads, key length.\<close>

type_synonym idkey = "string \<Rightarrow> string \<Rightarrow> 32 word \<Rightarrow> 32 word \<Rightarrow> 8 word \<Rightarrow> 32 word \<Rightarrow> string"

definition Argon2_Hash :: "idkey \<Rightarrow> int64 \<Rightarrow> (nat \<Rightarrow> string result) \<Rightarrow> Params \<Rightarrow> string \<Rightarrow> string result" where
  "Argon2_Hash idkey version rnd p password =
     (case rnd (unat (SaltLen p)) of
        Inl e \<Rightarrow> Inl (Wrapf ''membuat salt: %w'' [] e)
      | Inr salt \<Rightarrow>
          let key = idkey password salt (Iterations p) (Memory p) (Parallelism p) (KeyLen p)
          in Inr (''$argon2id$v='' @ FormatInt version
                  @ ''$m='' @ decimal (unat (Memory p)) @ '',t='' @ decimal (unat (Iterations p))
                  @ '',p='' @ decimal (unat (Parallelism p))
                  @ ''$'' @ base64_encode stdAlphabet salt @ ''$'' @ base64_encode stdAlphabet key))"

text \<open>The two scans of \<open>Verify\<close>; the rest of the text after the last number is not looked at.\<close>

definition scan_version :: "string \<Rightarrow> int result" where
  "scan_version s =
     (case scan_literal ''v='' s of
        Inl e \<Rightarrow> Inl e
      | Inr s1 \<Rightarrow> (case scan_int s1 of Inl e \<Rightarrow> Inl e | Inr (v, _) \<Rightarrow> Inr v))"

definition scan_params :: "string \<Rightarrow> (32 word \<times> 32 word \<times> 8 word) result" where
  "scan_params s =
     (case scan_literal ''m='' s of Inl e \<Rightarrow> Inl e | Inr s1 \<Rightarrow>
      case scan_uint 32 s1 of Inl e \<Rightarrow> Inl e | Inr (m, s2) \<Rightarrow>
      case scan_literal '',t='' s2 of Inl e \<Rightarrow> Inl e | Inr s3 \<Rightarrow>
      case scan_uint 32 s3 of Inl e \<Rightarrow> Inl e | Inr (t, s4) \<Rightarrow>
      case scan_literal '',p='' s4 of Inl e \<Rightarrow> Inl e | Inr s5 \<Rightarrow>
      case scan_uint 8 s5 of Inl e \<Rightarrow> Inl e | Inr (p, _) \<Rightarrow>
      Inr (word_of_int m, word_of_int t, word_of_int p))"

text \<open>\<open>encoding/base64\<close> reports the position of the first bad byte; the text stands for that error.\<close>

definition decode_std :: "string \<Rightarrow> string result" where
  "decode_std s = (case base64_decode stdAlphabet s of
                     None \<Rightarrow> Inl (NewError ''illegal base64 data'') | Some b \<Rightarrow> Inr b)"

definition Argon2_Verify :: "idkey \<Rightarrow> int64 \<Rightarrow> string \<Rightarrow> string \<Rightarrow> bool result" where
  "Argon2_Verify idkey version encoded password =
     (let parts = Split (CHR ''$'') encoded
      in if length parts \<noteq> 6 \<or> parts ! 1 \<noteq> ''argon2id''
         then Inl (NewError ''format hash tidak dikenal'')
         else if scan_version (parts ! 2) \<noteq> Inr version
         then Inl (NewError ''versi argon2 tidak didukung'')
         else case scan_params (parts ! 3) of
                Inl e \<Rightarrow> Inl (Wrapf ''parameter hash rusak: %w'' [] e)
              | Inr (mem, iter, par) \<Rightarrow>
                  (case decode_std (parts ! 4) of
                     Inl e \<Rightarrow> Inl (Wrapf ''salt rusak: %w'' [] e)
                   | Inr salt \<Rightarrow>
                       (case decode_std (parts ! 5) of
                          Inl e \<Rightarrow> Inl (Wrapf ''hash rusak: %w'' [] e)
                        | Inr want \<Rightarrow>
                            Inr (idkey password salt iter mem par (word_of_nat (length want)) = want))))"

section \<open>A hash verifies its password\<close>

lemma base64_no_dollar: "CHR ''$'' \<notin> set (base64_encode stdAlphabet s)"
proof -
  have "\<forall>i < 64. stdAlphabet ! i \<noteq> CHR ''$''"
    by code_simp
  moreover have "\<forall>x \<in> set (sextets (map of_char s)). x < 64"
    by (rule sextets_bound) auto
  ultimately show ?thesis by (auto simp: base64_encode_def)
qed

lemma decimal_no_dollar: "CHR ''$'' \<notin> set (decimal n)"
  using is_digit_decimal is_digit_plain(3) by blast

lemma scan_literal_here [simp]: "scan_literal lit (lit @ s) = Inr s"
  by (simp add: scan_literal_def HasPrefix_def)

lemma scan_version_printed:
  "int v \<le> int64_max \<Longrightarrow> scan_version (''v='' @ decimal v) = Inr (int v)"
  using scan_number_decimal [of "[]" int64_min v int64_max True]
  unfolding scan_version_def scan_literal_here by (simp add: scan_int_def)

lemma scan_params_printed:
  "scan_params (''m='' @ decimal (unat m) @ '',t='' @ decimal (unat t) @ '',p='' @ decimal (unat p))
     = Inr (m, t, p)"
proof -
  have c: "\<not> is_digit (CHR '','')" by code_simp
  have 1: "scan_uint 32 (decimal (unat (w :: 32 word)) @ CHR '','' # x) = Inr (uint w, CHR '','' # x)" for w x
    using scan_number_decimal [of "CHR '','' # x" 0 "unat w" "2 ^ 32 - 1" False] c unsigned_less [of w, where ?'a = int]
    by (simp add: scan_uint_def)
  have 2: "scan_uint 8 (decimal (unat p)) = Inr (uint p, [])"
    using scan_number_decimal [of "[]" 0 "unat p" "2 ^ 8 - 1" False] unsigned_less [of p, where ?'a = int]
    by (simp add: scan_uint_def)
  have l: "scan_literal '',t='' (CHR '','' # ''t='' @ x) = Inr x" "scan_literal '',p='' (CHR '','' # ''p='' @ x) = Inr x"
    for x using scan_literal_here [of "'',t=''" x] scan_literal_here [of "'',p=''" x] by simp_all
  show ?thesis
    unfolding scan_params_def scan_literal_here using 1 [of m] 1 [of t] 2 l by simp
qed

lemma decode_std_encoded: "decode_std (base64_encode stdAlphabet s) = Inr s"
  by (simp add: decode_std_def base64_decode_encode stdAlphabet_ok)

lemma Argon2_Verify_parts:
  assumes "Split (CHR ''$'') h = [a, ''argon2id'', v, m, s, k]" "scan_version v = Inr version"
    and "scan_params m = Inr (mem, iter, par)" "decode_std s = Inr salt" "decode_std k = Inr want"
  shows "Argon2_Verify idkey version h password
     = Inr (idkey password salt iter mem par (word_of_nat (length want)) = want)"
  using assms(2-) by (simp add: Argon2_Verify_def assms(1) numeral_eq_Suc)

text \<open>
  C28 roundtrip. A stored hash verifies exactly the passwords that derive the same key: what
  \<open>Hash\<close> writes is read back by \<open>Verify\<close> with its own parameters and salt, whatever
  parameters are configured later, so in particular the hashed password verifies.
\<close>

theorem password_roundtrip:
  assumes "rnd (unat (SaltLen p)) = Inr salt"
    and "\<And>pw s t m par k. length (idkey pw s t m par k) = unat k"
    and "0 \<le> version" "version \<le> int64_max"
    and "Argon2_Hash idkey version rnd p password = Inr h"
  shows "Argon2_Verify idkey version h candidate
      = Inr (idkey candidate salt (Iterations p) (Memory p) (Parallelism p) (KeyLen p)
             = idkey password salt (Iterations p) (Memory p) (Parallelism p) (KeyLen p))
    \<and> Argon2_Verify idkey version h password = Inr True"
proof -
  let ?key = "idkey password salt (Iterations p) (Memory p) (Parallelism p) (KeyLen p)"
  let ?m = "''m='' @ decimal (unat (Memory p)) @ '',t='' @ decimal (unat (Iterations p))
      @ '',p='' @ decimal (unat (Parallelism p))"
  let ?v = "''v='' @ decimal (nat version)"
  have "h = [] @ CHR ''$'' # ''argon2id'' @ CHR ''$'' # ?v @ CHR ''$'' # ?m
      @ CHR ''$'' # base64_encode stdAlphabet salt @ CHR ''$'' # base64_encode stdAlphabet ?key"
    using assms(1,3,5) by (simp add: Argon2_Hash_def Let_def FormatInt_def)
  moreover have "CHR ''$'' \<notin> set ''argon2id''" "CHR ''$'' \<notin> set ?v" "CHR ''$'' \<notin> set ?m"
    using decimal_no_dollar by simp_all
  ultimately have parts: "Split (CHR ''$'') h = [[], ''argon2id'', ?v, ?m,
      base64_encode stdAlphabet salt, base64_encode stdAlphabet ?key]"
    using base64_no_dollar decimal_no_dollar
    by (simp only: Split_append_sep Split_plain list.set empty_iff not_False_eq_True)
  have "scan_version ?v = Inr version"
    using scan_version_printed [of "nat version"] assms(3,4) by simp
  moreover have "word_of_nat (length ?key) = KeyLen p" by (simp add: assms(2))
  ultimately have "Argon2_Verify idkey version h c
      = Inr (idkey c salt (Iterations p) (Memory p) (Parallelism p) (KeyLen p) = ?key)" for c
    using Argon2_Verify_parts [OF parts _ scan_params_printed decode_std_encoded decode_std_encoded]
    by simp
  then show ?thesis by simp
qed

text \<open>A key derivation that keeps the password and pads it to the wanted length.\<close>

definition demo_idkey :: idkey where
  "demo_idkey pw salt t m par k = take (unat k) (pw @ replicate (unat k) (CHR ''.''))"

lemma length_demo_idkey: "length (demo_idkey pw s t m par k) = unat k"
  by (simp add: demo_idkey_def)

theorem password_roundtrip_witness:
  "Argon2_Verify demo_idkey 19
     (projr (Argon2_Hash demo_idkey 19 (\<lambda>n. Inr (replicate n (CHR ''s''))) FastParams ''rahasia''))
     ''rahasia'' = Inr True"
proof -
  let ?rnd = "\<lambda>n. Inr (replicate n (CHR ''s''))"
  have h: "Argon2_Hash demo_idkey 19 ?rnd FastParams ''rahasia''
      = Inr (projr (Argon2_Hash demo_idkey 19 ?rnd FastParams ''rahasia''))"
    by (simp add: Argon2_Hash_def Let_def)
  show ?thesis
    by (rule password_roundtrip [where rnd = ?rnd and p = FastParams, OF refl length_demo_idkey _ _ h,
          THEN conjunct2]) simp_all
qed

end
