(* ===== verification/AuthService.thy ===== *)
theory AuthService
  imports Repos GoText
begin

text \<open>
  internal/service/auth.go and the interfaces of internal/service/ports.go it uses:
  registration, login, rotation of refresh tokens and logout. As with the ledger service, the
  stores are records of programs over a state \<open>'s\<close>; \<open>pg_users\<close> and \<open>pg_tokens\<close> plug in the
  repositories.

  \<open>auth_call\<close> gathers what a single call draws from its surroundings: the clock, the random
  bytes of \<open>crypto/rand\<close>, and three functions of the standard library that stay parameters,
  SHA-256, \<open>mail.ParseAddress\<close> (whether it accepts) and \<open>strings.ToLower\<close>.
\<close>

section \<open>Interfaces (ports.go)\<close>

record 's user_store =
  us_CreateWithWallet :: "user \<Rightarrow> ('s, user \<times> account) prog"
  us_GetByEmail :: "string \<Rightarrow> ('s, user) prog"
  us_GetByID :: "int64 \<Rightarrow> ('s, user) prog"

record 's refresh_token_store =
  ts_Store :: "int64 \<Rightarrow> string \<Rightarrow> time \<Rightarrow> ('s, unit) prog"
  ts_Find :: "string \<Rightarrow> ('s, refresh_token) prog"
  ts_Revoke :: "string \<Rightarrow> ('s, unit) prog"
  ts_RevokeAllForUser :: "int64 \<Rightarrow> ('s, unit) prog"

record 's password_hasher =
  ph_Hash :: "string \<Rightarrow> ('s, string) prog"
  ph_Verify :: "string \<Rightarrow> string \<Rightarrow> ('s, bool) prog"

record 's access_token_issuer =
  ai_Issue :: "int64 \<Rightarrow> uuid \<Rightarrow> role \<Rightarrow> ('s, string \<times> time) prog"

section \<open>The service\<close>

definition minPasswordLen :: nat where "minPasswordLen = 8"
definition maxPasswordLen :: nat where "maxPasswordLen = 128"
definition refreshTokenSize :: nat where "refreshTokenSize = 32"

record 's Auth =
  A_users :: "'s user_store"
  A_tokens :: "'s refresh_token_store"
  A_hasher :: "'s password_hasher"
  A_issuer :: "'s access_token_issuer"
  A_refreshTTL :: duration
  A_dummyHash :: string

record auth_call =
  ac_now :: time
  ac_rand :: "nat \<Rightarrow> string result"
  ac_sha256 :: "string \<Rightarrow> string"
  ac_address_ok :: "string \<Rightarrow> bool"
  ac_to_lower :: "string \<Rightarrow> string"

definition NewAuth ::
    "'s user_store \<Rightarrow> 's refresh_token_store \<Rightarrow> 's password_hasher \<Rightarrow> 's access_token_issuer \<Rightarrow> duration
     \<Rightarrow> ('s, 's Auth) prog" where
  "NewAuth usrs toks hasher issr refreshTTL =
     bindP (wrapP (Wrapf ''menyiapkan dummy hash: %w'' [])
       (ph_Hash hasher ''dummy-password-untuk-menyamakan-waktu'')) (\<lambda>dummy.
     retP \<lparr> A_users = usrs, A_tokens = toks, A_hasher = hasher, A_issuer = issr,
            A_refreshTTL = refreshTTL, A_dummyHash = dummy \<rparr>)"

record register_input =
  ri_Email :: string
  ri_Password :: string
  ri_FullName :: string

record token_pair =
  tp_AccessToken :: string
  tp_AccessExpiresAt :: time
  tp_RefreshToken :: string
  tp_RefreshExpiresAt :: time

text \<open>\<open>hex.EncodeToString\<close> and the hash under which a refresh token is stored.\<close>

definition hex_digit :: "nat \<Rightarrow> char" where
  "hex_digit n = ''0123456789abcdef'' ! n"

definition hex_encode :: "string \<Rightarrow> string" where
  "hex_encode s = concat (map (\<lambda>c. [hex_digit (of_char c div 16), hex_digit (of_char c mod 16)]) s)"

definition hashToken :: "auth_call \<Rightarrow> string \<Rightarrow> string" where
  "hashToken ac token = hex_encode (ac_sha256 ac token)"

section \<open>Register\<close>

text \<open>The checks of \<open>Register\<close>: the fields at fault, and the cleaned address and name.\<close>

definition normalized_email :: "auth_call \<Rightarrow> string \<Rightarrow> string" where
  "normalized_email ac s = TrimSpace (ac_to_lower ac s)"

definition register_fields :: "auth_call \<Rightarrow> register_input \<Rightarrow> (string \<times> string) list" where
  "register_fields ac inp =
     (let email = normalized_email ac (ri_Email inp);
          n = RuneCountInString (ri_Password inp);
          m = RuneCountInString (TrimSpace (ri_FullName inp))
      in (if \<not> ac_address_ok ac email \<or> email = [] \<or> ContainsAny email '' <>''
          then [(''email'', ''format email tidak valid'')] else [])
       @ (if n < minPasswordLen \<or> n > maxPasswordLen
          then [(''password'', ''panjang 8'' @ [CHR 0xE2, CHR 0x80, CHR 0x93] @ ''128 karakter'')] else [])
       @ (if m < 1 \<or> m > 100 then [(''full_name'', ''wajib, maksimal 100 karakter'')] else []))"

definition registered_user :: "auth_call \<Rightarrow> register_input \<Rightarrow> string \<Rightarrow> user" where
  "registered_user ac inp hash =
     \<lparr> usr_ID = 0, usr_PublicID = 0, usr_Email = normalized_email ac (ri_Email inp),
       usr_PasswordHash = hash, usr_FullName = TrimSpace (ri_FullName inp), usr_Role = RoleUser,
       usr_CreatedAt = 0 \<rparr>"

definition Auth_Register :: "'s Auth \<Rightarrow> auth_call \<Rightarrow> register_input \<Rightarrow> ('s, user \<times> account) prog" where
  "Auth_Register a ac inp =
     (case NewValidationError (register_fields ac inp) of
        Some err \<Rightarrow> failP err
      | None \<Rightarrow>
          bindP (wrapP (Wrapf ''hash kata sandi: %w'' []) (ph_Hash (A_hasher a) (ri_Password inp))) (\<lambda>hash.
          us_CreateWithWallet (A_users a) (registered_user ac inp hash)))"

section \<open>Login, Refresh, Logout\<close>

definition Auth_issuePair :: "'s Auth \<Rightarrow> auth_call \<Rightarrow> user \<Rightarrow> ('s, token_pair) prog" where
  "Auth_issuePair a ac u =
     bindP (wrapP (Wrapf ''menerbitkan access token: %w'' [])
       (ai_Issue (A_issuer a) (usr_ID u) (usr_PublicID u) (usr_Role u))) (\<lambda>(access, accessExp).
     case ac_rand ac refreshTokenSize of
       Inl err \<Rightarrow> failP (Wrapf ''membuat refresh token: %w'' [] err)
     | Inr raw \<Rightarrow>
         let refresh = base64_encode urlAlphabet raw;
             refreshExp = ac_now ac + A_refreshTTL a
         in bindP (wrapP (Wrapf ''menyimpan refresh token: %w'' [])
              (ts_Store (A_tokens a) (usr_ID u) (hashToken ac refresh) refreshExp)) (\<lambda>_.
            retP \<lparr> tp_AccessToken = access, tp_AccessExpiresAt = accessExp,
                   tp_RefreshToken = refresh, tp_RefreshExpiresAt = refreshExp \<rparr>))"

definition Auth_Login :: "'s Auth \<Rightarrow> auth_call \<Rightarrow> string \<Rightarrow> string \<Rightarrow> ('s, token_pair) prog" where
  "Auth_Login a ac email0 password =
     (\<lambda>w. let email = normalized_email ac email0
          in case us_GetByEmail (A_users a) email w of
               (Inl err, w1) \<Rightarrow>
                 if errors_Is err ErrUserNotFound \<or> errors_Is err ErrNotFound
                 then (Inl ErrInvalidCredentials, snd (ph_Verify (A_hasher a) (A_dummyHash a) password w1))
                 else (Inl (Wrapf ''mencari pengguna: %w'' [] err), w1)
             | (Inr u, w1) \<Rightarrow>
                 bindP (wrapP (Wrapf ''verifikasi kata sandi: %w'' [])
                   (ph_Verify (A_hasher a) (usr_PasswordHash u) password)) (\<lambda>ok.
                 if \<not> ok then failP ErrInvalidCredentials else Auth_issuePair a ac u) w1)"

definition Auth_Refresh :: "'s Auth \<Rightarrow> auth_call \<Rightarrow> string \<Rightarrow> ('s, token_pair) prog" where
  "Auth_Refresh a ac refreshToken =
     bindP (wrapP (\<lambda>err. if errors_Is err ErrNotFound then ErrInvalidToken
                         else Wrapf ''mencari refresh token: %w'' [] err)
       (ts_Find (A_tokens a) (hashToken ac refreshToken))) (\<lambda>rt.
     if rt_RevokedAt rt \<noteq> None
     then bindP (wrapP (Wrapf ''mencabut semua sesi setelah reuse terdeteksi: %w'' [])
            (ts_RevokeAllForUser (A_tokens a) (rt_UserID rt))) (\<lambda>_.
          failP ErrInvalidToken)
     else if \<not> RefreshToken_Usable rt (ac_now ac) then failP ErrInvalidToken
     else bindP (wrapP (Wrapf ''memuat pengguna: %w'' []) (us_GetByID (A_users a) (rt_UserID rt))) (\<lambda>u.
          bindP (wrapP (Wrapf ''mencabut token lama: %w'' [])
            (ts_Revoke (A_tokens a) (hashToken ac refreshToken))) (\<lambda>_.
          Auth_issuePair a ac u)))"

definition Auth_Logout :: "'s Auth \<Rightarrow> auth_call \<Rightarrow> string \<Rightarrow> ('s, unit) prog" where
  "Auth_Logout a ac refreshToken =
     (\<lambda>w. case ts_Revoke (A_tokens a) (hashToken ac refreshToken) w of
            (Inl err, w1) \<Rightarrow>
              if \<not> errors_Is err ErrNotFound then (Inl (Wrapf ''mencabut token: %w'' [] err), w1)
              else (Inr (), w1)
          | (Inr _, w1) \<Rightarrow> (Inr (), w1))"

section \<open>On the PostgreSQL stores\<close>

definition pg_users :: "env \<Rightarrow> pg user_store" where
  "pg_users env = \<lparr> us_CreateWithWallet = UserRepo_CreateWithWallet env,
     us_GetByEmail = UserRepo_GetByEmail env, us_GetByID = UserRepo_GetByID env \<rparr>"

definition pg_tokens :: "env \<Rightarrow> pg refresh_token_store" where
  "pg_tokens env = \<lparr> ts_Store = RefreshTokenRepo_Store env, ts_Find = RefreshTokenRepo_Find env,
     ts_Revoke = RefreshTokenRepo_Revoke env, ts_RevokeAllForUser = RefreshTokenRepo_RevokeAllForUser env \<rparr>"

text \<open>
  Hasher and issuer do not touch the database; \<open>pure_prog r\<close> runs a computation with the
  result \<open>r\<close> beside it.
\<close>

definition pure_prog :: "'a result \<Rightarrow> ('s, 'a) prog" where
  "pure_prog r = (\<lambda>w. (r, w))"

definition pg_auth ::
    "env \<Rightarrow> (string \<Rightarrow> string result) \<Rightarrow> (string \<Rightarrow> string \<Rightarrow> bool result)
     \<Rightarrow> (int64 \<Rightarrow> uuid \<Rightarrow> role \<Rightarrow> (string \<times> time) result) \<Rightarrow> duration \<Rightarrow> string \<Rightarrow> pg Auth" where
  "pg_auth env hash verify issue ttl dummy =
     \<lparr> A_users = pg_users env, A_tokens = pg_tokens env,
       A_hasher = \<lparr> ph_Hash = (\<lambda>p. pure_prog (hash p)), ph_Verify = (\<lambda>h p. pure_prog (verify h p)) \<rparr>,
       A_issuer = \<lparr> ai_Issue = (\<lambda>i p r. pure_prog (issue i p r)) \<rparr>,
       A_refreshTTL = ttl, A_dummyHash = dummy \<rparr>"

end
