(* ===== verification/App.thy ===== *)
theory App
  imports Config Jwt Password AuthService LedgerService Outbox Consumer
begin

text \<open>
  The processes around the core: internal/app/server.go, internal/platform/logger,
  internal/platform/broker and the assembly in cmd/api/main.go and cmd/worker/main.go.

  A \<open>select\<close> over channels is a function of the sequence of events it receives; the network,
  the scheduler and the drivers decide which events these are and are parameters.
\<close>

section \<open>server.go\<close>

text \<open>
  \<open>Serve\<close> waits for the end of the listener's loop or for the cancellation of its context:
  \<open>Stopped e\<close> is what \<open>srv.Serve\<close> returned, None when it closed regularly. After a
  cancellation \<open>onStop\<close> runs before \<open>Shutdown\<close>, whose result is \<open>down\<close>.
\<close>

datatype serve_event = Stopped "err option" | CtxDone

datatype serve_action = OnStop | ShutdownWithin duration

definition Serve :: "serve_event \<Rightarrow> err option \<Rightarrow> duration \<Rightarrow> serve_action list \<times> err option" where
  "Serve event down shutdownWait =
     (case event of
        Stopped (Some err) \<Rightarrow> ([], Some (Wrapf ''server berhenti tidak wajar: %w'' [] err))
      | Stopped None \<Rightarrow> ([], None)
      | CtxDone \<Rightarrow>
          ([OnStop, ShutdownWithin shutdownWait],
           case down of Some err \<Rightarrow> Some (Wrapf ''shutdown: %w'' [] err) | None \<Rightarrow> None))"

text \<open>
  \<open>RunPeriodic\<close>: each tick runs the job, whose failure is logged and never ends the loop; it
  ends with the context. The list gives, for each round, whether the context was done or the
  ticker fired first; the result is the state and the errors logged.
\<close>

datatype round = Tick | Done

fun RunPeriodic :: "('s, unit) prog \<Rightarrow> round list \<Rightarrow> 's \<Rightarrow> 's \<times> err list" where
  "RunPeriodic job [] w = (w, [])"
| "RunPeriodic job (Done # rs) w = (w, [])"
| "RunPeriodic job (Tick # rs) w =
     (case job w of
        (Inl err, w1) \<Rightarrow>
          (case RunPeriodic job rs w1 of (w2, logged) \<Rightarrow>
             (w2, if errors_Is err Canceled then logged else err # logged))
      | (Inr _, w1) \<Rightarrow> RunPeriodic job rs w1)"

section \<open>The drift job of cmd/api\<close>

text \<open>The gauges it sets, and whether it raised the alarm.\<close>

record gauges =
  g_drift :: int64
  g_trial :: int64
  g_alarm :: bool

definition drift_job :: "env \<Rightarrow> (pg, gauges) prog" where
  "drift_job env =
     bindP (LedgerRepo_BalanceDrift env) (\<lambda>drift.
     bindP (LedgerRepo_TrialBalance env) (\<lambda>tb.
     retP \<lparr> g_drift = drift, g_trial = tb_Difference tb,
            g_alarm = (drift \<noteq> 0 \<or> tb_Difference tb \<noteq> 0) \<rparr>))"

section \<open>logger.go\<close>

datatype level = LevelDebug | LevelInfo | LevelWarn | LevelError

definition sensitiveKeys :: "string list" where
  "sensitiveKeys = [''password'', ''password_hash'', ''token'', ''access_token'', ''refresh_token'',
     ''authorization'', ''jwt_secret'', ''secret'']"

definition parseLevel :: "(string \<Rightarrow> string) \<Rightarrow> string \<Rightarrow> level" where
  "parseLevel to_lower s =
     (let l = to_lower s
      in if l = ''debug'' then LevelDebug
         else if l = ''warn'' \<or> l = ''warning'' then LevelWarn
         else if l = ''error'' then LevelError else LevelInfo)"

definition redact :: "(string \<Rightarrow> string) \<Rightarrow> string \<times> string \<Rightarrow> string \<times> string" where
  "redact to_lower a = (if to_lower (fst a) \<in> set sensitiveKeys then (fst a, ''[REDACTED]'') else a)"

text \<open>
  \<open>New\<close>: the handler drops records below its level and passes every attribute through
  \<open>redact\<close>. Writing the record as JSON is slog's.
\<close>

fun level_rank :: "level \<Rightarrow> int" where
  "level_rank LevelDebug = -4"
| "level_rank LevelInfo = 0"
| "level_rank LevelWarn = 4"
| "level_rank LevelError = 8"

definition logger_New ::
    "(string \<Rightarrow> string) \<Rightarrow> string \<Rightarrow> level \<Rightarrow> (string \<times> string) list \<Rightarrow> (string \<times> string) list option" where
  "logger_New to_lower level l attrs =
     (if level_rank (parseLevel to_lower level) \<le> level_rank l then Some (map (redact to_lower) attrs) else None)"

lemma logger_keeps_secrets:
  "\<lbrakk>logger_New to_lower level l attrs = Some out; (k, v) \<in> set out; to_lower k \<in> set sensitiveKeys\<rbrakk>
   \<Longrightarrow> v = ''[REDACTED]''"
  by (auto simp: logger_New_def redact_def split: if_splits)

section \<open>rabbitmq.go\<close>

definition QueueAuditLog :: string where "QueueAuditLog = ''ledger.audit-log''"
definition QueueAuditLogDLQ :: string where "QueueAuditLogDLQ = ''ledger.audit-log.dlq''"
definition RoutingKeyTransactionPosted :: string where
  "RoutingKeyTransactionPosted = ''ledger.transaction.posted.v1''"

text \<open>
  \<open>Dial\<close>: \<open>dial n\<close> is the outcome of the n-th attempt and \<open>canceled n\<close> the error of the context
  if it ends during the wait after it. \<open>dial_from\<close> is the loop from the attempt \<open>n\<close> on, with
  \<open>left\<close> attempts to go; the waits grow by half a second each.
\<close>

definition maxAttempts :: nat where "maxAttempts = 10"
definition baseDelay :: duration where "baseDelay = 500 * 1000000"

fun dial_from ::
    "(nat \<Rightarrow> 'c result) \<Rightarrow> (nat \<Rightarrow> duration \<Rightarrow> err option) \<Rightarrow> nat \<Rightarrow> nat \<Rightarrow> err option \<Rightarrow> 'c result" where
  "dial_from dial canceled n 0 lastErr =
     Inl (Wrapf ''dial rabbitmq setelah %d percobaan: %w'' [AInt (int maxAttempts)]
            (case lastErr of None \<Rightarrow> NewError '''' | Some e \<Rightarrow> e))"
| "dial_from dial canceled n (Suc left) lastErr =
     (case dial n of
        Inr conn \<Rightarrow> Inr conn
      | Inl err \<Rightarrow>
          (case canceled n (baseDelay * int n) of
             Some cause \<Rightarrow> Inl (Wrapf ''dial rabbitmq dibatalkan: %w'' [] cause)
           | None \<Rightarrow> dial_from dial canceled (Suc n) left (Some err)))"

definition Dial :: "(nat \<Rightarrow> 'c result) \<Rightarrow> (nat \<Rightarrow> duration \<Rightarrow> err option) \<Rightarrow> 'c result" where
  "Dial dial canceled = dial_from dial canceled 1 maxAttempts None"

text \<open>
  \<open>DeclareTopology\<close>: the broker's answer to a declaration is the parameter \<open>answer\<close>; on
  success the declaration is part of the topology.
\<close>

datatype declared =
    ExchangeDeclare string bool             \<comment> \<open>topic exchange, durable\<close>
  | QueueDeclare string bool "(string \<times> string) list"
  | QueueBind string string string          \<comment> \<open>queue, key, exchange\<close>

definition declare_step ::
    "(declared \<Rightarrow> err option) \<Rightarrow> declared \<Rightarrow> (err \<Rightarrow> err) \<Rightarrow> (declared list, unit) prog" where
  "declare_step answer d wrap =
     (\<lambda>T. case answer d of Some err \<Rightarrow> (Inl (wrap err), T) | None \<Rightarrow> (Inr (), T @ [d]))"

definition DeclareTopology :: "(declared \<Rightarrow> err option) \<Rightarrow> (declared list, unit) prog" where
  "DeclareTopology answer =
     bindP (declare_step answer (ExchangeDeclare ExchangeLedgerEvents True)
              (Wrapf ''declare exchange %s: %w'' [AStr ExchangeLedgerEvents])) (\<lambda>_.
     bindP (declare_step answer (QueueDeclare QueueAuditLogDLQ True [])
              (Wrapf ''declare DLQ %s: %w'' [AStr QueueAuditLogDLQ])) (\<lambda>_.
     bindP (declare_step answer (QueueDeclare QueueAuditLog True
              [(''x-dead-letter-exchange'', ''''), (''x-dead-letter-routing-key'', QueueAuditLogDLQ)])
              (Wrapf ''declare queue %s: %w'' [AStr QueueAuditLog])) (\<lambda>_.
     declare_step answer (QueueBind QueueAuditLog RoutingKeyTransactionPosted ExchangeLedgerEvents)
       (Wrapf ''bind queue %s: %w'' [AStr QueueAuditLog]))))"

text \<open>Where the broker delivers a message: to the queues bound to its exchange under its key.\<close>

definition delivered_to :: "declared list \<Rightarrow> message \<Rightarrow> string set" where
  "delivered_to T m = {q. QueueBind q (msg_RoutingKey m) (msg_Exchange m) \<in> set T}"

section \<open>Relay.Run\<close>

text \<open>
  The polling loop of the relay: for each round the surroundings of a poll, until the context
  ends. A poll that fails is logged, and the next round polls again.
\<close>

datatype poll_round = PollTick env "nat \<Rightarrow> outcome" "int64 set" | PollDone

fun Relay_Run :: "poll_round list \<Rightarrow> relay_world \<Rightarrow> relay_world" where
  "Relay_Run [] rw = rw"
| "Relay_Run (PollDone # rs) rw = rw"
| "Relay_Run (PollTick env out skip # rs) rw = Relay_Run rs (snd (Relay_PollOnce env out skip rw))"

section \<open>pool.go\<close>

record pool_config =
  pc_dsn :: string
  pc_MaxConns :: int64
  pc_MinConns :: int64
  pc_MaxConnLifetime :: duration
  pc_MaxConnIdleTime :: duration

definition maxConns :: int64 where "maxConns = 25"
definition minConns :: int64 where "minConns = 5"
definition maxConnLifetime :: duration where "maxConnLifetime = 30 * minute"
definition maxConnIdleTime :: duration where "maxConnIdleTime = 5 * minute"
definition pingTimeout :: duration where "pingTimeout = 5 * second"

text \<open>The driver pgx is the parameters \<open>ParseConfig\<close>, \<open>NewWithConfig\<close> and \<open>Ping\<close>.\<close>

definition NewPool ::
    "(string \<Rightarrow> pool_config result) \<Rightarrow> (pool_config \<Rightarrow> 'p result) \<Rightarrow> ('p \<Rightarrow> duration \<Rightarrow> err option)
     \<Rightarrow> string \<Rightarrow> 'p result" where
  "NewPool ParseConfig NewWithConfig Ping dsn =
     (case ParseConfig dsn of
        Inl err \<Rightarrow> Inl (Wrapf ''membaca DATABASE_URL: %w'' [] err)
      | Inr cfg \<Rightarrow>
          (case NewWithConfig (cfg\<lparr> pc_MaxConns := maxConns, pc_MinConns := minConns,
                  pc_MaxConnLifetime := maxConnLifetime, pc_MaxConnIdleTime := maxConnIdleTime \<rparr>) of
             Inl err \<Rightarrow> Inl (Wrapf ''membuat pool: %w'' [] err)
           | Inr pool \<Rightarrow>
               (case Ping pool pingTimeout of
                  Some err \<Rightarrow> Inl (Wrapf ''menghubungi database: %w'' [] err)
                | None \<Rightarrow> Inr pool)))"

section \<open>dbmigrate.go\<close>

text \<open>
  What \<open>Up\<close> gets from golang-migrate and the driver, in the order it asks: opening the
  embedded files, the database, the migrator's driver, the migrator, and the answer of its
  \<open>Up\<close>; \<open>mg_no_change\<close> is \<open>migrate.ErrNoChange\<close>. None is \<open>nil\<close>.
\<close>

record migrator =
  mg_source :: "err option"
  mg_open :: "string \<Rightarrow> err option"
  mg_driver :: "err option"
  mg_new :: "err option"
  mg_up :: "err option"
  mg_no_change :: err

definition dbmigrate_Up :: "migrator \<Rightarrow> string \<Rightarrow> err option" where
  "dbmigrate_Up m dsn =
     (case mg_source m of Some err \<Rightarrow> Some (Wrapf ''membaca migration ter-embed: %w'' [] err) | None \<Rightarrow>
      case mg_open m dsn of Some err \<Rightarrow> Some (Wrapf ''membuka koneksi migration: %w'' [] err) | None \<Rightarrow>
      case mg_driver m of Some err \<Rightarrow> Some (Wrapf ''menyiapkan driver migration: %w'' [] err) | None \<Rightarrow>
      case mg_new m of Some err \<Rightarrow> Some (Wrapf ''menyiapkan migrator: %w'' [] err) | None \<Rightarrow>
      case mg_up m of
        Some err \<Rightarrow> if errors_Is err (mg_no_change m) then None
                    else Some (Wrapf ''menjalankan migration: %w'' [] err)
      | None \<Rightarrow> None)"

lemma dbmigrate_Up_None:
  "dbmigrate_Up m dsn = None \<longleftrightarrow>
     mg_source m = None \<and> mg_open m dsn = None \<and> mg_driver m = None \<and> mg_new m = None
     \<and> (case mg_up m of None \<Rightarrow> True | Some err \<Rightarrow> errors_Is err (mg_no_change m))"
  by (auto simp: dbmigrate_Up_def split: option.splits if_splits)

section \<open>Starting cmd/api\<close>

text \<open>
  \<open>run\<close> of cmd/api/main.go up to the call of \<open>Serve\<close>. The outside world answers through
  \<open>outside\<close>: reading the environment, migrating, connecting, listening. \<open>boot\<close> records these
  actions in their order beside the database.
\<close>

datatype startup = Migrated string | Connected string | Listening string

record boot =
  bt_pg :: pg
  bt_trace :: "startup list"

record 'o outside =
  os_parse :: "Config result"
  os_migrate :: "string \<Rightarrow> err option"
  os_pool :: "string \<Rightarrow> unit result"
  os_redis_parse :: "string \<Rightarrow> 'o result"
  os_redis_ping :: "'o \<Rightarrow> err option"
  os_listen :: "string \<Rightarrow> err option"

definition act :: "startup \<Rightarrow> (err \<Rightarrow> err) \<Rightarrow> err option \<Rightarrow> (boot, unit) prog" where
  "act a wrap r = (\<lambda>b. case r of
      Some err \<Rightarrow> (Inl (wrap err), b)
    | None \<Rightarrow> (Inr (), b\<lparr>bt_trace := bt_trace b @ [a]\<rparr>))"

definition in_boot :: "(pg, 'a) prog \<Rightarrow> (boot, 'a) prog" where
  "in_boot m = (\<lambda>b. case m (bt_pg b) of (r, w) \<Rightarrow> (r, b\<lparr>bt_pg := w\<rparr>))"

definition error_of :: "'a result \<Rightarrow> err option" where
  "error_of r = (case r of Inl err \<Rightarrow> Some err | Inr _ \<Rightarrow> None)"

definition ledger_config_of :: "Config \<Rightarrow> ledger_config" where
  "ledger_config_of cfg =
     \<lparr> cfg_TransferFee = cf_TransferFeeSen cfg, cfg_MinTransfer = cf_MinTransferSen cfg,
       cfg_MaxTransfer = cf_MaxTransferSen cfg \<rparr>"

record api_process =
  ap_config :: Config
  ap_limiters :: apiLimiters
  ap_jwt :: JWT
  ap_ledger :: "pg Ledger"
  ap_auth :: "pg Auth"

text \<open>
  \<open>hasher\<close> and \<open>issuer jwt\<close> are the password hasher and the token issuer \<open>run\<close> builds from
  \<open>password.NewArgon2\<close> and \<open>token.NewJWT\<close>.
\<close>

definition migrate_step :: "'o outside \<Rightarrow> Config \<Rightarrow> (boot, unit) prog" where
  "migrate_step out cfg =
     (if cf_RunMigrations cfg
      then act (Migrated (Config_MigrationURL cfg)) id (os_migrate out (Config_MigrationURL cfg))
      else retP ())"

definition api_run ::
    "env \<Rightarrow> 'o outside \<Rightarrow> pg password_hasher \<Rightarrow> (JWT \<Rightarrow> pg access_token_issuer) \<Rightarrow> (boot, api_process) prog" where
  "api_run env out hasher issuer =
     (case Config_Load (os_parse out) of
        Inl err \<Rightarrow> failP err
      | Inr cfg \<Rightarrow>
          bindP (migrate_step out cfg) (\<lambda>_.
          bindP (act (Connected (cf_DatabaseURL cfg)) id (error_of (os_pool out (cf_DatabaseURL cfg)))) (\<lambda>_.
          bindP (liftR (newLimiters (os_redis_parse out) (os_redis_ping out) cfg)) (\<lambda>limiters.
          bindP (liftR (NewJWT (cf_JWTSecret cfg) (cf_AccessTokenTTL cfg))) (\<lambda>jwt.
          bindP (in_boot (NewLedger (pg_ledger_store env) (pg_account_store env) (pg_idempotency_store env)
                   (ledger_config_of cfg))) (\<lambda>ledger.
          bindP (in_boot (NewAuth (pg_users env) (pg_tokens env) hasher (issuer jwt) (cf_RefreshTokenTTL cfg))) (\<lambda>auth.
          bindP (act (Listening (cf_Addr cfg)) (Wrapf ''listen %s: %w'' [AStr (cf_Addr cfg)]) (os_listen out (cf_Addr cfg))) (\<lambda>_.
          retP \<lparr> ap_config = cfg, ap_limiters = limiters, ap_jwt = jwt, ap_ledger = ledger, ap_auth = auth \<rparr>))))))))"

text \<open>
  The rest of \<open>run\<close>: pprof outside production, and \<open>Serve\<close>, whose \<open>onStop\<close> takes the API out of
  rotation. \<open>serverClosed\<close> is the sentinel of net/http.
\<close>

definition servePprof :: "err \<Rightarrow> err \<Rightarrow> (level \<times> string) list" where
  "servePprof serverClosed ended =
     [(LevelInfo, ''pprof aktif'')]
     @ (if errors_Is ended serverClosed then [] else [(LevelWarn, ''pprof berhenti'')])"

definition pprof_address :: "Config \<Rightarrow> string option" where
  "pprof_address cfg = (if Config_IsProduction cfg then None else Some (cf_PprofAddr cfg))"

definition api_serve :: "serve_event \<Rightarrow> err option \<Rightarrow> Config \<Rightarrow> (bool, unit) prog" where
  "api_serve event down cfg ready =
     (let (acts, err) = Serve event down (cf_ShutdownWait cfg)
      in (case err of Some e \<Rightarrow> Inl e | None \<Rightarrow> Inr (), ready \<and> OnStop \<notin> set acts))"

section \<open>Starting cmd/worker\<close>

text \<open>
  \<open>run\<close> of cmd/worker/main.go up to the start of the relay and the consumer, which it waits
  for: the end of the context ends it without an error, a failing consumer with its error.
\<close>

record worker_outside =
  wo_parse :: "workerConfig result"
  wo_migrate :: "string \<Rightarrow> err option"
  wo_pool :: "string \<Rightarrow> unit result"
  wo_dial :: "nat \<Rightarrow> unit result"
  wo_canceled :: "nat \<Rightarrow> duration \<Rightarrow> err option"
  wo_open_relay :: "err option"        \<comment> \<open>\<open>conn.Channel\<close> for the relay\<close>
  wo_confirm :: "err option"           \<comment> \<open>\<open>ch.Confirm\<close>\<close>
  wo_open_consumer :: "err option"
  wo_declare :: "declared \<Rightarrow> err option"

definition newConfirmChannel :: "err option \<Rightarrow> err option \<Rightarrow> err option" where
  "newConfirmChannel opened confirmed =
     (case opened of
        Some err \<Rightarrow> Some err
      | None \<Rightarrow> map_option (Wrapf ''aktifkan publisher confirm: %w'' []) confirmed)"

definition try_step :: "err option \<Rightarrow> (err \<Rightarrow> err) \<Rightarrow> ('s, unit) prog" where
  "try_step r wrap = (case r of Some err \<Rightarrow> failP (wrap err) | None \<Rightarrow> retP ())"

definition worker_run :: "worker_outside \<Rightarrow> (declared list, workerConfig) prog" where
  "worker_run out =
     (case wo_parse out of
        Inl err \<Rightarrow> failP (Wrapf ''memuat konfigurasi: %w'' [] err)
      | Inr cfg \<Rightarrow>
          bindP (if wc_RunMigrations cfg then try_step (wo_migrate out (workerConfig_migrationURL cfg)) id
                 else retP ()) (\<lambda>_.
          bindP (try_step (error_of (wo_pool out (wc_DatabaseURL cfg))) id) (\<lambda>_.
          bindP (try_step (error_of (Dial (wo_dial out) (wo_canceled out))) id) (\<lambda>_.
          bindP (try_step (newConfirmChannel (wo_open_relay out) (wo_confirm out)) (Wrapf ''channel relay: %w'' [])) (\<lambda>_.
          bindP (try_step (wo_open_consumer out) (Wrapf ''channel consumer: %w'' [])) (\<lambda>_.
          bindP (DeclareTopology (wo_declare out)) (\<lambda>_.
          retP cfg)))))))"

text \<open>
  \<open>AuditLog.Run\<close> on its channel: the prefetch limit and the subscription come first, then the
  deliveries until the context ends or the channel closes.
\<close>

definition AuditLog_on_channel ::
    "err option \<Rightarrow> err option \<Rightarrow> (nat \<Rightarrow> env) \<Rightarrow> (string \<Rightarrow> uuid option) \<Rightarrow> (uuid \<Rightarrow> string) \<Rightarrow> delivery list
     \<Rightarrow> (consumer_world, settlement list) prog" where
  "AuditLog_on_channel qos consume envs parse uuid_text ds =
     bindP (try_step qos (Wrapf ''set qos: %w'' [])) (\<lambda>_.
     bindP (try_step consume (Wrapf ''consume %s: %w'' [AStr QueueAuditLog])) (\<lambda>_.
     (\<lambda>cw. let (ss, cw') = AuditLog_Run envs parse uuid_text ds cw in (Inr ss, cw'))))"

datatype worker_end = CtxEnded | ConsumerFailed err

definition worker_wait :: "worker_end \<Rightarrow> err option" where
  "worker_wait e = (case e of CtxEnded \<Rightarrow> None | ConsumerFailed err \<Rightarrow> Some (Wrapf ''consumer audit-log: %w'' [] err))"

end
