(* ===== verification/AuthFacts.thy ===== *)
theory AuthFacts
  imports AuthService Operations
begin

text \<open>
  What registration, login, refresh and logout do on the PostgreSQL stores: their effect on
  the tables, that they take steps of the system, how refresh tokens evolve under any steps,
  and the properties of the use cases.
\<close>

section \<open>Refresh tokens under the steps of the system\<close>

definition token_row :: "tables \<Rightarrow> string \<Rightarrow> refresh_token option" where
  "token_row T h = List.find (\<lambda>t. rt_TokenHash t = h) (refresh_tokens T)"

definition revoked_in :: "tables \<Rightarrow> string \<Rightarrow> bool" where
  "revoked_in T h \<longleftrightarrow> (\<exists>t. token_row T h = Some t \<and> rt_RevokedAt t \<noteq> None)"

text \<open>A later table keeps every token's owner and never takes a revocation back.\<close>

definition tokens_later :: "tables \<Rightarrow> tables \<Rightarrow> bool" where
  "tokens_later T T' \<longleftrightarrow>
     (\<forall>h t. token_row T h = Some t \<longrightarrow>
        (\<exists>t'. token_row T' h = Some t' \<and> rt_UserID t' = rt_UserID t
            \<and> (rt_RevokedAt t \<noteq> None \<longrightarrow> rt_RevokedAt t' = rt_RevokedAt t)))"

lemma tokens_later_refl: "tokens_later T T"
  by (simp add: tokens_later_def)

lemma tokens_later_trans: "\<lbrakk>tokens_later T U; tokens_later U V\<rbrakk> \<Longrightarrow> tokens_later T V"
  unfolding tokens_later_def by (metis (no_types, lifting))

lemma tokens_later_same: "refresh_tokens T' = refresh_tokens T \<Longrightarrow> tokens_later T T'"
  by (simp add: tokens_later_def token_row_def)

lemma find_update_where:
  assumes "\<And>r. P (f r) = P r"
  shows "List.find P (update_where q f rows)
       = map_option (\<lambda>r. if q r then f r else r) (List.find P rows)"
  using assms by (induction rows) auto

lemma find_revoke_where:
  "List.find (\<lambda>t. rt_TokenHash t = h) (revoke_where now p rows)
     = map_option (\<lambda>t. if p t \<and> rt_RevokedAt t = None then t\<lparr>rt_RevokedAt := Some now\<rparr> else t)
         (List.find (\<lambda>t. rt_TokenHash t = h) rows)"
  unfolding revoke_where_def by (rule find_update_where) simp

lemma revoke_where_later:
  "tokens_later T (T\<lparr>refresh_tokens := revoke_where now p (refresh_tokens T)\<rparr>)"
  by (auto simp: tokens_later_def token_row_def find_revoke_where)

lemma append_tokens_later:
  "refresh_tokens T' = refresh_tokens T @ new \<Longrightarrow> tokens_later T T'"
  by (auto simp: tokens_later_def token_row_def find_append)

lemma Store_effect:
  assumes "RefreshTokenRepo_Store env u h t w = (r, w')"
  shows "case r of
      Inl e \<Rightarrow> tabs w' = tabs w
    | Inr _ \<Rightarrow> token_row (tabs w) h = None \<and> u \<in> usr_ID ` set (users (tabs w))
        \<and> (\<exists>n. tabs w' = (tabs w)\<lparr>refresh_tokens := refresh_tokens (tabs w) @ [new_token_row env n u h t]\<rparr>)"
  using assms
  by (auto simp: RefreshTokenRepo_Store_def wrapP_def stmt_def Let_def token_row_def find_None_iff
      split: option.splits if_splits prod.splits sum.splits)

lemma Revoke_effect:
  assumes "RefreshTokenRepo_Revoke env h w = (r, w')"
  shows "tabs w' = tabs w \<or>
    tabs w' = (tabs w)\<lparr>refresh_tokens := revoke_where (env_now env) (\<lambda>t. rt_TokenHash t = h) (refresh_tokens (tabs w))\<rparr>"
  using assms
  by (auto simp: RefreshTokenRepo_Revoke_def wrapP_def bindP_def stmt_def Let_def
      split: option.splits if_splits prod.splits sum.splits)

lemma Revoke_Inr:
  assumes "RefreshTokenRepo_Revoke env h w = (Inr x, w')"
  shows "tabs w' = (tabs w)\<lparr>refresh_tokens := revoke_where (env_now env) (\<lambda>t. rt_TokenHash t = h) (refresh_tokens (tabs w))\<rparr>"
    and "\<exists>t \<in> set (refresh_tokens (tabs w)). rt_TokenHash t = h \<and> rt_RevokedAt t = None"
  using assms
  by (auto simp: RefreshTokenRepo_Revoke_def wrapP_def bindP_def stmt_def Let_def count_where_def filter_empty_conv
      split: option.splits if_splits prod.splits sum.splits)

lemma RevokeAll_effect:
  assumes "RefreshTokenRepo_RevokeAllForUser env u w = (r, w')"
  shows "tabs w' = tabs w \<and> (\<exists>e. r = Inl e) \<or> r = Inr () \<and>
    tabs w' = (tabs w)\<lparr>refresh_tokens := revoke_where (env_now env) (\<lambda>t. rt_UserID t = u) (refresh_tokens (tabs w))\<rparr>"
  using assms
  by (auto simp: RefreshTokenRepo_RevokeAllForUser_def wrapP_def stmt_def Let_def
      split: option.splits if_splits prod.splits sum.splits)

lemma Revoke_Inl_NotFound:
  assumes "RefreshTokenRepo_Revoke env h w = (Inl ErrNotFound, w')"
  shows "\<forall>t \<in> set (refresh_tokens (tabs w)). rt_TokenHash t = h \<longrightarrow> rt_RevokedAt t \<noteq> None"
  using assms
  by (auto simp: RefreshTokenRepo_Revoke_def wrapP_def bindP_def stmt_def Let_def count_where_def filter_empty_conv
      split: option.splits if_splits prod.splits sum.splits)

lemma Find_token:
  assumes "RefreshTokenRepo_Find env h w = (r, w')"
  shows "tabs w' = tabs w" "seqs w' = seqs w"
    "r = Inr t \<Longrightarrow> token_row (tabs w) h = Some t"
  using assms
  by (auto simp: RefreshTokenRepo_Find_def wrapP_def stmt_def Let_def token_row_def
      split: option.splits if_splits prod.splits sum.splits)

text \<open>
  Beside the posting of a transaction, which leaves the tokens alone, and the relay, which
  touches the outbox only, no step changes the outbox, and each keeps the tokens in order.
\<close>

definition aside :: "tables \<Rightarrow> tables \<Rightarrow> bool" where
  "aside T T' \<longleftrightarrow> outbox_events T' = outbox_events T \<and> tokens_later T T'"

lemma aside_refl: "aside T T"
  by (simp add: aside_def tokens_later_refl)

lemma aside_same:
  "\<lbrakk>outbox_events T' = outbox_events T; refresh_tokens T' = refresh_tokens T\<rbrakk> \<Longrightarrow> aside T T'"
  by (simp add: aside_def tokens_later_same)

lemma db_step_side:
  assumes "db_step w w'" "db_inv (tabs w) (seqs w)"
  shows "posts (seqs w) (tabs w) (tabs w') \<or> aside (tabs w) (tabs w') \<or> same_outbox (tabs w) (tabs w')"
  using assms(1)
proof (cases rule: db_step.cases)
  case (post env txn claim r)
  show ?thesis
  proof (cases r)
    case (Inl e)
    with post(1) have "tabs w' = tabs w"
      by (auto simp: LedgerRepo_Post_def split: option.splits dest: in_tx_Inl_tabs)
    then show ?thesis by (simp add: aside_refl)
  next
    case (Inr res)
    have "distinct (map acc_ID (accounts (tabs w)))"
      using assms(2) by (simp add: db_inv_def ledger_inv_def accounts_ok_def)
    from LedgerRepo_Post_sound [OF post(1) [unfolded Inr] this post(2)] post(2) show ?thesis
      unfolding posts_def by metis
  qed
next
  case (register env u r)
  show ?thesis
  proof (cases r)
    case (Inl e)
    have "tabs w' = tabs w"
      using register [unfolded Inl UserRepo_CreateWithWallet_def] by (rule in_tx_Inl_tabs)
    then show ?thesis by (simp add: aside_refl)
  next
    case (Inr va)
    obtain v a where va: "va = (v, a)" by fastforce
    show ?thesis
      using CreateWithWallet_Inr(6) [OF register [unfolded Inr va]] by (simp add: aside_same)
  qed
next
  case (create_wallet env i r)
  then obtain r0 where S: "sql_insert_wallet env i w = (r0, w')"
    by (auto simp: AccountRepo_CreateWallet_def scanAccount_def wrapP_def split: prod.splits sum.splits)
  then show ?thesis
  proof (cases r0)
    case (Inl e)
    with S have "tabs w' = tabs w" by (metis sql_insert_wallet_Inl)
    then show ?thesis by (simp add: aside_refl)
  next
    case (Inr a)
    then show ?thesis
      using sql_insert_wallet_Inr(6) [OF S [unfolded Inr]] by (simp add: aside_same)
  qed
next
  case (store_token env i h t r)
  show ?thesis
  proof (cases r)
    case (Inl e)
    with Store_effect [OF store_token] show ?thesis by (simp add: aside_refl)
  next
    case (Inr x)
    with Store_effect [OF store_token] obtain row
      where "tabs w' = (tabs w)\<lparr>refresh_tokens := refresh_tokens (tabs w) @ [row]\<rparr>" by auto
    then show ?thesis by (simp add: aside_def append_tokens_later)
  qed
next
  case (revoke env h r)
  from Revoke_effect [OF this] show ?thesis
    by (auto simp: aside_def revoke_where_later tokens_later_refl)
next
  case (revoke_all env i r)
  from RevokeAll_effect [OF this] show ?thesis
    by (auto simp: aside_def revoke_where_later tokens_later_refl)
next
  case (cleanup env days r)
  from DeleteOlderThan_effect [OF cleanup] show ?thesis by (auto simp: aside_same)
next
  case (relay env out skip rw r rw')
  from PollOnce_step [OF relay(3)] relay(1,2) show ?thesis by (simp add: relay_step_def)
next
  case (consume env parse uuid_text d cw s cw')
  show ?thesis
  proof (cases "parse (d_MessageId d)")
    case None
    with consume show ?thesis by (simp add: AuditLog_handle_def aside_refl)
  next
    case (Some i)
    obtain q w1 where P: "sql_insert_processed env i (cw_pg cw) = (q, w1)" by fastforce
    have "cw_pg cw' = w1"
      using consume Some P by (auto simp: AuditLog_handle_def Let_def split: sum.splits if_splits)
    with sql_insert_processed_cases [OF P] consume(1,2) show ?thesis
      by (auto simp: aside_same)
  qed
next
  case read
  then show ?thesis by (simp add: aside_refl)
qed

lemma db_step_tokens:
  assumes "db_step w w'" "db_inv (tabs w) (seqs w)"
  shows "tokens_later (tabs w) (tabs w')"
  using db_step_side [OF assms]
proof (elim disjE)
  assume "posts (seqs w) (tabs w) (tabs w')"
  then show ?thesis by (intro tokens_later_same) (auto simp: posts_def posted_tables_def Let_def)
next
  assume "same_outbox (tabs w) (tabs w')"
  then show ?thesis by (intro tokens_later_same) (auto simp: same_outbox_def)
qed (simp add: aside_def)

lemma steps_tokens:
  assumes "reachable w" "db_step\<^sup>*\<^sup>* w w'"
  shows "tokens_later (tabs w) (tabs w')"
  using assms(2)
proof (induction rule: rtranclp_induct)
  case base
  then show ?case by (rule tokens_later_refl)
next
  case (step y z)
  have "reachable y" using reachable_steps [OF step(1) assms(1)] .
  with step(2,3) show ?case
    using db_step_tokens reachable_inv tokens_later_trans by blast
qed

section \<open>The operations of the service\<close>

lemma pg_auth_simps [simp]:
  "A_users (pg_auth env h v i ttl d) = pg_users env"
  "A_tokens (pg_auth env h v i ttl d) = pg_tokens env"
  "ph_Hash (A_hasher (pg_auth env h v i ttl d)) p = pure_prog (h p)"
  "ph_Verify (A_hasher (pg_auth env h v i ttl d)) e p = pure_prog (v e p)"
  "ai_Issue (A_issuer (pg_auth env h v i ttl d)) n u r = pure_prog (i n u r)"
  "A_refreshTTL (pg_auth env h v i ttl d) = ttl"
  "A_dummyHash (pg_auth env h v i ttl d) = d"
  by (simp_all add: pg_auth_def)

lemma pg_user_store_simps [simp]:
  "us_CreateWithWallet (pg_users env) = UserRepo_CreateWithWallet env"
  "us_GetByEmail (pg_users env) = UserRepo_GetByEmail env"
  "us_GetByID (pg_users env) = UserRepo_GetByID env"
  "ts_Store (pg_tokens env) = RefreshTokenRepo_Store env"
  "ts_Find (pg_tokens env) = RefreshTokenRepo_Find env"
  "ts_Revoke (pg_tokens env) = RefreshTokenRepo_Revoke env"
  "ts_RevokeAllForUser (pg_tokens env) = RefreshTokenRepo_RevokeAllForUser env"
  by (simp_all add: pg_users_def pg_tokens_def)

lemma pure_prog_iff [prog_simps]: "pure_prog r w = (q, w') \<longleftrightarrow> q = r \<and> w' = w"
  by (auto simp: pure_prog_def)

lemma pure_prog_eq [simp]: "pure_prog r w = (r, w)"
  by (simp add: pure_prog_def)

lemma GetUser_reads:
  "UserRepo_GetByEmail env e w = (r, w') \<Longrightarrow> tabs w' = tabs w \<and> seqs w' = seqs w"
  "UserRepo_GetByID env i w = (r, w') \<Longrightarrow> tabs w' = tabs w \<and> seqs w' = seqs w"
  by (auto simp: UserRepo_GetByEmail_def UserRepo_GetByID_def scanUser_def sql_select_user_def wrapP_def
      stmt_def Let_def split: option.splits if_splits prod.splits sum.splits)

lemma GetByEmail_Inr:
  "UserRepo_GetByEmail env e w = (Inr u, w') \<Longrightarrow>
   u \<in> set (users (tabs w)) \<and> env_lower env (usr_Email u) = env_lower env e"
  by (auto simp: UserRepo_GetByEmail_def scanUser_def sql_select_user_def wrapP_Inr_iff stmt_Inr_iff
      split: option.splits dest!: find_SomeD)

lemma GetByEmail_Inl:
  assumes "UserRepo_GetByEmail env e w = (Inl err, w')" "no_faults env"
  shows "errors_Is err ErrUserNotFound \<and> (\<forall>u \<in> set (users (tabs w)). env_lower env (usr_Email u) \<noteq> env_lower env e)"
  using assms
  by (auto simp: UserRepo_GetByEmail_def scanUser_def sql_select_user_def wrapP_Inl_iff translate_def
      find_None_iff split: option.splits)

lemma GetByID_Inr:
  "UserRepo_GetByID env i w = (Inr u, w') \<Longrightarrow> u \<in> set (users (tabs w)) \<and> usr_ID u = i"
  by (auto simp: UserRepo_GetByID_def scanUser_def sql_select_user_def wrapP_Inr_iff stmt_Inr_iff
      split: option.splits dest!: find_SomeD)

text \<open>What \<open>issuePair\<close> does: on success one new row for the hash of a fresh token.\<close>

lemma issuePair_effect:
  assumes "Auth_issuePair (pg_auth env hs ver iss ttl dm) ac u w = (r, w')"
  shows "case r of
      Inl e \<Rightarrow> tabs w' = tabs w
    | Inr p \<Rightarrow> iss (usr_ID u) (usr_PublicID u) (usr_Role u) = Inr (tp_AccessToken p, tp_AccessExpiresAt p)
        \<and> tp_RefreshExpiresAt p = ac_now ac + ttl
        \<and> token_row (tabs w) (hashToken ac (tp_RefreshToken p)) = None
        \<and> (\<exists>raw n. ac_rand ac 32 = Inr raw \<and> tp_RefreshToken p = base64_encode urlAlphabet raw
             \<and> tabs w' = (tabs w)\<lparr>refresh_tokens := refresh_tokens (tabs w)
                 @ [new_token_row env n (usr_ID u) (hashToken ac (tp_RefreshToken p)) (ac_now ac + ttl)]\<rparr>)"
proof (cases "iss (usr_ID u) (usr_PublicID u) (usr_Role u)")
  case (Inl e)
  with assms show ?thesis by (auto simp: Auth_issuePair_def bindP_def wrapP_def)
next
  case (Inr ae)
  obtain acc ex where ae: "ae = (acc, ex)" by fastforce
  show ?thesis
  proof (cases "ac_rand ac 32")
    case (Inl e)
    with Inr ae assms show ?thesis
      by (auto simp: Auth_issuePair_def bindP_def wrapP_def refreshTokenSize_def)
  next
    case R: (Inr raw)
    let ?t = "base64_encode urlAlphabet raw"
    obtain q w1 where S: "RefreshTokenRepo_Store env (usr_ID u) (hashToken ac ?t) (ac_now ac + ttl) w = (q, w1)"
      by fastforce
    from Store_effect [OF S] show ?thesis
      using Inr ae R assms S
      by (cases q) (auto simp: Auth_issuePair_def bindP_def wrapP_def refreshTokenSize_def Let_def)
  qed
qed

lemma issuePair_steps:
  assumes "Auth_issuePair (pg_auth env hs ver iss ttl dm) ac u w = (r, w')"
  shows "db_step\<^sup>*\<^sup>* w w'"
proof (cases "\<exists>acc ex raw. iss (usr_ID u) (usr_PublicID u) (usr_Role u) = Inr (acc, ex) \<and> ac_rand ac 32 = Inr raw")
  case True
  then obtain acc ex raw where I: "iss (usr_ID u) (usr_PublicID u) (usr_Role u) = Inr (acc, ex)" "ac_rand ac 32 = Inr raw"
    by blast
  obtain q w1 where S: "RefreshTokenRepo_Store env (usr_ID u) (hashToken ac (base64_encode urlAlphabet raw)) (ac_now ac + ttl) w = (q, w1)"
    by fastforce
  with assms I have "w' = w1"
    by (cases q) (auto simp: Auth_issuePair_def bindP_def wrapP_def refreshTokenSize_def Let_def)
  with S show ?thesis by (blast intro: db_step.store_token)
next
  case False
  with assms have "w' = w"
    by (cases "iss (usr_ID u) (usr_PublicID u) (usr_Role u)"; cases "ac_rand ac 32")
       (auto simp: Auth_issuePair_def bindP_def wrapP_def refreshTokenSize_def split: prod.splits)
  then show ?thesis by simp
qed

lemma Login_cases:
  assumes "Auth_Login (pg_auth env hs ver iss ttl dm) ac email pw w = (r, w')"
  obtains (failed) e where "r = Inl e" "tabs w' = tabs w" "seqs w' = seqs w"
  | (issued) u w1 where "u \<in> set (users (tabs w))"
      "env_lower env (usr_Email u) = env_lower env (normalized_email ac email)"
      "ver (usr_PasswordHash u) pw = Inr True" "tabs w1 = tabs w" "seqs w1 = seqs w"
      "Auth_issuePair (pg_auth env hs ver iss ttl dm) ac u w1 = (r, w')"
proof -
  obtain q w1 where G: "UserRepo_GetByEmail env (normalized_email ac email) w = (q, w1)" by fastforce
  note t = GetUser_reads(1) [OF G]
  show thesis
  proof (cases q)
    case (Inl e)
    with assms G t show thesis
      by (intro failed [of "projl r"]) (auto simp: Auth_Login_def Let_def split: if_splits)
  next
    case (Inr u)
    show thesis
    proof (cases "ver (usr_PasswordHash u) pw = Inr True")
      case True
      with assms G Inr t GetByEmail_Inr [OF G [unfolded Inr]] show thesis
        by (intro issued [of u w1]) (auto simp: Auth_Login_def Let_def bindP_def wrapP_def)
    next
      case False
      with assms G Inr t show thesis
        by (intro failed [of "projl r"]; cases "ver (usr_PasswordHash u) pw")
           (auto simp: Auth_Login_def Let_def bindP_def wrapP_def)
    qed
  qed
qed

lemma Refresh_cases:
  assumes "Auth_Refresh (pg_auth env hs ver iss ttl dm) ac tok w = (r, w')"
  obtains (refused) e where "r = Inl e" "tabs w' = tabs w" "seqs w' = seqs w"
      "no_faults env \<Longrightarrow> token_row (tabs w) (hashToken ac tok) = None \<Longrightarrow> e = ErrInvalidToken"
      "no_faults env \<Longrightarrow> \<not> revoked_in (tabs w) (hashToken ac tok)"
  | (reused) t q w1 where "token_row (tabs w) (hashToken ac tok) = Some t" "rt_RevokedAt t \<noteq> None"
      "tabs w1 = tabs w" "seqs w1 = seqs w"
      "RefreshTokenRepo_RevokeAllForUser env (rt_UserID t) w1 = (q, w')"
      "r = (case q of Inl e \<Rightarrow> Inl (Wrapf ''mencabut semua sesi setelah reuse terdeteksi: %w'' [] e)
                    | Inr _ \<Rightarrow> Inl ErrInvalidToken)"
  | (lost) t e w1 where "token_row (tabs w) (hashToken ac tok) = Some t" "RefreshToken_Usable t (ac_now ac)"
      "tabs w1 = tabs w" "seqs w1 = seqs w"
      "RefreshTokenRepo_Revoke env (hashToken ac tok) w1 = (Inl e, w')"
      "r = Inl (Wrapf ''mencabut token lama: %w'' [] e)"
  | (rotated) t u w1 w2 where "token_row (tabs w) (hashToken ac tok) = Some t" "RefreshToken_Usable t (ac_now ac)"
      "u \<in> set (users (tabs w))" "usr_ID u = rt_UserID t" "tabs w1 = tabs w" "seqs w1 = seqs w"
      "RefreshTokenRepo_Revoke env (hashToken ac tok) w1 = (Inr (), w2)"
      "Auth_issuePair (pg_auth env hs ver iss ttl dm) ac u w2 = (r, w')"
proof -
  let ?h = "hashToken ac tok"
  obtain q w1 where F: "RefreshTokenRepo_Find env ?h w = (q, w1)" by fastforce
  note f = Find_token(1,2) [OF F]
  show thesis
  proof (cases q)
    case (Inl e)
    have nf: "errors_Is e ErrNotFound \<and> token_row (tabs w) ?h = None" if "no_faults env"
      using F Inl that
      by (auto simp: RefreshTokenRepo_Find_def wrapP_Inl_iff translate_def token_row_def split: option.splits)
    from assms F Inl have "w' = w1" "r = Inl (if errors_Is e ErrNotFound then ErrInvalidToken
        else Wrapf ''mencari refresh token: %w'' [] e)"
      by (simp_all add: Auth_Refresh_def bindP_def wrapP_def)
    with f nf show thesis
      by (intro refused [of "if errors_Is e ErrNotFound then ErrInvalidToken
        else Wrapf ''mencari refresh token: %w'' [] e"]) (auto simp: revoked_in_def)
  next
    case (Inr t)
    note row = Find_token(3) [OF F, OF Inr]
    show thesis
    proof (cases "rt_RevokedAt t = None")
      case False
      obtain p w2 where R: "RefreshTokenRepo_RevokeAllForUser env (rt_UserID t) w1 = (p, w2)" by fastforce
      with assms F Inr False
      have "w' = w2" "r = (case p of Inl e \<Rightarrow> Inl (Wrapf ''mencabut semua sesi setelah reuse terdeteksi: %w'' [] e)
                    | Inr _ \<Rightarrow> Inl ErrInvalidToken)"
        by (cases p; simp add: Auth_Refresh_def bindP_def wrapP_def)+
      with reused [OF row False f] R show thesis by blast
    next
      case None: True
      then have nr: "\<not> revoked_in (tabs w) ?h" using row by (simp add: revoked_in_def)
      show thesis
      proof (cases "RefreshToken_Usable t (ac_now ac)")
        case False
        with assms F Inr None have "w' = w1" "r = Inl ErrInvalidToken"
          by (simp_all add: Auth_Refresh_def bindP_def wrapP_def)
        with f nr show thesis by (intro refused) auto
      next
        case usable: True
        obtain p w2 where G: "UserRepo_GetByID env (rt_UserID t) w1 = (p, w2)" by fastforce
        have g: "tabs w2 = tabs w" "seqs w2 = seqs w" using GetUser_reads(2) [OF G] f by simp_all
        show thesis
        proof (cases p)
          case (Inl e)
          with assms F Inr None usable G have "w' = w2" "r = Inl (Wrapf ''memuat pengguna: %w'' [] e)"
            by (simp_all add: Auth_Refresh_def bindP_def wrapP_def)
          with g nr row show thesis by (intro refused) auto
        next
          case u: (Inr u)
          obtain x w3 where V: "RefreshTokenRepo_Revoke env ?h w2 = (x, w3)" by fastforce
          show thesis
          proof (cases x)
            case (Inl e)
            with assms F Inr None usable G u V have "w' = w3" "r = Inl (Wrapf ''mencabut token lama: %w'' [] e)"
              by (simp_all add: Auth_Refresh_def bindP_def wrapP_def)
            with lost [OF row usable g] V Inl show thesis by blast
          next
            case (Inr y)
            with assms F \<open>q = Inr t\<close> None usable G u V
            have "Auth_issuePair (pg_auth env hs ver iss ttl dm) ac u w3 = (r, w')"
              by (simp add: Auth_Refresh_def bindP_def wrapP_def)
            moreover have "u \<in> set (users (tabs w))" "usr_ID u = rt_UserID t"
              using GetByID_Inr [OF G [unfolded u]] f by simp_all
            ultimately show thesis using rotated [OF row usable _ _ g] V Inr by simp
          qed
        qed
      qed
    qed
  qed
qed

lemma same_step: "\<lbrakk>tabs w' = tabs w; seqs w' = seqs w\<rbrakk> \<Longrightarrow> db_step\<^sup>*\<^sup>* w w'"
  by (blast intro: db_step.read)

lemma Refresh_steps:
  assumes "Auth_Refresh (pg_auth env hs ver iss ttl dm) ac tok w = (r, w')"
  shows "db_step\<^sup>*\<^sup>* w w'"
  using assms
proof (cases rule: Refresh_cases)
  case (refused e)
  then show ?thesis using same_step by blast
next
  case (reused t q w1)
  have "db_step\<^sup>*\<^sup>* w w1" by (rule same_step [OF reused(3,4)])
  moreover have "db_step w1 w'" using reused(5) by (rule db_step.revoke_all)
  ultimately show ?thesis by (rule rtranclp.rtrancl_into_rtrancl)
next
  case (lost t e w1)
  have "db_step\<^sup>*\<^sup>* w w1" by (rule same_step [OF lost(3,4)])
  moreover have "db_step w1 w'" using lost(5) by (rule db_step.revoke)
  ultimately show ?thesis by (rule rtranclp.rtrancl_into_rtrancl)
next
  case (rotated t u w1 w2)
  have "db_step\<^sup>*\<^sup>* w w1" by (rule same_step [OF rotated(5,6)])
  moreover have "db_step w1 w2" using rotated(7) by (rule db_step.revoke)
  ultimately show ?thesis
    using issuePair_steps [OF rotated(8)] by (meson rtranclp.rtrancl_into_rtrancl rtranclp_trans)
qed

lemma Login_steps:
  assumes "Auth_Login (pg_auth env hs ver iss ttl dm) ac email pw w = (r, w')"
  shows "db_step\<^sup>*\<^sup>* w w'"
  using assms
proof (cases rule: Login_cases)
  case (failed e)
  then show ?thesis using same_step by blast
next
  case (issued u w1)
  have "db_step\<^sup>*\<^sup>* w w1" by (rule same_step [OF issued(4,5)])
  then show ?thesis using issuePair_steps [OF issued(6)] by (rule rtranclp_trans)
qed

lemma Logout_steps:
  assumes "Auth_Logout (pg_auth env hs ver iss ttl dm) ac tok w = (r, w')"
  shows "db_step\<^sup>*\<^sup>* w w'"
proof -
  obtain q w1 where V: "RefreshTokenRepo_Revoke env (hashToken ac tok) w = (q, w1)" by fastforce
  with assms have "w' = w1" by (auto simp: Auth_Logout_def split: sum.splits if_splits)
  with V show ?thesis by (blast intro: db_step.revoke)
qed

lemma Register_cases:
  assumes "Auth_Register (pg_auth env hs ver iss ttl dm) ac inp w = (r, w')"
  obtains (invalid) "register_fields ac inp \<noteq> []" "r = Inl (ValidationError (register_fields ac inp))" "w' = w"
  | (no_hash) e where "register_fields ac inp = []" "r = Inl e" "w' = w"
  | (stored) h where "register_fields ac inp = []" "hs (ri_Password inp) = Inr h"
      "UserRepo_CreateWithWallet env (registered_user ac inp h) w = (r, w')"
proof (cases "register_fields ac inp = []")
  case False
  with assms show thesis by (intro invalid) (simp_all add: Auth_Register_def NewValidationError_def)
next
  case True
  with assms no_hash stored show thesis
    by (cases "hs (ri_Password inp)")
       (auto simp: Auth_Register_def NewValidationError_def bindP_def wrapP_def)
qed

lemma Register_steps:
  assumes "Auth_Register (pg_auth env hs ver iss ttl dm) ac inp w = (r, w')"
  shows "db_step\<^sup>*\<^sup>* w w'"
  using assms
proof (cases rule: Register_cases)
  case (stored h)
  then show ?thesis by (blast intro: db_step.register)
qed auto

lemmas auth_steps = Register_steps Login_steps Refresh_steps Logout_steps

section \<open>Rotation and the detection of reuse\<close>

lemma revoked_stays:
  "\<lbrakk>revoked_in T h; tokens_later T T'\<rbrakk> \<Longrightarrow> revoked_in T' h"
  unfolding revoked_in_def tokens_later_def by metis

lemma refreshed_revokes:
  assumes "token_row (tabs w) h = Some t" "rt_RevokedAt t = None"
    and "RefreshTokenRepo_Revoke env h w = (Inr x, w')"
  shows "token_row (tabs w') h = Some (t\<lparr>rt_RevokedAt := Some (env_now env)\<rparr>)"
proof -
  have "rt_TokenHash t = h" using assms(1) by (auto simp: token_row_def dest: find_SomeD)
  then show ?thesis
    using assms Revoke_Inr(1) [OF assms(3)] by (simp add: token_row_def find_revoke_where)
qed

lemma Refresh_Inr:
  assumes "Auth_Refresh (pg_auth env hs ver iss ttl dm) ac tok w = (Inr p, w')"
  obtains t u n t' where "token_row (tabs w) (hashToken ac tok) = Some t" "RefreshToken_Usable t (ac_now ac)"
      "u \<in> set (users (tabs w))" "usr_ID u = rt_UserID t"
      "iss (usr_ID u) (usr_PublicID u) (usr_Role u) = Inr (tp_AccessToken p, tp_AccessExpiresAt p)"
      "token_row (tabs w') (hashToken ac (tp_RefreshToken p))
         = Some (new_token_row env n (usr_ID u) (hashToken ac (tp_RefreshToken p)) (ac_now ac + ttl))"
      "token_row (tabs w') (hashToken ac tok) = Some t'" "rt_UserID t' = rt_UserID t" "rt_RevokedAt t' \<noteq> None"
  using assms
proof (cases rule: Refresh_cases)
  case (reused t q w1)
  then show ?thesis by (cases q) simp_all
next
  case (rotated t u w1 w2)
  have "rt_RevokedAt t = None" using rotated(2) by (simp add: RefreshToken_Usable_def)
  then have r: "token_row (tabs w2) (hashToken ac tok) = Some (t\<lparr>rt_RevokedAt := Some (env_now env)\<rparr>)"
    using refreshed_revokes [OF _ _ rotated(7)] rotated(1,5) by simp
  let ?h = "hashToken ac (tp_RefreshToken p)"
  from issuePair_effect [OF rotated(8)] obtain n where
    I: "iss (usr_ID u) (usr_PublicID u) (usr_Role u) = Inr (tp_AccessToken p, tp_AccessExpiresAt p)"
    and new: "token_row (tabs w2) ?h = None"
    and T: "tabs w' = (tabs w2)\<lparr>refresh_tokens := refresh_tokens (tabs w2)
        @ [new_token_row env n (usr_ID u) ?h (ac_now ac + ttl)]\<rparr>" by auto
  have "token_row (tabs w') ?h = Some (new_token_row env n (usr_ID u) ?h (ac_now ac + ttl))"
    using new T by (simp add: token_row_def find_append new_token_row_def)
  moreover have "token_row (tabs w') (hashToken ac tok) = Some (t\<lparr>rt_RevokedAt := Some (env_now env)\<rparr>)"
    using r T by (simp add: token_row_def find_append)
  ultimately show ?thesis
    using that [OF rotated(1-4) I] by simp
qed simp_all

lemma revoke_all_revokes:
  assumes "RefreshTokenRepo_RevokeAllForUser env i w = (q, w')" "no_faults env"
  shows "q = Inr () \<and> (\<forall>x \<in> set (refresh_tokens (tabs w')). rt_UserID x = i \<longrightarrow> rt_RevokedAt x \<noteq> None)"
proof -
  have "fst (RefreshTokenRepo_RevokeAllForUser env i w) = Inr ()"
    using assms(2) by (simp add: RefreshTokenRepo_RevokeAllForUser_def wrapP_def Let_def)
  with assms(1) have q: "q = Inr ()" by simp
  with RevokeAll_effect [OF assms(1)]
  have "refresh_tokens (tabs w') = revoke_where (env_now env) (\<lambda>t. rt_UserID t = i) (refresh_tokens (tabs w))"
    by auto
  moreover have "rt_RevokedAt x \<noteq> None"
    if "x \<in> set (revoke_where n (\<lambda>t. rt_UserID t = i) rows)" "rt_UserID x = i" for x n rows
  proof -
    from that(1) obtain y where "y \<in> set rows"
      "x = (if rt_UserID y = i \<and> rt_RevokedAt y = None then y\<lparr>rt_RevokedAt := Some n\<rparr> else y)"
      unfolding revoke_where_def update_where_def set_map by (rule imageE)
    with that(2) show ?thesis by (cases "rt_UserID y = i \<and> rt_RevokedAt y = None") auto
  qed
  ultimately show ?thesis using q by metis
qed

text \<open>A revoked token is never exchanged again; trying it ends all sessions of its owner.\<close>

lemma Refresh_revoked:
  assumes "revoked_in (tabs w) (hashToken ac tok)"
    and "Auth_Refresh (pg_auth env hs ver iss ttl dm) ac tok w = (r, w')"
  shows "(\<exists>e. r = Inl e) \<and> (no_faults env \<longrightarrow> r = Inl ErrInvalidToken
      \<and> (\<forall>t. token_row (tabs w) (hashToken ac tok) = Some t \<longrightarrow>
           (\<forall>x \<in> set (refresh_tokens (tabs w')). rt_UserID x = rt_UserID t \<longrightarrow> rt_RevokedAt x \<noteq> None)))"
  using assms(2)
proof (cases rule: Refresh_cases)
  case (refused e)
  then show ?thesis using assms(1) by auto
next
  case (reused t q w1)
  show ?thesis
    using reused revoke_all_revokes [OF reused(5)] by (cases q) auto
next
  case (lost t e w1)
  then show ?thesis using assms(1) by (auto simp: revoked_in_def RefreshToken_Usable_def)
next
  case (rotated t u w1 w2)
  then show ?thesis using assms(1) by (auto simp: revoked_in_def RefreshToken_Usable_def)
qed

text \<open>
  C24 safety. A refresh token is exchanged at most once. A refresh that succeeds found the
  token unrevoked and unexpired and hands its owner a new one that is stored unrevoked, for
  the configured time. After any further steps of the system a second refresh with the old
  token fails, and when no statement fails it answers \<open>ErrInvalidToken\<close> and leaves every
  refresh token of the owner revoked.
\<close>

theorem refresh_token_single_use:
  assumes "reachable w" "Auth_Refresh (pg_auth env hs ver iss ttl dm) ac tok w = (Inr p, w1)"
    and "db_step\<^sup>*\<^sup>* w1 w2" "hashToken ac' tok = hashToken ac tok"
    and "Auth_Refresh (pg_auth env' hs' ver' iss' ttl' dm') ac' tok w2 = (r, w3)"
  shows "\<exists>t. token_row (tabs w) (hashToken ac tok) = Some t \<and> RefreshToken_Usable t (ac_now ac)
    \<and> (\<exists>t1. token_row (tabs w1) (hashToken ac (tp_RefreshToken p)) = Some t1
         \<and> rt_UserID t1 = rt_UserID t \<and> rt_RevokedAt t1 = None \<and> rt_ExpiresAt t1 = ac_now ac + ttl)
    \<and> (\<exists>e. r = Inl e)
    \<and> (no_faults env' \<longrightarrow> r = Inl ErrInvalidToken
         \<and> (\<forall>x \<in> set (refresh_tokens (tabs w3)). rt_UserID x = rt_UserID t \<longrightarrow> rt_RevokedAt x \<noteq> None))"
proof -
  obtain t n t' and u :: user where
    t: "token_row (tabs w) (hashToken ac tok) = Some t" "RefreshToken_Usable t (ac_now ac)" "usr_ID u = rt_UserID t"
    and new: "token_row (tabs w1) (hashToken ac (tp_RefreshToken p))
        = Some (new_token_row env n (usr_ID u) (hashToken ac (tp_RefreshToken p)) (ac_now ac + ttl))"
    and old: "token_row (tabs w1) (hashToken ac tok) = Some t'" "rt_UserID t' = rt_UserID t" "rt_RevokedAt t' \<noteq> None"
    by (rule Refresh_Inr [OF assms(2)]) (rule that)
  have "reachable w1" using reachable_steps [OF Refresh_steps [OF assms(2)] assms(1)] .
  then have later: "tokens_later (tabs w1) (tabs w2)" using steps_tokens assms(3) by blast
  then obtain t2 where t2: "token_row (tabs w2) (hashToken ac tok) = Some t2" "rt_UserID t2 = rt_UserID t"
    using old(1,2) unfolding tokens_later_def by metis
  have "revoked_in (tabs w2) (hashToken ac' tok)"
    using revoked_stays [OF _ later] old assms(4) by (auto simp: revoked_in_def)
  from Refresh_revoked [OF this assms(5)] show ?thesis
    using t new t2 assms(4) by (intro exI [of _ t]) (auto simp: new_token_row_def)
qed

section \<open>A session of a demonstration user\<close>

definition demo_auth :: "pg Auth" where
  "demo_auth = pg_auth demo_env (\<lambda>p. Inr p) (\<lambda>h p. Inr (h = p)) (\<lambda>i u r. Inr (''jwt'', 900)) 1000 ''dummy''"

definition demo_call :: "string \<Rightarrow> auth_call" where
  "demo_call raw = \<lparr> ac_now = 10, ac_rand = (\<lambda>n. Inr raw), ac_sha256 = (\<lambda>s. s),
     ac_address_ok = (\<lambda>s. s \<noteq> []), ac_to_lower = (\<lambda>s. s) \<rparr>"

definition demo_token :: "string \<Rightarrow> string" where
  "demo_token raw = base64_encode urlAlphabet raw"

definition demo_pair :: "string \<Rightarrow> token_pair" where
  "demo_pair raw = \<lparr> tp_AccessToken = ''jwt'', tp_AccessExpiresAt = 900, tp_RefreshToken = demo_token raw,
     tp_RefreshExpiresAt = 1010 \<rparr>"

definition demo_hash :: "string \<Rightarrow> string" where
  "demo_hash raw = hex_encode (demo_token raw)"

definition demo_session :: pg where
  "demo_session = demo_registered\<lparr>
     tabs := (tabs demo_registered)\<lparr>refresh_tokens := [new_token_row demo_env 1 1 (demo_hash ''a'') 1010]\<rparr>,
     seqs := (seqs demo_registered)\<lparr>seq_tokens := 1\<rparr>, steps := 6 \<rparr>"

lemma demo_email: "normalized_email (demo_call raw) (usr_Email demo_user) = usr_Email demo_user"
  unfolding normalized_email_def demo_call_def auth_call.simps demo_user_def user.simps
  by (rule TrimSpace_id) (simp_all add: IsSpace_def)

lemma demo_hashes_differ: "demo_hash ''a'' \<noteq> demo_hash ''bb''"
proof -
  have "length (demo_hash s) = 2 * length (sextets (map of_char s))" for s
    by (simp add: demo_hash_def demo_token_def base64_encode_def hex_encode_def length_concat comp_def sum_list_triv)
  then have "length (demo_hash ''a'') \<noteq> length (demo_hash ''bb'')" by simp
  then show ?thesis by metis
qed

lemma demo_login:
  "Auth_Login demo_auth (demo_call ''a'') (usr_Email demo_user) (usr_PasswordHash demo_user) demo_registered
     = (Inr (demo_pair ''a''), demo_session)"
  unfolding Auth_Login_def demo_email Let_def
  by (simp add: demo_auth_def UserRepo_GetByEmail_def scanUser_def sql_select_user_def wrapP_def bindP_def
      Auth_issuePair_def RefreshTokenRepo_Store_def demo_call_def hashToken_def Let_def demo_session_def
      demo_pair_def demo_registered_def migrated_tables_def migrated_seqs_def new_user_row_def demo_env_def
      refreshTokenSize_def demo_hash_def demo_token_def stmt_def)

lemma demo_session_reachable: "reachable demo_session"
  using Login_steps [OF demo_login [unfolded demo_auth_def]] demo_registered_reachable reachable_steps by blast

lemma demo_refresh:
  "\<exists>w1. Auth_Refresh demo_auth (demo_call ''bb'') (demo_token ''a'') demo_session = (Inr (demo_pair ''bb''), w1)"
  using demo_hashes_differ
  by (simp add: Auth_Refresh_def demo_auth_def RefreshTokenRepo_Find_def UserRepo_GetByID_def scanUser_def
      sql_select_user_def wrapP_def bindP_def RefreshToken_Usable_def RefreshTokenRepo_Revoke_def
      revoke_where_def count_where_def Auth_issuePair_def RefreshTokenRepo_Store_def demo_call_def hashToken_def
      Let_def demo_session_def demo_pair_def demo_registered_def migrated_tables_def migrated_seqs_def
      new_user_row_def demo_env_def refreshTokenSize_def demo_hash_def demo_token_def stmt_def new_token_row_def)

theorem refresh_token_single_use_witness:
  "\<exists>w1 w3. Auth_Refresh demo_auth (demo_call ''bb'') (demo_token ''a'') demo_session = (Inr (demo_pair ''bb''), w1)
     \<and> Auth_Refresh demo_auth (demo_call ''c'') (demo_token ''a'') w1 = (Inl ErrInvalidToken, w3)"
proof -
  obtain w1 where R: "Auth_Refresh demo_auth (demo_call ''bb'') (demo_token ''a'') demo_session = (Inr (demo_pair ''bb''), w1)"
    using demo_refresh by blast
  obtain r w3 where A: "Auth_Refresh demo_auth (demo_call ''c'') (demo_token ''a'') w1 = (r, w3)" by fastforce
  have h: "hashToken (demo_call ''c'') (demo_token ''a'') = hashToken (demo_call ''bb'') (demo_token ''a'')"
    by (simp add: hashToken_def demo_call_def)
  have "r = Inl ErrInvalidToken"
    using refresh_token_single_use [OF demo_session_reachable R [unfolded demo_auth_def] rtranclp.rtrancl_refl h
        A [unfolded demo_auth_def]] demo_no_faults by blast
  with R A show ?thesis by blast
qed

section \<open>Login\<close>

lemma Login_facts:
  assumes "Auth_Login (pg_auth env hs ver iss ttl dm) ac email pw w = (r, w')"
  shows "case r of
      Inl e \<Rightarrow> tabs w' = tabs w
    | Inr p \<Rightarrow> \<exists>u \<in> set (users (tabs w)).
        env_lower env (usr_Email u) = env_lower env (normalized_email ac email)
        \<and> ver (usr_PasswordHash u) pw = Inr True
        \<and> iss (usr_ID u) (usr_PublicID u) (usr_Role u) = Inr (tp_AccessToken p, tp_AccessExpiresAt p)
        \<and> (\<exists>n. tabs w' = (tabs w)\<lparr>refresh_tokens := refresh_tokens (tabs w)
              @ [new_token_row env n (usr_ID u) (hashToken ac (tp_RefreshToken p)) (ac_now ac + ttl)]\<rparr>)"
    and "\<lbrakk>no_faults env; \<forall>u \<in> set (users (tabs w)).
        env_lower env (usr_Email u) = env_lower env (normalized_email ac email)
          \<longrightarrow> ver (usr_PasswordHash u) pw = Inr False\<rbrakk> \<Longrightarrow> r = Inl ErrInvalidCredentials"
proof -
  show "case r of
      Inl e \<Rightarrow> tabs w' = tabs w
    | Inr p \<Rightarrow> \<exists>u \<in> set (users (tabs w)).
        env_lower env (usr_Email u) = env_lower env (normalized_email ac email)
        \<and> ver (usr_PasswordHash u) pw = Inr True
        \<and> iss (usr_ID u) (usr_PublicID u) (usr_Role u) = Inr (tp_AccessToken p, tp_AccessExpiresAt p)
        \<and> (\<exists>n. tabs w' = (tabs w)\<lparr>refresh_tokens := refresh_tokens (tabs w)
              @ [new_token_row env n (usr_ID u) (hashToken ac (tp_RefreshToken p)) (ac_now ac + ttl)]\<rparr>)"
    using assms
  proof (cases rule: Login_cases)
    case (issued u w1)
    from issuePair_effect [OF issued(6)] show ?thesis
      using issued by (cases r) auto
  qed simp
next
  assume nf: "no_faults env" and wrong: "\<forall>u \<in> set (users (tabs w)).
        env_lower env (usr_Email u) = env_lower env (normalized_email ac email)
          \<longrightarrow> ver (usr_PasswordHash u) pw = Inr False"
  obtain q w1 where G: "UserRepo_GetByEmail env (normalized_email ac email) w = (q, w1)" by fastforce
  show "r = Inl ErrInvalidCredentials"
  proof (cases q)
    case (Inl e)
    with GetByEmail_Inl [OF G [unfolded Inl] nf] assms G show ?thesis
      by (simp add: Auth_Login_def Let_def)
  next
    case (Inr u)
    with GetByEmail_Inr [OF G [unfolded Inr]] wrong have "ver (usr_PasswordHash u) pw = Inr False" by blast
    with assms G Inr show ?thesis by (simp add: Auth_Login_def Let_def bindP_def wrapP_def)
  qed
qed

text \<open>
  C25 safety. Login is by password only, and its failures do not tell accounts apart. It
  succeeds only for a stored user with this address whose password hash verifies the given
  password, issues the access token for this user, and adds one refresh token row and
  nothing else; a failed login changes no table. When no statement fails and no user with
  the address has this password, the answer is \<open>ErrInvalidCredentials\<close>, whether the
  address is unknown or the password is wrong.
\<close>

theorem login_checks_password:
  assumes "Auth_Login (pg_auth env hs ver iss ttl dm) ac email pw w = (r, w')"
  shows "(case r of
      Inl e \<Rightarrow> tabs w' = tabs w
    | Inr p \<Rightarrow> \<exists>u \<in> set (users (tabs w)).
        env_lower env (usr_Email u) = env_lower env (normalized_email ac email)
        \<and> ver (usr_PasswordHash u) pw = Inr True
        \<and> iss (usr_ID u) (usr_PublicID u) (usr_Role u) = Inr (tp_AccessToken p, tp_AccessExpiresAt p)
        \<and> (\<exists>n. tabs w' = (tabs w)\<lparr>refresh_tokens := refresh_tokens (tabs w)
              @ [new_token_row env n (usr_ID u) (hashToken ac (tp_RefreshToken p)) (ac_now ac + ttl)]\<rparr>))
    \<and> (no_faults env \<and> (\<forall>u \<in> set (users (tabs w)).
        env_lower env (usr_Email u) = env_lower env (normalized_email ac email)
          \<longrightarrow> ver (usr_PasswordHash u) pw = Inr False) \<longrightarrow> r = Inl ErrInvalidCredentials)"
  using Login_facts [OF assms] by blast

theorem login_checks_password_witness:
  "tabs demo_session = (tabs demo_registered)\<lparr>refresh_tokens := refresh_tokens (tabs demo_session)\<rparr>
   \<and> fst (Auth_Login demo_auth (demo_call ''a'') (usr_Email demo_user) ''wrong'' demo_registered)
     = Inl ErrInvalidCredentials"
proof -
  obtain r w' where W: "Auth_Login demo_auth (demo_call ''a'') (usr_Email demo_user) ''wrong'' demo_registered = (r, w')"
    by fastforce
  have "\<forall>u \<in> set (users (tabs demo_registered)). usr_PasswordHash u \<noteq> ''wrong''"
    by (simp add: demo_registered_def new_user_row_def demo_user_def)
  then have "r = Inl ErrInvalidCredentials"
    using login_checks_password [OF W [unfolded demo_auth_def]] by simp
  moreover have "refresh_tokens (tabs demo_registered) = []"
    by (simp add: demo_registered_def migrated_tables_def)
  ultimately show ?thesis
    using login_checks_password [OF demo_login [unfolded demo_auth_def]] W by (auto simp: demo_session_def)
qed

section \<open>Registration and logout\<close>

text \<open>
  C26 functional. A registration either fails and changes no table, or appends exactly one
  user, in the role USER, with the cleaned address and name and the hash of the given
  password, and exactly one empty wallet of this user; the address differs from every stored
  one. Input that breaks a rule is refused with the faulty fields before the database is
  asked.
\<close>

theorem register_creates_wallet:
  assumes "Auth_Register (pg_auth env hs ver iss ttl dm) ac inp w = (r, w')"
  shows "case r of
      Inl e \<Rightarrow> tabs w' = tabs w \<and> (register_fields ac inp \<noteq> [] \<longrightarrow>
        e = ValidationError (register_fields ac inp) \<and> w' = w)
    | Inr (u, a) \<Rightarrow> register_fields ac inp = [] \<and> hs (ri_Password inp) = Inr (usr_PasswordHash u)
        \<and> usr_Email u = normalized_email ac (ri_Email inp) \<and> usr_FullName u = TrimSpace (ri_FullName inp)
        \<and> usr_Role u = RoleUser
        \<and> acc_UserID a = Some (usr_ID u) \<and> acc_Type a = AccountUserWallet \<and> acc_Balance a = 0
        \<and> (\<forall>x \<in> set (users (tabs w)). env_lower env (usr_Email x) \<noteq> env_lower env (usr_Email u))
        \<and> tabs w' = (tabs w)\<lparr>users := users (tabs w) @ [u], accounts := accounts (tabs w) @ [a]\<rparr>"
  using assms
proof (cases rule: Register_cases)
  case (stored h)
  show ?thesis
  proof (cases r)
    case (Inl e)
    have "tabs w' = tabs w"
      using stored(3) [unfolded Inl UserRepo_CreateWithWallet_def] by (rule in_tx_Inl_tabs)
    with stored Inl show ?thesis by simp
  next
    case (Inr ua)
    obtain u a where ua: "ua = (u, a)" by fastforce
    note C = CreateWithWallet_Inr [OF stored(3) [unfolded Inr ua]]
    from C(1) obtain i j where "u = new_user_row env (seq_users (seqs w) + 1) i (registered_user ac inp h)"
      "a = new_wallet_row env (seq_accounts (seqs w) + 1) j (usr_ID u)" by blast
    then show ?thesis
      using C(2,6) stored(1,2) Inr ua
      by (simp add: new_user_row_def new_wallet_row_def registered_user_def RoleUser_def AccountUserWallet_def)
  qed
qed simp_all

theorem register_creates_wallet_witness:
  "\<exists>e. fst (Auth_Register demo_auth (demo_call ''a'')
     \<lparr> ri_Email = ''a@b.id'', ri_Password = ''short'', ri_FullName = ''Ani'' \<rparr> demo_start) = Inl e"
proof -
  let ?i = "\<lparr> ri_Email = ''a@b.id'', ri_Password = ''short'', ri_FullName = ''Ani'' \<rparr>"
  obtain r w' where R: "Auth_Register demo_auth (demo_call ''a'') ?i demo_start = (r, w')" by fastforce
  have "RuneCountInString ''short'' = 5" by (simp add: RuneCountInString_def runes_ascii)
  then have "register_fields (demo_call ''a'') ?i \<noteq> []"
    by (simp add: register_fields_def minPasswordLen_def Let_def)
  then show ?thesis
    using register_creates_wallet [OF R [unfolded demo_auth_def]] R by (auto split: sum.splits)
qed

text \<open>After a logout the token's session is over for good.\<close>

lemma Logout_ends_session:
  assumes "reachable w" "Auth_Logout (pg_auth env hs ver iss ttl dm) ac tok w = (Inr (), w1)"
    and "token_row (tabs w) (hashToken ac tok) = Some t" "db_step\<^sup>*\<^sup>* w1 w2"
  shows "revoked_in (tabs w2) (hashToken ac tok)"
proof -
  let ?h = "hashToken ac tok"
  obtain q w0 where V: "RefreshTokenRepo_Revoke env ?h w = (q, w0)" by fastforce
  have w0: "w0 = w1" using assms(2) V by (auto simp: Auth_Logout_def split: sum.splits if_splits)
  have "reachable w1" using reachable_steps [OF Logout_steps [OF assms(2)] assms(1)] .
  have "tokens_later (tabs w) (tabs w1)" using steps_tokens [OF assms(1) Logout_steps [OF assms(2)]] .
  then obtain t1 where t1: "token_row (tabs w1) ?h = Some t1" "rt_RevokedAt t \<noteq> None \<longrightarrow> rt_RevokedAt t1 \<noteq> None"
    using assms(3) unfolding tokens_later_def by metis
  have "rt_RevokedAt t1 \<noteq> None"
  proof (cases q)
    case (Inr x)
    show ?thesis
    proof (cases "rt_RevokedAt t = None")
      case True
      with refreshed_revokes [OF assms(3) True V [unfolded Inr]] t1 w0 show ?thesis by simp
    qed (use t1 in simp)
  next
    case (Inl e)
    with assms(2) V have nf: "errors_Is e ErrNotFound"
      by (auto simp: Auth_Logout_def split: if_splits)
    show ?thesis
    proof (cases "e = ErrNotFound")
      case True
      with Revoke_Inl_NotFound [of env ?h w w0] V Inl have
        "\<forall>t \<in> set (refresh_tokens (tabs w)). rt_TokenHash t = ?h \<longrightarrow> rt_RevokedAt t \<noteq> None" by simp
      then have "rt_RevokedAt t \<noteq> None" using assms(3) by (auto simp: token_row_def dest: find_SomeD)
      with t1 show ?thesis by blast
    next
      case False
      have "\<not> errors_Is (fault_err x) ErrNotFound" for x by (cases x) simp_all
      with False show ?thesis
        using V Inl nf by (auto simp: RefreshTokenRepo_Revoke_def bindP_Inl_iff wrapP_Inl_iff stmt_Inl_iff Let_def
            split: if_splits)
    qed
  qed
  with t1(1) have "revoked_in (tabs w1) ?h" by (auto simp: revoked_in_def)
  then show ?thesis using revoked_stays steps_tokens \<open>reachable w1\<close> assms(4) by blast
qed

text \<open>
  C27 safety. Logout ends a session for good: after a logout that succeeds for a stored
  refresh token, no refresh with this token ever succeeds again, whatever the system does in
  between. Logging out with a token nobody holds succeeds and changes nothing, as long as no
  statement fails.
\<close>

theorem logout_ends_session:
  assumes "reachable w" "Auth_Logout (pg_auth env hs ver iss ttl dm) ac tok w = (q, w1)"
    and "db_step\<^sup>*\<^sup>* w1 w2" "hashToken ac' tok = hashToken ac tok"
    and "Auth_Refresh (pg_auth env' hs' ver' iss' ttl' dm') ac' tok w2 = (r, w3)"
  shows "(q = Inr () \<and> token_row (tabs w) (hashToken ac tok) \<noteq> None \<longrightarrow> (\<exists>e. r = Inl e))
    \<and> (no_faults env \<and> token_row (tabs w) (hashToken ac tok) = None \<longrightarrow> q = Inr () \<and> tabs w1 = tabs w)"
proof (intro conjI impI)
  assume A: "q = Inr () \<and> token_row (tabs w) (hashToken ac tok) \<noteq> None"
  then obtain t where "token_row (tabs w) (hashToken ac tok) = Some t" by blast
  then have "revoked_in (tabs w2) (hashToken ac' tok)"
    using Logout_ends_session [OF assms(1) _ _ assms(3)] assms(2,4) A by simp
  from Refresh_revoked [OF this assms(5)] show "\<exists>e. r = Inl e" by blast
next
  assume A: "no_faults env \<and> token_row (tabs w) (hashToken ac tok) = None"
  let ?p = "\<lambda>t. rt_TokenHash t = hashToken ac tok"
  have none: "\<forall>t \<in> set (refresh_tokens (tabs w)). \<not> ?p t"
    using A by (auto simp: token_row_def find_None_iff)
  then have "count_where (\<lambda>t. ?p t \<and> rt_RevokedAt t = None) (refresh_tokens (tabs w)) = 0"
    by (auto simp: count_where_def filter_empty_conv)
  moreover have "revoke_where (env_now env) ?p (refresh_tokens (tabs w)) = refresh_tokens (tabs w)"
    using none by (auto simp: revoke_where_def update_where_def intro!: map_idI)
  ultimately show "q = Inr ()" "tabs w1 = tabs w"
    using assms(2) A
    by (auto simp: Auth_Logout_def RefreshTokenRepo_Revoke_def bindP_def wrapP_def Let_def)
qed

theorem logout_ends_session_witness:
  "\<exists>w1 r w3. Auth_Logout demo_auth (demo_call ''x'') (demo_token ''a'') demo_session = (Inr (), w1)
     \<and> Auth_Refresh demo_auth (demo_call ''x'') (demo_token ''a'') w1 = (Inl r, w3)"
proof -
  have "fst (Auth_Logout demo_auth (demo_call ''x'') (demo_token ''a'') demo_session) = Inr ()"
    by (simp add: Auth_Logout_def demo_auth_def RefreshTokenRepo_Revoke_def bindP_def wrapP_def Let_def
        count_where_def demo_session_def new_token_row_def hashToken_def demo_call_def demo_hash_def)
  then obtain w1 where L: "Auth_Logout demo_auth (demo_call ''x'') (demo_token ''a'') demo_session = (Inr (), w1)"
    by (metis prod.collapse)
  obtain r w3 where R: "Auth_Refresh demo_auth (demo_call ''x'') (demo_token ''a'') w1 = (r, w3)" by fastforce
  have "token_row (tabs demo_session) (hashToken (demo_call ''x'') (demo_token ''a'')) \<noteq> None"
    by (simp add: token_row_def demo_session_def new_token_row_def hashToken_def demo_call_def demo_hash_def)
  then have "\<exists>e. r = Inl e"
    using logout_ends_session [OF demo_session_reachable L [unfolded demo_auth_def] rtranclp.rtrancl_refl refl
        R [unfolded demo_auth_def]] by blast
  with L R show ?thesis by blast
qed

end
