(* ===== verification/AppFacts.thy ===== *)
theory AppFacts
  imports App AuthFacts Reading
begin

text \<open>
  The processes at work: the relay's loop empties the outbox, every event it publishes is
  routed to the audit queue, dialling the broker ends, and the start of cmd/api succeeds
  exactly on what it checks.
\<close>

section \<open>The relay empties the outbox\<close>

lemma filter_update_where:
  assumes "\<And>r. q r \<Longrightarrow> \<not> p (f r)"
  shows "filter p (update_where q f rows) = filter (\<lambda>r. p r \<and> \<not> q r) rows"
  using assms by (induction rows) auto

lemma filter_not_in_take:
  assumes "distinct (map f xs)"
  shows "filter (\<lambda>x. f x \<notin> f ` set (take n xs)) xs = drop n xs"
proof -
  have "f x \<notin> f ` set (take n xs)" if "x \<in> set (drop n xs)" for x
  proof -
    have "distinct (map f (take n xs @ drop n xs))" using assms by simp
    then have "set (map f (take n xs)) \<inter> set (map f (drop n xs)) = {}"
      by (simp only: map_append distinct_append)
    with that show ?thesis by auto
  qed
  then have d: "filter (\<lambda>x. f x \<notin> f ` set (take n xs)) (drop n xs) = drop n xs"
    by (intro filter_True) simp
  have t: "filter (\<lambda>x. f x \<notin> f ` set (take n xs)) (take n xs) = []"
    by (simp add: filter_empty_conv)
  have "filter (\<lambda>x. f x \<notin> f ` set (take n xs)) (take n xs @ drop n xs) = drop n xs"
    unfolding filter_append t d by simp
  then show ?thesis by simp
qed

lemma unpublished_ids:
  assumes "distinct (map ob_id rows)"
  shows "distinct (map ob_id (unpublished {} rows))"
  using assms distinct_map_filter [OF assms, of "\<lambda>r. ob_published_at r = None"]
  by (simp add: unpublished_def distinct_map)

lemma unpublished_after_batch:
  assumes "distinct (map ob_id rows)"
  shows "unpublished {} (update_where (\<lambda>q. ob_id q \<in> ob_id ` set (take n (unpublished {} rows)))
           (mark_published now) rows)
       = drop n (unpublished {} rows)"
proof -
  let ?U = "unpublished {} rows"
  let ?in = "\<lambda>q. ob_id q \<in> ob_id ` set (take n ?U)"
  have "filter (\<lambda>r. ob_published_at r = None \<and> ob_id r \<notin> {}) (update_where ?in (mark_published now) rows)
      = filter (\<lambda>r. (ob_published_at r = None \<and> ob_id r \<notin> {}) \<and> \<not> ?in r) rows"
    by (rule filter_update_where) (simp add: mark_published_def)
  also have "\<dots> = filter (\<lambda>r. \<not> ?in r) (filter (\<lambda>r. ob_published_at r = None \<and> ob_id r \<notin> {}) rows)"
    by (simp only: filter_filter)
  finally have "unpublished {} (update_where ?in (mark_published now) rows)
      = filter (\<lambda>r. \<not> ?in r) ?U"
    by (simp only: unpublished_def filter_sort)
  then show ?thesis
    using filter_not_in_take [OF unpublished_ids [OF assms]] by simp
qed

fun live_round :: "poll_round \<Rightarrow> bool" where
  "live_round (PollTick env out skip) \<longleftrightarrow> no_faults env \<and> (\<forall>n. out n = Acked) \<and> skip = {}"
| "live_round PollDone \<longleftrightarrow> False"

lemma map_ob_id_update: "map ob_id (update_where p (mark_published now) rows) = map ob_id rows"
  by (induction rows) (simp_all add: mark_published_def)

lemma Relay_Run_sends:
  assumes "distinct (map ob_id (outbox_events (tabs (rw_pg rw))))" "\<forall>r \<in> set rs. live_round r"
  shows "unpublished {} (outbox_events (tabs (rw_pg (Relay_Run rs rw))))
       = drop (50 * length rs) (unpublished {} (outbox_events (tabs (rw_pg rw))))
    \<and> rw_broker (Relay_Run rs rw) = rw_broker rw
        @ map (\<lambda>q. message_of (out_row_of q))
            (take (50 * length rs) (unpublished {} (outbox_events (tabs (rw_pg rw)))))"
  using assms
proof (induction rs arbitrary: rw)
  case (Cons r rs)
  then obtain env out where r: "r = PollTick env out {}" "no_faults env" "\<And>n. out n = Acked"
    by (cases r) auto
  let ?U = "unpublished {} (outbox_events (tabs (rw_pg rw)))"
  obtain rw1 where P: "Relay_PollOnce env out {} rw = (Inr (length (next_batch rw)), rw1)"
    and T: "tabs (rw_pg rw1) = (tabs (rw_pg rw))\<lparr>outbox_events :=
         update_where (\<lambda>q. ob_id q \<in> ob_id ` set (next_batch rw)) (mark_published (env_now env))
           (outbox_events (tabs (rw_pg rw)))\<rparr>"
    and B: "rw_broker rw1 = rw_broker rw @ map (\<lambda>q. message_of (out_row_of q)) (next_batch rw)"
    using poll_run [of env out rw, OF r(2,3)] by blast
  have U1: "unpublished {} (outbox_events (tabs (rw_pg rw1))) = drop 50 ?U"
    using unpublished_after_batch [OF Cons.prems(1)] by (simp add: T next_batch_def)
  have "distinct (map ob_id (outbox_events (tabs (rw_pg rw1))))"
    using Cons.prems(1) by (simp add: T map_ob_id_update)
  from Cons.IH [OF this] Cons.prems(2)
  have IH: "unpublished {} (outbox_events (tabs (rw_pg (Relay_Run rs rw1)))) = drop (50 * length rs) (drop 50 ?U)"
    "rw_broker (Relay_Run rs rw1) = rw_broker rw1
        @ map (\<lambda>q. message_of (out_row_of q)) (take (50 * length rs) (drop 50 ?U))"
    unfolding U1 by simp_all
  have t: "take (50 + 50 * length rs) ?U = take 50 ?U @ take (50 * length rs) (drop 50 ?U)"
    by (rule take_add)
  show ?case
    using IH B t by (simp add: r(1) P next_batch_def add.commute)
qed simp

lemma drained:
  assumes "unpublished {} rows = []" "q \<in> set rows"
  shows "ob_published_at q \<noteq> None"
proof
  assume "ob_published_at q = None"
  with assms(2) have "q \<in> set (unpublished {} rows)" by (simp add: unpublished_def)
  with assms(1) show False by simp
qed

text \<open>
  C32 liveness. The relay's loop empties the outbox. From a reachable database, when for long
  enough no statement fails and the broker confirms every message, the loop publishes every
  waiting event exactly once and in the order of the ids, and leaves none unpublished; one
  round per fifty events is enough.
\<close>

theorem relay_drains_outbox:
  assumes "reachable (rw_pg rw)" "\<forall>r \<in> set rs. live_round r"
    and "length (unpublished {} (outbox_events (tabs (rw_pg rw)))) \<le> 50 * length rs"
  shows "(\<forall>q \<in> set (outbox_events (tabs (rw_pg (Relay_Run rs rw)))). ob_published_at q \<noteq> None)
    \<and> rw_broker (Relay_Run rs rw) = rw_broker rw
        @ map (\<lambda>q. message_of (out_row_of q)) (unpublished {} (outbox_events (tabs (rw_pg rw))))"
proof -
  have "distinct (map ob_id (outbox_events (tabs (rw_pg rw))))"
    using reachable_inv [OF assms(1)] by (simp add: db_inv_def outbox_inv_def)
  note S = Relay_Run_sends [OF this assms(2)]
  have "unpublished {} (outbox_events (tabs (rw_pg (Relay_Run rs rw)))) = []"
    using S assms(3) by simp
  then have "\<forall>q \<in> set (outbox_events (tabs (rw_pg (Relay_Run rs rw)))). ob_published_at q \<noteq> None"
    using drained by blast
  with S assms(3) show ?thesis by simp
qed

section \<open>Routing of the events\<close>

definition posted_events_only :: "tables \<Rightarrow> bool" where
  "posted_events_only T \<longleftrightarrow> (\<forall>r \<in> set (outbox_events T). ob_event_type r = RoutingKeyTransactionPosted)"

lemma DeclareTopology_Inr:
  assumes "DeclareTopology answer T = (Inr (), T')"
  shows "T' = T @ [ExchangeDeclare ExchangeLedgerEvents True, QueueDeclare QueueAuditLogDLQ True [],
      QueueDeclare QueueAuditLog True
        [(''x-dead-letter-exchange'', ''''), (''x-dead-letter-routing-key'', QueueAuditLogDLQ)],
      QueueBind QueueAuditLog RoutingKeyTransactionPosted ExchangeLedgerEvents]"
  using assms by (auto simp: DeclareTopology_def bindP_Inr_iff declare_step_def split: option.splits)

text \<open>Dialling: the first attempt of at most ten that answers decides.\<close>

lemma dial_from_Inr:
  assumes "\<forall>k d. canceled k d = None"
  shows "dial_from dial canceled n left e = Inr c \<longleftrightarrow>
     (\<exists>k. n \<le> k \<and> k < n + left \<and> dial k = Inr c \<and> (\<forall>j. n \<le> j \<and> j < k \<longrightarrow> (\<exists>e. dial j = Inl e)))"
proof (induction left arbitrary: n e)
  case (Suc left)
  show ?case
  proof (cases "dial n")
    case (Inr d)
    then show ?thesis by (auto simp: nat_less_le)
  next
    case (Inl err)
    then have "dial_from dial canceled n (Suc left) e = dial_from dial canceled (Suc n) left (Some err)"
      using assms by simp
    also have "\<dots> = Inr c \<longleftrightarrow> (\<exists>k. Suc n \<le> k \<and> k < Suc n + left \<and> dial k = Inr c
        \<and> (\<forall>j. Suc n \<le> j \<and> j < k \<longrightarrow> (\<exists>e. dial j = Inl e)))" by (rule Suc.IH)
    also have "\<dots> \<longleftrightarrow> (\<exists>k. n \<le> k \<and> k < n + Suc left \<and> dial k = Inr c
        \<and> (\<forall>j. n \<le> j \<and> j < k \<longrightarrow> (\<exists>e. dial j = Inl e)))"
    proof (intro iffI; elim exE conjE)
      fix k assume k: "Suc n \<le> k" "k < Suc n + left" "dial k = Inr c"
        "\<forall>j. Suc n \<le> j \<and> j < k \<longrightarrow> (\<exists>e. dial j = Inl e)"
      then have "\<forall>j. n \<le> j \<and> j < k \<longrightarrow> (\<exists>e. dial j = Inl e)"
        using Inl by (metis le_neq_implies_less Suc_leI)
      with k show "\<exists>k. n \<le> k \<and> k < n + Suc left \<and> dial k = Inr c
          \<and> (\<forall>j. n \<le> j \<and> j < k \<longrightarrow> (\<exists>e. dial j = Inl e))" by (intro exI [of _ k]) auto
    next
      fix k assume k: "n \<le> k" "k < n + Suc left" "dial k = Inr c"
        "\<forall>j. n \<le> j \<and> j < k \<longrightarrow> (\<exists>e. dial j = Inl e)"
      have "k \<noteq> n" using k(3) Inl by auto
      with k show "\<exists>k. Suc n \<le> k \<and> k < Suc n + left \<and> dial k = Inr c
          \<and> (\<forall>j. Suc n \<le> j \<and> j < k \<longrightarrow> (\<exists>e. dial j = Inl e))" by (intro exI [of _ k]) auto
    qed
    finally show ?thesis .
  qed
qed simp

theorem relay_drains_outbox_witness:
  "\<exists>rw. reachable (rw_pg rw) \<and> unpublished {} (outbox_events (tabs (rw_pg rw))) \<noteq> []
     \<and> (\<forall>q \<in> set (outbox_events (tabs (rw_pg (Relay_Run [PollTick demo_env (\<lambda>n. Acked) {}] rw)))). ob_published_at q \<noteq> None)"
proof -
  obtain res w' where P: "LedgerRepo_Post demo_env demo_topup demo_claim demo_registered = (Inr res, w')"
    using demo_posts by blast
  have d: "distinct (map acc_ID (accounts (tabs demo_registered)))"
    using reachable_inv [OF demo_registered_reachable] by (simp add: db_inv_def ledger_inv_def accounts_ok_def)
  have r: "reachable w'" by (rule reachable.step [OF demo_registered_reachable db_step.post [OF P demo_typed]])
  from LedgerRepo_Post_sound [OF P d demo_typed] obtain tid eid where
    "tabs w' = posted_tables demo_env tid eid (seqs demo_registered) demo_topup demo_claim (tabs demo_registered)"
    by metis
  then have u: "length (unpublished {} (outbox_events (tabs w'))) = 1"
    by (simp add: posted_tables_def Let_def demo_registered_def migrated_tables_def unpublished_def new_outbox_row_def)
  define rw where "rw = \<lparr> rw_pg = w', rw_broker = [], rw_sends = 0 \<rparr>"
  have rr: "reachable (rw_pg rw)" "unpublished {} (outbox_events (tabs (rw_pg rw))) \<noteq> []"
    using r u by (auto simp: rw_def)
  have "\<forall>q \<in> set (outbox_events (tabs (rw_pg (Relay_Run [PollTick demo_env (\<lambda>n. Acked) {}] rw)))). ob_published_at q \<noteq> None"
    using relay_drains_outbox [OF rr(1), of "[PollTick demo_env (\<lambda>n. Acked) {}]"] u by (simp add: rw_def)
  with rr show ?thesis by blast
qed

lemma posted_events_step:
  assumes "db_step w w'" "db_inv (tabs w) (seqs w)" "posted_events_only (tabs w)"
  shows "posted_events_only (tabs w')"
  using db_step_side [OF assms(1,2)]
proof (elim disjE)
  assume "posts (seqs w) (tabs w) (tabs w')"
  with assms(3) show ?thesis
    by (auto simp: posted_events_only_def posts_def posted_tables_def Let_def new_outbox_row_def
        RoutingKeyTransactionPosted_def)
next
  assume "same_outbox (tabs w) (tabs w')"
  then obtain rows where R: "outbox_events (tabs w') = rows"
    "sent_columns ` set rows = sent_columns ` set (outbox_events (tabs w))"
    by (auto simp: same_outbox_def simp flip: set_map)
  have "ob_event_type r = RoutingKeyTransactionPosted" if "r \<in> set rows" for r
  proof -
    have "sent_columns r \<in> sent_columns ` set (outbox_events (tabs w))" using R(2) that by blast
    then obtain q where "q \<in> set (outbox_events (tabs w))" "sent_columns r = sent_columns q" by blast
    with assms(3) show ?thesis by (simp add: posted_events_only_def sent_columns_def out_row_of_def)
  qed
  with R(1) show ?thesis by (simp add: posted_events_only_def)
qed (use assms(3) in \<open>simp add: aside_def posted_events_only_def\<close>)

lemma reachable_posted_events: "reachable w \<Longrightarrow> posted_events_only (tabs w)"
proof (induction rule: reachable.induct)
  case (initial w now ids)
  then show ?case by (simp add: posted_events_only_def migrated_tables_def)
next
  case (step w w')
  then show ?case using posted_events_step reachable_inv by blast
qed

text \<open>
  No event is lost between the components: in every reachable database each event
  of the outbox carries the type under which the worker binds the audit queue, so once the
  topology is declared, whatever was declared before, the message of every event is routed
  to the audit queue.
\<close>

lemma events_reach_audit_queue:
  assumes "reachable w" "DeclareTopology answer T = (Inr (), T')" "e \<in> set (outbox_events (tabs w))"
  shows "QueueAuditLog \<in> delivered_to T' (message_of (out_row_of e))"
proof -
  have "ob_event_type e = RoutingKeyTransactionPosted"
    using reachable_posted_events [OF assms(1)] assms(3) by (simp add: posted_events_only_def)
  then show ?thesis
    unfolding DeclareTopology_Inr [OF assms(2)] by (simp add: delivered_to_def message_of_def out_row_of_def)
qed

text \<open>
  C35 termination. Dialling the broker ends: it makes at most ten attempts and returns the
  connection of the first that succeeds, as long as the context lives; when all ten fail it
  returns an error. If the context ends during a wait, it stops with that error.
\<close>

theorem dial_terminates:
  assumes "\<forall>k d. canceled k d = None"
  shows "(Dial dial canceled = Inr c \<longleftrightarrow>
     (\<exists>k \<in> {1..10}. dial k = Inr c \<and> (\<forall>j \<in> {1..<k}. \<exists>e. dial j = Inl e)))
    \<and> ((\<forall>k \<in> {1..10}. \<exists>e. dial k = Inl e) \<longrightarrow> (\<exists>e. Dial dial canceled = Inl e))
    \<and> Dial (\<lambda>k. Inl e0) (\<lambda>k d. Some e1) = (Inl (Wrapf ''dial rabbitmq dibatalkan: %w'' [] e1) :: unit result)"
proof -
  have iff: "Dial dial canceled = Inr c' \<longleftrightarrow>
     (\<exists>k \<in> {1..10}. dial k = Inr c' \<and> (\<forall>j \<in> {1..<k}. \<exists>e. dial j = Inl e))" for c'
    unfolding Dial_def maxAttempts_def dial_from_Inr [OF assms] by (fastforce simp: Bex_def)
  have "\<exists>e. Dial dial canceled = Inl e" if "\<forall>k \<in> {1..10}. \<exists>e. dial k = Inl e"
    using iff that by (cases "Dial dial canceled") force+
  moreover have "Dial (\<lambda>k. Inl e0) (\<lambda>k d. Some e1) = (Inl (Wrapf ''dial rabbitmq dibatalkan: %w'' [] e1) :: unit result)"
    by (simp add: Dial_def maxAttempts_def numeral_eq_Suc)
  ultimately show ?thesis using iff by blast
qed

theorem dial_terminates_witness:
  "Dial (\<lambda>k. if k = 3 then Inr ''conn'' else Inl (NewError ''refused'')) (\<lambda>k d. None) = Inr ''conn''"
proof -
  have "\<exists>k \<in> {1..10 :: nat}. (if k = 3 then Inr ''conn'' else Inl (NewError ''refused'')) = Inr ''conn''
      \<and> (\<forall>j \<in> {1..<k}. \<exists>e. (if j = 3 then Inr ''conn'' else Inl (NewError ''refused'')) = Inl e)"
    by (intro bexI [of _ 3]) auto
  then show ?thesis
    using dial_terminates [of "\<lambda>k d. None" "\<lambda>k. if k = 3 then Inr ''conn'' else Inl (NewError ''refused'')"] by blast
qed

section \<open>The start of cmd/api\<close>

lemma act_Inr [prog_simps]:
  "act a wrap r b = (Inr u, b') \<longleftrightarrow> r = None \<and> b' = b\<lparr>bt_trace := bt_trace b @ [a]\<rparr>"
  by (auto simp: act_def split: option.splits)

lemma in_boot_Inr [prog_simps]:
  "in_boot m b = (Inr x, b') \<longleftrightarrow> (\<exists>w. m (bt_pg b) = (Inr x, w) \<and> b' = b\<lparr>bt_pg := w\<rparr>)"
  by (auto simp: in_boot_def split: prod.splits)

definition startup_trace :: "Config \<Rightarrow> startup list" where
  "startup_trace cfg =
     (if cf_RunMigrations cfg then [Migrated (Config_MigrationURL cfg)] else [])
       @ [Connected (cf_DatabaseURL cfg), Listening (cf_Addr cfg)]"

definition outside_ready :: "'o outside \<Rightarrow> Config \<Rightarrow> bool" where
  "outside_ready out cfg \<longleftrightarrow>
     (cf_RunMigrations cfg \<longrightarrow> os_migrate out (Config_MigrationURL cfg) = None)
     \<and> (\<exists>u. os_pool out (cf_DatabaseURL cfg) = Inr u)
     \<and> (\<exists>l. newLimiters (os_redis_parse out) (os_redis_ping out) cfg = Inr l)
     \<and> os_listen out (cf_Addr cfg) = None"

lemma error_of_None: "error_of r = None \<longleftrightarrow> (\<exists>x. r = Inr x)"
  by (auto simp: error_of_def split: sum.splits)

lemma migrate_step_Inr [prog_simps]:
  "migrate_step out cfg b = (Inr u, b') \<longleftrightarrow>
     (cf_RunMigrations cfg \<longrightarrow> os_migrate out (Config_MigrationURL cfg) = None)
     \<and> b' = b\<lparr>bt_trace := bt_trace b @
           (if cf_RunMigrations cfg then [Migrated (Config_MigrationURL cfg)] else [])\<rparr>"
  by (auto simp: migrate_step_def act_Inr)

lemma NewJWT_Inr: "NewJWT s ttl = Inr j \<longleftrightarrow> 32 \<le> length s \<and> 0 < ttl \<and> j = \<lparr> jwt_secret = s, jwt_ttl = ttl \<rparr>"
  by (auto simp: NewJWT_def)

lemma api_run_Inr:
  assumes "api_run env out hasher issuer b = (Inr p, b')" "reachable (bt_pg b)" "no_faults env"
  shows "\<exists>cfg. os_parse out = Inr cfg \<and> Config_validate cfg = None \<and> 32 \<le> length (cf_JWTSecret cfg)
    \<and> outside_ready out cfg \<and> ap_config p = cfg \<and> bt_trace b' = bt_trace b @ startup_trace cfg
    \<and> (\<exists>cash fees. ap_ledger p = pg_ledger env (ledger_config_of cfg) cash fees
         \<and> cash_account (tabs (bt_pg b)) cash \<and> length fees = 8 \<and> distinct fees)"
proof -
  obtain cfg where L: "Config_Load (os_parse out) = Inr cfg"
    using assms(1) by (auto simp: api_run_def split: sum.splits)
  have cfg: "os_parse out = Inr cfg" "Config_validate cfg = None"
    using L by (auto simp: Config_Load_def split: sum.splits option.splits)
  from assms(1) obtain b1 b2 b3 b4 lims j ledger auth where
    m: "migrate_step out cfg b = (Inr (), b1)"
    and c: "act (Connected (cf_DatabaseURL cfg)) id (error_of (os_pool out (cf_DatabaseURL cfg))) b1 = (Inr (), b2)"
    and l: "Inr lims = newLimiters (os_redis_parse out) (os_redis_ping out) cfg"
    and jwt: "Inr j = NewJWT (cf_JWTSecret cfg) (cf_AccessTokenTTL cfg)"
    and N: "in_boot (NewLedger (pg_ledger_store env) (pg_account_store env) (pg_idempotency_store env)
         (ledger_config_of cfg)) b2 = (Inr ledger, b3)"
    and A: "in_boot (NewAuth (pg_users env) (pg_tokens env) hasher (issuer j) (cf_RefreshTokenTTL cfg)) b3 = (Inr auth, b4)"
    and h: "act (Listening (cf_Addr cfg)) (Wrapf ''listen %s: %w'' [AStr (cf_Addr cfg)]) (os_listen out (cf_Addr cfg)) b4 = (Inr (), b')"
    and p: "p = \<lparr> ap_config = cfg, ap_limiters = lims, ap_jwt = j, ap_ledger = ledger, ap_auth = auth \<rparr>"
    unfolding api_run_def L sum.case by (auto simp: bindP_Inr_iff liftR_iff intro: that)
  have b2: "bt_pg b2 = bt_pg b" using m c by (auto simp: migrate_step_Inr act_Inr)
  obtain w1 where w1: "NewLedger (pg_ledger_store env) (pg_account_store env) (pg_idempotency_store env)
      (ledger_config_of cfg) (bt_pg b) = (Inr ledger, w1)" "b3 = b2\<lparr>bt_pg := w1\<rparr>"
    using N b2 by (auto simp: in_boot_Inr)
  obtain w2 where w2: "b4 = b3\<lparr>bt_pg := w2\<rparr>" using A by (auto simp: in_boot_Inr)
  have "outside_ready out cfg"
    using m c l [symmetric] h by (auto simp: outside_ready_def migrate_step_Inr act_Inr error_of_None)
  moreover have "bt_trace b' = bt_trace b @ startup_trace cfg"
    using m c h w1(2) w2 by (auto simp: startup_trace_def migrate_step_Inr act_Inr)
  moreover have "32 \<le> length (cf_JWTSecret cfg)" using jwt [symmetric] by (simp add: NewJWT_Inr)
  moreover obtain cash fees where "ledger = pg_ledger env (ledger_config_of cfg) cash fees"
    "cash_account (tabs (bt_pg b)) cash" "length fees = 8" "distinct fees"
    using NewLedger_starts [OF assms(2,3), of "ledger_config_of cfg"] w1(1) by fastforce
  ultimately show ?thesis using cfg p by (intro exI [of _ cfg] conjI) auto
qed

lemma Config_ledger_ok:
  "Config_validate cfg = None \<Longrightarrow> ledger_config_ok (ledger_config_of cfg) \<and> 0 < cf_AccessTokenTTL cfg"
  by (auto simp: Config_validate_def ledger_config_ok_def ledger_config_of_def split: if_splits)

lemma api_run_succeeds:
  assumes "reachable (bt_pg b)" "no_faults env"
    and h: "\<And>w. \<exists>d. ph_Hash hasher ''dummy-password-untuk-menyamakan-waktu'' w = (Inr d, w)"
    and cfg: "os_parse out = Inr cfg" "Config_validate cfg = None" "32 \<le> length (cf_JWTSecret cfg)"
    and out: "outside_ready out cfg"
  shows "\<exists>p b'. api_run env out hasher issuer b = (Inr p, b')"
proof -
  have L: "Config_Load (os_parse out) = Inr cfg" using cfg by (simp add: Config_Load_def)
  obtain l where l: "newLimiters (os_redis_parse out) (os_redis_ping out) cfg = Inr l"
    using out by (auto simp: outside_ready_def)
  obtain j where j: "NewJWT (cf_JWTSecret cfg) (cf_AccessTokenTTL cfg) = Inr j"
    using cfg(3) Config_ledger_ok [OF cfg(2)] by (auto simp: NewJWT_def)
  obtain led w1 where N: "NewLedger (pg_ledger_store env) (pg_account_store env) (pg_idempotency_store env)
      (ledger_config_of cfg) (bt_pg b) = (Inr led, w1)"
    using NewLedger_starts [OF assms(1,2), of "ledger_config_of cfg"] Config_ledger_ok [OF cfg(2)] by blast
  obtain d where "ph_Hash hasher ''dummy-password-untuk-menyamakan-waktu'' w1 = (Inr d, w1)" using h by blast
  then obtain auth where A: "NewAuth (pg_users env) (pg_tokens env) hasher (issuer j) (cf_RefreshTokenTTL cfg) w1
      = (Inr auth, w1)" by (simp add: NewAuth_def bindP_def wrapP_def)
  obtain b1 where 1: "migrate_step out cfg b = (Inr (), b1)" "bt_pg b1 = bt_pg b"
    using out by (simp add: migrate_step_Inr outside_ready_def)
  obtain b2 where 2: "act (Connected (cf_DatabaseURL cfg)) id (error_of (os_pool out (cf_DatabaseURL cfg))) b1 = (Inr (), b2)"
    "bt_pg b2 = bt_pg b"
    using out 1(2) by (simp add: act_Inr outside_ready_def error_of_None)
  obtain b3 where 3: "in_boot (NewLedger (pg_ledger_store env) (pg_account_store env) (pg_idempotency_store env)
      (ledger_config_of cfg)) b2 = (Inr led, b3)" "bt_pg b3 = w1" using N 2(2) by (simp add: in_boot_Inr)
  obtain b4 where 4: "in_boot (NewAuth (pg_users env) (pg_tokens env) hasher (issuer j) (cf_RefreshTokenTTL cfg)) b3 = (Inr auth, b4)"
    using A 3(2) by (simp add: in_boot_Inr)
  obtain b5 where 5: "act (Listening (cf_Addr cfg)) (Wrapf ''listen %s: %w'' [AStr (cf_Addr cfg)]) (os_listen out (cf_Addr cfg)) b4
      = (Inr (), b5)"
    using out by (simp add: act_Inr outside_ready_def)
  have lr: "liftR (Inr x) s = (Inr x, s)" for x :: 'x and s :: boot by (simp add: liftR_iff)
  show ?thesis
    by (simp add: api_run_def L bindP_def l j lr 1(1) 2(1) 3(1) 4 5)
qed

text \<open>
  C33 functional. The API starts exactly when everything it checks holds: the environment
  parses to a configuration that passes \<open>validate\<close>, the JWT secret has at least 32 bytes (in
  every environment, although \<open>validate\<close> asks for it in production only), and migration,
  database, Redis and listener answer. Then it has migrated first, and only when asked to,
  and the ledger service holds the configured fee and limits, the cash account and eight
  distinct fee accounts.
\<close>

theorem api_starts_exactly:
  assumes "reachable (bt_pg b)" "no_faults env"
    and "\<And>w. \<exists>d. ph_Hash hasher ''dummy-password-untuk-menyamakan-waktu'' w = (Inr d, w)"
  shows "((\<exists>p b'. api_run env out hasher issuer b = (Inr p, b')) \<longleftrightarrow>
      (\<exists>cfg. os_parse out = Inr cfg \<and> Config_validate cfg = None \<and> 32 \<le> length (cf_JWTSecret cfg)
         \<and> outside_ready out cfg))
    \<and> (\<forall>p b'. api_run env out hasher issuer b = (Inr p, b') \<longrightarrow>
         bt_trace b' = bt_trace b @ startup_trace (ap_config p)
         \<and> (\<exists>cash fees. ap_ledger p = pg_ledger env (ledger_config_of (ap_config p)) cash fees
              \<and> cash_account (tabs (bt_pg b)) cash \<and> length fees = 8 \<and> distinct fees))"
proof (intro conjI iffI allI impI)
  assume "\<exists>p b'. api_run env out hasher issuer b = (Inr p, b')"
  then obtain p b' where "api_run env out hasher issuer b = (Inr p, b')" by blast
  from api_run_Inr [OF this assms(1,2)] show "\<exists>cfg. os_parse out = Inr cfg \<and> Config_validate cfg = None
      \<and> 32 \<le> length (cf_JWTSecret cfg) \<and> outside_ready out cfg" by blast
next
  assume "\<exists>cfg. os_parse out = Inr cfg \<and> Config_validate cfg = None \<and> 32 \<le> length (cf_JWTSecret cfg)
      \<and> outside_ready out cfg"
  then show "\<exists>p b'. api_run env out hasher issuer b = (Inr p, b')"
    using api_run_succeeds [OF assms] by blast
next
  fix p b' assume R: "api_run env out hasher issuer b = (Inr p, b')"
  from api_run_Inr [OF R assms(1,2)] show "bt_trace b' = bt_trace b @ startup_trace (ap_config p)" by blast
  from api_run_Inr [OF R assms(1,2)] show "\<exists>cash fees. ap_ledger p = pg_ledger env (ledger_config_of (ap_config p)) cash fees
      \<and> cash_account (tabs (bt_pg b)) cash \<and> length fees = 8 \<and> distinct fees" by blast
qed

theorem api_starts_exactly_witness:
  "\<exists>p b'. api_run demo_env
     \<lparr> os_parse = Inr (default_config ''pg'' (replicate 32 (CHR ''k''))), os_migrate = (\<lambda>u. None),
       os_pool = (\<lambda>u. Inr ()), os_redis_parse = (\<lambda>u. Inr ()), os_redis_ping = (\<lambda>o1. None), os_listen = (\<lambda>a. None) \<rparr>
     \<lparr> ph_Hash = (\<lambda>p. pure_prog (Inr p)), ph_Verify = (\<lambda>h p. pure_prog (Inr (h = p))) \<rparr>
     (\<lambda>j. \<lparr> ai_Issue = (\<lambda>i p r. pure_prog (Inr (''t'', 0))) \<rparr>)
     \<lparr> bt_pg = demo_start, bt_trace = [] \<rparr> = (Inr p, b')"
proof -
  let ?out = "\<lparr> os_parse = Inr (default_config ''pg'' (replicate 32 (CHR ''k''))), os_migrate = (\<lambda>u. None),
       os_pool = (\<lambda>u. Inr ()), os_redis_parse = (\<lambda>u. Inr ()), os_redis_ping = (\<lambda>o1. None), os_listen = (\<lambda>a. None) \<rparr>"
  have v: "Config_validate (default_config ''pg'' (replicate 32 (CHR ''k''))) = None"
    by (simp add: Config_validate_def default_config_def EnvDevelopment_def EnvProduction_def)
  have o: "outside_ready ?out (default_config ''pg'' (replicate 32 (CHR ''k'')))"
    by (simp add: outside_ready_def newLimiters_def default_config_def)
  have r: "reachable (bt_pg \<lparr> bt_pg = demo_start, bt_trace = [] \<rparr>)" by (simp add: demo_start_reachable)
  show ?thesis
    by (rule api_starts_exactly [OF r demo_no_faults, THEN conjunct1, THEN iffD2])
       (use v o in \<open>auto simp: default_config_def\<close>)
qed

end
