(* ===== verification/Pipeline.thy ===== *)
theory Pipeline
  imports AppFacts "HOL-Library.Multiset"
begin

text \<open>
  The ledger, the relay and the audit consumer at work on one database: every transaction has
  its event, every event its message, and every message its audit line. A message a queue
  holds may be delivered at any time, again and in any order. The text of a UUID and its
  parser belong to a library and are the arguments \<open>uuid_text\<close> and \<open>parse\<close>.
\<close>

definition delivery_of :: "(uuid \<Rightarrow> string) \<Rightarrow> message \<Rightarrow> delivery" where
  "delivery_of uuid_text m = \<lparr> d_MessageId = uuid_text (msg_MessageId m), d_Body = Some (msg_Body m) \<rparr>"

definition audit_line :: "(uuid \<Rightarrow> string) \<Rightarrow> txn_row \<Rightarrow> posted_payload" where
  "audit_line uuid_text t =
     \<lparr> pp_TransactionID = uuid_text (tr_id t), pp_Type = tr_txn_type t, pp_Status = TxnPosted \<rparr>"

section \<open>Each transaction has its event\<close>

definition txn_line :: "(uuid \<Rightarrow> string) \<Rightarrow> txn_row \<Rightarrow> uuid \<times> posted_payload result" where
  "txn_line uuid_text t = (tr_id t, Inr (audit_line uuid_text t))"

definition event_line :: "(uuid \<Rightarrow> string) \<Rightarrow> outbox_row \<Rightarrow> uuid \<times> posted_payload result" where
  "event_line uuid_text r = (ob_aggregate_id r, unmarshal_payload uuid_text (Some (ob_payload r)))"

definition recorded :: "(uuid \<Rightarrow> string) \<Rightarrow> tables \<Rightarrow> bool" where
  "recorded uuid_text T \<longleftrightarrow>
     map (event_line uuid_text) (outbox_events T) = map (txn_line uuid_text) (transactions T)
     \<and> distinct (map ob_event_id (outbox_events T))"

lemma posted_event:
  "event_line uuid_text (new_outbox_row env n eid tid (json_of_stored (toStored (posted_result env tid k As txn))))
   = txn_line uuid_text (header_row env tid txn)"
  by (simp add: event_line_def txn_line_def new_outbox_row_def header_row_def new_txn_row_def
      unmarshal_payload_def json_of_stored_def toStored_def posted_result_def read_text_def
      read_str_def bindR_def audit_line_def Let_def)

lemma txn_line_mark: "map (txn_line uuid_text) (mark_original rv Ts) = map (txn_line uuid_text) Ts"
  by (auto simp: mark_original_def txn_line_def audit_line_def intro: map_update_where
      split: option.split)

lemma recorded_posts:
  assumes "recorded uuid_text T" "posts q T T'"
  shows "recorded uuid_text T'"
proof -
  from assms(2) obtain env tid eid txn claim where A: "post_accepts env tid eid txn claim T"
    and T': "T' = posted_tables env tid eid q txn claim T" by (auto simp: posts_def)
  have "eid \<notin> ob_event_id ` set (outbox_events T)" using A by (simp add: post_accepts_def)
  moreover have "ob_event_id (new_outbox_row env n eid tid b) = eid" for n b
    by (simp add: new_outbox_row_def)
  ultimately show ?thesis
    using assms(1) by (simp add: recorded_def T' posted_tables_def Let_def txn_line_mark posted_event)
qed

text \<open>A poll keeps what the event carries.\<close>

lemma same_outbox_columns:
  assumes "same_outbox T T'" "\<And>r r'. sent_columns r = sent_columns r' \<Longrightarrow> f r = f r'"
  shows "map f (outbox_events T') = map f (outbox_events T)"
proof -
  have m: "map sent_columns (outbox_events T') = map sent_columns (outbox_events T)"
    using assms(1) by (auto simp: same_outbox_def)
  then have len: "length (outbox_events T') = length (outbox_events T)" by (rule map_eq_imp_length_eq)
  show ?thesis
  proof (rule nth_equalityI)
    fix i assume i: "i < length (map f (outbox_events T'))"
    with arg_cong [OF m, of "\<lambda>xs. xs ! i"] len
    have "sent_columns (outbox_events T' ! i) = sent_columns (outbox_events T ! i)" by simp
    from assms(2) [OF this] i len show "map f (outbox_events T') ! i = map f (outbox_events T) ! i" by simp
  qed (simp add: len)
qed

lemma recorded_same_outbox:
  assumes "same_outbox T T'" "recorded uuid_text T"
  shows "recorded uuid_text T'"
proof -
  have "transactions T' = transactions T" using assms(1) by (auto simp: same_outbox_def)
  moreover have "map (event_line uuid_text) (outbox_events T') = map (event_line uuid_text) (outbox_events T)"
    "map ob_event_id (outbox_events T') = map ob_event_id (outbox_events T)"
    by (rule same_outbox_columns [OF assms(1)]; simp add: sent_columns_def out_row_of_def event_line_def)+
  ultimately show ?thesis using assms(2) by (simp add: recorded_def)
qed

lemma recorded_step:
  assumes "db_step w w'" "db_inv (tabs w) (seqs w)" "recorded uuid_text (tabs w)"
  shows "recorded uuid_text (tabs w')"
proof (cases "posts (seqs w) (tabs w) (tabs w')")
  case True
  with assms(3) show ?thesis by (rule recorded_posts)
next
  case False
  with db_step_effect [OF assms(1,2)] have t: "transactions (tabs w') = transactions (tabs w)"
    by (auto simp: quiet_def)
  from db_step_side [OF assms(1,2)] False
  have "aside (tabs w) (tabs w') \<or> same_outbox (tabs w) (tabs w')" by blast
  then show ?thesis
  proof
    assume "aside (tabs w) (tabs w')"
    with assms(3) t show ?thesis by (simp add: aside_def recorded_def)
  qed (rule recorded_same_outbox [OF _ assms(3)])
qed

lemma reachable_recorded: "reachable w \<Longrightarrow> recorded uuid_text (tabs w)"
proof (induction rule: reachable.induct)
  case (initial w now ids)
  then show ?case by (simp add: recorded_def migrated_tables_def)
next
  case (step w w')
  then show ?case using recorded_step reachable_inv by blast
qed

section \<open>The broker holds only messages of events\<close>

definition event_message :: "outbox_row \<Rightarrow> message" where
  "event_message r = message_of (out_row_of r)"

definition broker_true :: "relay_world \<Rightarrow> bool" where
  "broker_true rw \<longleftrightarrow> set (rw_broker rw) \<subseteq> event_message ` set (outbox_events (tabs (rw_pg rw)))"

lemma send_batch_broker:
  "send_batch env out es n rw = (r, rw') \<Longrightarrow>
   set (rw_broker rw') \<subseteq> set (rw_broker rw) \<union> message_of ` set es"
proof (induction es arbitrary: n rw)
  case (Cons e es)
  obtain p rw1 where P: "publish out e rw = (p, rw1)" by fastforce
  then have p: "set (rw_broker rw1) \<subseteq> insert (message_of e) (set (rw_broker rw))"
    by (auto simp: publish_def Let_def split: outcome.splits if_splits)
  define m where "m = (case p of Inl err \<Rightarrow> sql_record_failure env (or_ID e) err
                                | Inr _ \<Rightarrow> sql_mark_published env (or_ID e))"
  obtain r2 w2 where "m (rw_pg rw1) = (r2, w2)" by fastforce
  then have L: "lift_pg m rw1 = (r2, rw1\<lparr>rw_pg := w2\<rparr>)" by (simp add: lift_pg_def)
  have "rw' = rw1\<lparr>rw_pg := w2\<rparr> \<or> (\<exists>k. send_batch env out es k (rw1\<lparr>rw_pg := w2\<rparr>) = (r, rw'))"
    using Cons.prems P L by (cases p; cases r2) (auto simp: m_def bindP_def wrapP_def)
  then show ?case
  proof
    assume "\<exists>k. send_batch env out es k (rw1\<lparr>rw_pg := w2\<rparr>) = (r, rw')"
    then obtain k where "send_batch env out es k (rw1\<lparr>rw_pg := w2\<rparr>) = (r, rw')" ..
    from Cons.IH [OF this] p show ?thesis by auto
  qed (use p in auto)
qed simp

lemma poll_body_broker:
  assumes "poll_body env out skip limit rw = (r, rw')"
  shows "set (rw_broker rw') \<subseteq> set (rw_broker rw) \<union> event_message ` set (outbox_events (tabs (rw_pg rw)))"
proof -
  obtain r1 w1 where a: "round_trip env (rw_pg rw) = (r1, w1)" by fastforce
  obtain r2 w2 where b: "sql_select_batch env skip limit w1 = (r2, w2)" by fastforce
  have t1: "tabs w1 = tabs (rw_pg rw)" using a by (rule round_trip_tabs)
  have L: "lift_pg (round_trip env) rw = (r1, rw\<lparr>rw_pg := w1\<rparr>)"
    "lift_pg (sql_select_batch env skip limit) (rw\<lparr>rw_pg := w1\<rparr>) = (r2, rw\<lparr>rw_pg := w2\<rparr>)"
    using a b by (simp_all add: lift_pg_def)
  have "rw_broker rw' = rw_broker rw
      \<or> (\<exists>batch. r2 = Inr batch \<and> send_batch env out batch 0 (rw\<lparr>rw_pg := w2\<rparr>) = (r, rw'))"
    using assms L by (cases r1; cases r2) (auto simp: poll_body_def bindP_def wrapP_def)
  then show ?thesis
  proof
    assume "\<exists>batch. r2 = Inr batch \<and> send_batch env out batch 0 (rw\<lparr>rw_pg := w2\<rparr>) = (r, rw')"
    then obtain batch where r2: "r2 = Inr batch"
      and S: "send_batch env out batch 0 (rw\<lparr>rw_pg := w2\<rparr>) = (r, rw')" by blast
    from b r2 have "set batch \<subseteq> out_row_of ` set (outbox_events (tabs (rw_pg rw)))"
      by (auto simp: sql_select_batch_def stmt_Inr_iff t1 unpublished_def dest!: in_set_takeD)
    with send_batch_broker [OF S] show ?thesis by (auto simp: event_message_def)
  qed simp
qed

lemma PollOnce_broker:
  assumes "Relay_PollOnce env out skip rw = (r, rw')"
  shows "set (rw_broker rw') \<subseteq> set (rw_broker rw) \<union> event_message ` set (outbox_events (tabs (rw_pg rw)))"
proof -
  obtain r1 w1 where a: "round_trip env (rw_pg rw) = (r1, w1)" by fastforce
  have t1: "tabs w1 = tabs (rw_pg rw)" using a by (rule round_trip_tabs)
  have L: "lift_pg (round_trip env) rw = (r1, rw\<lparr>rw_pg := w1\<rparr>)" using a by (simp add: lift_pg_def)
  obtain q rw2 where P: "poll_body env out skip relay_batch (rw\<lparr>rw_pg := w1\<rparr>) = (q, rw2)" by fastforce
  have "rw_broker rw' = rw_broker rw \<or> rw_broker rw' = rw_broker rw2"
    using assms L P
    by (auto simp: Relay_PollOnce_def bindP_def wrapP_def lift_pg_def split: sum.splits prod.splits)
  with poll_body_broker [OF P] show ?thesis by (auto simp: t1)
qed

lemma PollOnce_same_outbox:
  "Relay_PollOnce env out skip rw = (r, rw') \<Longrightarrow> same_outbox (tabs (rw_pg rw)) (tabs (rw_pg rw'))"
  using PollOnce_step by (simp add: relay_step_def)

lemma broker_true_grows:
  assumes "broker_true rw" "set (rw_broker rw') \<subseteq> set (rw_broker rw) \<union> event_message ` set (outbox_events (tabs (rw_pg rw)))"
    "event_message ` set (outbox_events (tabs (rw_pg rw))) \<subseteq> event_message ` set (outbox_events (tabs (rw_pg rw')))"
  shows "broker_true rw'"
  using assms unfolding broker_true_def by blast

lemma same_outbox_messages:
  assumes "same_outbox T T'"
  shows "event_message ` set (outbox_events T') = event_message ` set (outbox_events T)"
  using arg_cong [OF same_outbox_columns [OF assms, of event_message], of set]
  by (simp add: event_message_def sent_columns_def)

section \<open>The audit log holds only lines of events\<close>

definition published_line :: "(uuid \<Rightarrow> string) \<Rightarrow> outbox_row \<Rightarrow> uuid \<times> posted_payload result" where
  "published_line uuid_text r = (ob_event_id r, unmarshal_payload uuid_text (Some (ob_payload r)))"

text \<open>Each processed event has its line but for those that were lost, which have none.\<close>

definition logged :: "(uuid \<Rightarrow> string) \<Rightarrow> tables \<Rightarrow> (uuid \<times> posted_payload) list \<Rightarrow> uuid set \<Rightarrow> bool" where
  "logged uuid_text T log lost \<longleftrightarrow>
     fst ` set log \<union> lost = pv_event_id ` set (processed_events T) \<and> fst ` set log \<inter> lost = {}
     \<and> distinct (map fst log)
     \<and> map_prod id Inr ` set log \<subseteq> published_line uuid_text ` set (outbox_events T)"

lemma recorded_line:
  assumes "recorded uuid_text T" "r \<in> set (outbox_events T)"
  shows "\<exists>t \<in> set (transactions T). unmarshal_payload uuid_text (Some (ob_payload r)) = Inr (audit_line uuid_text t)"
proof -
  have "event_line uuid_text r \<in> txn_line uuid_text ` set (transactions T)"
    using assms arg_cong [of _ _ set] unfolding recorded_def by (metis imageI image_set)
  then show ?thesis by (auto simp: event_line_def txn_line_def)
qed

text \<open>One delivery of a message of an event.\<close>

lemma handle_event:
  assumes parse: "\<forall>i. parse (uuid_text i) = Some i"
    and rec: "recorded uuid_text (tabs (cw_pg cw))" and log: "logged uuid_text (tabs (cw_pg cw)) (cw_audit cw) lost"
    and r: "r \<in> set (outbox_events (tabs (cw_pg cw)))"
    and H: "AuditLog_handle env parse uuid_text (delivery_of uuid_text (event_message r)) cw = (s, cw')"
  shows "s \<noteq> NackDLQ \<and> (\<exists>ps. tabs (cw_pg cw') = (tabs (cw_pg cw))\<lparr>processed_events := ps\<rparr>)
    \<and> logged uuid_text (tabs (cw_pg cw')) (cw_audit cw') lost
    \<and> fst ` set (cw_audit cw) \<subseteq> fst ` set (cw_audit cw')
    \<and> (no_faults env \<longrightarrow> ob_event_id r \<in> fst ` set (cw_audit cw') \<union> lost)"
proof -
  let ?i = "ob_event_id r"
  obtain q w where I: "sql_insert_processed env ?i (cw_pg cw) = (q, w)" by fastforce
  have d: "d_MessageId (delivery_of uuid_text (event_message r)) = uuid_text ?i"
    "d_Body (delivery_of uuid_text (event_message r)) = Some (ob_payload r)"
    by (simp_all add: delivery_of_def event_message_def message_of_def out_row_of_def)
  obtain t where line: "unmarshal_payload uuid_text (Some (ob_payload r)) = Inr (audit_line uuid_text t)"
    using recorded_line [OF rec r] by blast
  have known: "fst ` set (cw_audit cw) \<union> lost = pv_event_id ` set (processed_events (tabs (cw_pg cw)))"
    using log by (simp add: logged_def)
  have same: ?thesis if "tabs w = tabs (cw_pg cw)" "s \<noteq> NackDLQ" "cw' = cw\<lparr>cw_pg := w\<rparr>"
    "no_faults env \<longrightarrow> ?i \<in> fst ` set (cw_audit cw) \<union> lost"
    using that log by (auto intro: exI [of _ "processed_events (tabs (cw_pg cw))"])
  from sql_insert_processed_cases [OF I] show ?thesis
  proof (elim disjE conjE exE)
    fix e assume e: "q = Inl e" and t: "tabs w = tabs (cw_pg cw)"
    have "\<not> no_faults env"
      using I e by (auto simp: sql_insert_processed_def Let_def split: if_splits)
    with e t H I d parse show ?thesis by (intro same) (simp_all add: AuditLog_handle_def)
  next
    assume "q = Inr 0" "tabs w = tabs (cw_pg cw)" "?i \<in> pv_event_id ` set (processed_events (tabs (cw_pg cw)))"
    with H I d parse known show ?thesis by (intro same) (simp_all add: AuditLog_handle_def Let_def)
  next
    assume q: "q = Inr 1" and new: "?i \<notin> pv_event_id ` set (processed_events (tabs (cw_pg cw)))"
      and t: "tabs w = (tabs (cw_pg cw))\<lparr>processed_events := processed_events (tabs (cw_pg cw))
               @ [\<lparr> pv_event_id = ?i, pv_consumer = consumer_name, pv_processed_at = env_now env \<rparr>]\<rparr>"
    have S: "s = Ack" "cw_pg cw' = w" "cw_audit cw' = cw_audit cw @ [(?i, audit_line uuid_text t)]"
      using H I d parse q line by (auto simp: AuditLog_handle_def Let_def)
    have "published_line uuid_text r = (?i, Inr (audit_line uuid_text t))" by (simp add: published_line_def line)
    then have "(?i, Inr (audit_line uuid_text t)) \<in> published_line uuid_text ` set (outbox_events (tabs (cw_pg cw)))"
      using r by (metis imageI)
    with log new known S t show ?thesis by (auto simp: logged_def)
  qed
qed

section \<open>The system\<close>

text \<open>
  The processes on one database, from the moment both the outbox and the broker are empty: the
  relay polls, whatever fails; the ledger posts; the API does any other step that leaves the
  outbox and the processed events alone; and the consumer handles some message the broker
  took. The worker may also stop in the middle of handling a message, or not learn that its
  INSERT was committed: then the row of processed_events stays and the line is not written. The
  audit log is the list of the lines the consumer has written; \<open>lost\<close> holds the events whose
  line was lost so.
\<close>

inductive pipeline ::
    "(string \<Rightarrow> uuid option) \<Rightarrow> (uuid \<Rightarrow> string) \<Rightarrow> relay_world \<Rightarrow> (uuid \<times> posted_payload) list \<Rightarrow> uuid set \<Rightarrow> bool"
  for parse :: "string \<Rightarrow> uuid option" and uuid_text :: "uuid \<Rightarrow> string" where
  started: "\<lbrakk>reachable w; outbox_events (tabs w) = []; processed_events (tabs w) = []\<rbrakk> \<Longrightarrow>
     pipeline parse uuid_text \<lparr> rw_pg = w, rw_broker = [], rw_sends = 0 \<rparr> [] {}"
| poll: "\<lbrakk>pipeline parse uuid_text rw log lost; Relay_PollOnce env out skip rw = (r, rw')\<rbrakk> \<Longrightarrow>
     pipeline parse uuid_text rw' log lost"
| post: "\<lbrakk>pipeline parse uuid_text rw log lost; LedgerRepo_Post env txn claim (rw_pg rw) = (r', w'); amounts_in_range txn\<rbrakk> \<Longrightarrow>
     pipeline parse uuid_text (rw\<lparr>rw_pg := w'\<rparr>) log lost"
| api: "\<lbrakk>pipeline parse uuid_text rw log lost; db_step (rw_pg rw) w';
      outbox_events (tabs w') = outbox_events (tabs (rw_pg rw));
      processed_events (tabs w') = processed_events (tabs (rw_pg rw))\<rbrakk> \<Longrightarrow>
     pipeline parse uuid_text (rw\<lparr>rw_pg := w'\<rparr>) log lost"
| deliver: "\<lbrakk>pipeline parse uuid_text rw log lost; m \<in> set (rw_broker rw);
      AuditLog_handle env parse uuid_text (delivery_of uuid_text m) \<lparr> cw_pg = rw_pg rw, cw_audit = log \<rparr> = (s, cw')\<rbrakk> \<Longrightarrow>
     pipeline parse uuid_text (rw\<lparr>rw_pg := cw_pg cw'\<rparr>) (cw_audit cw') lost"
| crash: "\<lbrakk>pipeline parse uuid_text rw log lost; m \<in> set (rw_broker rw);
      sql_insert_processed env (msg_MessageId m) (rw_pg rw) = (Inr 1, w')\<rbrakk> \<Longrightarrow>
     pipeline parse uuid_text (rw\<lparr>rw_pg := w'\<rparr>) log (insert (msg_MessageId m) lost)"

definition pipeline_ok :: "(uuid \<Rightarrow> string) \<Rightarrow> relay_world \<Rightarrow> (uuid \<times> posted_payload) list \<Rightarrow> uuid set \<Rightarrow> bool" where
  "pipeline_ok uuid_text rw log lost \<longleftrightarrow>
     reachable (rw_pg rw) \<and> relay_ok rw \<and> broker_true rw \<and> logged uuid_text (tabs (rw_pg rw)) log lost"

lemma pipeline_ok_recorded: "pipeline_ok uuid_text rw log lost \<Longrightarrow> recorded uuid_text (tabs (rw_pg rw))"
  by (simp add: pipeline_ok_def reachable_recorded)

text \<open>A step that keeps the events, perhaps adding some not yet published.\<close>

lemma pipeline_ok_extend:
  assumes "pipeline_ok uuid_text rw log lost" "db_step (rw_pg rw) w'"
    and "outbox_events (tabs w') = outbox_events (tabs (rw_pg rw)) @ new"
    and "\<forall>r \<in> set new. ob_published_at r = None"
    and "processed_events (tabs w') = processed_events (tabs (rw_pg rw))"
  shows "pipeline_ok uuid_text (rw\<lparr>rw_pg := w'\<rparr>) log lost"
proof -
  have r: "reachable w'" using assms(1,2) by (auto simp: pipeline_ok_def intro: reachable.step)
  then have "distinct (map ob_id (outbox_events (tabs w')))"
    using reachable_inv by (simp add: db_inv_def outbox_inv_def)
  with assms r show ?thesis
    by (auto simp: pipeline_ok_def relay_ok_def broker_true_def logged_def at_broker_def)
qed

lemma pipeline_ok_poll:
  assumes "pipeline_ok uuid_text rw log lost" "Relay_PollOnce env out skip rw = (r, rw')"
  shows "pipeline_ok uuid_text rw' log lost"
proof -
  note so = PollOnce_same_outbox [OF assms(2)]
  have "reachable (rw_pg rw')"
    using assms(1) reachable.step [OF _ db_step.relay [OF assms(2)]] by (simp add: pipeline_ok_def)
  moreover have "relay_ok rw'" using assms PollOnce_step by (simp add: pipeline_ok_def relay_step_def)
  moreover have "broker_true rw'"
    using assms(1) PollOnce_broker [OF assms(2)] same_outbox_messages [OF so]
    by (auto simp: pipeline_ok_def broker_true_def)
  moreover have "map (published_line uuid_text) (outbox_events (tabs (rw_pg rw')))
      = map (published_line uuid_text) (outbox_events (tabs (rw_pg rw)))"
    by (rule same_outbox_columns [OF so]) (simp add: published_line_def sent_columns_def out_row_of_def)
  then have "published_line uuid_text ` set (outbox_events (tabs (rw_pg rw')))
      = published_line uuid_text ` set (outbox_events (tabs (rw_pg rw)))"
    by (metis image_set)
  moreover have "processed_events (tabs (rw_pg rw')) = processed_events (tabs (rw_pg rw))"
    using so by (auto simp: same_outbox_def)
  ultimately show ?thesis using assms(1) unfolding pipeline_ok_def logged_def by metis
qed

lemma pipeline_ok_deliver:
  assumes parse: "\<forall>i. parse (uuid_text i) = Some i" and ok: "pipeline_ok uuid_text rw log lost" and m: "m \<in> set (rw_broker rw)"
    and H: "AuditLog_handle env parse uuid_text (delivery_of uuid_text m) \<lparr> cw_pg = rw_pg rw, cw_audit = log \<rparr> = (s, cw')"
  shows "pipeline_ok uuid_text (rw\<lparr>rw_pg := cw_pg cw'\<rparr>) (cw_audit cw') lost" and "s \<noteq> NackDLQ"
    and "fst ` set log \<subseteq> fst ` set (cw_audit cw')"
    and "no_faults env \<Longrightarrow> msg_MessageId m \<in> fst ` set (cw_audit cw') \<union> lost"
    and "\<exists>ps. tabs (cw_pg cw') = (tabs (rw_pg rw))\<lparr>processed_events := ps\<rparr>"
proof -
  let ?cw = "\<lparr> cw_pg = rw_pg rw, cw_audit = log \<rparr>"
  obtain r where r: "r \<in> set (outbox_events (tabs (rw_pg rw)))" and mr: "m = event_message r"
    using ok m by (auto simp: pipeline_ok_def broker_true_def)
  have E: "s \<noteq> NackDLQ \<and> (\<exists>ps. tabs (cw_pg cw') = (tabs (rw_pg rw))\<lparr>processed_events := ps\<rparr>)
    \<and> logged uuid_text (tabs (cw_pg cw')) (cw_audit cw') lost \<and> fst ` set log \<subseteq> fst ` set (cw_audit cw')
    \<and> (no_faults env \<longrightarrow> ob_event_id r \<in> fst ` set (cw_audit cw') \<union> lost)"
    using handle_event [OF parse, of ?cw lost r env s cw'] pipeline_ok_recorded [OF ok] ok r H
    by (simp add: mr pipeline_ok_def)
  have "db_step (rw_pg rw) (cw_pg cw')" using db_step.consume [OF H] by simp
  then have "reachable (cw_pg cw')" using ok by (auto simp: pipeline_ok_def intro: reachable.step)
  moreover have i: "msg_MessageId m = ob_event_id r"
    by (simp add: mr event_message_def message_of_def out_row_of_def)
  ultimately show "pipeline_ok uuid_text (rw\<lparr>rw_pg := cw_pg cw'\<rparr>) (cw_audit cw') lost"
    using E ok by (auto simp: pipeline_ok_def relay_ok_def broker_true_def at_broker_def)
  show "s \<noteq> NackDLQ" "fst ` set log \<subseteq> fst ` set (cw_audit cw')"
    "\<exists>ps. tabs (cw_pg cw') = (tabs (rw_pg rw))\<lparr>processed_events := ps\<rparr>"
    using E by simp_all
  assume "no_faults env"
  with E i show "msg_MessageId m \<in> fst ` set (cw_audit cw') \<union> lost" by simp
qed

text \<open>The worker stops between the row and the line.\<close>

lemma pipeline_ok_crash:
  assumes parse: "\<forall>i. parse (uuid_text i) = Some i" and ok: "pipeline_ok uuid_text rw log lost" and m: "m \<in> set (rw_broker rw)"
    and I: "sql_insert_processed env (msg_MessageId m) (rw_pg rw) = (Inr 1, w')"
  shows "pipeline_ok uuid_text (rw\<lparr>rw_pg := w'\<rparr>) log (insert (msg_MessageId m) lost)"
proof -
  obtain s cw' where H: "AuditLog_handle env parse uuid_text (delivery_of uuid_text m)
      \<lparr> cw_pg = rw_pg rw, cw_audit = log \<rparr> = (s, cw')" by fastforce
  have "cw_pg cw' = w'"
    using H I parse by (auto simp: AuditLog_handle_def delivery_of_def Let_def split: sum.splits)
  with db_step.consume [OF H] have "reachable w'" using ok by (auto simp: pipeline_ok_def intro: reachable.step)
  moreover from sql_insert_processed_cases [OF I]
  have "tabs w' = (tabs (rw_pg rw))\<lparr>processed_events := processed_events (tabs (rw_pg rw))
      @ [\<lparr> pv_event_id = msg_MessageId m, pv_consumer = consumer_name, pv_processed_at = env_now env \<rparr>]\<rparr>"
    "msg_MessageId m \<notin> pv_event_id ` set (processed_events (tabs (rw_pg rw)))" by auto
  ultimately show ?thesis
    using ok by (auto simp: pipeline_ok_def relay_ok_def broker_true_def at_broker_def logged_def)
qed

lemma Post_outbox:
  assumes "db_inv (tabs w) (seqs w)" "LedgerRepo_Post env txn claim w = (r, w')" "amounts_in_range txn"
  shows "\<exists>new. outbox_events (tabs w') = outbox_events (tabs w) @ new
    \<and> (\<forall>r \<in> set new. ob_published_at r = None) \<and> processed_events (tabs w') = processed_events (tabs w)"
proof (cases r)
  case (Inl e)
  with assms(2) have "tabs w' = tabs w"
    by (auto simp: LedgerRepo_Post_def split: option.splits dest: in_tx_Inl_tabs)
  then show ?thesis by simp
next
  case (Inr res)
  have "distinct (map acc_ID (accounts (tabs w)))"
    using assms(1) by (simp add: db_inv_def ledger_inv_def accounts_ok_def)
  from LedgerRepo_Post_sound [OF assms(2) [unfolded Inr] this assms(3)] obtain tid eid where
    "tabs w' = posted_tables env tid eid (seqs w) txn claim (tabs w)" by metis
  then show ?thesis by (simp add: posted_tables_def Let_def new_outbox_row_def)
qed

lemma pipeline_pipeline_ok:
  assumes parse: "\<forall>i. parse (uuid_text i) = Some i" and "pipeline parse uuid_text rw log lost"
  shows "pipeline_ok uuid_text rw log lost"
  using assms(2)
proof (induction rule: pipeline.induct)
  case (started w)
  then show ?case by (simp add: pipeline_ok_def relay_ok_def broker_true_def logged_def)
next
  case (poll rw log lost env out skip r rw')
  then show ?case by (blast intro: pipeline_ok_poll)
next
  case (post rw log lost env txn claim r' w')
  have "db_inv (tabs (rw_pg rw)) (seqs (rw_pg rw))"
    using post.IH reachable_inv by (simp add: pipeline_ok_def)
  from Post_outbox [OF this post.hyps(2,3)] show ?case
    using pipeline_ok_extend [OF post.IH db_step.post [OF post.hyps(2,3)]] by blast
next
  case (api rw log lost w')
  from pipeline_ok_extend [OF api.IH api.hyps(2), of "[]"] api.hyps(3,4) show ?case by simp
next
  case (deliver rw log lost m env s cw')
  show ?case by (rule pipeline_ok_deliver(1) [OF parse deliver.IH deliver.hyps(2,3)])
next
  case (crash rw log lost m env w')
  show ?case by (rule pipeline_ok_crash [OF parse crash.IH crash.hyps(2,3)])
qed

section \<open>Each transaction has its audit line\<close>

text \<open>The lines of a log are those of the events it names.\<close>

lemma logged_lines:
  assumes rec: "recorded uuid_text T" and log: "logged uuid_text T log lost"
  shows "mset (map snd log) = mset (map (projr \<circ> snd \<circ> event_line uuid_text)
           (filter (\<lambda>r. ob_event_id r \<in> fst ` set log) (outbox_events T)))"
proof -
  let ?rs = "filter (\<lambda>r. ob_event_id r \<in> fst ` set log) (outbox_events T)"
  define g where "g = projr \<circ> the \<circ> map_of (map (published_line uuid_text) (outbox_events T))"
  have "distinct (map fst (map (published_line uuid_text) (outbox_events T)))"
    using rec by (simp add: recorded_def published_line_def comp_def)
  then have dg: "g i = projr x" if "(i, x) \<in> published_line uuid_text ` set (outbox_events T)" for i x
    using map_of_is_SomeI [of "map (published_line uuid_text) (outbox_events T)" i x] that by (simp add: g_def)
  have row: "g (ob_event_id r) = (projr \<circ> snd \<circ> event_line uuid_text) r" if "r \<in> set (outbox_events T)" for r
  proof -
    have "(ob_event_id r, snd (event_line uuid_text r)) = published_line uuid_text r"
      by (simp add: published_line_def event_line_def)
    with that have "(ob_event_id r, snd (event_line uuid_text r)) \<in> published_line uuid_text ` set (outbox_events T)"
      by (rule rev_image_eqI)
    from dg [OF this] show ?thesis by simp
  qed
  have genuine: "(fst l, Inr (snd l)) \<in> published_line uuid_text ` set (outbox_events T)" if "l \<in> set log" for l
  proof -
    have "map_prod id Inr l \<in> published_line uuid_text ` set (outbox_events T)"
      using log that unfolding logged_def by blast
    then show ?thesis by (simp add: map_prod_def case_prod_beta)
  qed
  have "fst ` set log \<subseteq> ob_event_id ` set (outbox_events T)"
  proof (rule image_subsetI)
    fix l assume "l \<in> set log"
    from genuine [OF this] show "fst l \<in> ob_event_id ` set (outbox_events T)"
      by (auto simp: published_line_def)
  qed
  moreover have "set (map ob_event_id ?rs) = ob_event_id ` set (outbox_events T) \<inter> fst ` set log"
    unfolding set_map set_filter by blast
  ultimately have "set (map fst log) = set (map ob_event_id ?rs)" by (simp add: Int_absorb1)
  moreover have "distinct (map fst log)" using log unfolding logged_def by blast
  moreover have "distinct (map ob_event_id ?rs)" using rec by (simp add: recorded_def distinct_map_filter)
  ultimately have ids: "mset (map fst log) = mset (map ob_event_id ?rs)"
    by (simp only: set_eq_iff_mset_eq_distinct)
  have "(g \<circ> fst) l = snd l" if "l \<in> set log" for l
    using dg [OF genuine [OF that]] by (simp only: o_apply sum.sel)
  then have "map snd log = map g (map fst log)" unfolding map_map by (intro map_cong) simp_all
  then have "mset (map snd log) = image_mset g (mset (map ob_event_id ?rs))"
    using ids by (simp only: mset_map [of g])
  also have "\<dots> = mset (map g (map ob_event_id ?rs))" by (simp only: mset_map)
  also have "map g (map ob_event_id ?rs) = map (projr \<circ> snd \<circ> event_line uuid_text) ?rs"
    unfolding map_map by (intro map_cong) (simp_all only: set_filter mem_Collect_eq o_apply row)
  finally show ?thesis .
qed

text \<open>The transactions whose event is lost.\<close>

definition unlogged :: "tables \<Rightarrow> uuid set \<Rightarrow> uuid set" where
  "unlogged T lost = ob_aggregate_id ` {r \<in> set (outbox_events T). ob_event_id r \<in> lost}"

lemma unlogged_empty [simp]: "unlogged T {} = {}"
  by (simp add: unlogged_def)

lemma unlogged_same_outbox:
  assumes "same_outbox T T'"
  shows "unlogged T' lost = unlogged T lost"
proof -
  have *: "unlogged T lost = fst ` {p \<in> set (map (\<lambda>r. (ob_aggregate_id r, ob_event_id r)) (outbox_events T)). snd p \<in> lost}" for T
    by (force simp: unlogged_def)
  have "map (\<lambda>r. (ob_aggregate_id r, ob_event_id r)) (outbox_events T')
      = map (\<lambda>r. (ob_aggregate_id r, ob_event_id r)) (outbox_events T)"
    by (rule same_outbox_columns [OF assms]) (simp add: sent_columns_def out_row_of_def)
  then show ?thesis unfolding * by simp
qed

lemma recorded_lines:
  assumes "recorded uuid_text T" "distinct (map tr_id (transactions T))"
  shows "map (projr \<circ> snd \<circ> event_line uuid_text) (filter (\<lambda>r. ob_event_id r \<notin> lost) (outbox_events T))
    = map (audit_line uuid_text) (filter (\<lambda>t. tr_id t \<notin> unlogged T lost) (transactions T))"
proof -
  have E: "map (event_line uuid_text) (outbox_events T) = map (txn_line uuid_text) (transactions T)"
    using assms(1) by (simp add: recorded_def)
  from arg_cong [OF this, of "map fst"] have "map ob_aggregate_id (outbox_events T) = map tr_id (transactions T)"
    by (simp add: event_line_def txn_line_def comp_def)
  with assms(2) have "inj_on ob_aggregate_id (set (outbox_events T))" by (metis distinct_map)
  then have "filter (\<lambda>r. ob_event_id r \<notin> lost) (outbox_events T)
      = filter (\<lambda>r. ob_aggregate_id r \<notin> unlogged T lost) (outbox_events T)"
    by (intro filter_cong refl) (auto simp: unlogged_def inj_on_def)
  moreover have "map (projr \<circ> snd \<circ> event_line uuid_text) (filter (\<lambda>r. ob_aggregate_id r \<notin> U) (outbox_events T))
      = map (projr \<circ> snd) (filter (\<lambda>x. fst x \<notin> U) (map (event_line uuid_text) (outbox_events T)))" for U
    by (simp add: filter_map comp_def event_line_def)
  moreover have "map (audit_line uuid_text) (filter (\<lambda>t. tr_id t \<notin> U) (transactions T))
      = map (projr \<circ> snd) (filter (\<lambda>x. fst x \<notin> U) (map (txn_line uuid_text) (transactions T)))" for U
    by (simp add: filter_map comp_def txn_line_def)
  ultimately show ?thesis unfolding E by simp
qed

text \<open>
  The lines of the audit log are lines of transactions, each at most once, and only the lost
  ones are missing once every event is processed.
\<close>

lemma audit_log_sound:
  assumes "recorded uuid_text T" "logged uuid_text T log lost" "distinct (map tr_id (transactions T))"
  shows "mset (map snd log) \<subseteq># mset (map (audit_line uuid_text) (filter (\<lambda>t. tr_id t \<notin> unlogged T lost) (transactions T)))"
    and "ob_event_id ` set (outbox_events T) \<subseteq> fst ` set log \<union> lost \<Longrightarrow>
      mset (map snd log) = mset (map (audit_line uuid_text) (filter (\<lambda>t. tr_id t \<notin> unlogged T lost) (transactions T)))"
proof -
  let ?line = "projr \<circ> snd \<circ> event_line uuid_text"
  let ?rs = "filter (\<lambda>r. ob_event_id r \<in> fst ` set log) (outbox_events T)"
  let ?kept = "filter (\<lambda>r. ob_event_id r \<notin> lost) (outbox_events T)"
  note all = recorded_lines [OF assms(1,3), of lost]
  have apart: "fst ` set log \<inter> lost = {}" using assms(2) by (simp add: logged_def)
  then have "?rs = filter (\<lambda>r. ob_event_id r \<in> fst ` set log) ?kept"
    unfolding filter_filter by (intro filter_cong) auto
  then have "mset ?rs = filter_mset (\<lambda>r. ob_event_id r \<in> fst ` set log) (mset ?kept)" by (simp only: mset_filter)
  then have "mset ?rs \<subseteq># mset ?kept" by (simp only: multiset_filter_subset)
  then have "image_mset ?line (mset ?rs) \<subseteq># image_mset ?line (mset ?kept)" by (rule image_mset_subseteq_mono)
  then show "mset (map snd log) \<subseteq># mset (map (audit_line uuid_text) (filter (\<lambda>t. tr_id t \<notin> unlogged T lost) (transactions T)))"
    unfolding logged_lines [OF assms(1,2)] all [symmetric] by (simp only: mset_map)
  assume "ob_event_id ` set (outbox_events T) \<subseteq> fst ` set log \<union> lost"
  then have "?rs = ?kept" using apart by (intro filter_cong) auto
  then show "mset (map snd log) = mset (map (audit_line uuid_text) (filter (\<lambda>t. tr_id t \<notin> unlogged T lost) (transactions T)))"
    unfolding logged_lines [OF assms(1,2)] all [symmetric] by simp
qed

lemma pipeline_ok_ids: "pipeline_ok uuid_text rw log lost \<Longrightarrow> distinct (map tr_id (transactions (tabs (rw_pg rw))))"
  using reachable_inv by (auto simp: pipeline_ok_def db_inv_def ledger_inv_def transactions_ok_def)

lemma Relay_Run_ok:
  assumes "pipeline_ok uuid_text rw log lost"
  shows "pipeline_ok uuid_text (Relay_Run rs rw) log lost
    \<and> transactions (tabs (rw_pg (Relay_Run rs rw))) = transactions (tabs (rw_pg rw))
    \<and> unlogged (tabs (rw_pg (Relay_Run rs rw))) lost = unlogged (tabs (rw_pg rw)) lost"
  using assms
proof (induction rs rw rule: Relay_Run.induct)
  case (3 env out skip rs rw)
  obtain r rw' where P: "Relay_PollOnce env out skip rw = (r, rw')" by fastforce
  from 3 pipeline_ok_poll [OF 3(2) P] P PollOnce_same_outbox [OF P] unlogged_same_outbox [OF PollOnce_same_outbox [OF P]] show ?case
    by (auto simp: same_outbox_def)
qed simp_all

lemma delivery_of_id:
  assumes "\<forall>i. parse (uuid_text i) = Some i" "delivery_of uuid_text m = delivery_of uuid_text m'"
  shows "msg_MessageId m = msg_MessageId m'"
proof -
  have "uuid_text (msg_MessageId m) = uuid_text (msg_MessageId m')"
    using assms(2) by (simp add: delivery_of_def)
  with assms(1) show ?thesis by (metis option.inject)
qed

lemma Run_events:
  assumes parse: "\<forall>i. parse (uuid_text i) = Some i"
  shows "\<lbrakk>pipeline_ok uuid_text rw log lost; set ds \<subseteq> delivery_of uuid_text ` set (rw_broker rw);
      AuditLog_Run envs parse uuid_text ds \<lparr> cw_pg = rw_pg rw, cw_audit = log \<rparr> = (ss, cw')\<rbrakk> \<Longrightarrow>
    pipeline_ok uuid_text (rw\<lparr>rw_pg := cw_pg cw'\<rparr>) (cw_audit cw') lost \<and> NackDLQ \<notin> set ss
    \<and> fst ` set log \<subseteq> fst ` set (cw_audit cw')
    \<and> (\<forall>k m. k < length ds \<and> ds ! k = delivery_of uuid_text m \<and> no_faults (envs k)
         \<longrightarrow> msg_MessageId m \<in> fst ` set (cw_audit cw') \<union> lost)
    \<and> transactions (tabs (cw_pg cw')) = transactions (tabs (rw_pg rw))
    \<and> outbox_events (tabs (cw_pg cw')) = outbox_events (tabs (rw_pg rw))"
proof (induction ds arbitrary: envs rw log ss)
  case (Cons d ds)
  obtain m where m: "m \<in> set (rw_broker rw)" "d = delivery_of uuid_text m" using Cons.prems(2) by auto
  obtain s cw1 where h: "AuditLog_handle (envs 0) parse uuid_text (delivery_of uuid_text m)
      \<lparr> cw_pg = rw_pg rw, cw_audit = log \<rparr> = (s, cw1)" by fastforce
  obtain ss' where r: "AuditLog_Run (\<lambda>n. envs (Suc n)) parse uuid_text ds cw1 = (ss', cw')" "ss = s # ss'"
    using Cons.prems(3) h m(2) by (auto split: prod.splits)
  let ?rw1 = "rw\<lparr>rw_pg := cw_pg cw1\<rparr>"
  note D = pipeline_ok_deliver [OF parse Cons.prems(1) m(1) h]
  have cw1: "\<lparr> cw_pg = rw_pg ?rw1, cw_audit = cw_audit cw1 \<rparr> = cw1" by simp
  have r1: "AuditLog_Run (\<lambda>n. envs (Suc n)) parse uuid_text ds
      \<lparr> cw_pg = rw_pg ?rw1, cw_audit = cw_audit cw1 \<rparr> = (ss', cw')"
    unfolding cw1 by (rule r(1))
  have IH: "pipeline_ok uuid_text (?rw1\<lparr>rw_pg := cw_pg cw'\<rparr>) (cw_audit cw') lost \<and> NackDLQ \<notin> set ss'
    \<and> fst ` set (cw_audit cw1) \<subseteq> fst ` set (cw_audit cw')
    \<and> (\<forall>k m. k < length ds \<and> ds ! k = delivery_of uuid_text m \<and> no_faults (envs (Suc k))
         \<longrightarrow> msg_MessageId m \<in> fst ` set (cw_audit cw') \<union> lost)
    \<and> transactions (tabs (cw_pg cw')) = transactions (tabs (rw_pg ?rw1))
    \<and> outbox_events (tabs (cw_pg cw')) = outbox_events (tabs (rw_pg ?rw1))"
    by (rule Cons.IH [OF _ _ r1]) (use D(1) Cons.prems(2) in \<open>simp_all\<close>)
  then have grow: "fst ` set (cw_audit cw1) \<subseteq> fst ` set (cw_audit cw')" by (elim conjE)
  have first: "msg_MessageId m' \<in> fst ` set (cw_audit cw') \<union> lost"
    if "d = delivery_of uuid_text m'" "no_faults (envs 0)" for m'
  proof -
    have "msg_MessageId m \<in> fst ` set (cw_audit cw') \<union> lost" using D(4) [OF that(2)] grow by auto
    moreover have "msg_MessageId m' = msg_MessageId m"
      by (rule delivery_of_id [OF parse]) (use that(1) m(2) in simp)
    ultimately show ?thesis by simp
  qed
  have "msg_MessageId m' \<in> fst ` set (cw_audit cw') \<union> lost"
    if "k < length (d # ds)" "(d # ds) ! k = delivery_of uuid_text m'" "no_faults (envs k)" for k m'
  proof (cases k)
    case 0
    with that show ?thesis by (intro first) simp_all
  next
    case (Suc j)
    with that have "j < length ds" "ds ! j = delivery_of uuid_text m'" "no_faults (envs (Suc j))" by simp_all
    with IH show ?thesis by blast
  qed
  then have "\<forall>k m'. k < length (d # ds) \<and> (d # ds) ! k = delivery_of uuid_text m' \<and> no_faults (envs k)
      \<longrightarrow> msg_MessageId m' \<in> fst ` set (cw_audit cw') \<union> lost" by blast
  moreover have "fst ` set log \<subseteq> fst ` set (cw_audit cw')"
    by (rule subset_trans [OF D(3) grow])
  moreover have "transactions (tabs (cw_pg cw1)) = transactions (tabs (rw_pg rw))"
    "outbox_events (tabs (cw_pg cw1)) = outbox_events (tabs (rw_pg rw))"
    using D(5) by auto
  moreover have "NackDLQ \<notin> set ss" using D(2) IH by (simp add: r(2))
  moreover have "rw\<lparr>rw_pg := cw_pg cw'\<rparr> = ?rw1\<lparr>rw_pg := cw_pg cw'\<rparr>" "rw_pg ?rw1 = cw_pg cw1" by simp_all
  ultimately show ?case using IH by simp
qed auto

text \<open>
  C21 liveness. Every recorded transaction is audited exactly once, unless its line was lost in
  a crash of the consumer. From any state of the system, whatever failed, was repeated or was
  reordered on the way there: the audit log is part of the lines of the transactions whose event
  is not lost; and once, for long enough, the polls and the broker work, the worker is not
  stopped and every message of the audit queue is delivered at least once while the database
  answers (any number of times, in any order, the other deliveries failing or not), the log
  holds one line for each of these transactions, with its type, and no other line, and no
  message goes to the dead-letter queue. While no crash came between a row of processed_events
  and its line, no event is lost and this is one line for every transaction.
\<close>

theorem every_transaction_audited:
  assumes parse: "\<forall>i. parse (uuid_text i) = Some i"
    and run: "pipeline parse uuid_text rw log lost"
    and live: "\<forall>r \<in> set rs. live_round r"
      "length (unpublished {} (outbox_events (tabs (rw_pg rw)))) \<le> 50 * length rs"
    and topology: "DeclareTopology answer T = (Inr (), T')"
    and queue: "set ds \<subseteq> delivery_of uuid_text ` set (rw_broker (Relay_Run rs rw))"
      "\<forall>m \<in> set (rw_broker (Relay_Run rs rw)). QueueAuditLog \<in> delivered_to T' m \<longrightarrow>
         (\<exists>k < length ds. ds ! k = delivery_of uuid_text m \<and> no_faults (envs k))"
    and consume: "AuditLog_Run envs parse uuid_text ds
         \<lparr> cw_pg = rw_pg (Relay_Run rs rw), cw_audit = log \<rparr> = (ss, cw')"
  shows "mset (map snd log) \<subseteq># mset (map (audit_line uuid_text)
           (filter (\<lambda>t. tr_id t \<notin> unlogged (tabs (rw_pg rw)) lost) (transactions (tabs (rw_pg rw)))))
    \<and> mset (map snd (cw_audit cw')) = mset (map (audit_line uuid_text)
           (filter (\<lambda>t. tr_id t \<notin> unlogged (tabs (rw_pg rw)) lost) (transactions (tabs (rw_pg rw)))))
    \<and> (lost = {} \<longrightarrow>
         mset (map snd (cw_audit cw')) = mset (map (audit_line uuid_text) (transactions (tabs (rw_pg rw)))))
    \<and> NackDLQ \<notin> set ss"
proof -
  let ?rw = "Relay_Run rs rw"
  let ?T = "tabs (rw_pg ?rw)"
  let ?lines = "\<lambda>T. mset (map (audit_line uuid_text) (filter (\<lambda>t. tr_id t \<notin> unlogged T lost) (transactions T)))"
  have ok: "pipeline_ok uuid_text rw log lost" by (rule pipeline_pipeline_ok [OF parse run])
  note R = Relay_Run_ok [OF ok, of rs]
  note C = Run_events [OF parse conjunct1 [OF R] queue(1) consume]
  have ok': "pipeline_ok uuid_text (?rw\<lparr>rw_pg := cw_pg cw'\<rparr>) (cw_audit cw') lost" using C by (elim conjE)
  have "unpublished {} (outbox_events ?T) = []"
    using Relay_Run_sends [OF _ live(1)] ok live(2) by (simp add: pipeline_ok_def relay_ok_def)
  from drained [OF this] have sent: "ob_event_id ` set (outbox_events ?T) \<subseteq> at_broker ?rw"
    using R by (auto simp: pipeline_ok_def relay_ok_def)
  have "msg_MessageId m \<in> fst ` set (cw_audit cw') \<union> lost" if m: "m \<in> set (rw_broker ?rw)" for m
  proof -
    obtain e where "e \<in> set (outbox_events ?T)" "m = message_of (out_row_of e)"
      using R m unfolding pipeline_ok_def broker_true_def event_message_def by blast
    then have "QueueAuditLog \<in> delivered_to T' m"
      using events_reach_audit_queue [OF _ topology, of "rw_pg ?rw" e] R by (simp add: pipeline_ok_def)
    with queue(2) m C show ?thesis by blast
  qed
  then have "at_broker ?rw \<subseteq> fst ` set (cw_audit cw') \<union> lost" by (auto simp: at_broker_def)
  with sent have "ob_event_id ` set (outbox_events ?T) \<subseteq> fst ` set (cw_audit cw') \<union> lost" by (rule subset_trans)
  with audit_log_sound(2) [OF pipeline_ok_recorded [OF ok'] _ pipeline_ok_ids [OF ok']] ok' C
  have "mset (map snd (cw_audit cw')) = ?lines (tabs (cw_pg cw'))" by (simp add: pipeline_ok_def)
  moreover have "unlogged (tabs (cw_pg cw')) lost = unlogged ?T lost"
    using C unfolding unlogged_def by simp
  moreover have "unlogged ?T lost = unlogged (tabs (rw_pg rw)) lost"
    "transactions (tabs (cw_pg cw')) = transactions (tabs (rw_pg rw))"
    using C R by simp_all
  ultimately have all: "mset (map snd (cw_audit cw')) = ?lines (tabs (rw_pg rw))" by simp
  moreover have "mset (map snd log) \<subseteq># ?lines (tabs (rw_pg rw))"
    using audit_log_sound(1) [OF pipeline_ok_recorded [OF ok] _ pipeline_ok_ids [OF ok]] ok
    by (simp add: pipeline_ok_def)
  moreover have "NackDLQ \<notin> set ss" using C by (elim conjE)
  ultimately show ?thesis by simp
qed

section \<open>What a crash of the consumer loses\<close>

text \<open>
  The row of processed_events is committed before the line is written: when the worker stops
  between the two, every later delivery of the event is acknowledged as already done, and no
  run writes its line.
\<close>

lemma crash_loses_line:
  "\<lbrakk>i \<in> processed_ids cw; i \<notin> fst ` set (cw_audit cw);
    AuditLog_Run envs parse uuid_text ds cw = (ss, cw')\<rbrakk> \<Longrightarrow> i \<notin> fst ` set (cw_audit cw')"
proof (induction ds arbitrary: envs cw ss)
  case (Cons d ds)
  obtain s cw1 where h: "AuditLog_handle (envs 0) parse uuid_text d cw = (s, cw1)" by fastforce
  obtain ss' where r: "AuditLog_Run (\<lambda>n. envs (Suc n)) parse uuid_text ds cw1 = (ss', cw')"
    using Cons.prems(3) h by (auto split: prod.splits)
  from handle_cases [OF h] have "i \<in> processed_ids cw1 \<and> i \<notin> fst ` set (cw_audit cw1)"
    using Cons.prems(1,2) by (auto simp: processed_ids_def simp flip: set_map)
  with Cons.IH [OF _ _ r] show ?case by blast
qed simp

text \<open>
  A registered user tops up; the relay publishes the event; its message arrives twice. The
  texts of the UUIDs are decimal.
\<close>

definition demo_uuid_text :: "uuid \<Rightarrow> string" where
  "demo_uuid_text i = decimal (unat i)"

definition demo_parse :: "string \<Rightarrow> uuid option" where
  "demo_parse s = map_option of_nat (read_digits 0 s)"

lemma demo_parse_text: "\<forall>i. demo_parse (demo_uuid_text i) = Some i"
  by (simp add: demo_parse_def demo_uuid_text_def read_digits_decimal_0)

lemma demo_pipeline:
  "\<exists>rw. pipeline demo_parse demo_uuid_text rw [] {} \<and> length (transactions (tabs (rw_pg rw))) = 1
     \<and> length (unpublished {} (outbox_events (tabs (rw_pg rw)))) = 1"
proof -
  obtain res w' where P: "LedgerRepo_Post demo_env demo_topup demo_claim demo_registered = (Inr res, w')"
    using demo_posts by blast
  have d: "distinct (map acc_ID (accounts (tabs demo_registered)))"
    using reachable_inv [OF demo_registered_reachable] by (simp add: db_inv_def ledger_inv_def accounts_ok_def)
  define rw0 where "rw0 = \<lparr> rw_pg = demo_registered, rw_broker = [], rw_sends = 0 \<rparr>"
  have s: "pipeline demo_parse demo_uuid_text rw0 [] {}"
    unfolding rw0_def
    by (rule pipeline.started [OF demo_registered_reachable])
      (simp_all add: demo_registered_def migrated_tables_def)
  have "LedgerRepo_Post demo_env demo_topup demo_claim (rw_pg rw0) = (Inr res, w')"
    using P by (simp add: rw0_def)
  from pipeline.post [OF s this demo_typed]
  have p: "pipeline demo_parse demo_uuid_text (rw0\<lparr>rw_pg := w'\<rparr>) [] {}" .
  from LedgerRepo_Post_sound [OF P d demo_typed] obtain tid eid where
    "tabs w' = posted_tables demo_env tid eid (seqs demo_registered) demo_topup demo_claim (tabs demo_registered)"
    by metis
  then have "length (transactions (tabs w')) = 1 \<and> length (unpublished {} (outbox_events (tabs w'))) = 1"
    by (simp add: posted_tables_def Let_def demo_registered_def migrated_tables_def unpublished_def
        new_outbox_row_def mark_original_def demo_topup_def NewTopup_def)
  with p show ?thesis by (intro exI [of _ "rw0\<lparr>rw_pg := w'\<rparr>"]) simp
qed

theorem every_transaction_audited_witness:
  "\<exists>rw ss (log :: (uuid \<times> posted_payload) list). pipeline demo_parse demo_uuid_text rw [] {} \<and> length (transactions (tabs (rw_pg rw))) = 1
     \<and> mset (map snd log) = mset (map (audit_line demo_uuid_text) (transactions (tabs (rw_pg rw))))
     \<and> NackDLQ \<notin> set ss"
proof -
  obtain rw where rw: "pipeline demo_parse demo_uuid_text rw [] {}" "length (transactions (tabs (rw_pg rw))) = 1"
    "length (unpublished {} (outbox_events (tabs (rw_pg rw)))) = 1" using demo_pipeline by blast
  let ?rs = "[PollTick demo_env (\<lambda>n. Acked) {}]"
  let ?ds = "map (delivery_of demo_uuid_text) (rw_broker (Relay_Run ?rs rw))"
  obtain ss cw' where C: "AuditLog_Run (\<lambda>n. demo_env) demo_parse demo_uuid_text (?ds @ ?ds)
      \<lparr> cw_pg = rw_pg (Relay_Run ?rs rw), cw_audit = [] \<rparr> = (ss, cw')" by fastforce
  obtain T' where T: "DeclareTopology (\<lambda>d. None) [] = (Inr (), T')"
    by (simp add: DeclareTopology_def bindP_def declare_step_def)
  have q: "\<exists>k < length (?ds @ ?ds). (?ds @ ?ds) ! k = delivery_of demo_uuid_text m \<and> no_faults demo_env"
    if "m \<in> set (rw_broker (Relay_Run ?rs rw))" for m
  proof -
    have "delivery_of demo_uuid_text m \<in> set (?ds @ ?ds)" using that by simp
    then show ?thesis unfolding in_set_conv_nth by (auto simp del: append.simps)
  qed
  have D: "mset (map snd (cw_audit cw')) = mset (map (audit_line demo_uuid_text) (transactions (tabs (rw_pg rw))))
     \<and> NackDLQ \<notin> set ss"
    using every_transaction_audited [OF demo_parse_text rw(1) _ _ T _ _ C] q rw(3) by simp
  show ?thesis
    by (intro exI [of _ rw] exI [of _ ss] exI [of _ "cw_audit cw'"] conjI rw(1,2) D [THEN conjunct1]
        D [THEN conjunct2])
qed

end
