(* ===== verification/Dto.thy ===== *)
theory Dto
  imports AuthService LedgerService
begin

text \<open>
  internal/transport/http/dto.go: reading request bodies, the checks on request values, and
  the response values. JSON text is read by \<open>encoding/json\<close>: its tokenizer is the parameter
  \<open>lex\<close>, which is given the bytes of the body (cut at one megabyte) and the error the reader
  returns after them, and yields a value, a syntax error or a read error. What \<open>Decode\<close> does
  with the value - matching the members with the fields of the struct, unknown members, wrong
  types, the first error wins - is written out.
\<close>

section \<open>JSON values into structs\<close>

text \<open>Numbers keep their text; an object keeps its members in order, duplicates included.\<close>

datatype jvalue = VNull | VBool bool | VNum string | VStr string | VArr "jvalue list"
  | VObj "(string \<times> jvalue) list"

datatype lexed =
    Value jvalue string  \<comment> \<open>the first value of the body, and the bytes after it\<close>
  | BadSyntax            \<comment> \<open>\<open>*json.SyntaxError\<close>\<close>
  | ReadFailed err       \<comment> \<open>the reader's error, \<open>io.EOF\<close> or \<open>io.ErrUnexpectedEOF\<close>\<close>

definition io_EOF :: err where "io_EOF = NewError ''EOF''"

definition maxBodyBytes :: nat where "maxBodyBytes = 1048576"

text \<open>
  The body of a request: its bytes and the error of the connection after them, if any. Read
  through \<open>http.MaxBytesReader\<close>, a body above the limit ends in \<open>*http.MaxBytesError\<close>.
\<close>

record body =
  bd_bytes :: string
  bd_err :: "err option"

definition limited :: "body \<Rightarrow> body" where
  "limited b =
     (if length (bd_bytes b) > maxBodyBytes
      then \<lparr> bd_bytes = take maxBodyBytes (bd_bytes b), bd_err = Some MaxBytesError \<rparr> else b)"

text \<open>\<open>io.ReadAll\<close>.\<close>

definition ReadAll :: "body \<Rightarrow> string result" where
  "ReadAll b = (case bd_err b of Some e \<Rightarrow> Inl e | None \<Rightarrow> Inr (bd_bytes b))"

record json_lib =
  jl_lex :: "body \<Rightarrow> lexed"
  jl_same_name :: "string \<Rightarrow> string \<Rightarrow> bool"   \<comment> \<open>member names equal up to case\<close>
  jl_quote :: "string \<Rightarrow> string"                \<comment> \<open>\<open>strconv.Quote\<close>\<close>

datatype field_kind = FString | FInt64

datatype fvalue = StringV string | IntV int64

datatype decode_error = TypeError string | UnknownField string

text \<open>
  A field: its JSON name, the path that an \<open>UnmarshalTypeError\<close> names, its kind. A value may
  be absent, which is Go's zero value of the kind.
\<close>

type_synonym fields = "(string \<times> string \<times> field_kind) list"

definition find_field :: "json_lib \<Rightarrow> fields \<Rightarrow> string \<Rightarrow> (string \<times> string \<times> field_kind) option" where
  "find_field jl fs name =
     (case List.find (\<lambda>f. fst f = name) fs of
        Some f \<Rightarrow> Some f
      | None \<Rightarrow> List.find (\<lambda>f. jl_same_name jl (fst f) name) fs)"

definition decode_field :: "string \<Rightarrow> field_kind \<Rightarrow> jvalue \<Rightarrow> decode_error + fvalue option" where
  "decode_field path kind v =
     (case (kind, v) of
        (_, VNull) \<Rightarrow> Inr None
      | (FString, VStr s) \<Rightarrow> Inr (Some (StringV s))
      | (FInt64, VNum lit) \<Rightarrow>
          (case ParseInt lit of None \<Rightarrow> Inl (TypeError path) | Some n \<Rightarrow> Inr (Some (IntV n)))
      | _ \<Rightarrow> Inl (TypeError path))"

fun decode_members ::
    "json_lib \<Rightarrow> fields \<Rightarrow> (string \<times> jvalue) list \<Rightarrow> (string \<Rightarrow> fvalue option) \<Rightarrow> decode_error option
     \<Rightarrow> (string \<Rightarrow> fvalue option) \<times> decode_error option" where
  "decode_members jl fs [] dst err = (dst, err)"
| "decode_members jl fs ((name, v) # ms) dst err =
     (let keep = (\<lambda>e. case err of Some e0 \<Rightarrow> Some e0 | None \<Rightarrow> Some e)
      in case find_field jl fs name of
           None \<Rightarrow> decode_members jl fs ms dst (keep (UnknownField name))
         | Some (n, path, kind) \<Rightarrow>
             (case decode_field path kind v of
                Inl e \<Rightarrow> decode_members jl fs ms dst (keep e)
              | Inr None \<Rightarrow> decode_members jl fs ms dst err
              | Inr (Some x) \<Rightarrow> decode_members jl fs ms (dst(n \<mapsto> x)) err))"

definition decode_struct :: "json_lib \<Rightarrow> fields \<Rightarrow> jvalue \<Rightarrow> (string \<Rightarrow> fvalue option) \<times> decode_error option" where
  "decode_struct jl fs v =
     (case v of
        VObj ms \<Rightarrow> decode_members jl fs ms (\<lambda>n. None) None
      | VNull \<Rightarrow> (\<lambda>n. None, None)
      | _ \<Rightarrow> (\<lambda>n. None, Some (TypeError '''')))"

text \<open>\<open>strings.Trim(s, "\"")\<close>.\<close>

definition trim_quotes :: "string \<Rightarrow> string" where
  "trim_quotes s = rev (dropWhile (\<lambda>c. c = CHR 0x22) (rev (dropWhile (\<lambda>c. c = CHR 0x22) s)))"

text \<open>
  \<open>dec.More()\<close> after a value at the top level: the next byte that is no white space neither ends
  an array nor an object. Where no byte follows, or the reader fails, there is no more.
\<close>

definition json_space :: "char \<Rightarrow> bool" where
  "json_space c \<longleftrightarrow> c \<in> {CHR 0x20, CHR 0x09, CHR 0x0D, CHR 0x0A}"

definition dec_More :: "string \<Rightarrow> bool" where
  "dec_More rest = (case dropWhile json_space rest of [] \<Rightarrow> False | c # cs \<Rightarrow> c \<noteq> CHR '']'' \<and> c \<noteq> CHR ''}'')"

definition decodeJSON :: "json_lib \<Rightarrow> fields \<Rightarrow> body \<Rightarrow> (string \<Rightarrow> fvalue option) result" where
  "decodeJSON jl fs b =
     (case jl_lex jl (limited b) of
        ReadFailed e \<Rightarrow>
          if errors_As_MaxBytes e then Inl e
          else if errors_Is e io_EOF then Inl (ValidationError [(''body'', ''wajib'')])
          else Inl (ValidationError [(''body'', ''tidak bisa dibaca'')])
      | BadSyntax \<Rightarrow> Inl (ValidationError [(''body'', ''JSON tidak valid'')])
      | Value v rest \<Rightarrow>
          (case decode_struct jl fs v of
             (dst, Some (TypeError path)) \<Rightarrow> Inl (ValidationError [(path, ''tipe data salah'')])
           | (dst, Some (UnknownField name)) \<Rightarrow>
               Inl (ValidationError [(''body'', ''field tidak dikenal: '' @ trim_quotes (jl_quote jl name))])
           | (dst, None) \<Rightarrow>
               if dec_More rest then Inl (ValidationError [(''body'', ''hanya satu objek JSON'')]) else Inr dst))"

definition str_of :: "(string \<Rightarrow> fvalue option) \<Rightarrow> string \<Rightarrow> string" where
  "str_of dst name = (case dst name of Some (StringV s) \<Rightarrow> s | _ \<Rightarrow> [])"

definition int_of :: "(string \<Rightarrow> fvalue option) \<Rightarrow> string \<Rightarrow> int64" where
  "int_of dst name = (case dst name of Some (IntV n) \<Rightarrow> n | _ \<Rightarrow> 0)"

section \<open>Requests\<close>

definition map_result :: "('a \<Rightarrow> 'b) \<Rightarrow> 'a result \<Rightarrow> 'b result" where
  "map_result f r = (case r of Inl e \<Rightarrow> Inl e | Inr a \<Rightarrow> Inr (f a))"

definition registerRequest_fields :: fields where
  "registerRequest_fields =
     [(''email'', ''email'', FString), (''password'', ''password'', FString), (''full_name'', ''full_name'', FString)]"

definition decode_register :: "json_lib \<Rightarrow> body \<Rightarrow> register_input result" where
  "decode_register jl b = map_result (\<lambda>d. \<lparr> ri_Email = str_of d ''email'', ri_Password = str_of d ''password'',
       ri_FullName = str_of d ''full_name'' \<rparr>) (decodeJSON jl registerRequest_fields b)"

record loginRequest =
  lr_Email :: string
  lr_Password :: string

definition loginRequest_fields :: fields where
  "loginRequest_fields = [(''email'', ''email'', FString), (''password'', ''password'', FString)]"

definition decode_login :: "json_lib \<Rightarrow> body \<Rightarrow> loginRequest result" where
  "decode_login jl b = map_result (\<lambda>d. \<lparr> lr_Email = str_of d ''email'', lr_Password = str_of d ''password'' \<rparr>)
     (decodeJSON jl loginRequest_fields b)"

definition loginRequest_validate :: "loginRequest \<Rightarrow> err option" where
  "loginRequest_validate r =
     NewValidationError
       ((if TrimSpace (lr_Email r) = [] then [(''email'', ''wajib'')] else [])
        @ (if lr_Password r = [] then [(''password'', ''wajib'')] else []))"

definition refreshRequest_fields :: fields where
  "refreshRequest_fields = [(''refresh_token'', ''refresh_token'', FString)]"

text \<open>A refreshRequest is its only field.\<close>

definition decode_refresh :: "json_lib \<Rightarrow> body \<Rightarrow> string result" where
  "decode_refresh jl b = map_result (\<lambda>d. str_of d ''refresh_token'') (decodeJSON jl refreshRequest_fields b)"

definition refreshRequest_validate :: "string \<Rightarrow> err option" where
  "refreshRequest_validate token =
     (if token = [] then NewValidationError [(''refresh_token'', ''wajib'')] else None)"

record moneyRequest =
  mq_AmountSen :: int64
  mq_Description :: string

definition moneyRequest_fields :: fields where
  "moneyRequest_fields = [(''amount_sen'', ''amount_sen'', FInt64), (''description'', ''description'', FString)]"

definition decode_money :: "json_lib \<Rightarrow> body \<Rightarrow> moneyRequest result" where
  "decode_money jl b = map_result (\<lambda>d. \<lparr> mq_AmountSen = int_of d ''amount_sen'', mq_Description = str_of d ''description'' \<rparr>)
     (decodeJSON jl moneyRequest_fields b)"

definition money_faults :: "int64 \<Rightarrow> string \<Rightarrow> (string \<times> string) list" where
  "money_faults amount description =
     (if amount \<le> 0 then [(''amount_sen'', ''harus lebih dari nol'')] else [])
     @ (if length description > 255 then [(''description'', ''maksimal 255 karakter'')] else [])"

definition moneyRequest_validate :: "moneyRequest \<Rightarrow> err option" where
  "moneyRequest_validate r = NewValidationError (money_faults (mq_AmountSen r) (mq_Description r))"

text \<open>
  transferRequest embeds moneyRequest; the paths of its promoted fields name the embedded
  struct.
\<close>

record transferRequest = moneyRequest +
  mq_ToAccountPublicID :: string

definition transferRequest_fields :: fields where
  "transferRequest_fields =
     [(''amount_sen'', ''moneyRequest.amount_sen'', FInt64), (''description'', ''moneyRequest.description'', FString),
      (''to_account_public_id'', ''to_account_public_id'', FString)]"

definition decode_transfer :: "json_lib \<Rightarrow> body \<Rightarrow> transferRequest result" where
  "decode_transfer jl b = map_result (\<lambda>d. \<lparr> mq_AmountSen = int_of d ''amount_sen'', mq_Description = str_of d ''description'',
       mq_ToAccountPublicID = str_of d ''to_account_public_id'' \<rparr>)
     (decodeJSON jl transferRequest_fields b)"

text \<open>\<open>uuid.Parse\<close> of google/uuid is the parameter \<open>parse\<close>.\<close>

definition transferRequest_validate :: "(string \<Rightarrow> uuid option) \<Rightarrow> transferRequest \<Rightarrow> uuid result" where
  "transferRequest_validate parse r =
     (case NewValidationError (money_faults (mq_AmountSen r) (mq_Description r)
             @ (if parse (mq_ToAccountPublicID r) = None then [(''to_account_public_id'', ''harus UUID'')] else [])) of
        Some e \<Rightarrow> Inl e
      | None \<Rightarrow> Inr (the (parse (mq_ToAccountPublicID r))))"

definition reverseRequest_fields :: fields where
  "reverseRequest_fields = [(''description'', ''description'', FString)]"

text \<open>A reverseRequest is its only field.\<close>

definition decode_reverse :: "json_lib \<Rightarrow> body \<Rightarrow> string result" where
  "decode_reverse jl b = map_result (\<lambda>d. str_of d ''description'') (decodeJSON jl reverseRequest_fields b)"

definition reverseRequest_validate :: "string \<Rightarrow> err option" where
  "reverseRequest_validate description =
     (if length description > 255 then NewValidationError [(''description'', ''maksimal 255 karakter'')] else None)"

section \<open>Responses\<close>

record userResponse =
  ur_PublicID :: uuid
  ur_Email :: string
  ur_FullName :: string
  ur_Role :: string
  ur_CreatedAt :: time

definition toUserResponse :: "user \<Rightarrow> userResponse" where
  "toUserResponse u =
     \<lparr> ur_PublicID = usr_PublicID u, ur_Email = usr_Email u, ur_FullName = usr_FullName u,
       ur_Role = usr_Role u, ur_CreatedAt = usr_CreatedAt u \<rparr>"

record accountResponse =
  ar_PublicID :: uuid
  ar_Type :: string
  ar_Status :: string
  ar_Currency :: string
  ar_BalanceSen :: int64
  ar_UpdatedAt :: time

definition toAccountResponse :: "account \<Rightarrow> accountResponse" where
  "toAccountResponse a =
     \<lparr> ar_PublicID = acc_PublicID a, ar_Type = acc_Type a, ar_Status = acc_Status a, ar_Currency = ''IDR'',
       ar_BalanceSen = acc_Balance a, ar_UpdatedAt = acc_UpdatedAt a \<rparr>"

record registerResponse =
  gr_User :: userResponse
  gr_Wallet :: accountResponse

record tokenResponse =
  kr_AccessToken :: string
  kr_TokenType :: string
  kr_AccessExpiresAt :: time
  kr_RefreshToken :: string
  kr_RefreshExpiresAt :: time

definition toTokenResponse :: "token_pair \<Rightarrow> tokenResponse" where
  "toTokenResponse p =
     \<lparr> kr_AccessToken = tp_AccessToken p, kr_TokenType = ''Bearer'', kr_AccessExpiresAt = tp_AccessExpiresAt p,
       kr_RefreshToken = tp_RefreshToken p, kr_RefreshExpiresAt = tp_RefreshExpiresAt p \<rparr>"

record entryResponse =
  nr_ID :: int64
  nr_TransactionID :: uuid
  nr_AccountPublicID :: uuid
  nr_AccountType :: string
  nr_Direction :: string
  nr_AmountSen :: int64
  nr_BalanceAfterSen :: "int64 option"
  nr_TxnType :: string
  nr_Description :: string
  nr_CreatedAt :: time

definition toEntryResponse :: "posted_entry \<Rightarrow> bool \<Rightarrow> entryResponse" where
  "toEntryResponse e visible =
     \<lparr> nr_ID = pe_ID e, nr_TransactionID = pe_TransactionID e, nr_AccountPublicID = pe_AccountPublicID e,
       nr_AccountType = pe_AccountType e, nr_Direction = pe_Direction e, nr_AmountSen = pe_Amount e,
       nr_BalanceAfterSen = (if visible then Some (pe_BalanceAfter e) else None),
       nr_TxnType = pe_TxnType e, nr_Description = pe_Description e, nr_CreatedAt = pe_CreatedAt e \<rparr>"

record transactionResponse =
  xr_TransactionID :: uuid
  xr_Type :: string
  xr_Status :: string
  xr_Description :: string
  xr_AmountSen :: int64
  xr_FeeSen :: int64
  xr_ReversesID :: "uuid option"
  xr_CreatedAt :: time
  xr_Entries :: "entryResponse list"

text \<open>The loop of \<open>toTransactionResponse\<close> over the entries, with \<open>amount_sen\<close> and \<open>fee_sen\<close> so far.\<close>

fun render_entries ::
    "txn_type \<Rightarrow> int64 option \<Rightarrow> posted_entry list \<Rightarrow> int64 \<Rightarrow> int64 \<Rightarrow> entryResponse list
     \<Rightarrow> int64 \<times> int64 \<times> entryResponse list" where
  "render_entries typ viewer [] amount fee out = (amount, fee, out)"
| "render_entries typ viewer (e # es) amount fee out =
     (let visible = (case viewer of None \<Rightarrow> True | Some v \<Rightarrow> pe_AccountID e = v);
          out' = out @ [toEntryResponse e visible]
      in if pe_AccountType e = AccountSystemFeeRevenue
         then render_entries typ viewer es amount (wrap64 (fee + pe_Amount e)) out'
         else if pe_AccountType e = AccountUserWallet
              \<and> (typ \<noteq> TxnTransfer \<or> pe_Direction e = DirectionCredit)
         then render_entries typ viewer es (pe_Amount e) fee out'
         else render_entries typ viewer es amount fee out')"

definition toTransactionResponse :: "post_result \<Rightarrow> transactionResponse" where
  "toTransactionResponse p =
     (let t = pr_Transaction p;
          (amount, fee, es) = render_entries (txn_Type t) (pr_ViewerAccountID p) (pr_Entries p) 0 0 []
      in \<lparr> xr_TransactionID = txn_ID t, xr_Type = txn_Type t, xr_Status = txn_Status t,
           xr_Description = txn_Description t, xr_AmountSen = amount, xr_FeeSen = fee,
           xr_ReversesID = txn_ReversesID t, xr_CreatedAt = txn_CreatedAt t, xr_Entries = es \<rparr>)"

record trialBalanceResponse =
  br_TotalDebitSen :: int64
  br_TotalCreditSen :: int64
  br_DifferenceSen :: int64
  br_EntryCount :: int64
  br_Balanced :: bool

section \<open>The text of a validation error (validation.go)\<close>

text \<open>\<open>sort.Strings\<close> compares the bytes; the keys of a map are distinct.\<close>

fun str_le :: "string \<Rightarrow> string \<Rightarrow> bool" where
  "str_le [] t \<longleftrightarrow> True"
| "str_le (c # s) [] \<longleftrightarrow> False"
| "str_le (c # s) (d # t) \<longleftrightarrow> (of_char c :: nat) < of_char d \<or> c = d \<and> str_le s t"

primrec insert_field :: "string \<times> string \<Rightarrow> (string \<times> string) list \<Rightarrow> (string \<times> string) list" where
  "insert_field f [] = [f]"
| "insert_field f (g # gs) = (if str_le (fst f) (fst g) then f # g # gs else g # insert_field f gs)"

definition ValidationError_Error :: "(string \<times> string) list \<Rightarrow> string" where
  "ValidationError_Error fs =
     (let parts = map (\<lambda>(k, v). k @ '': '' @ v) (foldr insert_field fs [])
      in ''permintaan tidak valid: '' @ (case parts of [] \<Rightarrow> [] | p # ps \<Rightarrow> p @ concat (map (\<lambda>q. ''; '' @ q) ps)))"

lemma str_le_total: "str_le s t \<or> str_le t s"
  by (induction s t rule: str_le.induct) (auto simp: nat_neq_iff)

lemma insert_field_set: "set (insert_field f gs) = insert f (set gs)"
  by (induction gs) auto

lemma str_le_trans: "\<lbrakk>str_le s t; str_le t u\<rbrakk> \<Longrightarrow> str_le s u"
proof (induction s t arbitrary: u rule: str_le.induct)
  case (3 c s d t)
  then show ?case by (cases u) auto
qed simp_all

text \<open>The order of the fields in the text does not depend on the map's iteration order.\<close>

lemma insert_field_sorted:
  "sorted_wrt (\<lambda>a b. str_le (fst a) (fst b)) gs \<Longrightarrow> sorted_wrt (\<lambda>a b. str_le (fst a) (fst b)) (insert_field f gs)"
proof (induction gs)
  case (Cons g gs)
  then show ?case
    using str_le_total [of "fst f" "fst g"] by (auto simp: insert_field_set intro: str_le_trans)
qed simp

lemma ValidationError_fields_sorted:
  "sorted_wrt (\<lambda>a b. str_le (fst a) (fst b)) (foldr insert_field fs []) \<and> set (foldr insert_field fs []) = set fs"
  by (induction fs) (auto simp: insert_field_set insert_field_sorted)

end
