(* ===== verification/Http.thy ===== *)
theory Http
  imports Dto Jwt Config
begin

text \<open>
  internal/transport/http: errors to responses (response.go), the world a request runs in, and
  the middleware (middleware.go). The handlers and the router are in theory Router.

  A handler maps the context values, the request and the world to an ending and the world it
  leaves. The ending is the response, or a panic that unwinds through the handler with the
  headers it has set on the writer. Middleware maps handlers to handlers. What
  one request draws from outside is a \<open>call\<close>: the clock, random bytes, the faults of the
  database, the answer of a ping. Routing of paths (chi) and reading the remote address (\<open>net.SplitHostPort\<close>) are
  parameters.
\<close>

section \<open>Responses (response.go)\<close>

record errorBody =
  eb_Code :: string
  eb_Message :: string
  eb_Fields :: "(string \<times> string) list"   \<comment> \<open>empty is \<open>null\<close>\<close>
  eb_RequestID :: string

datatype data =
    DUser registerResponse | DToken tokenResponse | DAccount accountResponse
  | DTransaction transactionResponse | DTrialBalance trialBalanceResponse

datatype payload =
    Empty
  | Text string                              \<comment> \<open>plain text of \<open>http.Error\<close> or \<open>w.Write\<close>\<close>
  | DataEnvelope data
  | PageEnvelope "entryResponse list" "string option"
  | ErrorEnvelope errorBody

record response =
  rs_status :: int
  rs_header :: "(string \<times> string) list"     \<comment> \<open>in the order they are set; the last one counts\<close>
  rs_body :: payload

definition writeJSON :: "int \<Rightarrow> payload \<Rightarrow> response" where
  "writeJSON status v =
     \<lparr> rs_status = status, rs_header = [(''Content-Type'', ''application/json; charset=utf-8'')], rs_body = v \<rparr>"

definition writeData :: "int \<Rightarrow> data \<Rightarrow> response" where
  "writeData status d = writeJSON status (DataEnvelope d)"

definition writePage :: "entryResponse list \<Rightarrow> string \<Rightarrow> response" where
  "writePage es nextCursor =
     writeJSON 200 (PageEnvelope es (if nextCursor \<noteq> [] then Some nextCursor else None))"

record apiError =
  ae_status :: int
  ae_code :: string
  ae_message :: string
  ae_fields :: "(string \<times> string) list"

definition api_error :: "int \<Rightarrow> string \<Rightarrow> string \<Rightarrow> apiError" where
  "api_error status code message =
     \<lparr> ae_status = status, ae_code = code, ae_message = message, ae_fields = [] \<rparr>"

text \<open>
  The \<open>switch\<close> of \<open>mapError\<close> as the list of its cases after the first two, each with the
  targets of its \<open>errors.Is\<close>; the third case shows the text of the error itself, which
  \<open>text\<close> renders (\<open>err.Error()\<close>).
\<close>

definition error_cases :: "(err list \<times> int \<times> string \<times> string) list" where
  "error_cases =
     [([ErrIdempotencyKeyRequired], 400, ''IDEMPOTENCY_KEY_REQUIRED'', ''header Idempotency-Key wajib untuk operasi uang''),
      ([ErrInvalidCredentials, ErrInvalidToken, ErrUnauthenticated], 401, ''UNAUTHENTICATED'', ''autentikasi gagal''),
      ([ErrForbidden], 403, ''FORBIDDEN'', ''tidak berhak melakukan operasi ini''),
      ([ErrAccountNotFound], 404, ''ACCOUNT_NOT_FOUND'', ''akun tidak ditemukan''),
      ([ErrTransactionNotFound], 404, ''TRANSACTION_NOT_FOUND'', ''transaksi tidak ditemukan''),
      ([ErrUserNotFound, ErrNotFound], 404, ''NOT_FOUND'', ''data tidak ditemukan''),
      ([ErrEmailTaken], 409, ''EMAIL_TAKEN'', ''email sudah terdaftar''),
      ([ErrIdempotencyConflict], 409, ''IDEMPOTENCY_CONFLICT'', ''idempotency key sudah dipakai dengan isi permintaan berbeda''),
      ([ErrIdempotencyInFlight], 409, ''IDEMPOTENCY_IN_FLIGHT'', ''permintaan dengan key sama sedang diproses, coba lagi''),
      ([ErrAlreadyReversed, ErrNotReversible], 409, ''ALREADY_REVERSED'', ''transaksi sudah dibalik atau tidak bisa dibalik''),
      ([ErrConcurrentModification], 409, ''CONCURRENT_MODIFICATION'', ''data berubah oleh proses lain, coba lagi''),
      ([ErrInsufficientBalance], 422, ''INSUFFICIENT_BALANCE'', ''saldo tidak mencukupi''),
      ([ErrAccountNotActive], 422, ''ACCOUNT_NOT_ACTIVE'', ''akun tidak aktif''),
      ([ErrSelfTransfer], 422, ''SELF_TRANSFER'', ''tidak bisa transfer ke akun sendiri''),
      ([ErrAmountOutOfRange, ErrAmountNotPositive, ErrAmountOverflow], 422, ''AMOUNT_OUT_OF_RANGE'', ''nominal di luar batas yang diizinkan''),
      ([ErrRateLimited], 429, ''RATE_LIMITED'', ''terlalu banyak permintaan, coba lagi nanti''),
      ([DeadlineExceeded, Canceled], 503, ''TIMEOUT'', ''permintaan melebihi batas waktu'')]"

definition mapError :: "(err \<Rightarrow> string) \<Rightarrow> err \<Rightarrow> apiError" where
  "mapError text err =
     (case errors_As_Validation err of
        Some fs \<Rightarrow> (api_error 400 ''VALIDATION_ERROR'' ''permintaan tidak valid'')\<lparr> ae_fields := fs \<rparr>
      | None \<Rightarrow>
          if errors_As_MaxBytes err
          then api_error 413 ''PAYLOAD_TOO_LARGE'' ''ukuran body melebihi batas''
          else if errors_Is err ErrValidation \<or> errors_Is err ErrInvalidCursor
          then api_error 400 ''VALIDATION_ERROR'' (text err)
          else case List.find (\<lambda>c. \<exists>target \<in> set (fst c). errors_Is err target) error_cases of
                 Some (targets, status, code, message) \<Rightarrow> api_error status code message
               | None \<Rightarrow> api_error 500 ''INTERNAL_ERROR'' ''terjadi kesalahan internal'')"

definition writeError :: "(err \<Rightarrow> string) \<Rightarrow> string \<Rightarrow> err \<Rightarrow> response" where
  "writeError text reqID err =
     (let ae = mapError text err;
          w = writeJSON (ae_status ae) (ErrorEnvelope \<lparr> eb_Code = ae_code ae, eb_Message = ae_message ae,
                eb_Fields = ae_fields ae, eb_RequestID = reqID \<rparr>)
      in if ae_code ae = ''IDEMPOTENCY_IN_FLIGHT''
         then w\<lparr> rs_header := (''Retry-After'', ''1'') # rs_header w \<rparr> else w)"

text \<open>\<open>http.Error\<close>: plain text.\<close>

definition http_Error :: "string \<Rightarrow> int \<Rightarrow> response" where
  "http_Error message status =
     \<lparr> rs_status = status,
       rs_header = [(''Content-Type'', ''text/plain; charset=utf-8''), (''X-Content-Type-Options'', ''nosniff'')],
       rs_body = Text (message @ [CHR 0x0A]) \<rparr>"

datatype ending = Responds response | Panics "(string \<times> string) list"

section \<open>Requests, contexts, the world\<close>

record request =
  rq_Method :: string
  rq_Path :: string
  rq_Header :: "string \<Rightarrow> string"         \<comment> \<open>\<open>r.Header.Get\<close>\<close>
  rq_Query :: "string \<Rightarrow> string"          \<comment> \<open>\<open>r.URL.Query().Get\<close>\<close>
  rq_Body :: body
  rq_RemoteAddr :: string

text \<open>The context values, and what chi adds: the route pattern and the URL parameter \<open>id\<close>.\<close>

record ctx =
  cx_RequestID :: string
  cx_Actor :: "actor option"
  cx_IdempotencyKey :: string
  cx_RequestHash :: string
  cx_Pattern :: string
  cx_id :: string

datatype which = LoginLimiter | TransferLimiter | RegisterLimiter | RefreshLimiter | MoneyLimiter

text \<open>A line of the request log, without duration and byte count; what else is logged.\<close>

record log_line =
  ll_RequestID :: string
  ll_Method :: string
  ll_Route :: string
  ll_Path :: string
  ll_Status :: int
  ll_IP :: string
  ll_UserID :: "int64 option"
  ll_Error :: bool

datatype log_entry =
    Served log_line
  | InternalError string err   \<comment> \<open>of \<open>writeError\<close>: request id and error\<close>
  | PanicCaught string         \<comment> \<open>of \<open>recoverer\<close>\<close>

datatype metric = LoginFailure string | TransactionCount string bool | HTTPObserved string string int

text \<open>\<open>hw_lim\<close> is the state of the rate limiters.\<close>

record 'l world =
  hw_pg :: pg
  hw_lim :: 'l
  hw_log :: "log_entry list"
  hw_metrics :: "metric list"
  hw_ready :: bool

record call =
  cl_env :: env
  cl_auth :: auth_call
  cl_now :: time
  cl_intN :: "nat \<Rightarrow> nat"
  cl_request_id :: "string result"       \<comment> \<open>the 16 bytes \<open>requestID\<close> reads from \<open>crypto/rand\<close>\<close>
  cl_salt :: "nat \<Rightarrow> string result"
  cl_jti :: string
  cl_ping :: "err option"

text \<open>The dependencies of \<open>NewRouter\<close>; services are taken with the surroundings of the call.\<close>

record 'l Deps =
  dp_JWT :: JWT
  dp_jwt_lib :: jwt_lib
  dp_Auth :: "call \<Rightarrow> pg Auth"
  dp_Ledger :: "call \<Rightarrow> pg Ledger"
  dp_Allow :: "which \<Rightarrow> time \<Rightarrow> string \<Rightarrow> 'l \<Rightarrow> bool \<times> 'l"
  dp_Ready :: "call \<Rightarrow> err option"
  dp_Prod :: bool
  dp_json :: json_lib
  dp_uuid_parse :: "string \<Rightarrow> uuid option"
  dp_split_host :: "string \<Rightarrow> string option"   \<comment> \<open>host of \<open>net.SplitHostPort\<close>\<close>
  dp_text :: "err \<Rightarrow> string"
  dp_metrics_page :: response

type_synonym 'l handler = "ctx \<Rightarrow> request \<Rightarrow> 'l world \<Rightarrow> ending \<times> 'l world"

text \<open>A service call of a handler: it runs on the database.\<close>

definition on_pg :: "(pg, 'a) prog \<Rightarrow> 'l world \<Rightarrow> 'a result \<times> 'l world" where
  "on_pg m w = (case m (hw_pg w) of (r, p) \<Rightarrow> (r, w\<lparr>hw_pg := p\<rparr>))"

definition reply :: "response \<Rightarrow> 'l world \<Rightarrow> ending \<times> 'l world" where
  "reply r w = (Responds r, w)"

text \<open>
  \<open>writeError(w, r, err)\<close> with its log line for status 500 and above. The one error of the service model that stands for a panic, the
  dereference of a nil result, unwinds instead.
\<close>

definition fail :: "'l Deps \<Rightarrow> ctx \<Rightarrow> err \<Rightarrow> 'l world \<Rightarrow> ending \<times> 'l world" where
  "fail d cx err w =
     (if err = nil_pointer then (Panics [], w)
      else let rs = writeError (dp_text d) (cx_RequestID cx) err
           in reply rs (if 500 \<le> rs_status rs
                        then w\<lparr>hw_log := hw_log w @ [InternalError (cx_RequestID cx) err]\<rparr> else w))"

section \<open>Middleware (middleware.go)\<close>

definition add_headers :: "(string \<times> string) list \<Rightarrow> 'l handler \<Rightarrow> 'l handler" where
  "add_headers hs next = (\<lambda>cx r w. case next cx r w of
      (Panics hs', w1) \<Rightarrow> (Panics (hs @ hs'), w1)
    | (Responds rs, w1) \<Rightarrow> (Responds (rs\<lparr>rs_header := hs @ rs_header rs\<rparr>), w1))"

definition requestID :: "call \<Rightarrow> 'l handler \<Rightarrow> 'l handler" where
  "requestID c next = (\<lambda>cx r w.
     case cl_request_id c of
       Inl e \<Rightarrow> reply (http_Error ''internal error'' 500) w
     | Inr b \<Rightarrow> add_headers [(''X-Request-ID'', hex_encode b)] next (cx\<lparr>cx_RequestID := hex_encode b\<rparr>) r w)"

definition recoverer :: "'l handler \<Rightarrow> 'l handler" where
  "recoverer next = (\<lambda>cx r w. case next cx r w of
      (Responds rs, w1) \<Rightarrow> (Responds rs, w1)
    | (Panics hs, w1) \<Rightarrow>
        (let rs = writeJSON 500 (ErrorEnvelope \<lparr> eb_Code = ''INTERNAL_ERROR'',
                    eb_Message = ''terjadi kesalahan internal'', eb_Fields = [], eb_RequestID = cx_RequestID cx \<rparr>)
         in reply (rs\<lparr>rs_header := hs @ rs_header rs\<rparr>)
              (w1\<lparr>hw_log := hw_log w1 @ [PanicCaught (cx_RequestID cx)]\<rparr>)))"

definition logAndMeasure :: "'l handler \<Rightarrow> 'l handler" where
  "logAndMeasure next = (\<lambda>cx r w. case next cx r w of
      (Panics hs, w1) \<Rightarrow> (Panics hs, w1)
    | (Responds rs, w1) \<Rightarrow>
        (let route = (if cx_Pattern cx = [] then ''unmatched'' else cx_Pattern cx)
         in (Responds rs, w1\<lparr>
              hw_metrics := hw_metrics w1 @ [HTTPObserved (rq_Method r) route (rs_status rs)],
              hw_log := hw_log w1 @ [Served
                \<lparr> ll_RequestID = cx_RequestID cx, ll_Method = rq_Method r, ll_Route = route, ll_Path = rq_Path r,
                  ll_Status = rs_status rs, ll_IP = rq_RemoteAddr r,
                  ll_UserID = map_option act_UserID (cx_Actor cx), ll_Error = (500 \<le> rs_status rs) \<rparr>]\<rparr>)))"

definition authenticate :: "'l Deps \<Rightarrow> call \<Rightarrow> 'l handler \<Rightarrow> 'l handler" where
  "authenticate d c next = (\<lambda>cx r w.
     let h = rq_Header r ''Authorization''
     in if \<not> HasPrefix h ''Bearer '' then fail d cx ErrUnauthenticated w
        else case JWT_Parse (dp_jwt_lib d) (dp_JWT d) (cl_now c) (TrimPrefix h ''Bearer '') of
               Inl err \<Rightarrow> fail d cx err w
             | Inr claims \<Rightarrow>
                 next (cx\<lparr>cx_Actor := Some \<lparr> act_UserID = jc_UserID claims, act_Role = jc_Role claims \<rparr>\<rparr>) r w)"

definition requireAdmin :: "'l Deps \<Rightarrow> 'l handler \<Rightarrow> 'l handler" where
  "requireAdmin d next = (\<lambda>cx r w. case cx_Actor cx of
      None \<Rightarrow> fail d cx ErrForbidden w
    | Some a \<Rightarrow> if Actor_IsAdmin a then next cx r w else fail d cx ErrForbidden w)"

definition allow :: "'l Deps \<Rightarrow> call \<Rightarrow> which \<Rightarrow> string \<Rightarrow> 'l world \<Rightarrow> bool \<times> 'l world" where
  "allow d c l key w = (case dp_Allow d l (cl_now c) key (hw_lim w) of (ok, s) \<Rightarrow> (ok, w\<lparr>hw_lim := s\<rparr>))"

definition rateLimitByActor :: "'l Deps \<Rightarrow> call \<Rightarrow> which \<Rightarrow> 'l handler \<Rightarrow> 'l handler" where
  "rateLimitByActor d c l next = (\<lambda>cx r w. case cx_Actor cx of
      None \<Rightarrow> fail d cx ErrRateLimited w
    | Some a \<Rightarrow> (case allow d c l (''user:'' @ itoa (act_UserID a)) w of
                   (ok, w1) \<Rightarrow> if ok then next cx r w1 else fail d cx ErrRateLimited w1))"

definition clientIP :: "'l Deps \<Rightarrow> request \<Rightarrow> string" where
  "clientIP d r = (case dp_split_host d (rq_RemoteAddr r) of None \<Rightarrow> rq_RemoteAddr r | Some host \<Rightarrow> host)"

definition rateLimitByIP :: "'l Deps \<Rightarrow> call \<Rightarrow> which \<Rightarrow> 'l handler \<Rightarrow> 'l handler" where
  "rateLimitByIP d c l next = (\<lambda>cx r w.
     case allow d c l (''ip:'' @ clientIP d r) w of
       (ok, w1) \<Rightarrow> if ok then next cx r w1 else fail d cx ErrRateLimited w1)"

definition request_hash :: "call \<Rightarrow> request \<Rightarrow> string \<Rightarrow> string" where
  "request_hash c r bytes =
     hex_encode (ac_sha256 (cl_auth c) (rq_Method r @ '' '' @ rq_Path r @ [CHR 0x0A] @ bytes))"

definition idempotency :: "'l Deps \<Rightarrow> call \<Rightarrow> 'l handler \<Rightarrow> 'l handler" where
  "idempotency d c next = (\<lambda>cx r w.
     let key = TrimSpace (rq_Header r ''Idempotency-Key'')
     in if key = [] \<or> length key > 128 then fail d cx ErrIdempotencyKeyRequired w
        else case ReadAll (limited (rq_Body r)) of
               Inl err \<Rightarrow> fail d cx err w
             | Inr bytes \<Rightarrow>
                 next (cx\<lparr>cx_IdempotencyKey := key, cx_RequestHash := request_hash c r bytes\<rparr>)
                   (r\<lparr>rq_Body := \<lparr> bd_bytes = bytes, bd_err = None \<rparr>\<rparr>) w)"

definition security_headers :: "bool \<Rightarrow> (string \<times> string) list" where
  "security_headers isProd =
     [(''X-Content-Type-Options'', ''nosniff''), (''X-Frame-Options'', ''DENY''),
      (''Content-Security-Policy'', ''default-src '' @ [CHR 0x27] @ ''none'' @ [CHR 0x27]
         @ ''; frame-ancestors '' @ [CHR 0x27] @ ''none'' @ [CHR 0x27]),
      (''Referrer-Policy'', ''no-referrer''), (''Cross-Origin-Resource-Policy'', ''same-origin'')]
     @ (if isProd then [(''Strict-Transport-Security'', ''max-age=31536000; includeSubDomains'')] else [])"

definition securityHeaders :: "bool \<Rightarrow> 'l handler \<Rightarrow> 'l handler" where
  "securityHeaders isProd next = add_headers (security_headers isProd) next"



end
