(* ===== verification/Router.thy ===== *)
theory Router
  imports Http App
begin

text \<open>
  The handlers of internal/transport/http (handler_auth.go, handler_ledger.go), the router
  (router.go), and the API as cmd/api assembles it: its limiters behind \<open>Allow\<close> and its
  services on PostgreSQL.
\<close>

text \<open>The two ways a handler ends after a call that returned \<open>(a, err)\<close>.\<close>

definition respond ::
    "'l Deps \<Rightarrow> ctx \<Rightarrow> ('a \<Rightarrow> response) \<Rightarrow> 'a result \<times> 'l world \<Rightarrow> ending \<times> 'l world" where
  "respond d cx f x = (case x of (Inl err, w) \<Rightarrow> fail d cx err w | (Inr a, w) \<Rightarrow> reply (f a) w)"

definition with_valid ::
    "'l Deps \<Rightarrow> ctx \<Rightarrow> 'a result \<Rightarrow> ('a \<Rightarrow> err option) \<Rightarrow> ('a \<Rightarrow> 'l world \<Rightarrow> ending \<times> 'l world)
     \<Rightarrow> 'l world \<Rightarrow> ending \<times> 'l world" where
  "with_valid d cx decoded validate k w =
     (case decoded of
        Inl err \<Rightarrow> fail d cx err w
      | Inr req \<Rightarrow> (case validate req of Some err \<Rightarrow> fail d cx err w | None \<Rightarrow> k req w))"

section \<open>handler_auth.go\<close>

definition onLoginFail :: "string \<Rightarrow> 'l world \<Rightarrow> 'l world" where
  "onLoginFail reason w = w\<lparr>hw_metrics := hw_metrics w @ [LoginFailure reason]\<rparr>"

definition authHandler_register :: "'l Deps \<Rightarrow> call \<Rightarrow> 'l handler" where
  "authHandler_register d c = (\<lambda>cx r.
     with_valid d cx (decode_register (dp_json d) (rq_Body r)) (\<lambda>_. None) (\<lambda>inp w.
       respond d cx
         (\<lambda>(u, a). writeData 201 (DUser \<lparr> gr_User = toUserResponse u, gr_Wallet = toAccountResponse a \<rparr>))
         (on_pg (Auth_Register (dp_Auth d c) (cl_auth c) inp) w)))"

definition authHandler_login :: "'l Deps \<Rightarrow> call \<Rightarrow> 'l handler" where
  "authHandler_login d c = (\<lambda>cx r.
     with_valid d cx (decode_login (dp_json d) (rq_Body r)) loginRequest_validate (\<lambda>req w.
       let email = ac_to_lower (cl_auth c) (TrimSpace (lr_Email req));
           (ok1, w1) = allow d c LoginLimiter (''email:'' @ email) w;
           (ok, w2) = (if ok1 then allow d c LoginLimiter (''ip:'' @ clientIP d r) w1 else (False, w1))
       in if \<not> ok then fail d cx ErrRateLimited (onLoginFail ''rate_limited'' w2)
          else case on_pg (Auth_Login (dp_Auth d c) (cl_auth c) email (lr_Password req)) w2 of
                 (Inl err, w3) \<Rightarrow>
                   fail d cx err
                     (if err = ErrInvalidCredentials then onLoginFail ''invalid_credentials'' w3 else w3)
               | (Inr p, w3) \<Rightarrow> reply (writeData 200 (DToken (toTokenResponse p))) w3))"

definition authHandler_refresh :: "'l Deps \<Rightarrow> call \<Rightarrow> 'l handler" where
  "authHandler_refresh d c = (\<lambda>cx r.
     with_valid d cx (decode_refresh (dp_json d) (rq_Body r)) refreshRequest_validate (\<lambda>token w.
       respond d cx (\<lambda>p. writeData 200 (DToken (toTokenResponse p)))
         (on_pg (Auth_Refresh (dp_Auth d c) (cl_auth c) token) w)))"

definition authHandler_logout :: "'l Deps \<Rightarrow> call \<Rightarrow> 'l handler" where
  "authHandler_logout d c = (\<lambda>cx r.
     with_valid d cx (decode_refresh (dp_json d) (rq_Body r)) refreshRequest_validate (\<lambda>token w.
       respond d cx (\<lambda>_. \<lparr> rs_status = 204, rs_header = [], rs_body = Empty \<rparr>)
         (on_pg (Auth_Logout (dp_Auth d c) (cl_auth c) token) w)))"

section \<open>handler_ledger.go\<close>

text \<open>
  \<open>record\<close>: the counter of transactions. A nil result stops it before it counts: for the use
  cases the service itself has panicked by then, for a reversal \<open>res.Transaction\<close> does.
\<close>

definition ledgerHandler_record :: "post_result result \<Rightarrow> string \<Rightarrow> 'l world \<Rightarrow> 'l world" where
  "ledgerHandler_record res fallbackType w =
     (case res of
        Inl err \<Rightarrow> if err = nil_pointer then w
                   else w\<lparr>hw_metrics := hw_metrics w @ [TransactionCount fallbackType False]\<rparr>
      | Inr p \<Rightarrow> w\<lparr>hw_metrics := hw_metrics w @ [TransactionCount (txn_Type (pr_Transaction p)) True]\<rparr>)"

text \<open>\<open>actorFrom\<close> without its flag: no actor in the context is the zero value.\<close>

definition actorFrom :: "ctx \<Rightarrow> actor" where
  "actorFrom cx = (case cx_Actor cx of None \<Rightarrow> \<lparr> act_UserID = 0, act_Role = [] \<rparr> | Some a \<Rightarrow> a)"

definition ledgerHandler_myWallet :: "'l Deps \<Rightarrow> call \<Rightarrow> 'l handler" where
  "ledgerHandler_myWallet d c = (\<lambda>cx r w.
     respond d cx (\<lambda>a. writeData 200 (DAccount (toAccountResponse a)))
       (on_pg (Ledger_MyWallet (dp_Ledger d c) (actorFrom cx)) w))"

text \<open>The \<open>limit\<close> of \<open>myEntries\<close>; \<open>strconv.Atoi\<close> reads as \<open>ParseInt\<close> does with 64 bits.\<close>

definition limit_error :: err where
  "limit_error = ValidationError [(''limit'', ''harus bilangan bulat '' @ [CHR 0xE2, CHR 0x89, CHR 0xA5] @ '' 0'')]"

definition limit_of :: "string \<Rightarrow> int result" where
  "limit_of s =
     (if s = [] then Inr 0
      else case ParseInt s of None \<Rightarrow> Inl limit_error | Some n \<Rightarrow> if n < 0 then Inl limit_error else Inr n)"

definition ledgerHandler_myEntries :: "'l Deps \<Rightarrow> call \<Rightarrow> 'l handler" where
  "ledgerHandler_myEntries d c = (\<lambda>cx r.
     with_valid d cx (limit_of (rq_Query r ''limit'')) (\<lambda>_. None) (\<lambda>limit w.
       respond d cx (\<lambda>page. writePage (map (\<lambda>e. toEntryResponse e True) (pg_Entries page)) (pg_NextCursor page))
         (on_pg (Ledger_MyEntries (dp_Ledger d c) (actorFrom cx) (rq_Query r ''cursor'') limit) w)))"

definition ledgerHandler_moneyRequest :: "ctx \<Rightarrow> 'x moneyRequest_scheme \<Rightarrow> money_request" where
  "ledgerHandler_moneyRequest cx req =
     \<lparr> mr_Actor = actorFrom cx, mr_IdempotencyKey = cx_IdempotencyKey cx, mr_RequestHash = cx_RequestHash cx,
       mr_AmountSen = mq_AmountSen req, mr_Description = mq_Description req \<rparr>"

text \<open>The tail shared by the four posting handlers: count, then answer.\<close>

definition posted ::
    "'l Deps \<Rightarrow> ctx \<Rightarrow> string \<Rightarrow> (pg, post_result) prog \<Rightarrow> 'l world \<Rightarrow> ending \<times> 'l world" where
  "posted d cx fallbackType m w =
     (case on_pg m w of (res, w1) \<Rightarrow>
        respond d cx (\<lambda>p. writeData 201 (DTransaction (toTransactionResponse p)))
          (res, ledgerHandler_record res fallbackType w1))"

definition ledgerHandler_topup :: "'l Deps \<Rightarrow> call \<Rightarrow> 'l handler" where
  "ledgerHandler_topup d c = (\<lambda>cx r.
     with_valid d cx (decode_money (dp_json d) (rq_Body r)) moneyRequest_validate (\<lambda>req.
       posted d cx ''TOPUP'' (Ledger_Topup (dp_Ledger d c) (ledgerHandler_moneyRequest cx req))))"

definition ledgerHandler_withdraw :: "'l Deps \<Rightarrow> call \<Rightarrow> 'l handler" where
  "ledgerHandler_withdraw d c = (\<lambda>cx r.
     with_valid d cx (decode_money (dp_json d) (rq_Body r)) moneyRequest_validate (\<lambda>req.
       posted d cx ''WITHDRAW'' (Ledger_Withdraw (dp_Ledger d c) (ledgerHandler_moneyRequest cx req))))"

definition ledgerHandler_transfer :: "'l Deps \<Rightarrow> call \<Rightarrow> 'l handler" where
  "ledgerHandler_transfer d c = (\<lambda>cx r w.
     case decode_transfer (dp_json d) (rq_Body r) of
       Inl err \<Rightarrow> fail d cx err w
     | Inr req \<Rightarrow>
         (case transferRequest_validate (dp_uuid_parse d) req of
            Inl err \<Rightarrow> fail d cx err w
          | Inr to \<Rightarrow>
              posted d cx ''TRANSFER''
                (Ledger_Transfer (cl_intN c) (dp_Ledger d c)
                  (money_request.extend (ledgerHandler_moneyRequest cx req) (transfer_request.fields to))) w))"

definition id_error :: err where
  "id_error = ValidationError [(''id'', ''harus UUID'')]"

definition ledgerHandler_getTransaction :: "'l Deps \<Rightarrow> call \<Rightarrow> 'l handler" where
  "ledgerHandler_getTransaction d c = (\<lambda>cx r w.
     case dp_uuid_parse d (cx_id cx) of
       None \<Rightarrow> fail d cx id_error w
     | Some i \<Rightarrow>
         respond d cx (\<lambda>p. writeData 200 (DTransaction (toTransactionResponse p)))
           (on_pg (Ledger_GetTransaction (dp_Ledger d c) (actorFrom cx) i) w))"

definition ledgerHandler_reverse :: "'l Deps \<Rightarrow> call \<Rightarrow> 'l handler" where
  "ledgerHandler_reverse d c = (\<lambda>cx r w.
     case dp_uuid_parse d (cx_id cx) of
       None \<Rightarrow> fail d cx id_error w
     | Some i \<Rightarrow>
         with_valid d cx (decode_reverse (dp_json d) (rq_Body r)) reverseRequest_validate (\<lambda>description.
           posted d cx ''REVERSAL'' (Ledger_Reverse (dp_Ledger d c)
             \<lparr> rr_Actor = actorFrom cx, rr_IdempotencyKey = cx_IdempotencyKey cx,
               rr_RequestHash = cx_RequestHash cx, rr_TransactionID = i, rr_Description = description \<rparr>)) w)"

definition toTrialBalanceResponse :: "trial_balance \<Rightarrow> trialBalanceResponse" where
  "toTrialBalanceResponse tb =
     \<lparr> br_TotalDebitSen = tb_TotalDebit tb, br_TotalCreditSen = tb_TotalCredit tb,
       br_DifferenceSen = tb_Difference tb, br_EntryCount = tb_EntryCount tb, br_Balanced = TrialBalance_Balanced tb \<rparr>"

definition ledgerHandler_trialBalance :: "'l Deps \<Rightarrow> call \<Rightarrow> 'l handler" where
  "ledgerHandler_trialBalance d c = (\<lambda>cx r w.
     respond d cx (\<lambda>tb. writeData 200 (DTrialBalance (toTrialBalanceResponse tb)))
       (on_pg (Ledger_TrialBalance (dp_Ledger d c) (actorFrom cx)) w))"

section \<open>router.go\<close>

text \<open>\<open>Readiness\<close> is the flag \<open>hw_ready\<close> of the world.\<close>

definition NewReadiness :: bool where
  "NewReadiness = True"

definition Readiness_Set :: "bool \<Rightarrow> 'l world \<Rightarrow> 'l world" where
  "Readiness_Set ready w = w\<lparr>hw_ready := ready\<rparr>"

definition Readiness_IsReady :: "'l world \<Rightarrow> bool" where
  "Readiness_IsReady w = hw_ready w"

definition plain_ok :: "string \<Rightarrow> response" where
  "plain_ok s = \<lparr> rs_status = 200, rs_header = [], rs_body = Text s \<rparr>"

definition healthz :: "'l handler" where
  "healthz = (\<lambda>cx r w. reply (plain_ok ''ok'') w)"

definition readyz :: "'l Deps \<Rightarrow> call \<Rightarrow> 'l handler" where
  "readyz d c = (\<lambda>cx r w.
     if \<not> Readiness_IsReady w then reply (http_Error ''shutting down'' 503) w
     else case dp_Ready d c of
            Some err \<Rightarrow> reply (http_Error ''database tidak siap'' 503) w
          | None \<Rightarrow> reply (plain_ok ''ready'') w)"

text \<open>
  The endpoints. Matching method and path with the patterns is chi's: a request is given with
  the endpoint it matches and the URL parameter \<open>id\<close>. What matches none chi answers itself,
  without a handler of the program.
\<close>

datatype route =
    GetHealthz | GetReadyz | GetMetrics
  | PostRegister | PostLogin | PostRefresh | PostLogout
  | GetAccountsMe | GetAccountsMeEntries
  | PostTopup | PostWithdraw | PostTransfer | GetTransactionByID | PostReverse | GetTrialBalance

fun route_pattern :: "route \<Rightarrow> string \<times> string" where
  "route_pattern GetHealthz = (''GET'', ''/healthz'')"
| "route_pattern GetReadyz = (''GET'', ''/readyz'')"
| "route_pattern GetMetrics = (''GET'', ''/metrics'')"
| "route_pattern PostRegister = (''POST'', ''/api/v1/auth/register'')"
| "route_pattern PostLogin = (''POST'', ''/api/v1/auth/login'')"
| "route_pattern PostRefresh = (''POST'', ''/api/v1/auth/refresh'')"
| "route_pattern PostLogout = (''POST'', ''/api/v1/auth/logout'')"
| "route_pattern GetAccountsMe = (''GET'', ''/api/v1/accounts/me'')"
| "route_pattern GetAccountsMeEntries = (''GET'', ''/api/v1/accounts/me/entries'')"
| "route_pattern PostTopup = (''POST'', ''/api/v1/transactions/topup'')"
| "route_pattern PostWithdraw = (''POST'', ''/api/v1/transactions/withdraw'')"
| "route_pattern PostTransfer = (''POST'', ''/api/v1/transactions/transfer'')"
| "route_pattern GetTransactionByID = (''GET'', ''/api/v1/transactions/{id}'')"
| "route_pattern PostReverse = (''POST'', ''/api/v1/transactions/{id}/reverse'')"
| "route_pattern GetTrialBalance = (''GET'', ''/api/v1/internal/ledger/trial-balance'')"

definition in_api :: "route \<Rightarrow> bool" where
  "in_api rt \<longleftrightarrow> rt \<notin> {GetHealthz, GetReadyz, GetMetrics}"

text \<open>The handler of an endpoint behind the middleware the router gives it.\<close>

fun endpoint :: "'l Deps \<Rightarrow> call \<Rightarrow> route \<Rightarrow> 'l handler" where
  "endpoint d c GetHealthz = healthz"
| "endpoint d c GetReadyz = readyz d c"
| "endpoint d c GetMetrics = (\<lambda>cx r. reply (dp_metrics_page d))"
| "endpoint d c PostRegister = rateLimitByIP d c RegisterLimiter (authHandler_register d c)"
| "endpoint d c PostLogin = authHandler_login d c"
| "endpoint d c PostRefresh = rateLimitByIP d c RefreshLimiter (authHandler_refresh d c)"
| "endpoint d c PostLogout = authenticate d c (authHandler_logout d c)"
| "endpoint d c GetAccountsMe = authenticate d c (ledgerHandler_myWallet d c)"
| "endpoint d c GetAccountsMeEntries = authenticate d c (ledgerHandler_myEntries d c)"
| "endpoint d c PostTopup =
     authenticate d c (idempotency d c (rateLimitByActor d c MoneyLimiter (ledgerHandler_topup d c)))"
| "endpoint d c PostWithdraw =
     authenticate d c (idempotency d c (rateLimitByActor d c MoneyLimiter (ledgerHandler_withdraw d c)))"
| "endpoint d c PostTransfer =
     authenticate d c (idempotency d c (rateLimitByActor d c TransferLimiter (ledgerHandler_transfer d c)))"
| "endpoint d c GetTransactionByID = authenticate d c (ledgerHandler_getTransaction d c)"
| "endpoint d c PostReverse =
     authenticate d c (requireAdmin d (idempotency d c (ledgerHandler_reverse d c)))"
| "endpoint d c GetTrialBalance = authenticate d c (requireAdmin d (ledgerHandler_trialBalance d c))"

definition start_ctx :: "route \<Rightarrow> string \<Rightarrow> ctx" where
  "start_ctx rt uid =
     \<lparr> cx_RequestID = [], cx_Actor = None, cx_IdempotencyKey = [], cx_RequestHash = [],
       cx_Pattern = snd (route_pattern rt), cx_id = uid \<rparr>"

text \<open>
  \<open>NewRouter\<close>. chi's \<open>Timeout\<close> and \<open>NoCache\<close> are left out: the first bounds the context, which
  shows as faults of the database, the second sets headers.
\<close>

definition NewRouter :: "'l Deps \<Rightarrow> call \<Rightarrow> route \<Rightarrow> string \<Rightarrow> request \<Rightarrow> 'l world \<Rightarrow> ending \<times> 'l world" where
  "NewRouter d c rt uid =
     securityHeaders (dp_Prod d)
       (if in_api rt then recoverer (requestID c (logAndMeasure (endpoint d c rt))) else endpoint d c rt)
       (start_ctx rt uid)"

section \<open>The API of cmd/api\<close>

text \<open>\<open>Allow\<close> of a limiter, in memory or in Redis; the second component is the Redis server.\<close>

definition limiter_allow ::
    "'r redis \<Rightarrow> time \<Rightarrow> string \<Rightarrow> limiter \<Rightarrow> 'r \<Rightarrow> bool \<times> limiter \<times> 'r" where
  "limiter_allow rd now key l r =
     (case l of
        InMemory m \<Rightarrow> (case Limiter_Allow now key m of (ok, m') \<Rightarrow> (ok, InMemory m', r))
      | InRedis m \<Rightarrow> (case RedisLimiter_Allow rd now m key r of (ok, r') \<Rightarrow> (ok, InRedis m, r')))"

definition api_allow ::
    "'r redis \<Rightarrow> which \<Rightarrow> time \<Rightarrow> string \<Rightarrow> apiLimiters \<times> 'r \<Rightarrow> bool \<times> apiLimiters \<times> 'r" where
  "api_allow rd l now key = (\<lambda>(ls, r).
     let put = (case l of
                  LoginLimiter \<Rightarrow> (al_login ls, \<lambda>x. ls\<lparr>al_login := x\<rparr>)
                | TransferLimiter \<Rightarrow> (al_transfer ls, \<lambda>x. ls\<lparr>al_transfer := x\<rparr>)
                | RegisterLimiter \<Rightarrow> (al_register ls, \<lambda>x. ls\<lparr>al_register := x\<rparr>)
                | RefreshLimiter \<Rightarrow> (al_refresh ls, \<lambda>x. ls\<lparr>al_refresh := x\<rparr>)
                | MoneyLimiter \<Rightarrow> (al_money ls, \<lambda>x. ls\<lparr>al_money := x\<rparr>));
         (ok, m, r') = limiter_allow rd now key (fst put) r
     in (ok, snd put m, r'))"

text \<open>What the API takes from other packages.\<close>

record 'r libs =
  li_jwt :: jwt_lib
  li_idkey :: idkey
  li_argon_version :: int64
  li_json :: json_lib
  li_uuid_parse :: "string \<Rightarrow> uuid option"
  li_uuid_text :: "uuid \<Rightarrow> string"
  li_split_host :: "string \<Rightarrow> string option"
  li_text :: "err \<Rightarrow> string"
  li_redis :: "'r redis"
  li_metrics_page :: response

definition api_ledger :: "api_process \<Rightarrow> call \<Rightarrow> pg Ledger" where
  "api_ledger p c = pg_ledger (cl_env c) (L_cfg (ap_ledger p)) (L_cashID (ap_ledger p)) (L_feeIDs (ap_ledger p))"

definition api_auth :: "'r libs \<Rightarrow> api_process \<Rightarrow> call \<Rightarrow> pg Auth" where
  "api_auth L p c =
     pg_auth (cl_env c)
       (Argon2_Hash (li_idkey L) (li_argon_version L) (cl_salt c) DefaultParams)
       (Argon2_Verify (li_idkey L) (li_argon_version L))
       (\<lambda>i u. JWT_Issue (li_jwt L) (ap_jwt p) (cl_now c) (cl_jti c) i (li_uuid_text L u))
       (cf_RefreshTokenTTL (ap_config p)) (A_dummyHash (ap_auth p))"

definition api_deps :: "'r libs \<Rightarrow> api_process \<Rightarrow> (apiLimiters \<times> 'r) Deps" where
  "api_deps L p =
     \<lparr> dp_JWT = ap_jwt p, dp_jwt_lib = li_jwt L, dp_Auth = api_auth L p, dp_Ledger = api_ledger p,
       dp_Allow = api_allow (li_redis L), dp_Ready = cl_ping, dp_Prod = Config_IsProduction (ap_config p),
       dp_json = li_json L, dp_uuid_parse = li_uuid_parse L, dp_split_host = li_split_host L,
       dp_text = li_text L, dp_metrics_page = li_metrics_page L \<rparr>"

text \<open>
  One request on the running API, and a sequence of them, each with what it draws from its
  surroundings.
\<close>

type_synonym 'r api_world = "(apiLimiters \<times> 'r) world"

definition serve :: "'r libs \<Rightarrow> api_process \<Rightarrow> call \<Rightarrow> route \<times> string \<times> request \<Rightarrow> 'r api_world \<Rightarrow> ending \<times> 'r api_world" where
  "serve L p c = (\<lambda>(rt, uid, r). NewRouter (api_deps L p) c rt uid r)"

primrec serve_all ::
    "'r libs \<Rightarrow> api_process \<Rightarrow> (call \<times> route \<times> string \<times> request) list \<Rightarrow> 'r api_world \<Rightarrow> ending list \<times> 'r api_world" where
  "serve_all L p [] w = ([], w)"
| "serve_all L p (q # qs) w =
     (case serve L p (fst q) (snd q) w of (e, w1) \<Rightarrow>
      case serve_all L p qs w1 of (es, w2) \<Rightarrow> (e # es, w2))"

end
