(* ===== verification/Effects.thy ===== *)
theory Effects
  imports Operations AuthFacts
begin

text \<open>
  What a call of the services does to the tables, on every branch: a posting operation either
  changes no table or records one transaction of its caller under the caller's key and takes
  money from no wallet but the caller's; the account operations touch no money at all.
\<close>

section \<open>Postings of a caller\<close>

text \<open>
  \<open>T'\<close> is \<open>T\<close> with one more transaction, initiated by \<open>u\<close>, its entries, and the row of \<open>u\<close>'s
  key \<open>k\<close>; users and sessions are as before.
\<close>

definition recorded_for :: "int64 \<Rightarrow> string \<Rightarrow> tables \<Rightarrow> tables \<Rightarrow> bool" where
  "recorded_for u k T T' \<longleftrightarrow>
     (\<exists>t es row. map tr_id (transactions T') = map tr_id (transactions T) @ [tr_id t]
        \<and> t \<in> set (transactions T') \<and> tr_initiated_by t = Some u
        \<and> entries T' = entries T @ es \<and> (\<forall>e \<in> set es. er_transaction_id e = tr_id t)
        \<and> idempotency_keys T' = idempotency_keys T @ [row] \<and> ik_user_id row = u \<and> ik_key row = k
        \<and> users T' = users T \<and> refresh_tokens T' = refresh_tokens T)"

text \<open>No wallet but those of \<open>u\<close> has less money than before.\<close>

definition spares_others :: "int64 \<Rightarrow> tables \<Rightarrow> tables \<Rightarrow> bool" where
  "spares_others u T T' \<longleftrightarrow>
     (\<forall>a \<in> set (accounts T). acc_Type a = AccountUserWallet \<and> acc_UserID a \<noteq> Some u \<longrightarrow>
        balance_in T (acc_ID a) \<le> balance_in T' (acc_ID a))"

lemma spares_others_same: "spares_others u T T"
  by (simp add: spares_others_def)

lemma posted_rows_tid: "e \<in> set (posted_rows env tid n As es) \<Longrightarrow> er_transaction_id e = tid"
  by (induction es arbitrary: n) (auto simp: new_entry_row_def)

lemma map_tr_id_mark [simp]: "map tr_id (mark_original rv ts) = map tr_id ts"
  by (induction ts) (auto simp: mark_original_def split: option.split)

lemma posted_now_recorded:
  assumes "posted_now env w c txn p w'" "txn_InitiatedBy txn = Some (clm_UserID c)"
  shows "recorded_for (clm_UserID c) (clm_Key c) (tabs w) (tabs w')"
proof -
  obtain tid eid where T: "tabs w' = posted_tables env tid eid (seqs w) txn c (tabs w)"
    using assms(1) by (auto simp: posted_now_def)
  let ?t = "header_row env tid txn"
  show ?thesis
    unfolding recorded_for_def
    using assms(2) posted_rows_tid [of _ env tid]
    by (intro exI [of _ ?t]) (auto simp: T posted_tables_def Let_def header_row_def new_txn_row_def
        completed_claim_def new_idem_row_def)
qed

text \<open>Only debits take money from a wallet.\<close>

lemma posted_now_spares:
  assumes "posted_now env w c txn p w'" "db_inv (tabs w) (seqs w)"
    and "\<forall>e \<in> set (txn_Entries txn). 0 \<le> ent_Amount e"
    and "\<And>e a. \<lbrakk>e \<in> set (txn_Entries txn); ent_Direction e = DirectionDebit; a \<in> set (accounts (tabs w));
        acc_ID a = ent_AccountID e; acc_Type a = AccountUserWallet\<rbrakk> \<Longrightarrow> acc_UserID a = Some u"
  shows "spares_others u (tabs w) (tabs w')"
  unfolding spares_others_def
proof (intro ballI impI)
  fix a assume a: "a \<in> set (accounts (tabs w))" "acc_Type a = AccountUserWallet \<and> acc_UserID a \<noteq> Some u"
  obtain tid eid where T: "tabs w' = posted_tables env tid eid (seqs w) txn c (tabs w)"
    and acc: "post_accepts env tid eid txn c (tabs w)"
    using assms(1) by (auto simp: posted_now_def)
  have nb: "acc_NormalBalance a = DirectionCredit"
    using normal_side [OF assms(2) a(1)] a(2) by (simp add: AccountUserWallet_def AccountSystemCash_def)
  have id: "account_by_id (accounts (tabs w)) (acc_ID a) = Some a"
    using account_by_id_eq a(1) assms(2) by (simp add: db_inv_def ledger_inv_def accounts_ok_def)
  have "0 \<le> entry_delta e (acc_NormalBalance a)" if e: "e \<in> set (txn_Entries txn)" "ent_AccountID e = acc_ID a" for e
  proof -
    have "ent_Direction e \<noteq> DirectionDebit" using assms(4) [OF e(1) _ a(1)] e(2) a(2) by auto
    moreover have "Direction_Valid (ent_Direction e)"
      using acc e(1) by (simp add: post_accepts_def valid_transaction_def well_formed_entries_def)
    ultimately have "ent_Direction e = DirectionCredit" by (auto simp: Direction_Valid_def)
    with assms(3) e(1) nb show ?thesis by (simp add: entry_delta_def)
  qed
  then show "balance_in (tabs w) (acc_ID a) \<le> balance_in (tabs w') (acc_ID a)"
    by (auto simp: T balance_in_posted id split: option.split dest!: find_SomeD)
qed

section \<open>Idempotent posting on every branch\<close>

lemma postIdempotent_effect:
  assumes B: "typed_build build" and I: "db_inv (tabs w) (seqs w)"
    and R: "postIdempotent (pg_ledger env cfg cash fees) c build w = (r, w')"
  shows "tabs w' = tabs w
    \<or> (\<exists>w1 w2 txn p. build w1 = (Inr txn, w2) \<and> tabs w1 = tabs w \<and> posted_now env w c txn p w')"
proof (cases r)
  case (Inr p)
  from postIdempotent_cases [OF B I R [unfolded Inr]] show ?thesis
    unfolding replayed_def by blast
next
  case (Inl e)
  let ?L = "pg_ledger env cfg cash fees"
  obtain q w1 where Q: "replay ?L c w = (q, w1)" by fastforce
  note t1 = replay_step(2,3) [OF Q]
  obtain b w2 where b: "build w1 = (b, w2)" by fastforce
  have t2: "tabs w2 = tabs w" using B readsD [of build, OF _ b] t1 by (simp add: typed_build_def)
  have "w' = w \<or> w' = w1 \<or> w' = w2 \<or> (\<exists>txn. b = Inr txn \<and> post_or_replay ?L c txn w2 = (Inl e, w'))"
    using R Q b unfolding Inl
    by (cases b) (auto simp: postIdempotent_def bindP_def split: option.splits if_splits)
  moreover have "tabs w' = tabs w" if P: "post_or_replay ?L c txn w2 = (Inl e, w')" for txn
  proof -
    obtain x w3 where Po: "LedgerRepo_Post env txn c w2 = (x, w3)" by fastforce
    with P obtain e1 where x: "x = Inl e1" by (cases x) (auto simp: post_or_replay_def)
    have t3: "tabs w3 = tabs w"
      using Po t2 unfolding x by (auto simp: LedgerRepo_Post_def split: option.splits dest: in_tx_Inl_tabs)
    obtain y w4 where Y: "replay ?L c w3 = (y, w4)" by fastforce
    have "w' = w3 \<or> w' = w4" using P Po x Y by (auto simp: post_or_replay_def split: if_splits option.splits)
    with t3 replay_step(2) [OF Y] show ?thesis by auto
  qed
  ultimately show ?thesis using t1 t2 by auto
qed

lemma money_op_effect:
  assumes typed: "\<forall>m a. amountWithin sen lo hi = Inr m \<longrightarrow> typed_build (build m a)"
    and I: "db_inv (tabs w) (seqs w)"
    and R: "bindP (liftR (amountWithin sen lo hi)) (\<lambda>amount.
         bindP (AccountRepo_GetWalletByUserID env u) (\<lambda>wallet.
         markViewer (postIdempotent (pg_ledger env cfg cash fees) c (build amount wallet)) (acc_ID wallet))) w
       = (r, w')"
  obtains (same) "tabs w' = tabs w"
  | (posted) m a w0 w1 w2 txn p where "amountWithin sen lo hi = Inr m" "a \<in> set (accounts (tabs w))"
      "acc_UserID a = Some u" "acc_Type a = AccountUserWallet" "build m a w1 = (Inr txn, w2)"
      "tabs w1 = tabs w" "tabs w0 = tabs w" "seqs w0 = seqs w" "posted_now env w0 c txn p w'"
proof (cases "amountWithin sen lo hi")
  case (Inl e)
  with R have "w' = w" by (auto simp: bindP_def liftR_def)
  with same show thesis by simp
next
  case m: (Inr m)
  obtain q w0 where G: "AccountRepo_GetWalletByUserID env u w = (q, w0)" by fastforce
  have t0: "tabs w0 = tabs w" "seqs w0 = seqs w" using readsD [OF reads_queries(2) G] by simp_all
  show thesis
  proof (cases q)
    case (Inl e)
    with R G m have "w' = w0" by (auto simp: bindP_def liftR_def)
    with t0 same show thesis by simp
  next
    case (Inr a)
    obtain x w3 where P: "postIdempotent (pg_ledger env cfg cash fees) c (build m a) w0 = (x, w3)" by fastforce
    with R G m Inr have "w' = w3"
      by (auto simp: bindP_def liftR_def markViewer_def split: sum.splits)
    with postIdempotent_effect [OF typed [rule_format, OF m] _ P] I t0 show thesis
      using same posted [OF m GetWallet_Inr(1,2,3) [OF G [unfolded Inr]] _ _ t0] by auto
  qed
qed

section \<open>The operations\<close>

definition caller_effect :: "int64 \<Rightarrow> string \<Rightarrow> tables \<Rightarrow> tables \<Rightarrow> bool" where
  "caller_effect u k T T' \<longleftrightarrow> T' = T \<or> recorded_for u k T T' \<and> spares_others u T T'"

lemma caller_effectI:
  assumes "posted_now env w0 c txn p w'" "tabs w0 = tabs w" "seqs w0 = seqs w" "db_inv (tabs w) (seqs w)"
    and "txn_InitiatedBy txn = Some (clm_UserID c)" "\<forall>e \<in> set (txn_Entries txn). 0 \<le> ent_Amount e"
    and "\<forall>e \<in> set (txn_Entries txn). ent_Direction e = DirectionDebit \<longrightarrow> (\<forall>a \<in> set (accounts (tabs w)).
        acc_ID a = ent_AccountID e \<longrightarrow> acc_Type a = AccountUserWallet \<longrightarrow> acc_UserID a = Some (clm_UserID c))"
  shows "caller_effect (clm_UserID c) (clm_Key c) (tabs w) (tabs w')"
  using posted_now_recorded [OF assms(1,5)] posted_now_spares [OF assms(1) _ assms(6)] assms(2,3,4,7)
  by (simp add: caller_effect_def)

lemma Topup_effect:
  assumes "Ledger_Topup (pg_ledger env cfg cash fees) req w = (r, w')"
    and I: "db_inv (tabs w) (seqs w)" and cash: "cash_account (tabs w) cash"
  shows "caller_effect (act_UserID (mr_Actor req)) (mr_IdempotencyKey req) (tabs w) (tabs w')"
proof -
  let ?u = "act_UserID (mr_Actor req)"
  let ?build = "\<lambda>m a. retP (NewTopup cash (acc_ID a) m ?u (mr_Description req))"
  have typed: "\<forall>m (a::account). amountWithin (mr_AmountSen req) 1 (cfg_MaxTransfer cfg) = Inr m \<longrightarrow> typed_build (?build m a)"
    by (auto intro!: typed_build_retP NewTopup_typed dest: amountWithin_Inr)
  show ?thesis
  proof (cases rule: money_op_effect [where build = ?build,
        OF typed I assms(1) [unfolded Ledger_Topup_def pg_ledger_simps],
        case_names same posted])
    case same
    then show ?thesis by (simp add: caller_effect_def)
  next
    case (posted m a w0 w1 w2 txn p)
    have t: "txn = NewTopup cash (acc_ID a) m ?u (mr_Description req)" using posted(5) by simp
    have m: "0 \<le> m" using amountWithin_Inr [OF posted(1)] by simp
    obtain x where x: "x \<in> set (accounts (tabs w))" "acc_ID x = cash" "acc_Type x = AccountSystemCash"
      using cash unfolding cash_account_def by blast
    have no_wallet: "acc_Type b \<noteq> AccountUserWallet" if "b \<in> set (accounts (tabs w))" "acc_ID b = cash" for b
      using account_id_unique [OF I that(1) x(1)] that(2) x(2,3)
      by (simp add: AccountSystemCash_def AccountUserWallet_def)
    show ?thesis
      using caller_effectI [OF posted(9,7,8) I] m no_wallet
      by (auto simp: t NewTopup_def MoneyRequest_claim_def DirectionDebit_def DirectionCredit_def)
  qed
qed

lemma Withdraw_effect:
  assumes "Ledger_Withdraw (pg_ledger env cfg cash fees) req w = (r, w')" and I: "db_inv (tabs w) (seqs w)"
  shows "caller_effect (act_UserID (mr_Actor req)) (mr_IdempotencyKey req) (tabs w) (tabs w')"
proof -
  let ?u = "act_UserID (mr_Actor req)"
  let ?build = "\<lambda>m a. retP (NewWithdraw (acc_ID a) cash m ?u (mr_Description req))"
  have typed: "\<forall>m (a::account). amountWithin (mr_AmountSen req) 1 (cfg_MaxTransfer cfg) = Inr m \<longrightarrow> typed_build (?build m a)"
    by (auto intro!: typed_build_retP NewWithdraw_typed dest: amountWithin_Inr)
  show ?thesis
  proof (cases rule: money_op_effect [where build = ?build,
        OF typed I assms(1) [unfolded Ledger_Withdraw_def pg_ledger_simps],
        case_names same posted])
    case same
    then show ?thesis by (simp add: caller_effect_def)
  next
    case (posted m a w0 w1 w2 txn p)
    have t: "txn = NewWithdraw (acc_ID a) cash m ?u (mr_Description req)" using posted(5) by simp
    have m: "0 \<le> m" using amountWithin_Inr [OF posted(1)] by simp
    have own: "acc_UserID b = Some ?u" if "b \<in> set (accounts (tabs w))" "acc_ID b = acc_ID a" for b
      using account_id_unique [OF I that(1) posted(2) that(2)] posted(3) by simp
    show ?thesis
      using caller_effectI [OF posted(9,7,8) I] m own
      by (auto simp: t NewWithdraw_def MoneyRequest_claim_def DirectionDebit_def DirectionCredit_def)
  qed
qed

lemma Transfer_effect:
  assumes "Ledger_Transfer intN (pg_ledger env cfg cash fees) req w = (r, w')"
    and I: "db_inv (tabs w) (seqs w)" and cfg: "config_ok cfg"
  shows "caller_effect (act_UserID (mr_Actor req)) (mr_IdempotencyKey req) (tabs w) (tabs w')"
proof -
  let ?u = "act_UserID (mr_Actor req)" and ?L = "pg_ledger env cfg cash fees"
  let ?build = "build_transfer intN ?L req"
  have fee: "in_int64 (cfg_TransferFee cfg)" using cfg by (simp add: config_ok_def)
  have typed: "\<forall>m a. amountWithin (mr_AmountSen req) (cfg_MinTransfer cfg) (cfg_MaxTransfer cfg) = Inr m \<longrightarrow>
      typed_build (?build m a)"
    using fee by (auto intro!: build_transfer_typed dest: amountWithin_Inr)
  show ?thesis
  proof (cases rule: money_op_effect [where build = ?build,
        OF typed I assms(1) [unfolded Ledger_Transfer_def pg_ledger_simps],
        case_names same posted])
    case same
    then show ?thesis by (simp add: caller_effect_def)
  next
    case (posted m a w0 w1 w2 txn p)
    have m: "0 < m" "in_int64 m" using amountWithin_Inr [OF posted(1)] by blast+
    obtain b s where N: "NewTransfer (acc_ID a) b s m (cfg_TransferFee cfg) ?u (mr_Description req) = Inr txn"
      using posted(5) by (auto simp: build_transfer_def bindP_Inr_iff liftR_iff split: if_splits)
    have own: "acc_UserID b = Some ?u" if "b \<in> set (accounts (tabs w))" "acc_ID b = acc_ID a" for b
      using account_id_unique [OF I that(1) posted(2) that(2)] posted(3) by simp
    show ?thesis
      using caller_effectI [OF posted(9,7,8) I] m own N [unfolded NewTransfer_Inr_iff [OF m(2) fee]]
      by (auto simp: MoneyRequest_claim_def DirectionDebit_def DirectionCredit_def)
  qed
qed

lemma Reverse_effect:
  assumes "Ledger_Reverse (pg_ledger env cfg cash fees) req w = (r, w')" and I: "db_inv (tabs w) (seqs w)"
  shows "tabs w' = tabs w
    \<or> Actor_IsAdmin (rr_Actor req)
      \<and> recorded_for (act_UserID (rr_Actor req)) (rr_IdempotencyKey req) (tabs w) (tabs w')"
proof (cases "Actor_IsAdmin (rr_Actor req)")
  case False
  with assms(1) show ?thesis by (simp add: Ledger_Reverse_def)
next
  case True
  with assms(1) have "postIdempotent (pg_ledger env cfg cash fees) (ReverseRequest_claim req)
      (build_reversal (pg_ledger env cfg cash fees) req) w = (r, w')" by (simp add: Ledger_Reverse_def)
  from postIdempotent_effect [OF build_reversal_typed I this] show ?thesis
  proof (elim disjE exE conjE)
    fix w1 w2 txn p
    assume b: "build_reversal (pg_ledger env cfg cash fees) req w1 = (Inr txn, w2)"
      and P: "posted_now env w (ReverseRequest_claim req) txn p w'"
    have "txn_InitiatedBy txn = Some (clm_UserID (ReverseRequest_claim req))"
      using b using sym [of "Inr txn"]
      by (auto simp: build_reversal_def bindP_Inr_iff liftR_iff ReverseRequest_claim_def NewReversal_Inr_iff dest!: sym [of "Inr txn"])
    from posted_now_recorded [OF P this] True show ?thesis by (simp add: ReverseRequest_claim_def)
  qed simp
qed

section \<open>Account operations touch no money\<close>

lemma quiet_trans_same: "\<lbrakk>T1 = T; quiet T1 T2\<rbrakk> \<Longrightarrow> quiet T T2"
  by simp

lemma Register_quiet:
  assumes "Auth_Register (pg_auth env hs ver iss ttl dm) ac inp w = (r, w')"
  shows "quiet (tabs w) (tabs w')"
  using assms by (cases rule: Register_cases) (auto simp: quiet_refl dest: register_quiet)

lemma issuePair_quiet:
  assumes "Auth_issuePair (pg_auth env hs ver iss ttl dm) ac u w = (r, w')"
  shows "quiet (tabs w) (tabs w')"
  using issuePair_effect [OF assms] by (cases r) (auto simp: quiet_refl intro: quiet_tables)

lemma Login_quiet:
  assumes "Auth_Login (pg_auth env hs ver iss ttl dm) ac email pw w = (r, w')"
  shows "quiet (tabs w) (tabs w')"
  using assms by (cases rule: Login_cases) (auto simp: quiet_refl dest: issuePair_quiet)

lemma Refresh_quiet:
  assumes "Auth_Refresh (pg_auth env hs ver iss ttl dm) ac tok w = (r, w')"
  shows "quiet (tabs w) (tabs w')"
  using assms
proof (cases rule: Refresh_cases)
  case (refused e)
  then show ?thesis by (simp add: quiet_refl)
next
  case (reused t q w1)
  with tokens_only_quiet [OF tokens_only_effect(3)] show ?thesis by metis
next
  case (lost t e w1)
  with tokens_only_quiet [OF tokens_only_effect(2)] show ?thesis by metis
next
  case (rotated t u w1 w2)
  obtain R where "tabs w2 = (tabs w)\<lparr>refresh_tokens := R\<rparr>"
    using tokens_only_effect(2) [OF rotated(7)] rotated(5) unfolding tokens_only_def by metis
  with issuePair_quiet [OF rotated(8)] show ?thesis by (simp add: quiet_def)
qed

lemma Logout_quiet:
  assumes "Auth_Logout (pg_auth env hs ver iss ttl dm) ac tok w = (r, w')"
  shows "quiet (tabs w) (tabs w')"
proof -
  obtain q w1 where V: "RefreshTokenRepo_Revoke env (hashToken ac tok) w = (q, w1)" by fastforce
  with assms have "w' = w1" by (auto simp: Auth_Logout_def split: sum.splits if_splits)
  with tokens_only_quiet [OF tokens_only_effect(2)] V show ?thesis by blast
qed

lemmas auth_quiet = Register_quiet Login_quiet Refresh_quiet Logout_quiet

end
