(* ===== verification/HttpFacts.thy ===== *)
theory HttpFacts
  imports Router Effects
begin

text \<open>
  The HTTP API on PostgreSQL: what a request can do to the database and who may do it.
  \<open>stays\<close> follows a relation between databases through handlers and middleware; the locale
  \<open>endpoint_effects\<close> lifts what the services keep to every endpoint of the router.
\<close>

section \<open>What a program may do to the database\<close>

text \<open>
  \<open>stays R f\<close>: however \<open>f\<close> ends, the databases before and after are related by \<open>R\<close>. The rules
  pass a middleware's guard on to the handler behind it.
\<close>

definition stays :: "(pg \<Rightarrow> pg \<Rightarrow> bool) \<Rightarrow> ('l world \<Rightarrow> ending \<times> 'l world) \<Rightarrow> bool" where
  "stays R f \<longleftrightarrow> (\<forall>w e w'. f w = (e, w') \<longrightarrow> R (hw_pg w) (hw_pg w'))"

named_theorems stays_intros \<open>rules for stays\<close>

lemma reply_iff [prog_simps]: "reply rs w = (e, w') \<longleftrightarrow> e = Responds rs \<and> w' = w"
  by (auto simp: reply_def)

lemma fail_world: "fail d cx err w = (e, w') \<Longrightarrow> hw_pg w' = hw_pg w"
  by (auto simp: fail_def reply_def Let_def split: if_splits)

lemma on_pg_iff [prog_simps]: "on_pg m w = (r, w') \<longleftrightarrow> (\<exists>p. m (hw_pg w) = (r, p) \<and> w' = w\<lparr>hw_pg := p\<rparr>)"
  by (auto simp: on_pg_def split: prod.splits)

lemma allow_pg: "allow d c l key w = (ok, w') \<Longrightarrow> hw_pg w' = hw_pg w"
  by (auto simp: allow_def split: prod.splits)

lemma onLoginFail_pg [simp]: "hw_pg (onLoginFail reason w) = hw_pg w"
  by (simp add: onLoginFail_def)

lemma record_pg [simp]: "hw_pg (ledgerHandler_record res typ w) = hw_pg w"
  by (simp add: ledgerHandler_record_def split: sum.split)

lemma staysD: "\<lbrakk>stays R f; f w = (e, w')\<rbrakk> \<Longrightarrow> R (hw_pg w) (hw_pg w')"
  by (simp add: stays_def)

lemma stays_fail [stays_intros]: "reflp R \<Longrightarrow> stays R (fail d cx err)"
  by (auto simp: stays_def reflpD dest!: fail_world)

lemma stays_reply [stays_intros]: "reflp R \<Longrightarrow> stays R (reply rs)"
  by (auto simp: stays_def reply_iff intro: reflpD)

lemma stays_with_valid [stays_intros]:
  "\<lbrakk>reflp R; \<And>a. \<lbrakk>decoded = Inr a; validate a = None\<rbrakk> \<Longrightarrow> stays R (k a)\<rbrakk> \<Longrightarrow>
   stays R (with_valid d cx decoded validate k)"
  by (auto simp: stays_def with_valid_def reflpD split: sum.splits option.splits dest!: fail_world)

lemma stays_case_result [stays_intros]:
  "\<lbrakk>reflp R; \<And>a. x = Inr a \<Longrightarrow> stays R (k a)\<rbrakk> \<Longrightarrow>
   stays R (\<lambda>w. case x of Inl err \<Rightarrow> fail d cx err w | Inr a \<Rightarrow> k a w)"
  using stays_fail by (cases x) auto

lemma stays_case_option [stays_intros]:
  "\<lbrakk>reflp R; \<And>a. x = Some a \<Longrightarrow> stays R (k a)\<rbrakk> \<Longrightarrow>
   stays R (\<lambda>w. case x of None \<Rightarrow> fail d cx err w | Some a \<Rightarrow> k a w)"
  using stays_fail by (cases x) auto

lemma respond_pg: "respond d cx f (r, w) = (e, w') \<Longrightarrow> hw_pg w' = hw_pg w"
  by (auto simp: respond_def reply_iff split: sum.splits dest: fail_world)

lemma stays_respond [stays_intros]:
  "(\<And>p r p'. m p = (r, p') \<Longrightarrow> R p p') \<Longrightarrow> stays R (\<lambda>w. respond d cx f (on_pg m w))"
  by (fastforce simp: stays_def on_pg_def split: prod.splits dest: respond_pg)

lemma stays_posted [stays_intros]:
  "(\<And>p r p'. m p = (r, p') \<Longrightarrow> R p p') \<Longrightarrow> stays R (posted d cx typ m)"
  by (fastforce simp: stays_def posted_def on_pg_def split: prod.splits dest: respond_pg)

lemma stays_add_headers [stays_intros]: "stays R (next cx r) \<Longrightarrow> stays R (add_headers hs next cx r)"
  by (fastforce simp: stays_def add_headers_def split: prod.splits ending.splits)

lemma stays_securityHeaders [stays_intros]: "stays R (next cx r) \<Longrightarrow> stays R (securityHeaders isProd next cx r)"
  unfolding securityHeaders_def by (rule stays_intros)

lemma stays_recoverer [stays_intros]: "stays R (next cx r) \<Longrightarrow> stays R (recoverer next cx r)"
  by (fastforce simp: stays_def recoverer_def Let_def reply_iff split: prod.splits ending.splits)

lemma stays_requestID [stays_intros]:
  "\<lbrakk>reflp R; \<And>i. stays R (next (cx\<lparr>cx_RequestID := i\<rparr>) r)\<rbrakk> \<Longrightarrow> stays R (requestID c next cx r)"
  unfolding requestID_def
  by (cases "cl_request_id c") (simp_all add: stays_reply stays_add_headers)

lemma stays_logAndMeasure [stays_intros]: "stays R (next cx r) \<Longrightarrow> stays R (logAndMeasure next cx r)"
  by (fastforce simp: stays_def logAndMeasure_def Let_def split: prod.splits ending.splits)

definition bearer :: "'l Deps \<Rightarrow> call \<Rightarrow> request \<Rightarrow> Claims \<Rightarrow> bool" where
  "bearer d c r claims \<longleftrightarrow>
     (\<exists>tok. rq_Header r ''Authorization'' = ''Bearer '' @ tok
        \<and> JWT_Parse (dp_jwt_lib d) (dp_JWT d) (cl_now c) tok = Inr claims)"

lemma TrimPrefix_HasPrefix: "HasPrefix s p \<Longrightarrow> s = p @ TrimPrefix s p"
  unfolding HasPrefix_def TrimPrefix_def by (metis append_take_drop_id)

lemma stays_authenticate:
  assumes "reflp R"
    and "\<And>claims. bearer d c r claims \<Longrightarrow>
      stays R (next (cx\<lparr>cx_Actor := Some \<lparr> act_UserID = jc_UserID claims, act_Role = jc_Role claims \<rparr>\<rparr>) r)"
  shows "stays R (authenticate d c next cx r)"
proof (cases "HasPrefix (rq_Header r ''Authorization'') ''Bearer ''")
  case False
  then show ?thesis using stays_fail [OF assms(1)] by (simp add: authenticate_def)
next
  case True
  let ?parsed = "JWT_Parse (dp_jwt_lib d) (dp_JWT d) (cl_now c) (TrimPrefix (rq_Header r ''Authorization'') ''Bearer '')"
  show ?thesis
  proof (cases ?parsed)
    case (Inl err)
    with True show ?thesis using stays_fail [OF assms(1)] by (simp add: authenticate_def)
  next
    case (Inr claims)
    with TrimPrefix_HasPrefix [OF True] have "bearer d c r claims" by (auto simp: bearer_def)
    from assms(2) [OF this] True Inr show ?thesis by (simp add: authenticate_def)
  qed
qed

lemma stays_requireAdmin [stays_intros]:
  assumes "reflp R" "\<And>a. \<lbrakk>cx_Actor cx = Some a; act_Role a = RoleAdmin\<rbrakk> \<Longrightarrow> stays R (next cx r)"
  shows "stays R (requireAdmin d next cx r)"
  using assms stays_fail [OF assms(1)]
  by (cases "cx_Actor cx"; cases "Actor_IsAdmin (the (cx_Actor cx))")
    (simp_all add: requireAdmin_def Actor_IsAdmin_def)

lemma stays_rateLimitByActor [stays_intros]:
  assumes "reflp R" "stays R (next cx r)"
  shows "stays R (rateLimitByActor d c l next cx r)"
  using assms
  by (auto simp: stays_def rateLimitByActor_def split: option.splits prod.splits if_splits
      dest!: fail_world allow_pg intro: reflpD) metis

lemma stays_rateLimitByIP [stays_intros]:
  assumes "reflp R" "stays R (next cx r)"
  shows "stays R (rateLimitByIP d c l next cx r)"
  using assms
  by (auto simp: stays_def rateLimitByIP_def split: prod.splits if_splits
      dest!: fail_world allow_pg intro: reflpD) metis

definition key_of :: "request \<Rightarrow> string" where
  "key_of r = TrimSpace (rq_Header r ''Idempotency-Key'')"

lemma stays_idempotency [stays_intros]:
  assumes "reflp R"
    and "\<And>bytes. \<lbrakk>key_of r \<noteq> []; length (key_of r) \<le> 128; ReadAll (limited (rq_Body r)) = Inr bytes\<rbrakk> \<Longrightarrow>
      stays R (next (cx\<lparr>cx_IdempotencyKey := key_of r, cx_RequestHash := request_hash c r bytes\<rparr>)
        (r\<lparr>rq_Body := \<lparr> bd_bytes = bytes, bd_err = None \<rparr>\<rparr>))"
  shows "stays R (idempotency d c next cx r)"
proof (cases "key_of r = [] \<or> length (key_of r) > 128")
  case True
  then have "idempotency d c next cx r = fail d cx ErrIdempotencyKeyRequired"
    by (auto simp: idempotency_def Let_def key_of_def)
  with stays_fail [OF assms(1)] show ?thesis by simp
next
  case False
  show ?thesis
  proof (cases "ReadAll (limited (rq_Body r))")
    case (Inl err)
    with False have "idempotency d c next cx r = fail d cx err"
      by (auto simp: idempotency_def Let_def key_of_def)
    with stays_fail [OF assms(1)] show ?thesis by simp
  next
    case (Inr bytes)
    with False have "idempotency d c next cx r
        = next (cx\<lparr>cx_IdempotencyKey := key_of r, cx_RequestHash := request_hash c r bytes\<rparr>)
            (r\<lparr>rq_Body := \<lparr> bd_bytes = bytes, bd_err = None \<rparr>\<rparr>)"
      by (auto simp: idempotency_def Let_def key_of_def)
    with assms(2) False Inr show ?thesis by simp
  qed
qed

section \<open>The effect of a request, endpoint by endpoint\<close>

definition actor_of :: "Claims \<Rightarrow> actor" where
  "actor_of claims = \<lparr> act_UserID = jc_UserID claims, act_Role = jc_Role claims \<rparr>"

lemma actor_of_simps [simp]:
  "act_UserID (actor_of claims) = jc_UserID claims" "act_Role (actor_of claims) = jc_Role claims"
  by (simp_all add: actor_of_def)

text \<open>
  \<open>endpoint_effects\<close> is the contract between the services and the router: \<open>R rt\<close> holds between the
  databases before and after the service call of the endpoint \<open>rt\<close>, where the router has
  established the caller's token, role and key first. Then it holds for the whole request,
  whatever the middleware, the handler and the world do.
\<close>

locale endpoint_effects =
  fixes d :: "'l Deps" and c :: call and r :: request and R :: "route \<Rightarrow> pg \<Rightarrow> pg \<Rightarrow> bool"
  assumes none: "R rt v v"
    and register: "Auth_Register (dp_Auth d c) (cl_auth c) inp v = (ua, v') \<Longrightarrow> R PostRegister v v'"
    and login: "Auth_Login (dp_Auth d c) (cl_auth c) email pw v = (tp, v') \<Longrightarrow> R PostLogin v v'"
    and refresh: "Auth_Refresh (dp_Auth d c) (cl_auth c) tok v = (tp, v') \<Longrightarrow> R PostRefresh v v'"
    and logout: "\<lbrakk>bearer d c r claims; Auth_Logout (dp_Auth d c) (cl_auth c) tok v = (un, v')\<rbrakk> \<Longrightarrow>
      R PostLogout v v'"
    and my_wallet: "\<lbrakk>bearer d c r claims; Ledger_MyWallet (dp_Ledger d c) (actor_of claims) v = (ac, v')\<rbrakk> \<Longrightarrow>
      R GetAccountsMe v v'"
    and my_entries: "\<lbrakk>bearer d c r claims; Ledger_MyEntries (dp_Ledger d c) (actor_of claims) cur lim v = (pg, v')\<rbrakk> \<Longrightarrow>
      R GetAccountsMeEntries v v'"
    and topup: "\<lbrakk>bearer d c r claims; mr_Actor req = actor_of claims; mr_IdempotencyKey req = key_of r;
      Ledger_Topup (dp_Ledger d c) req v = (pr, v')\<rbrakk> \<Longrightarrow> R PostTopup v v'"
    and withdraw: "\<lbrakk>bearer d c r claims; mr_Actor req = actor_of claims; mr_IdempotencyKey req = key_of r;
      Ledger_Withdraw (dp_Ledger d c) req v = (pr, v')\<rbrakk> \<Longrightarrow> R PostWithdraw v v'"
    and transfer: "\<lbrakk>bearer d c r claims; mr_Actor treq = actor_of claims; mr_IdempotencyKey treq = key_of r;
      Ledger_Transfer (cl_intN c) (dp_Ledger d c) treq v = (pr, v')\<rbrakk> \<Longrightarrow> R PostTransfer v v'"
    and get_transaction: "\<lbrakk>bearer d c r claims; Ledger_GetTransaction (dp_Ledger d c) (actor_of claims) i v = (pr, v')\<rbrakk> \<Longrightarrow>
      R GetTransactionByID v v'"
    and reverse: "\<lbrakk>bearer d c r claims; jc_Role claims = RoleAdmin; rr_Actor rreq = actor_of claims;
      rr_IdempotencyKey rreq = key_of r; Ledger_Reverse (dp_Ledger d c) rreq v = (pr, v')\<rbrakk> \<Longrightarrow> R PostReverse v v'"
    and trial_balance: "\<lbrakk>bearer d c r claims; jc_Role claims = RoleAdmin;
      Ledger_TrialBalance (dp_Ledger d c) (actor_of claims) v = (tb, v')\<rbrakk> \<Longrightarrow> R GetTrialBalance v v'"
begin

lemma reflp_R: "reflp (R rt)"
  by (rule reflpI) (rule none)

lemmas authed = stays_authenticate [OF reflp_R, folded actor_of_def]

lemma login_stays: "stays (R PostLogin) (authHandler_login d c cx rq)"
  unfolding stays_def
proof (intro allI impI)
  fix w e w' assume "authHandler_login d c cx rq w = (e, w')"
  then have "hw_pg w' = hw_pg w
      \<or> (\<exists>email pw q. Auth_Login (dp_Auth d c) (cl_auth c) email pw (hw_pg w) = (q, hw_pg w'))"
    by (auto simp: authHandler_login_def with_valid_def Let_def on_pg_def reply_iff
        split: sum.splits option.splits prod.splits if_splits dest!: fail_world allow_pg)
  with login none show "R PostLogin (hw_pg w) (hw_pg w')" by metis
qed

lemma endpoint_stays: "stays (R rt) (endpoint d c rt cx r)"
proof (cases rt)
  case GetHealthz
  then show ?thesis by (simp add: healthz_def stays_reply [OF reflp_R])
next
  case GetReadyz
  then show ?thesis
    by (auto simp: readyz_def stays_def reply_iff none split: option.splits if_splits)
next
  case GetMetrics
  then show ?thesis using stays_reply [OF reflp_R] by simp
next
  case PostRegister
  show ?thesis
    unfolding PostRegister endpoint.simps authHandler_register_def
    by (intro stays_intros reflp_R) (rule register)
next
  case PostLogin
  then show ?thesis by (simp add: login_stays)
next
  case PostRefresh
  show ?thesis
    unfolding PostRefresh endpoint.simps authHandler_refresh_def
    by (intro stays_intros reflp_R) (rule refresh)
next
  case PostLogout
  show ?thesis
    unfolding PostLogout endpoint.simps authHandler_logout_def
    by (rule authed) (intro stays_intros reflp_R, rule logout)
next
  case GetAccountsMe
  show ?thesis
    unfolding GetAccountsMe endpoint.simps ledgerHandler_myWallet_def
    by (rule authed) (intro stays_intros reflp_R, rule my_wallet, simp_all add: actorFrom_def)
next
  case GetAccountsMeEntries
  show ?thesis
    unfolding GetAccountsMeEntries endpoint.simps ledgerHandler_myEntries_def
    by (rule authed) (intro stays_intros reflp_R, rule my_entries, simp_all add: actorFrom_def)
next
  case PostTopup
  show ?thesis
    unfolding PostTopup endpoint.simps ledgerHandler_topup_def
    by (rule authed)
      (intro stays_intros reflp_R, rule topup, simp_all add: actorFrom_def ledgerHandler_moneyRequest_def)
next
  case PostWithdraw
  show ?thesis
    unfolding PostWithdraw endpoint.simps ledgerHandler_withdraw_def
    by (rule authed)
      (intro stays_intros reflp_R, rule withdraw, simp_all add: actorFrom_def ledgerHandler_moneyRequest_def)
next
  case GetTrialBalance
  show ?thesis
    unfolding GetTrialBalance endpoint.simps ledgerHandler_trialBalance_def
    by (rule authed)
      (intro stays_intros reflp_R, rule trial_balance, auto simp: actorFrom_def simp flip: actor_of_simps(2))
next
  case PostTransfer
  show ?thesis
    unfolding PostTransfer endpoint.simps ledgerHandler_transfer_def
    by (rule authed)
      (intro stays_intros reflp_R, rule transfer,
       simp_all add: actorFrom_def ledgerHandler_moneyRequest_def money_request.defs transfer_request.defs)
next
  case GetTransactionByID
  show ?thesis
    unfolding GetTransactionByID endpoint.simps ledgerHandler_getTransaction_def
    by (rule authed) (intro stays_intros reflp_R, rule get_transaction, simp_all add: actorFrom_def)
next
  case PostReverse
  show ?thesis
    unfolding PostReverse endpoint.simps ledgerHandler_reverse_def
    by (rule authed)
      (intro stays_intros reflp_R, rule reverse, auto simp: actorFrom_def simp flip: actor_of_simps(2))
qed

lemma router:
  assumes "NewRouter d c rt uid r w = (e, w')"
  shows "R rt (hw_pg w) (hw_pg w')"
proof -
  have "stays (R rt) (NewRouter d c rt uid r)"
    unfolding NewRouter_def using endpoint_stays reflp_R
    by (auto intro!: stays_securityHeaders stays_recoverer stays_requestID stays_logAndMeasure split: if_split)
  from staysD [OF this assms] show ?thesis .
qed

end

section \<open>The API's requests\<close>

lemma api_deps_simps [simp]:
  "dp_Auth (api_deps L p) = api_auth L p" "dp_Ledger (api_deps L p) = api_ledger p"
  "dp_JWT (api_deps L p) = ap_jwt p" "dp_jwt_lib (api_deps L p) = li_jwt L"
  "dp_text (api_deps L p) = li_text L" "dp_Prod (api_deps L p) = Config_IsProduction (ap_config p)"
  "dp_json (api_deps L p) = li_json L" "dp_Ready (api_deps L p) = cl_ping"
  "dp_metrics_page (api_deps L p) = li_metrics_page L" "dp_uuid_parse (api_deps L p) = li_uuid_parse L"
  by (simp_all add: api_deps_def)

abbreviation api_config :: "api_process \<Rightarrow> ledger_config" where
  "api_config p \<equiv> L_cfg (ap_ledger p)"

lemma call_steps:
  assumes "config_ok (api_config p)" "reachable v"
  shows "Ledger_Topup (api_ledger p c) req v = (x, v') \<Longrightarrow> db_step\<^sup>*\<^sup>* v v'"
    and "Ledger_Withdraw (api_ledger p c) req v = (x, v') \<Longrightarrow> db_step\<^sup>*\<^sup>* v v'"
    and "Ledger_Transfer intN (api_ledger p c) treq v = (x, v') \<Longrightarrow> db_step\<^sup>*\<^sup>* v v'"
    and "Ledger_Reverse (api_ledger p c) rreq v = (x, v') \<Longrightarrow> db_step\<^sup>*\<^sup>* v v'"
    and "Ledger_GetTransaction (api_ledger p c) a i v = (x, v') \<Longrightarrow> db_step\<^sup>*\<^sup>* v v'"
    and "Ledger_MyWallet (api_ledger p c) a v = (y, v') \<Longrightarrow> db_step\<^sup>*\<^sup>* v v'"
    and "Ledger_MyEntries (api_ledger p c) a cursor lim v = (z, v') \<Longrightarrow> db_step\<^sup>*\<^sup>* v v'"
    and "Ledger_TrialBalance (api_ledger p c) a v = (t, v') \<Longrightarrow> db_step\<^sup>*\<^sup>* v v'"
  using assms(1) api_call_steps [OF _ reachable_inv [OF assms(2)]] unfolding api_ledger_def
  by (blast intro: api_call.intros)+

interpretation lawful: endpoint_effects "api_deps L p" c r
    "\<lambda>rt v v'. config_ok (api_config p) \<longrightarrow> reachable v \<longrightarrow> db_step\<^sup>*\<^sup>* v v'" for L p c r
proof unfold_locales
  fix inp and v v' :: pg and ua
  assume "Auth_Register (dp_Auth (api_deps L p) c) (cl_auth c) inp v = (ua, v')"
  then show "config_ok (api_config p) \<longrightarrow> reachable v \<longrightarrow> db_step\<^sup>*\<^sup>* v v'"
    using Register_steps unfolding api_deps_simps api_auth_def by blast
next
  fix email pw and v v' :: pg and tp
  assume "Auth_Login (dp_Auth (api_deps L p) c) (cl_auth c) email pw v = (tp, v')"
  then show "config_ok (api_config p) \<longrightarrow> reachable v \<longrightarrow> db_step\<^sup>*\<^sup>* v v'"
    using Login_steps unfolding api_deps_simps api_auth_def by blast
next
  fix tok and v v' :: pg and tp
  assume "Auth_Refresh (dp_Auth (api_deps L p) c) (cl_auth c) tok v = (tp, v')"
  then show "config_ok (api_config p) \<longrightarrow> reachable v \<longrightarrow> db_step\<^sup>*\<^sup>* v v'"
    using Refresh_steps unfolding api_deps_simps api_auth_def by blast
next
  fix tok and v v' :: pg and tp
  assume "Auth_Logout (dp_Auth (api_deps L p) c) (cl_auth c) tok v = (tp, v')"
  then show "config_ok (api_config p) \<longrightarrow> reachable v \<longrightarrow> db_step\<^sup>*\<^sup>* v v'"
    using Logout_steps unfolding api_deps_simps api_auth_def by blast
qed (simp_all add: call_steps)

text \<open>What NewLedger found at startup stays true in every later database.\<close>

definition api_ready :: "api_process \<Rightarrow> tables \<Rightarrow> bool" where
  "api_ready p T \<longleftrightarrow> config_ok (api_config p) \<and> cash_account T (L_cashID (ap_ledger p))"

text \<open>What the tables show of a request to the endpoint \<open>rt\<close>.\<close>

definition authorized ::
    "'r libs \<Rightarrow> api_process \<Rightarrow> call \<Rightarrow> request \<Rightarrow> route \<Rightarrow> tables \<Rightarrow> tables \<Rightarrow> bool" where
  "authorized L p c r rt T T' \<longleftrightarrow>
     T' = T
     \<or> rt \<in> {PostRegister, PostLogin, PostRefresh} \<and> quiet T T'
     \<or> (\<exists>claims. bearer (api_deps L p) c r claims
          \<and> (rt = PostLogout \<and> quiet T T'
             \<or> rt \<in> {PostTopup, PostWithdraw, PostTransfer}
                \<and> recorded_for (jc_UserID claims) (key_of r) T T' \<and> spares_others (jc_UserID claims) T T'
             \<or> rt = PostReverse \<and> jc_Role claims = RoleAdmin
                \<and> recorded_for (jc_UserID claims) (key_of r) T T'))"

lemma authorized_caller:
  assumes "bearer (api_deps L p) c r claims" "rt \<in> {PostTopup, PostWithdraw, PostTransfer}"
    and "caller_effect (jc_UserID claims) (key_of r) T T'"
  shows "authorized L p c r rt T T'"
  using assms unfolding authorized_def caller_effect_def by blast

lemma reads_services:
  "reads (Ledger_MyWallet (pg_ledger env cfg cash fees) a)"
  "reads (Ledger_MyEntries (pg_ledger env cfg cash fees) a cursor lim)"
  "reads (Ledger_GetTransaction (pg_ledger env cfg cash fees) a i)"
  "reads (Ledger_TrialBalance (pg_ledger env cfg cash fees) a)"
  unfolding Ledger_MyWallet_def Ledger_MyEntries_def Ledger_GetTransaction_def Ledger_TrialBalance_def Let_def
  by (auto intro!: reads_intros)

lemma services_same:
  "Ledger_MyWallet (api_ledger p c) a v = (x, v') \<Longrightarrow> tabs v' = tabs v"
  "Ledger_MyEntries (api_ledger p c) a cursor lim v = (y, v') \<Longrightarrow> tabs v' = tabs v"
  "Ledger_GetTransaction (api_ledger p c) a i v = (z, v') \<Longrightarrow> tabs v' = tabs v"
  "Ledger_TrialBalance (api_ledger p c) a v = (t, v') \<Longrightarrow> tabs v' = tabs v"
  unfolding api_ledger_def
  by (simp_all add: readsD [OF reads_services(1)] readsD [OF reads_services(2)]
      readsD [OF reads_services(3)] readsD [OF reads_services(4)])

lemma api_auth_quiet:
  "Auth_Register (api_auth L p c) ac inp v = (x, v') \<Longrightarrow> quiet (tabs v) (tabs v')"
  "Auth_Login (api_auth L p c) ac email pw v = (y, v') \<Longrightarrow> quiet (tabs v) (tabs v')"
  "Auth_Refresh (api_auth L p c) ac tok v = (y, v') \<Longrightarrow> quiet (tabs v) (tabs v')"
  "Auth_Logout (api_auth L p c) ac tok v = (z, v') \<Longrightarrow> quiet (tabs v) (tabs v')"
  unfolding api_auth_def by (fact auth_quiet)+

interpretation guarded: endpoint_effects "api_deps L p" c r
    "\<lambda>rt v v'. api_ready p (tabs v) \<longrightarrow> reachable v \<longrightarrow> authorized L p c r rt (tabs v) (tabs v')" for L p c r
proof unfold_locales
  fix claims v v' pr and req :: money_request assume b: "bearer (api_deps L p) c r claims"
    and k: "mr_Actor req = actor_of claims" "mr_IdempotencyKey req = key_of r"
  show "Ledger_Topup (dp_Ledger (api_deps L p) c) req v = (pr, v') \<Longrightarrow>
      api_ready p (tabs v) \<longrightarrow> reachable v \<longrightarrow> authorized L p c r PostTopup (tabs v) (tabs v')"
    using authorized_caller [OF b] Topup_effect [where req = req, OF _ reachable_inv] k
    by (simp add: api_ledger_def api_ready_def)
next
  fix claims v v' pr and req :: money_request assume b: "bearer (api_deps L p) c r claims"
    and k: "mr_Actor req = actor_of claims" "mr_IdempotencyKey req = key_of r"
  show "Ledger_Withdraw (dp_Ledger (api_deps L p) c) req v = (pr, v') \<Longrightarrow>
      api_ready p (tabs v) \<longrightarrow> reachable v \<longrightarrow> authorized L p c r PostWithdraw (tabs v) (tabs v')"
    using authorized_caller [OF b] Withdraw_effect [where req = req, OF _ reachable_inv] k
    by (simp add: api_ledger_def api_ready_def)
next
  fix claims v v' pr and treq :: transfer_request assume b: "bearer (api_deps L p) c r claims"
    and k: "mr_Actor treq = actor_of claims" "mr_IdempotencyKey treq = key_of r"
  show "Ledger_Transfer (cl_intN c) (dp_Ledger (api_deps L p) c) treq v = (pr, v') \<Longrightarrow>
      api_ready p (tabs v) \<longrightarrow> reachable v \<longrightarrow> authorized L p c r PostTransfer (tabs v) (tabs v')"
    using authorized_caller [OF b] Transfer_effect [where req = treq, OF _ reachable_inv] k
    by (simp add: api_ledger_def api_ready_def)
next
  fix claims v v' pr and rreq :: reverse_request assume b: "bearer (api_deps L p) c r claims" "jc_Role claims = RoleAdmin"
    and k: "rr_Actor rreq = actor_of claims" "rr_IdempotencyKey rreq = key_of r"
    and run: "Ledger_Reverse (dp_Ledger (api_deps L p) c) rreq v = (pr, v')"
  show "api_ready p (tabs v) \<longrightarrow> reachable v \<longrightarrow> authorized L p c r PostReverse (tabs v) (tabs v')"
    using Reverse_effect [OF run [unfolded api_deps_simps api_ledger_def] reachable_inv] b k
    by (auto simp: authorized_def)
qed (auto simp: authorized_def services_same dest: api_auth_quiet)

section \<open>The requests of the API\<close>

lemma add_headers_responds: "fst (h cx r w) = Responds rs \<Longrightarrow> \<exists>rs. fst (add_headers hs h cx r w) = Responds rs"
  by (cases "h cx r w") (auto simp: add_headers_def)

lemma recoverer_responds: "\<exists>rs. fst (recoverer next cx r w) = Responds rs"
  by (auto simp: recoverer_def reply_def Let_def split: prod.split ending.split)

lemma NewRouter_responds: "\<exists>rs. fst (NewRouter d c rt uid r w) = Responds rs"
proof -
  let ?h = "if in_api rt then recoverer (requestID c (logAndMeasure (endpoint d c rt))) else endpoint d c rt"
  have "\<exists>rs. fst (?h (start_ctx rt uid) r w) = Responds rs"
    using recoverer_responds
    by (auto simp: in_api_def healthz_def readyz_def reply_def split: option.split)
  then show ?thesis
    using add_headers_responds [where h = ?h] unfolding NewRouter_def securityHeaders_def by blast
qed

lemma serve_all_keeps:
  assumes "config_ok (api_config p)" "reachable (hw_pg w)" "serve_all L p qs w = (es, w')"
  shows "reachable (hw_pg w') \<and> length es = length qs \<and> (\<forall>e \<in> set es. \<exists>rs. e = Responds rs)"
  using assms(2,3)
proof (induction qs arbitrary: w es)
  case (Cons q qs)
  obtain c rt uid r where q: "q = (c, rt, uid, r)" by (cases q) auto
  obtain e w1 where S: "NewRouter (api_deps L p) c rt uid r w = (e, w1)" by fastforce
  obtain es' where R: "serve_all L p qs w1 = (es', w')" and es: "es = e # es'"
    using Cons.prems(2) S by (auto simp: q serve_def split: prod.splits)
  have "db_step\<^sup>*\<^sup>* (hw_pg w) (hw_pg w1)" using lawful.router [OF S] assms(1) Cons.prems(1) by simp
  then have "reachable (hw_pg w1)" using reachable_steps Cons.prems(1) by blast
  moreover have "\<exists>rs. e = Responds rs" using NewRouter_responds [of "api_deps L p" c rt uid r w] S by simp
  ultimately show ?case using Cons.IH [OF _ R] es by simp
qed simp

section \<open>A topup over HTTP\<close>

text \<open>A request of user 1 with the token \<open>t\<close> and the key \<open>k1\<close>, for 50 rupiah.\<close>

definition demo_claims1 :: Claims where
  "demo_claims1 = \<lparr> jc_UserID = 1, jc_Role = RoleUser, jc_Issuer = token_issuer, jc_Subject = ''s'',
     jc_ID = ''i'', jc_IssuedAt = 0, jc_NotBefore = 0, jc_ExpiresAt = 900000000000 \<rparr>"

definition demo_libs :: "unit libs" where
  "demo_libs =
     \<lparr> li_jwt = \<lparr> lib_numeric_date = id, lib_sign_HS256 = (\<lambda>c s. Inr ''t''),
          lib_parse = (\<lambda>t o1. if t = ''t'' then Inr demo_claims1 else Inl (NewError ''token'')) \<rparr>,
       li_idkey = demo_idkey, li_argon_version = 19,
       li_json = \<lparr> jl_lex = (\<lambda>b. Value (VObj [(''amount_sen'', VNum (FormatInt 5000)), (''description'', VStr ''isi'')]) []),
          jl_same_name = (\<lambda>a b. False), jl_quote = id \<rparr>,
       li_uuid_parse = (\<lambda>s. None), li_uuid_text = (\<lambda>u. ''u''), li_split_host = (\<lambda>s. None),
       li_text = (\<lambda>e. ''error''), li_redis = \<lparr> rd_INCR = (\<lambda>now k. failP (NewError ''redis'')),
          rd_PEXPIRE = (\<lambda>now k ms. failP (NewError ''redis'')), rd_Eval = (\<lambda>m t. failP (NewError ''redis'')) \<rparr>,
       li_metrics_page = \<lparr> rs_status = 200, rs_header = [], rs_body = Empty \<rparr> \<rparr>"

definition demo_limits :: apiLimiters where
  "demo_limits = (let l = InMemory (ratelimit_New 20 60) in
     \<lparr> al_login = l, al_transfer = l, al_register = l, al_refresh = l, al_money = l \<rparr>)"

definition demo_process :: api_process where
  "demo_process =
     \<lparr> ap_config = default_config ''db'' (replicate 32 (CHR ''k'')), ap_limiters = demo_limits,
       ap_jwt = \<lparr> jwt_secret = replicate 32 (CHR ''k''), jwt_ttl = 900000000000 \<rparr>,
       ap_ledger = pg_ledger demo_env demo_cfg 1 [2, 4], ap_auth = demo_auth \<rparr>"

definition demo_http_call :: call where
  "demo_http_call =
     \<lparr> cl_env = demo_env, cl_auth = (demo_call ''a'')\<lparr>ac_sha256 := (\<lambda>s. [])\<rparr>, cl_now = 10, cl_intN = (\<lambda>n. 0),
       cl_request_id = Inr ''r'', cl_salt = (\<lambda>n. Inr ''s''), cl_jti = ''j'', cl_ping = None \<rparr>"

definition demo_request :: "string \<Rightarrow> request" where
  "demo_request token =
     \<lparr> rq_Method = ''POST'', rq_Path = ''/api/v1/transactions/topup'',
       rq_Header = (\<lambda>n. if n = ''Authorization'' then ''Bearer '' @ token
                        else if n = ''Idempotency-Key'' then ''k1'' else []),
       rq_Query = (\<lambda>n. []), rq_Body = \<lparr> bd_bytes = ''{}'', bd_err = None \<rparr>, rq_RemoteAddr = ''a'' \<rparr>"

definition demo_world :: "unit api_world" where
  "demo_world =
     \<lparr> hw_pg = demo_registered, hw_lim = (demo_limits, ()), hw_log = [], hw_metrics = [], hw_ready = NewReadiness \<rparr>"

definition demo_money_request :: money_request where
  "demo_money_request =
     \<lparr> mr_Actor = actor_of demo_claims1, mr_IdempotencyKey = ''k1'', mr_RequestHash = [], mr_AmountSen = 5000,
       mr_Description = ''isi'' \<rparr>"

lemma demo_process_ready: "api_ready demo_process (tabs demo_registered)" "config_ok (api_config demo_process)"
  using demo_cfg_ok
  by (simp_all add: api_ready_def demo_process_def cash_account_def demo_registered_def migrated_tables_def
      system_row_def account_type_defs)

lemma demo_http_accepts:
  "post_accepts demo_env (env_uuid demo_env k) (env_uuid demo_env l) demo_topup
     (MoneyRequest_claim demo_money_request ''topup'') (tabs demo_registered)"
  by (simp add: post_accepts_def valid_transaction_def demo_topup_def NewTopup_def MoneyRequest_claim_def
      demo_money_request_def demo_claims1_def
      well_formed_entries_def char_length_def claim_free_def demo_registered_def
      migrated_tables_def entry_accepts_def entry_delta_def system_row_def new_wallet_row_def
      new_user_row_def reversal_accepts_def transactions_check_def header_row_def new_txn_row_def
      enum_txn_type_def txn_type_defs in_int64_def AccountActive_def account_type_defs
      DirectionDebit_def DirectionCredit_def Direction_Valid_def side_total_def)

lemma demo_http_wallet:
  "AccountRepo_GetWalletByUserID demo_env 1 demo_registered
     = (Inr (new_wallet_row demo_env 11 102 1), demo_registered\<lparr>steps := Suc (steps demo_registered)\<rparr>)"
  by (simp add: AccountRepo_GetWalletByUserID_def scanAccount_def wrapP_def sql_select_account_def
      demo_registered_def migrated_tables_def new_wallet_row_def system_row_def account_type_defs)

lemma demo_http_topup:
  "\<exists>p v. Ledger_Topup (api_ledger demo_process demo_http_call) demo_money_request demo_registered = (Inr p, v)"
proof -
  let ?w = "demo_registered\<lparr>steps := Suc (steps demo_registered)\<rparr>"
  let ?c = "MoneyRequest_claim demo_money_request ''topup''"
  have key: "clm_Key ?c \<noteq> ''''" "length (clm_Key ?c) \<le> 128"
    by (simp_all add: MoneyRequest_claim_def demo_money_request_def)
  have free: "claim_free (tabs ?w) ?c" using demo_http_accepts by (simp add: post_accepts_def)
  have room: "seq_entries (seqs ?w) + int (length (txn_Entries demo_topup)) \<le> int64_max"
      "seq_outbox (seqs ?w) < int64_max"
    by (simp_all add: demo_registered_def migrated_seqs_def demo_topup_def NewTopup_def)
  have I: "db_inv (tabs ?w) (seqs ?w)" using reachable_inv [OF demo_registered_reachable] by simp
  have "\<exists>p v. postIdempotent (pg_ledger demo_env demo_cfg 1 [2, 4]) ?c (retP demo_topup) ?w = (Inr p, v)"
    by (rule postIdempotent_live [OF demo_no_faults I typed_build_retP [OF demo_typed] key free _ _ room])
      (simp_all add: demo_http_accepts)
  then show ?thesis
    using demo_http_wallet
    by (auto simp: Ledger_Topup_def api_ledger_def demo_process_def demo_http_call_def bindP_def liftR_def
        markViewer_def demo_money_request_def demo_claims1_def amountWithin_def NewMoney_def maxSafeAmount_def
        Rupiah_def demo_cfg_def demo_topup_def new_wallet_row_def)
qed

lemma demo_http_guards:
  "bearer (api_deps demo_libs demo_process) demo_http_call (demo_request ''t'') demo_claims1"
  "authenticate (api_deps demo_libs demo_process) demo_http_call h cx (demo_request ''t'') w
     = h (cx\<lparr>cx_Actor := Some (actor_of demo_claims1)\<rparr>) (demo_request ''t'') w"
  by (simp_all add: bearer_def authenticate_def demo_request_def HasPrefix_def TrimPrefix_def JWT_Parse_def
      demo_libs_def demo_claims1_def RoleUser_def actor_of_def)

lemma demo_http_key: "key_of (demo_request token) = ''k1''"
  unfolding key_of_def demo_request_def by (simp, rule TrimSpace_id) (simp_all add: IsSpace_def)

lemma demo_http_idempotency:
  "idempotency d demo_http_call h cx (demo_request token) w
     = h (cx\<lparr>cx_IdempotencyKey := ''k1'', cx_RequestHash := []\<rparr>) (demo_request token) w"
  unfolding idempotency_def key_of_def [symmetric] demo_http_key Let_def
  by (simp add: demo_request_def ReadAll_def limited_def maxBodyBytes_def request_hash_def
      demo_http_call_def hex_encode_def)

lemma demo_http_limiter:
  "\<exists>s. allow (api_deps demo_libs demo_process) demo_http_call MoneyLimiter (''user:'' @ x) demo_world
     = (True, demo_world\<lparr>hw_lim := s\<rparr>)"
  by (simp add: allow_def api_deps_def api_allow_def limiter_allow_def demo_world_def demo_limits_def Let_def
      Limiter_Allow_def ratelimit_New_def gc_def)

lemma demo_http_decodes:
  "decode_money (li_json demo_libs) b = Inr \<lparr> mq_AmountSen = 5000, mq_Description = ''isi'' \<rparr>"
  using ParseInt_FormatInt [of 5000]
  by (simp add: decode_money_def map_result_def decodeJSON_def dec_More_def demo_libs_def decode_struct_def
      moneyRequest_fields_def find_field_def decode_field_def Let_def str_of_def int_of_def in_int64_def)

lemma demo_http_served:
  "\<exists>rs p w'. serve demo_libs demo_process demo_http_call (PostTopup, [], demo_request ''t'') demo_world
       = (Responds rs, w') \<and> rs_status rs = 201
     \<and> Ledger_Topup (api_ledger demo_process demo_http_call) demo_money_request demo_registered = (Inr p, hw_pg w')"
proof -
  let ?d = "api_deps demo_libs demo_process" and ?c = demo_http_call
  obtain p v where L: "Ledger_Topup (api_ledger demo_process ?c) demo_money_request demo_registered = (Inr p, v)"
    using demo_http_topup by blast
  obtain s where A: "allow ?d ?c MoneyLimiter (''user:'' @ itoa 1) demo_world = (True, demo_world\<lparr>hw_lim := s\<rparr>)"
    using demo_http_limiter by blast
  let ?cx = "(start_ctx PostTopup [])\<lparr>cx_RequestID := hex_encode ''r'', cx_Actor := Some (actor_of demo_claims1),
    cx_IdempotencyKey := ''k1'', cx_RequestHash := []\<rparr>"
  have valid: "moneyRequest_validate \<lparr> mq_AmountSen = 5000, mq_Description = ''isi'' \<rparr> = None"
    by (simp add: moneyRequest_validate_def money_faults_def NewValidationError_def)
  have req: "ledgerHandler_moneyRequest ?cx \<lparr> mq_AmountSen = 5000, mq_Description = ''isi'' \<rparr> = demo_money_request"
    by (simp add: ledgerHandler_moneyRequest_def demo_money_request_def actorFrom_def)
  have "\<exists>w1. ledgerHandler_topup ?d ?c ?cx (demo_request ''t'') (demo_world\<lparr>hw_lim := s\<rparr>)
      = (Responds (writeData 201 (DTransaction (toTransactionResponse p))), w1) \<and> hw_pg w1 = v"
    using L valid
    by (simp add: ledgerHandler_topup_def with_valid_def demo_http_decodes posted_def on_pg_def req demo_world_def
        respond_def reply_def)
  then obtain w1 where H: "ledgerHandler_topup ?d ?c ?cx (demo_request ''t'') (demo_world\<lparr>hw_lim := s\<rparr>)
      = (Responds (writeData 201 (DTransaction (toTransactionResponse p))), w1)" "hw_pg w1 = v" by blast
  have "rateLimitByActor ?d ?c MoneyLimiter (ledgerHandler_topup ?d ?c) ?cx (demo_request ''t'') demo_world
      = (Responds (writeData 201 (DTransaction (toTransactionResponse p))), w1)"
    using A H(1) by (simp add: rateLimitByActor_def demo_claims1_def)
  then have "endpoint ?d ?c PostTopup ((start_ctx PostTopup [])\<lparr>cx_RequestID := hex_encode ''r''\<rparr>) (demo_request ''t'') demo_world
      = (Responds (writeData 201 (DTransaction (toTransactionResponse p))), w1)"
    by (simp add: demo_http_guards(2) demo_http_idempotency)
  then show ?thesis
    using L H(2)
    by (simp add: serve_def NewRouter_def securityHeaders_def in_api_def add_headers_def recoverer_def requestID_def
        logAndMeasure_def Let_def demo_http_call_def [THEN arg_cong [where f = cl_request_id]] writeData_def writeJSON_def)
qed

lemma demo_topup_posts:
  assumes "Ledger_Topup (api_ledger demo_process demo_http_call) demo_money_request demo_registered = (Inr p, v)"
  obtains tid eid where
    "tabs v = posted_tables demo_env tid eid (seqs demo_registered) demo_topup
       (MoneyRequest_claim demo_money_request ''topup'') (tabs demo_registered)"
proof -
  let ?c = "MoneyRequest_claim demo_money_request ''topup''"
  let ?build = "\<lambda>m a. retP (NewTopup 1 (acc_ID a) m 1 ''isi'')"
  have I: "db_inv (tabs demo_registered) (seqs demo_registered)" by (rule reachable_inv [OF demo_registered_reachable])
  have "api_ledger demo_process demo_http_call = pg_ledger demo_env demo_cfg 1 [2, 4]"
    by (simp add: api_ledger_def demo_process_def demo_http_call_def)
  moreover have "act_UserID (mr_Actor demo_money_request) = 1" "mr_AmountSen demo_money_request = 5000"
    "mr_Description demo_money_request = ''isi''"
    by (simp_all add: demo_money_request_def demo_claims1_def)
  ultimately have L: "bindP (liftR (amountWithin 5000 1 (cfg_MaxTransfer demo_cfg))) (\<lambda>amount.
      bindP (AccountRepo_GetWalletByUserID demo_env 1) (\<lambda>wallet.
      markViewer (postIdempotent (pg_ledger demo_env demo_cfg 1 [2, 4]) ?c (?build amount wallet)) (acc_ID wallet)))
        demo_registered = (Inr p, v)"
    using assms unfolding Ledger_Topup_def by (simp only: pg_ledger_simps)
  obtain a :: account and w1 q where "in_int64 5000" and w1: "tabs w1 = tabs demo_registered" "seqs w1 = seqs demo_registered"
    and a: "a \<in> set (accounts (tabs demo_registered))" "acc_UserID a = Some 1"
    and P: "postIdempotent (pg_ledger demo_env demo_cfg 1 [2, 4]) ?c (?build 5000 a) w1 = (Inr q, v)"
    using money_op_Inr [OF L] by blast
  have "acc_ID a = 11"
    using a by (auto simp: demo_registered_def migrated_tables_def system_row_def new_wallet_row_def)
  then have build: "?build 5000 a = retP demo_topup" by (simp add: demo_topup_def)
  have "\<not> replayed w1 ?c q v"
    using w1 by (simp add: replayed_def pg_answer_def demo_registered_def migrated_tables_def)
  then have "posted_now demo_env w1 ?c demo_topup q v"
    using postIdempotent_cases [OF typed_build_retP [OF demo_typed] _ P [unfolded build]] I w1 by auto
  with w1 that show thesis by (auto simp: posted_now_def)
qed

lemma demo_topup_changes:
  assumes "Ledger_Topup (api_ledger demo_process demo_http_call) demo_money_request demo_registered = (Inr p, v)"
  shows "tabs v \<noteq> tabs demo_registered"
proof -
  obtain tid eid where "tabs v = posted_tables demo_env tid eid (seqs demo_registered) demo_topup
      (MoneyRequest_claim demo_money_request ''topup'') (tabs demo_registered)"
    by (rule demo_topup_posts [OF assms])
  then have "length (idempotency_keys (tabs v)) \<noteq> length (idempotency_keys (tabs demo_registered))"
    by (simp add: posted_tables_def Let_def)
  then show ?thesis by metis
qed

section \<open>The guarantees of the API\<close>

text \<open>
  C36 invariant. The API over HTTP is safe as a whole: from a reachable database, any sequence
  of requests to any endpoints, with any bodies, headers, tokens, clock readings, random
  bytes and database faults, leads to a reachable database, in which every invariant of the
  ledger holds, so no wallet is overdrawn; and every request gets a response, since no panic
  of a handler gets past the router.
\<close>

theorem http_keeps_ledger_sound:
  assumes "config_ok (api_config p)" "reachable (hw_pg w)" "serve_all L p qs w = (es, w')"
  shows "reachable (hw_pg w') \<and> db_inv (tabs (hw_pg w')) (seqs (hw_pg w'))
    \<and> (\<forall>a \<in> set (accounts (tabs (hw_pg w'))). acc_Type a = AccountUserWallet \<longrightarrow> 0 \<le> acc_Balance a)
    \<and> length es = length qs \<and> (\<forall>e \<in> set es. \<exists>rs. e = Responds rs)"
proof -
  note K = serve_all_keeps [OF assms]
  then have I: "db_inv (tabs (hw_pg w')) (seqs (hw_pg w'))" by (intro reachable_inv) simp
  then have "0 \<le> acc_Balance a" if "a \<in> set (accounts (tabs (hw_pg w')))" "acc_Type a = AccountUserWallet" for a
    using that by (auto simp: db_inv_def ledger_inv_def accounts_ok_def accounts_check_def
        check_wallet_non_negative_def split: if_splits)
  with K I show ?thesis by simp
qed

theorem http_keeps_ledger_sound_witness:
  "\<exists>rs w'. serve_all demo_libs demo_process [(demo_http_call, PostTopup, [], demo_request ''t'')] demo_world
       = ([Responds rs], w') \<and> rs_status rs = 201 \<and> reachable (hw_pg w')"
proof -
  obtain rs w' where S: "serve demo_libs demo_process demo_http_call (PostTopup, [], demo_request ''t'') demo_world
      = (Responds rs, w')" "rs_status rs = 201" using demo_http_served by blast
  then have A: "serve_all demo_libs demo_process [(demo_http_call, PostTopup, [], demo_request ''t'')] demo_world
      = ([Responds rs], w')" by simp
  have "reachable (hw_pg demo_world)" using demo_registered_reachable by (simp add: demo_world_def)
  from http_keeps_ledger_sound [OF demo_process_ready(2) this A] A S(2) show ?thesis by blast
qed

text \<open>
  C37 safety. Nothing is written without authority. A request that changes a table is a
  registration, a login or a refresh, and moves no money; or it carries a bearer token that
  verifies now and is a logout, which moves no money; or it is a topup, a withdrawal or a
  transfer, and then it records one transaction initiated by the token's user under this
  user's idempotency key, leaves sessions and users alone and takes money from no other
  user's wallet; or it is a reversal by an administrator, recorded in the same way.
\<close>

theorem writes_need_authority:
  assumes "api_ready p (tabs (hw_pg w))" "reachable (hw_pg w)" "serve L p c (rt, uid, r) w = (e, w')"
    and "T = tabs (hw_pg w)" "T' = tabs (hw_pg w')" "T' \<noteq> T"
  shows "rt \<in> {PostRegister, PostLogin, PostRefresh} \<and> quiet T T'
    \<or> (\<exists>tok claims. rq_Header r ''Authorization'' = ''Bearer '' @ tok
         \<and> JWT_Parse (li_jwt L) (ap_jwt p) (cl_now c) tok = Inr claims
         \<and> (rt = PostLogout \<and> quiet T T'
            \<or> rt \<in> {PostTopup, PostWithdraw, PostTransfer}
               \<and> recorded_for (jc_UserID claims) (TrimSpace (rq_Header r ''Idempotency-Key'')) T T'
               \<and> spares_others (jc_UserID claims) T T'
            \<or> rt = PostReverse \<and> jc_Role claims = RoleAdmin
               \<and> recorded_for (jc_UserID claims) (TrimSpace (rq_Header r ''Idempotency-Key'')) T T'))"
proof -
  have "authorized L p c r rt T T'"
    using guarded.router [OF assms(3) [unfolded serve_def prod.case]] assms(1,2,4,5) by simp
  with assms(6) show ?thesis unfolding authorized_def bearer_def key_of_def api_deps_simps by blast
qed

theorem writes_need_authority_witness:
  "\<exists>e (w' :: unit api_world). serve demo_libs demo_process demo_http_call (PostTopup, [], demo_request ''t'') demo_world = (e, w')
     \<and> recorded_for 1 ''k1'' (tabs demo_registered) (tabs (hw_pg w'))
     \<and> spares_others 1 (tabs demo_registered) (tabs (hw_pg w'))"
proof -
  obtain rs w' p where S: "serve demo_libs demo_process demo_http_call (PostTopup, [], demo_request ''t'') demo_world
      = (Responds rs, w')"
    and L: "Ledger_Topup (api_ledger demo_process demo_http_call) demo_money_request demo_registered = (Inr p, hw_pg w')"
    using demo_http_served by blast
  have pg: "hw_pg demo_world = demo_registered" by (simp add: demo_world_def)
  have change: "tabs (hw_pg w') \<noteq> tabs demo_registered" by (rule demo_topup_changes [OF L])
  have "JWT_Parse (li_jwt demo_libs) (ap_jwt demo_process) (cl_now demo_http_call) ''t'' = Inr demo_claims1"
    by (simp add: JWT_Parse_def demo_libs_def demo_claims1_def RoleUser_def)
  then have one: "jc_UserID c = 1"
    if "rq_Header (demo_request ''t'') ''Authorization'' = ''Bearer '' @ tok"
      "JWT_Parse (li_jwt demo_libs) (ap_jwt demo_process) (cl_now demo_http_call) tok = Inr c" for tok c
    using that by (simp add: demo_request_def demo_claims1_def)
  have "\<exists>tok claims. rq_Header (demo_request ''t'') ''Authorization'' = ''Bearer '' @ tok
      \<and> JWT_Parse (li_jwt demo_libs) (ap_jwt demo_process) (cl_now demo_http_call) tok = Inr claims
      \<and> recorded_for (jc_UserID claims) ''k1'' (tabs demo_registered) (tabs (hw_pg w'))
      \<and> spares_others (jc_UserID claims) (tabs demo_registered) (tabs (hw_pg w'))"
    using writes_need_authority [OF _ _ S refl refl] demo_process_ready(1) demo_registered_reachable change
    unfolding pg key_of_def [symmetric] demo_http_key by auto
  with one S show ?thesis by metis
qed

end
