(* ===== verification/Responses.thy ===== *)
theory Responses
  imports HttpFacts Reading
begin

text \<open>
  What a client of the HTTP API sees: whose entries and balances a response shows, which
  status and code an error gets, and what the request bodies that reach the service look like.
\<close>

section \<open>Entries in responses\<close>

lemma render_entries_shown:
  "snd (snd (render_entries typ viewer es am fee out))
     = out @ map (\<lambda>e. toEntryResponse e (case viewer of None \<Rightarrow> True | Some v \<Rightarrow> pe_AccountID e = v)) es"
  by (induction es arbitrary: am fee out) (simp_all add: Let_def)

lemma transaction_entries:
  "xr_Entries (toTransactionResponse p)
     = map (\<lambda>e. toEntryResponse e (case pr_ViewerAccountID p of None \<Rightarrow> True | Some v \<Rightarrow> pe_AccountID e = v)) (pr_Entries p)"
  using render_entries_shown [of "txn_Type (pr_Transaction p)" "pr_ViewerAccountID p" "pr_Entries p" 0 0 "[]"]
  by (cases "render_entries (txn_Type (pr_Transaction p)) (pr_ViewerAccountID p) (pr_Entries p) 0 0 []")
    (simp add: toTransactionResponse_def Let_def)

fun shown :: "payload \<Rightarrow> entryResponse list" where
  "shown (DataEnvelope (DTransaction x)) = xr_Entries x"
| "shown (PageEnvelope es cursor) = es"
| "shown b = []"

lemma shown_data [simp]: "shown (DataEnvelope (DAccount a)) = []" "shown (ErrorEnvelope b) = []" "shown (Text t) = []"
  by simp_all

section \<open>From a response back to the service call\<close>

lemma fail_shows: "fail d cx err w = (Responds rs, w') \<Longrightarrow> shown (rs_body rs) = []"
  by (auto simp: fail_def reply_def writeError_def writeJSON_def Let_def split: if_splits)

lemma respond_shows:
  "respond d cx f x = (Responds rs, w') \<Longrightarrow> shown (rs_body rs) = [] \<or> (\<exists>a. x = (Inr a, w') \<and> rs = f a)"
  by (auto simp: respond_def reply_iff split: prod.splits sum.splits dest: fail_shows)

lemma with_valid_shows:
  "with_valid d cx decoded validate k w = (Responds rs, w') \<Longrightarrow>
   shown (rs_body rs) = [] \<or> (\<exists>a. decoded = Inr a \<and> k a w = (Responds rs, w'))"
  by (auto simp: with_valid_def split: sum.splits option.splits dest: fail_shows)

lemma authenticate_shows:
  assumes "authenticate d c h cx r w = (Responds rs, w')" "bearer d c r claims"
  shows "shown (rs_body rs) = [] \<or> h (cx\<lparr>cx_Actor := Some (actor_of claims)\<rparr>) r w = (Responds rs, w')"
  using assms
  by (auto simp: authenticate_def bearer_def HasPrefix_def TrimPrefix_def actor_of_def Let_def
      split: if_splits sum.splits dest: fail_shows)

lemma NewRouter_shows:
  assumes "NewRouter d c rt uid r w = (Responds rs, w')" "in_api rt" "shown (rs_body rs) \<noteq> []"
  obtains i rs0 w0 where "endpoint d c rt ((start_ctx rt uid)\<lparr>cx_RequestID := i\<rparr>) r w = (Responds rs0, w0)"
    "rs_body rs0 = rs_body rs"
proof -
  obtain e w1 where E: "requestID c (logAndMeasure (endpoint d c rt)) (start_ctx rt uid) r w = (e, w1)" by fastforce
  with assms obtain rs1 where e: "e = Responds rs1" "rs_body rs = rs_body rs1"
    by (cases e) (auto simp: NewRouter_def securityHeaders_def add_headers_def recoverer_def reply_def writeJSON_def Let_def)
  obtain b where b: "cl_request_id c = Inr b"
    using E e assms(3) by (cases "cl_request_id c") (auto simp: requestID_def reply_def http_Error_def)
  obtain e2 w2 where E2: "endpoint d c rt ((start_ctx rt uid)\<lparr>cx_RequestID := hex_encode b\<rparr>) r w = (e2, w2)"
    by fastforce
  with E e b obtain rs2 where "e2 = Responds rs2" "rs_body rs2 = rs_body rs"
    by (cases e2) (auto simp: requestID_def add_headers_def logAndMeasure_def Let_def)
  with E2 show thesis using that by blast
qed

section \<open>Whose entries are shown\<close>

lemma ListEntries_Inr:
  assumes "AccountRepo_ListEntries env i b l w = (Inr es, w')" "x \<in> set es"
  shows "\<exists>e \<in> set (entries (tabs w)). \<exists>a \<in> set (accounts (tabs w)). er_account_id e = i
    \<and> er_transaction_id e = pe_TransactionID x \<and> acc_ID a = i \<and> pe_AccountPublicID x = acc_PublicID a"
proof -
  obtain w1 where R: "round_trip env w = (Inr (), w1)"
    and S: "stmt env (\<lambda>k w. if wrap64 (l + 1) < 0 then (Inl (PgError ''2201W'' ''''), w)
          else (Inr (take (nat (wrap64 (l + 1))) (entry_page_rows (tabs w) i b)), w)) w1 = (Inr es, w')"
    using assms(1) by (auto simp: AccountRepo_ListEntries_def bindP_Inr_iff wrapP_Inr_iff)
  have "x \<in> set (entry_page_rows (tabs w1) i b)"
    using S assms(2) by (auto simp: stmt_Inr_iff split: if_splits dest: in_set_takeD)
  then obtain e and a :: account where "e \<in> set (entries (tabs w1))" "er_account_id e = i"
    "a \<in> set (accounts (tabs w1))" "acc_ID a = er_account_id e"
    "pe_TransactionID x = er_transaction_id e" "pe_AccountPublicID x = acc_PublicID a"
    by (auto simp: entry_page_rows_def)
  then show ?thesis using readsD [OF reads_repos(1) R] by (intro bexI [of _ e] bexI [of _ a]) simp_all
qed

text \<open>
  \<open>n\<close> is an entry of a transaction that moves money of user \<open>u\<close>'s wallet, and it shows a
  balance only when it is an entry of this wallet.
\<close>

definition entry_for :: "tables \<Rightarrow> int64 \<Rightarrow> entryResponse \<Rightarrow> bool" where
  "entry_for T u n \<longleftrightarrow>
     (\<exists>a \<in> set (accounts T). acc_UserID a = Some u \<and> acc_Type a = AccountUserWallet
        \<and> (\<exists>e \<in> set (entries T). er_account_id e = acc_ID a \<and> er_transaction_id e = nr_TransactionID n)
        \<and> (nr_BalanceAfterSen n \<noteq> None \<longrightarrow> nr_AccountPublicID n = acc_PublicID a))"

lemma GetTransaction_entries:
  assumes I: "db_inv (tabs w) (seqs w)" and role: "\<not> Actor_IsAdmin actor"
    and R: "Ledger_GetTransaction (pg_ledger env cfg cash fees) actor i w = (Inr p, w')"
    and n: "n \<in> set (xr_Entries (toTransactionResponse p))"
  shows "entry_for (tabs w) (act_UserID actor) n"
proof -
  obtain a w1 q where G: "AccountRepo_GetWalletByUserID env (act_UserID actor) w = (Inr a, w1)"
    and Q: "LedgerRepo_GetTransaction env i (Some (acc_ID a)) w1 = (Inr q, w')"
    and p: "p = q\<lparr>pr_ViewerAccountID := Some (acc_ID a)\<rparr>"
    using R role unfolding Ledger_GetTransaction_def markViewer_def pg_ledger_simps
    by (auto simp: bindP_Inr_iff)
  note a = GetWallet_Inr [OF G]
  obtain t :: txn_row and rows :: "(entry_row \<times> account) list" where e0: "Some (acc_ID a) = None
      \<or> (\<exists>e \<in> set (entries (tabs w1)). er_transaction_id e = i \<and> Some (er_account_id e) = Some (acc_ID a))"
    and rows: "set rows = {(e, a). e \<in> set (entries (tabs w1)) \<and> a \<in> set (accounts (tabs w1))
                        \<and> er_transaction_id e = i \<and> acc_ID a = er_account_id e}"
    and es: "pr_Entries q = map (\<lambda>(e, a).
             \<lparr> pe_ID = er_id e, pe_TransactionID = i, pe_AccountID = er_account_id e,
               pe_AccountPublicID = acc_PublicID a, pe_AccountType = acc_Type a,
               pe_Direction = er_direction e, pe_Amount = er_amount e,
               pe_BalanceAfter = er_balance_after e, pe_CreatedAt = er_created_at e,
               pe_TxnType = tr_txn_type t, pe_Description = tr_description t \<rparr>) rows"
    using GetTransaction_Inr [OF Q] by (elim exE conjE) (rule that, assumption+)
  from e0 have e: "\<exists>e \<in> set (entries (tabs w1)). er_transaction_id e = i \<and> er_account_id e = acc_ID a" by simp
  from n p obtain x where x: "x \<in> set (pr_Entries q)" "n = toEntryResponse x (pe_AccountID x = acc_ID a)"
    by (auto simp: transaction_entries)
  from x(1) obtain y b where y: "(y, b) \<in> set rows" "pe_TransactionID x = i" "pe_AccountID x = er_account_id y"
      "pe_AccountPublicID x = acc_PublicID b"
    unfolding es by auto
  have b: "b \<in> set (accounts (tabs w))" "acc_ID b = er_account_id y" using y(1) rows a(4) by auto
  have "nr_AccountPublicID n = acc_PublicID a" if "nr_BalanceAfterSen n \<noteq> None"
    using that x(2) y(3,4) b account_id_unique [OF I b(1) a(1)] by (auto simp: toEntryResponse_def split: if_splits)
  moreover have "nr_TransactionID n = i" using x(2) y(2) by (simp add: toEntryResponse_def)
  ultimately show ?thesis using a e unfolding entry_for_def by (intro bexI [of _ a]) auto
qed

lemma MyEntries_entries:
  assumes I: "db_inv (tabs w) (seqs w)"
    and R: "Ledger_MyEntries (pg_ledger env cfg cash fees) actor cursor lim w = (Inr page, w')"
    and n: "n \<in> set (map (\<lambda>e. toEntryResponse e True) (pg_Entries page))"
  shows "entry_for (tabs w) (act_UserID actor) n"
proof -
  obtain b a w1 es where G: "AccountRepo_GetWalletByUserID env (act_UserID actor) w = (Inr a, w1)"
    and E: "AccountRepo_ListEntries env (acc_ID a) b (normalizeLimit lim) w1 = (Inr es, w')"
    and p: "page = page_of es (normalizeLimit lim)"
    using R unfolding Ledger_MyEntries_def Let_def pg_ledger_simps by (auto simp: bindP_Inr_iff liftR_iff)
  note a = GetWallet_Inr [OF G]
  from n p obtain x where x: "x \<in> set es" "n = toEntryResponse x True"
    by (auto simp: page_of_def split: if_splits dest: in_set_takeD)
  from ListEntries_Inr [OF E x(1)] a(4) obtain e c where
    e: "e \<in> set (entries (tabs w))" "er_account_id e = acc_ID a" "er_transaction_id e = pe_TransactionID x"
    and c: "c \<in> set (accounts (tabs w))" "acc_ID c = acc_ID a" "pe_AccountPublicID x = acc_PublicID c"
    by auto
  have "c = a" by (rule account_id_unique [OF I c(1) a(1) c(2)])
  with a e c x(2) show ?thesis
    unfolding entry_for_def by (intro bexI [of _ a]) (auto simp: toEntryResponse_def)
qed

section \<open>Reading over HTTP\<close>

text \<open>
  C39 safety. Balances are private. Whoever reads a transaction or the entries of the own
  wallet as a user without the role ADMIN sees only entries of transactions that touch the
  own wallet, and a balance only with an entry of the own wallet, never anyone else's.
\<close>

theorem balances_stay_private:
  assumes "reachable (hw_pg w)" "serve L p c (rt, uid, r) w = (Responds rs, w')"
    and "rt \<in> {GetTransactionByID, GetAccountsMeEntries}" "n \<in> set (shown (rs_body rs))"
    and "bearer (api_deps L p) c r claims" "jc_Role claims \<noteq> RoleAdmin"
  shows "\<exists>a \<in> set (accounts (tabs (hw_pg w))). acc_UserID a = Some (jc_UserID claims) \<and> acc_Type a = AccountUserWallet
        \<and> (\<exists>e \<in> set (entries (tabs (hw_pg w))). er_account_id e = acc_ID a \<and> er_transaction_id e = nr_TransactionID n)
        \<and> (nr_BalanceAfterSen n \<noteq> None \<longrightarrow> nr_AccountPublicID n = acc_PublicID a)"
proof -
  let ?d = "api_deps L p" and ?T = "tabs (hw_pg w)"
  note I = reachable_inv [OF assms(1)]
  have role: "\<not> Actor_IsAdmin (actor_of claims)" using assms(6) by (simp add: Actor_IsAdmin_def)
  have some: "shown (rs_body rs) \<noteq> []" using assms(4) by auto
  have "in_api rt" using assms(3) by (auto simp: in_api_def)
  from NewRouter_shows [OF assms(2) [unfolded serve_def prod.case] this some] obtain i rs0 w0 where
    E: "endpoint ?d c rt ((start_ctx rt uid)\<lparr>cx_RequestID := i\<rparr>) r w = (Responds rs0, w0)"
    and b: "rs_body rs0 = rs_body rs" by metis
  let ?cx = "(start_ctx rt uid)\<lparr>cx_RequestID := i, cx_Actor := Some (actor_of claims)\<rparr>"
  have some0: "shown (rs_body rs0) \<noteq> []" using some b by simp
  have n: "n \<in> set (shown (rs_body rs0))" using assms(4) b by simp
  have "entry_for ?T (jc_UserID claims) n"
  proof (cases "rt = GetTransactionByID")
    case True
    with E authenticate_shows [OF _ assms(5)] some0
    have "ledgerHandler_getTransaction ?d c ?cx r w = (Responds rs0, w0)" by fastforce
    then obtain t q where "Ledger_GetTransaction (api_ledger p c) (actor_of claims) t (hw_pg w) = (Inr q, hw_pg w0)"
      and "rs0 = writeData 200 (DTransaction (toTransactionResponse q))"
      using some0 by (auto simp: ledgerHandler_getTransaction_def on_pg_def actorFrom_def
          split: option.splits prod.splits dest!: fail_shows respond_shows)
    with GetTransaction_entries [OF I role] n show ?thesis
      unfolding api_ledger_def by (auto simp: writeData_def writeJSON_def)
  next
    case False
    with E authenticate_shows [OF _ assms(5)] some0 assms(3)
    have "ledgerHandler_myEntries ?d c ?cx r w = (Responds rs0, w0)" by fastforce
    then obtain l page where M: "Ledger_MyEntries (api_ledger p c) (actor_of claims) (rq_Query r ''cursor'') l (hw_pg w)
        = (Inr page, hw_pg w0)"
      and rs0: "rs0 = writePage (map (\<lambda>e. toEntryResponse e True) (pg_Entries page)) (pg_NextCursor page)"
      using some0 by (auto simp: ledgerHandler_myEntries_def on_pg_def actorFrom_def
          split: prod.splits dest!: with_valid_shows respond_shows)
    from n have "n \<in> set (map (\<lambda>e. toEntryResponse e True) (pg_Entries page))"
      unfolding rs0 writePage_def writeJSON_def by simp
    from MyEntries_entries [OF I M [unfolded api_ledger_def] this] show ?thesis by simp
  qed
  then show ?thesis by (simp add: entry_for_def)
qed

text \<open>The page user 1 sees after the topup of theory HttpFacts.\<close>

lemma demo_page:
  assumes "tabs v = posted_tables demo_env tid eid (seqs demo_registered) demo_topup
       (MoneyRequest_claim demo_money_request ''topup'') (tabs demo_registered)"
  shows "\<exists>e v'. Ledger_MyEntries (pg_ledger demo_env cfg cash fees) (actor_of demo_claims1) [] 0 v
    = (Inr \<lparr> pg_Entries = [e], pg_NextCursor = [] \<rparr>, v')"
proof -
  have "\<exists>a v1. AccountRepo_GetWalletByUserID demo_env 1 v = (Inr a, v1) \<and> acc_ID a = 11 \<and> tabs v1 = tabs v"
    using GetWallet_Inr(4)
    by (simp add: AccountRepo_GetWalletByUserID_def scanAccount_def wrapP_def sql_select_account_def
        assms posted_tables_def demo_registered_def migrated_tables_def new_wallet_row_def system_row_def
        account_type_defs settle_def demo_topup_def NewTopup_def add_to_balance_def Let_def)
  then obtain a :: account and v1 where a: "AccountRepo_GetWalletByUserID demo_env 1 v = (Inr a, v1)" "acc_ID a = 11"
    "tabs v1 = tabs v" by blast
  have "\<exists>e. entry_page_rows (tabs v) 11 None = [e]"
    by (simp add: entry_page_rows_def assms posted_tables_def demo_registered_def migrated_tables_def Let_def
        demo_topup_def NewTopup_def new_entry_row_def header_row_def new_txn_row_def mark_original_def
        system_row_def new_wallet_row_def settle_def add_to_balance_def)
  then obtain e where "entry_page_rows (tabs v) 11 None = [e]" by blast
  then have "\<exists>v'. AccountRepo_ListEntries demo_env 11 None 20 v1 = (Inr [e], v')"
    using a(3) by (simp add: AccountRepo_ListEntries_def bindP_def wrapP_def wrap64_def)
  with a show ?thesis
    by (auto simp: Ledger_MyEntries_def decodeCursor_def normalizeLimit_def DefaultPageLimit_def liftR_def bindP_def
        demo_claims1_def page_of_def)
qed

lemma demo_entries_served:
  "\<exists>w e rs w'. reachable (hw_pg w)
     \<and> serve demo_libs demo_process demo_http_call (GetAccountsMeEntries, [], demo_request ''t'') w = (Responds rs, w')
     \<and> shown (rs_body rs) = [toEntryResponse e True]"
proof -
  let ?d = "api_deps demo_libs demo_process" and ?c = demo_http_call
  obtain rs0 p w1 where S: "serve demo_libs demo_process ?c (PostTopup, [], demo_request ''t'') demo_world = (Responds rs0, w1)"
    and L: "Ledger_Topup (api_ledger demo_process ?c) demo_money_request demo_registered = (Inr p, hw_pg w1)"
    using demo_http_served by blast
  have r: "reachable (hw_pg w1)"
    using reachable_steps lawful.router [OF S [unfolded serve_def prod.case]] demo_process_ready(2)
      demo_registered_reachable by (simp add: demo_world_def)
  obtain tid eid where T: "tabs (hw_pg w1) = posted_tables demo_env tid eid (seqs demo_registered) demo_topup
      (MoneyRequest_claim demo_money_request ''topup'') (tabs demo_registered)"
    by (rule demo_topup_posts [OF L])
  obtain e v' where M: "Ledger_MyEntries (api_ledger demo_process ?c) (actor_of demo_claims1) [] 0 (hw_pg w1)
      = (Inr \<lparr> pg_Entries = [e], pg_NextCursor = [] \<rparr>, v')"
    using demo_page [OF T, of demo_cfg 1 "[2, 4]"]
    by (auto simp: api_ledger_def demo_process_def demo_http_call_def)
  have H: "ledgerHandler_myEntries ?d ?c
        ((start_ctx GetAccountsMeEntries [])\<lparr>cx_RequestID := i, cx_Actor := Some (actor_of demo_claims1)\<rparr>) (demo_request ''t'') w1
      = (Responds (writePage [toEntryResponse e True] []), w1\<lparr>hw_pg := v'\<rparr>)" for i
    using M by (simp add: ledgerHandler_myEntries_def with_valid_def limit_of_def demo_request_def on_pg_def
        actorFrom_def respond_def reply_def)
  have "\<exists>rs w'. serve demo_libs demo_process ?c (GetAccountsMeEntries, [], demo_request ''t'') w1 = (Responds rs, w')
      \<and> shown (rs_body rs) = [toEntryResponse e True]"
    by (simp add: serve_def NewRouter_def securityHeaders_def in_api_def add_headers_def recoverer_def requestID_def
        logAndMeasure_def Let_def demo_http_call_def [THEN arg_cong [where f = cl_request_id]] demo_http_guards(2) H
        writePage_def writeJSON_def)
  with r show ?thesis by blast
qed

theorem balances_stay_private_witness:
  "\<exists>(w :: unit api_world) rs w' n a. serve demo_libs demo_process demo_http_call (GetAccountsMeEntries, [], demo_request ''t'') w
       = (Responds rs, w')
     \<and> n \<in> set (shown (rs_body rs)) \<and> a \<in> set (accounts (tabs (hw_pg w)))
     \<and> acc_UserID a = Some 1 \<and> nr_AccountPublicID n = acc_PublicID a"
proof -
  obtain w :: "unit api_world" and e rs w' where r: "reachable (hw_pg w)"
    and S: "serve demo_libs demo_process demo_http_call (GetAccountsMeEntries, [], demo_request ''t'') w = (Responds rs, w')"
    and n: "toEntryResponse e True \<in> set (shown (rs_body rs))" using demo_entries_served by fastforce
  have role: "jc_Role demo_claims1 \<noteq> RoleAdmin" by (simp add: demo_claims1_def RoleUser_def RoleAdmin_def)
  have "nr_BalanceAfterSen (toEntryResponse e True) \<noteq> None" by (simp add: toEntryResponse_def)
  moreover have "jc_UserID demo_claims1 = 1" by (simp add: demo_claims1_def)
  ultimately show ?thesis
    using balances_stay_private [OF r S _ n demo_http_guards(1) role] S n by auto
qed

section \<open>Errors\<close>

definition sentinels :: "err set" where
  "sentinels = {e. (\<forall>f args e1. e \<noteq> Wrapf f args e1) \<and> (\<forall>f e1 e2. e \<noteq> Wrapf2 f e1 e2)}"

lemma Is_Wrapf: "t \<in> sentinels \<Longrightarrow> errors_Is (Wrapf f args e) t = errors_Is e t"
  by (auto simp: sentinels_def)

lemma error_cases_sentinels: "\<forall>c \<in> set error_cases. set (fst c) \<subseteq> sentinels"
  by (simp add: error_cases_def sentinels_def)

lemma find_cong: "(\<And>x. x \<in> set xs \<Longrightarrow> p x = q x) \<Longrightarrow> List.find p xs = List.find q xs"
  by (induction xs) auto

lemma mapError_Wrapf:
  "ae_status (mapError text (Wrapf f args e)) = ae_status (mapError text e)
   \<and> ae_code (mapError text (Wrapf f args e)) = ae_code (mapError text e)"
proof -
  have v: "errors_Is (Wrapf f args e) ErrValidation = errors_Is e ErrValidation"
    "errors_Is (Wrapf f args e) ErrInvalidCursor = errors_Is e ErrInvalidCursor"
    by (simp_all add: sentinels_def Is_Wrapf)
  have c: "List.find (\<lambda>c. \<exists>t \<in> set (fst c). errors_Is (Wrapf f args e) t) error_cases
      = List.find (\<lambda>c. \<exists>t \<in> set (fst c). errors_Is e t) error_cases"
    using error_cases_sentinels Is_Wrapf by (intro find_cong) blast
  show ?thesis
    unfolding mapError_def v c
    by (simp add: api_error_def split: option.split)
qed

text \<open>
  The catalogue of the specification (docs/03 section 4.3 and the codes of docs/openapi.yaml):
  what a client is told of each error of the program. It is written down on its own, not read
  off the code. Two codes belong to no sentinel: a body that is too large, and all the rest.
\<close>

definition catalogue :: "(err \<times> int \<times> string) list" where
  "catalogue =
     [(ErrValidation, 400, ''VALIDATION_ERROR''),
      (ErrInvalidCursor, 400, ''VALIDATION_ERROR''),
      (ErrIdempotencyKeyRequired, 400, ''IDEMPOTENCY_KEY_REQUIRED''),
      (ErrInvalidCredentials, 401, ''UNAUTHENTICATED''),
      (ErrInvalidToken, 401, ''UNAUTHENTICATED''),
      (ErrUnauthenticated, 401, ''UNAUTHENTICATED''),
      (ErrForbidden, 403, ''FORBIDDEN''),
      (ErrAccountNotFound, 404, ''ACCOUNT_NOT_FOUND''),
      (ErrTransactionNotFound, 404, ''TRANSACTION_NOT_FOUND''),
      (ErrUserNotFound, 404, ''NOT_FOUND''),
      (ErrNotFound, 404, ''NOT_FOUND''),
      (ErrEmailTaken, 409, ''EMAIL_TAKEN''),
      (ErrIdempotencyConflict, 409, ''IDEMPOTENCY_CONFLICT''),
      (ErrIdempotencyInFlight, 409, ''IDEMPOTENCY_IN_FLIGHT''),
      (ErrAlreadyReversed, 409, ''ALREADY_REVERSED''),
      (ErrNotReversible, 409, ''ALREADY_REVERSED''),
      (ErrConcurrentModification, 409, ''CONCURRENT_MODIFICATION''),
      (ErrInsufficientBalance, 422, ''INSUFFICIENT_BALANCE''),
      (ErrAccountNotActive, 422, ''ACCOUNT_NOT_ACTIVE''),
      (ErrSelfTransfer, 422, ''SELF_TRANSFER''),
      (ErrAmountOutOfRange, 422, ''AMOUNT_OUT_OF_RANGE''),
      (ErrAmountNotPositive, 422, ''AMOUNT_OUT_OF_RANGE''),
      (ErrAmountOverflow, 422, ''AMOUNT_OUT_OF_RANGE''),
      (ErrRateLimited, 429, ''RATE_LIMITED''),
      (DeadlineExceeded, 503, ''TIMEOUT''),
      (Canceled, 503, ''TIMEOUT'')]"

definition answer_classes :: "(int \<times> string) set" where
  "answer_classes = insert (413, ''PAYLOAD_TOO_LARGE'') (insert (500, ''INTERNAL_ERROR'') (set (map snd catalogue)))"

lemma error_cases_catalogue:
  "\<forall>(ts, status, code, msg) \<in> set error_cases. \<forall>t \<in> set ts. (t, status, code) \<in> set catalogue"
  by (simp add: error_cases_def catalogue_def)

lemma catalogue_error_cases:
  "\<forall>(t, c) \<in> set catalogue. t = ErrValidation \<or> t = ErrInvalidCursor \<or> (\<exists>x \<in> set error_cases. t \<in> set (fst x))"
  by (simp add: error_cases_def catalogue_def)

lemma catalogue_validation:
  "(ErrValidation, 400, ''VALIDATION_ERROR'') \<in> set catalogue" "(ErrInvalidCursor, 400, ''VALIDATION_ERROR'') \<in> set catalogue"
  by (simp_all add: catalogue_def)

lemma mapError_cases:
  obtains (validation) fs where "errors_As_Validation err = Some fs"
      "mapError render err = (api_error 400 ''VALIDATION_ERROR'' ''permintaan tidak valid'')\<lparr>ae_fields := fs\<rparr>"
  | (too_large) "errors_As_MaxBytes err" "mapError render err = api_error 413 ''PAYLOAD_TOO_LARGE'' ''ukuran body melebihi batas''"
  | (told) "errors_Is err ErrValidation \<or> errors_Is err ErrInvalidCursor"
      "mapError render err = api_error 400 ''VALIDATION_ERROR'' (render err)"
  | (listed) ts status code msg t where "(ts, status, code, msg) \<in> set error_cases" "t \<in> set ts" "errors_Is err t"
      "mapError render err = api_error status code msg"
  | (internal) "\<And>t c. (t, c) \<in> set catalogue \<Longrightarrow> \<not> errors_Is err t"
      "mapError render err = api_error 500 ''INTERNAL_ERROR'' ''terjadi kesalahan internal''"
proof (cases "errors_As_Validation err")
  case (Some fs)
  then show thesis by (intro validation) (simp_all add: mapError_def)
next
  case None
  let ?find = "List.find (\<lambda>c. \<exists>t \<in> set (fst c). errors_Is err t) error_cases"
  consider "errors_As_MaxBytes err" | "\<not> errors_As_MaxBytes err" "errors_Is err ErrValidation \<or> errors_Is err ErrInvalidCursor"
    | c where "\<not> errors_As_MaxBytes err" "\<not> (errors_Is err ErrValidation \<or> errors_Is err ErrInvalidCursor)" "?find = Some c"
    | "\<not> errors_As_MaxBytes err" "\<not> (errors_Is err ErrValidation \<or> errors_Is err ErrInvalidCursor)" "?find = None"
    by (cases ?find) auto
  then show thesis
  proof cases
    case 1
    with None show thesis by (intro too_large) (simp_all add: mapError_def)
  next
    case 2
    with None show thesis by (intro told) (simp_all add: mapError_def)
  next
    case (3 c)
    obtain ts status code msg where c: "c = (ts, status, code, msg)" by (cases c) auto
    with 3 None have "mapError render err = api_error status code msg" by (simp add: mapError_def)
    moreover obtain t where "t \<in> set ts" "errors_Is err t" using find_SomeD [OF 3(3)] c by auto
    ultimately show thesis using listed find_SomeD [OF 3(3)] c by blast
  next
    case 4
    have "\<not> errors_Is err t" if "(t, c) \<in> set catalogue" for t c
      using that catalogue_error_cases 4(2,3) by (fastforce simp: find_None_iff)
    moreover have "mapError render err = api_error 500 ''INTERNAL_ERROR'' ''terjadi kesalahan internal''"
      using 4 None by (simp add: mapError_def)
    ultimately show thesis by (rule internal)
  qed
qed

lemma mapError_class: "(ae_status (mapError render err), ae_code (mapError render err)) \<in> answer_classes"
proof (cases rule: mapError_cases [where render = render and err = err])
  case (listed ts status code msg t)
  with error_cases_catalogue have "(t, status, code) \<in> set catalogue" by fastforce
  with listed show ?thesis by (force simp: answer_classes_def api_error_def)
qed (simp_all add: answer_classes_def api_error_def catalogue_def)

lemma mapError_validation:
  "errors_As_Validation err \<noteq> None \<longrightarrow>
   ae_status (mapError render err) = 400 \<and> ae_code (mapError render err) = ''VALIDATION_ERROR''"
  by (auto simp: mapError_def api_error_def)

lemma mapError_too_large:
  "errors_As_Validation err = None \<longrightarrow> errors_As_MaxBytes err \<longrightarrow>
   ae_status (mapError render err) = 413 \<and> ae_code (mapError render err) = ''PAYLOAD_TOO_LARGE''"
  by (auto simp: mapError_def api_error_def)

lemma mapError_sentinel:
  assumes "errors_As_Validation err = None" "\<not> errors_As_MaxBytes err" "(t, status, code) \<in> set catalogue"
    and "errors_Is err t" "\<forall>(t', c') \<in> set catalogue. errors_Is err t' \<longrightarrow> c' = (status, code)"
  shows "ae_status (mapError render err) = status \<and> ae_code (mapError render err) = code"
proof (cases rule: mapError_cases [where render = render and err = err])
  case told
  with assms(5) catalogue_validation show ?thesis by (fastforce simp: api_error_def)
next
  case (listed ts status' code' msg t')
  with error_cases_catalogue have "(t', status', code') \<in> set catalogue" by fastforce
  with assms(5) listed show ?thesis by (fastforce simp: api_error_def)
next
  case internal
  with assms(3,4) show ?thesis by blast
qed (use assms(1,2) in auto)

lemma mapError_internal:
  "errors_As_Validation err = None \<longrightarrow> \<not> errors_As_MaxBytes err \<longrightarrow>
   (\<forall>(t, c) \<in> set catalogue. \<not> errors_Is err t) \<longrightarrow>
   ae_status (mapError render err) = 500 \<and> ae_code (mapError render err) = ''INTERNAL_ERROR''"
proof (intro impI)
  assume a: "errors_As_Validation err = None" "\<not> errors_As_MaxBytes err"
    and none: "\<forall>(t, c) \<in> set catalogue. \<not> errors_Is err t"
  show "ae_status (mapError render err) = 500 \<and> ae_code (mapError render err) = ''INTERNAL_ERROR''"
  proof (cases rule: mapError_cases [where render = render and err = err])
    case told
    with none catalogue_validation show ?thesis by blast
  next
    case (listed ts status code msg t)
    with error_cases_catalogue have "(t, status, code) \<in> set catalogue" by fastforce
    with none listed show ?thesis by blast
  qed (use a in \<open>auto simp: api_error_def\<close>)
qed

lemma by_kind:
  "\<lbrakk>v \<longrightarrow> m \<longrightarrow> A; v \<Longrightarrow> \<not> m \<Longrightarrow> B; v \<longrightarrow> \<not> m \<longrightarrow> n \<longrightarrow> C\<rbrakk> \<Longrightarrow> v \<longrightarrow> (m \<longrightarrow> A) \<and> (\<not> m \<longrightarrow> B \<and> (n \<longrightarrow> C))"
  by blast

lemma listed_status:
  "(ts, status, code, msg) \<in> set error_cases \<Longrightarrow> status \<noteq> 500 \<and> 400 \<le> status \<and> status < 504"
  by (simp add: error_cases_def) auto

text \<open>
  C38 error. Every error of the program gets the answer the catalogue of the specification has
  for it, with the request id: an error that carries a sentinel of the catalogue, however deep
  it was wrapped, and no sentinel of another class, gets the status and the code of the
  sentinel; a validation error 400, a body that is too large 413, and an error that carries
  none of these 500, which tells nothing: the message is fixed and no field is named. Field
  errors are only those of a validation error, and the text of an error itself is only shown for
  validation errors and cursors. \<open>Retry-After\<close> is set exactly for a request that is in flight.
  Wrapping an error with \<open>%w\<close>, as every layer does, changes neither status nor code.
\<close>

theorem errors_answered_by_class:
  assumes "rs = writeError text reqID err" "rs_body rs = ErrorEnvelope b"
  shows "(rs_status rs, eb_Code b) \<in> answer_classes \<and> eb_RequestID b = reqID
    \<and> (errors_As_Validation err \<noteq> None \<longrightarrow> rs_status rs = 400 \<and> eb_Code b = ''VALIDATION_ERROR'')
    \<and> (errors_As_Validation err = None \<longrightarrow>
         (errors_As_MaxBytes err \<longrightarrow> rs_status rs = 413 \<and> eb_Code b = ''PAYLOAD_TOO_LARGE'')
         \<and> (\<not> errors_As_MaxBytes err \<longrightarrow>
              (\<forall>(t, status, code) \<in> set catalogue.
                 errors_Is err t \<and> (\<forall>(t', c') \<in> set catalogue. errors_Is err t' \<longrightarrow> c' = (status, code)) \<longrightarrow>
                 rs_status rs = status \<and> eb_Code b = code)
              \<and> ((\<forall>(t, c) \<in> set catalogue. \<not> errors_Is err t) \<longrightarrow>
                   rs_status rs = 500 \<and> eb_Code b = ''INTERNAL_ERROR'')))
    \<and> (rs_status rs = 500 \<longrightarrow> eb_Message b = ''terjadi kesalahan internal'' \<and> eb_Fields b = [])
    \<and> (eb_Fields b \<noteq> [] \<longrightarrow> rs_status rs = 400 \<and> errors_As_Validation err = Some (eb_Fields b))
    \<and> (\<not> errors_Is err ErrValidation \<and> \<not> errors_Is err ErrInvalidCursor \<longrightarrow> (\<forall>text'. writeError text' reqID err = rs))
    \<and> ((''Retry-After'', ''1'') \<in> set (rs_header rs) \<longleftrightarrow> eb_Code b = ''IDEMPOTENCY_IN_FLIGHT'')
    \<and> (\<exists>b'. rs_body (writeError text reqID (Wrapf f args err)) = ErrorEnvelope b' \<and> eb_Code b' = eb_Code b
         \<and> rs_status (writeError text reqID (Wrapf f args err)) = rs_status rs)"
proof -
  let ?ae = "mapError text err"
  have w: "rs_status (writeError text' reqID e) = ae_status (mapError text' e)"
    "rs_body (writeError text' reqID e) = ErrorEnvelope \<lparr> eb_Code = ae_code (mapError text' e),
       eb_Message = ae_message (mapError text' e), eb_Fields = ae_fields (mapError text' e), eb_RequestID = reqID \<rparr>"
    for e text'
    by (simp_all add: writeError_def writeJSON_def Let_def)
  have b: "b = \<lparr> eb_Code = ae_code ?ae, eb_Message = ae_message ?ae, eb_Fields = ae_fields ?ae, eb_RequestID = reqID \<rparr>"
    and st: "rs_status rs = ae_status ?ae"
    using assms w(2) [of "text" err] w(1) [of "text" err] by auto
  have cat: "(ae_status ?ae, ae_code ?ae) \<in> answer_classes"
    by (rule mapError_class)
  note told = mapError_validation [of err "text"] mapError_too_large [of err "text"] mapError_internal [of err "text"]
  have sentinel: "ae_status ?ae = status \<and> ae_code ?ae = code"
    if "errors_As_Validation err = None" "\<not> errors_As_MaxBytes err" "(t, status, code) \<in> set catalogue"
      "errors_Is err t" "\<forall>(t', c') \<in> set catalogue. errors_Is err t' \<longrightarrow> c' = (status, code)" for t status code
    using mapError_sentinel [OF that] by simp
  have opaque: "ae_status ?ae = 500 \<longrightarrow> ae_message ?ae = ''terjadi kesalahan internal'' \<and> ae_fields ?ae = []"
    by (cases rule: mapError_cases [where render = "text" and err = err])
      (auto simp: api_error_def dest: listed_status)
  have fields: "ae_fields ?ae \<noteq> [] \<longrightarrow> ae_status ?ae = 400 \<and> errors_As_Validation err = Some (ae_fields ?ae)"
    by (cases rule: mapError_cases [where render = "text" and err = err]) (auto simp: api_error_def)
  have same: "mapError text' err = ?ae" if "\<not> errors_Is err ErrValidation" "\<not> errors_Is err ErrInvalidCursor" for text'
    using that unfolding mapError_def by (simp only: simp_thms if_False)
  have untold: "\<not> errors_Is err ErrValidation \<and> \<not> errors_Is err ErrInvalidCursor \<longrightarrow> (\<forall>text'. writeError text' reqID err = rs)"
  proof (intro impI allI)
    fix text' assume "\<not> errors_Is err ErrValidation \<and> \<not> errors_Is err ErrInvalidCursor"
    then have "mapError text' err = ?ae" using same by blast
    then show "writeError text' reqID err = rs" by (simp only: assms(1) writeError_def)
  qed
  have retry: "(''Retry-After'', ''1'') \<in> set (rs_header rs) \<longleftrightarrow> ae_code ?ae = ''IDEMPOTENCY_IN_FLIGHT''"
    using assms(1) by (simp add: writeError_def writeJSON_def Let_def)
  have sentinels: "\<forall>(t, status, code) \<in> set catalogue.
      errors_Is err t \<and> (\<forall>(t', c') \<in> set catalogue. errors_Is err t' \<longrightarrow> c' = (status, code)) \<longrightarrow>
      ae_status ?ae = status \<and> ae_code ?ae = code"
    if "errors_As_Validation err = None" "\<not> errors_As_MaxBytes err"
    using sentinel [OF that] by blast
  have S: "rs_status rs = ae_status ?ae" "eb_Code b = ae_code ?ae" "eb_Message b = ae_message ?ae"
    "eb_Fields b = ae_fields ?ae" "eb_RequestID b = reqID" by (simp_all add: b st)
  have wrapped: "\<exists>b'. rs_body (writeError text reqID (Wrapf f args err)) = ErrorEnvelope b' \<and> eb_Code b' = ae_code ?ae
         \<and> rs_status (writeError text reqID (Wrapf f args err)) = ae_status ?ae"
    using mapError_Wrapf [of "text" f args err] w [of "text" "Wrapf f args err"] by simp
  show ?thesis
    unfolding S
    by (intro conjI cat refl told(1) opaque fields untold retry wrapped by_kind [OF told(2) sentinels told(3)])
qed

theorem errors_answered_by_class_witness:
  "\<exists>b. rs_body (writeError (\<lambda>e. ''?'') ''r'' (Wrapf ''x: %w'' [] ErrIdempotencyInFlight)) = ErrorEnvelope b
     \<and> eb_Code b = ''IDEMPOTENCY_IN_FLIGHT''
     \<and> (''Retry-After'', ''1'') \<in> set (rs_header (writeError (\<lambda>e. ''?'') ''r'' (Wrapf ''x: %w'' [] ErrIdempotencyInFlight)))"
proof -
  let ?rs = "writeError (\<lambda>e. ''?'') ''r'' (Wrapf ''x: %w'' [] ErrIdempotencyInFlight)"
  obtain b where b: "rs_body ?rs = ErrorEnvelope b" "eb_Code b = ''IDEMPOTENCY_IN_FLIGHT''"
    by (simp add: writeError_def writeJSON_def mapError_def error_cases_def api_error_def Let_def)
  from errors_answered_by_class [OF refl b(1)] b show ?thesis by blast
qed

section \<open>Request bodies\<close>

text \<open>The member \<open>(name, v)\<close> of an object is one the struct knows, with a value of its type.\<close>

definition fits :: "json_lib \<Rightarrow> fields \<Rightarrow> string \<times> jvalue \<Rightarrow> bool" where
  "fits jl fs m \<longleftrightarrow>
     (\<exists>(n, path, kind) \<in> set fs. (n = fst m \<or> jl_same_name jl n (fst m))
        \<and> (snd m = VNull \<or> kind = FString \<and> (\<exists>s. snd m = VStr s)
           \<or> kind = FInt64 \<and> (\<exists>lit i. snd m = VNum lit \<and> ParseInt lit = Some i)))"

lemma ParseInt_in_int64: "ParseInt lit = Some i \<Longrightarrow> in_int64 i"
  by (auto simp: ParseInt_def Let_def split: option.splits if_splits)

lemma find_field_SomeD:
  "find_field jl fs name = Some (n, path, kind) \<Longrightarrow>
   (n, path, kind) \<in> set fs \<and> (n = name \<or> jl_same_name jl n name)"
  by (auto simp: find_field_def split: option.splits dest!: find_SomeD)

lemma decode_field_Inr:
  "decode_field path kind v = Inr x \<Longrightarrow>
   v = VNull \<and> x = None \<or> kind = FString \<and> (\<exists>s. v = VStr s \<and> x = Some (StringV s))
   \<or> kind = FInt64 \<and> (\<exists>lit i. v = VNum lit \<and> ParseInt lit = Some i \<and> x = Some (IntV i))"
  by (cases kind; cases v) (auto simp: decode_field_def split: option.splits)

lemma decode_members_error: "snd (decode_members jl fs ms dst (Some e)) = Some e"
  by (induction ms arbitrary: dst) (auto simp: Let_def split: option.split sum.split)

text \<open>The value \<open>x\<close> of the field \<open>n\<close> is that of a member of the object which matches its name.\<close>

definition taken :: "json_lib \<Rightarrow> (string \<times> jvalue) list \<Rightarrow> string \<Rightarrow> fvalue \<Rightarrow> bool" where
  "taken jl ms n x \<longleftrightarrow>
     (\<exists>(name, v) \<in> set ms. (n = name \<or> jl_same_name jl n name)
        \<and> (case x of StringV s \<Rightarrow> v = VStr s | IntV i \<Rightarrow> \<exists>lit. v = VNum lit \<and> ParseInt lit = Some i))"

lemma taken_Cons: "taken jl ms n x \<Longrightarrow> taken jl (m # ms) n x"
  by (auto simp: taken_def)

lemma decode_members_Inr:
  assumes "decode_members jl fs ms dst None = (dst', None)"
  shows "(\<forall>m \<in> set ms. fits jl fs m) \<and> (\<forall>n x. dst' n = Some x \<longrightarrow> dst n = Some x \<or> taken jl ms n x)"
  using assms
proof (induction ms arbitrary: dst)
  case (Cons m ms)
  obtain name v where m: "m = (name, v)" by fastforce
  from Cons.prems obtain n path kind x where f: "find_field jl fs name = Some (n, path, kind)"
    and d: "decode_field path kind v = Inr x"
    and R: "decode_members jl fs ms (case x of None \<Rightarrow> dst | Some y \<Rightarrow> dst(n \<mapsto> y)) None = (dst', None)"
    using decode_members_error [of jl fs ms]
    by (auto simp: m Let_def split: option.splits sum.splits) (metis snd_conv option.distinct(1))+
  note d' = decode_field_Inr [OF d]
  have fit: "fits jl fs m" using find_field_SomeD [OF f] d' by (fastforce simp: m fits_def)
  note IH = Cons.IH [OF R]
  show ?case
  proof (intro conjI allI impI)
    show "\<forall>m \<in> set (m # ms). fits jl fs m" using IH fit by simp
    fix k y assume "dst' k = Some y"
    with IH consider "(case x of None \<Rightarrow> dst | Some y \<Rightarrow> dst(n \<mapsto> y)) k = Some y" | "taken jl ms k y" by blast
    then show "dst k = Some y \<or> taken jl (m # ms) k y"
    proof cases
      case 1
      then have "dst k = Some y \<or> k = n \<and> x = Some y" by (cases x; cases "k = n") auto
      with d' find_field_SomeD [OF f] show ?thesis by (auto simp: taken_def m)
    qed (simp add: taken_Cons)
  qed
qed simp

lemma decodeJSON_Inr:
  assumes "decodeJSON jl fs b = Inr dst"
  obtains (null) rest where "jl_lex jl (limited b) = Value VNull rest" "\<not> dec_More rest" "dst = (\<lambda>n. None)"
  | (object) ms rest where "jl_lex jl (limited b) = Value (VObj ms) rest" "\<not> dec_More rest"
      "\<forall>m \<in> set ms. fits jl fs m" "\<And>n x. dst n = Some x \<Longrightarrow> taken jl ms n x"
proof -
  obtain v rest where v: "jl_lex jl (limited b) = Value v rest" "\<not> dec_More rest" and d: "decode_struct jl fs v = (dst, None)"
    using assms by (auto simp: decodeJSON_def split: lexed.splits if_splits prod.splits option.splits decode_error.splits)
  show thesis
  proof (cases v)
    case VNull
    with v d null show thesis by (simp add: decode_struct_def)
  next
    case (VObj ms)
    with d decode_members_Inr [of jl fs ms "\<lambda>n. None" dst] v object show thesis
      by (simp add: decode_struct_def)
  qed (use d in \<open>simp_all add: decode_struct_def\<close>)
qed

text \<open>
  C40 type. Requests are well typed before they reach the service. A transfer that the handler
  accepts comes from a body whose first value is a JSON object, every member of which names a
  field of the request and has its type or is \<open>null\<close>: no other field can be assigned. Its amount
  is the value of a numeral under a name that matches \<open>amount_sen\<close>, fits 64 bits and is positive;
  its description has at most 255 bytes; its recipient is the parsed UUID; both texts are empty
  or those of members of their names. Of what follows the object, \<open>dec.More()\<close> only establishes
  that it is white space, or starts after white space with a closing brace or bracket.
\<close>

theorem accepted_transfers_well_typed:
  assumes "decode_transfer jl b = Inr r" "transferRequest_validate parse r = Inr to"
  shows "0 < mq_AmountSen r \<and> in_int64 (mq_AmountSen r) \<and> length (mq_Description r) \<le> 255
    \<and> parse (mq_ToAccountPublicID r) = Some to
    \<and> (\<exists>ms rest. jl_lex jl (limited b) = Value (VObj ms) rest
         \<and> (\<forall>m \<in> set ms. fits jl transferRequest_fields m)
         \<and> taken jl ms ''amount_sen'' (IntV (mq_AmountSen r))
         \<and> (mq_Description r \<noteq> [] \<longrightarrow> taken jl ms ''description'' (StringV (mq_Description r)))
         \<and> (mq_ToAccountPublicID r \<noteq> [] \<longrightarrow>
              taken jl ms ''to_account_public_id'' (StringV (mq_ToAccountPublicID r)))
         \<and> (\<forall>c cs. dropWhile json_space rest = c # cs \<longrightarrow> c = CHR ''}'' \<or> c = CHR '']''))"
proof -
  have v: "0 < mq_AmountSen r" "length (mq_Description r) \<le> 255" "parse (mq_ToAccountPublicID r) = Some to"
    using assms(2) by (auto simp: transferRequest_validate_def NewValidationError_def money_faults_def split: if_splits)
  obtain dst where d: "decodeJSON jl transferRequest_fields b = Inr dst" and a: "mq_AmountSen r = int_of dst ''amount_sen''"
    "mq_Description r = str_of dst ''description''" "mq_ToAccountPublicID r = str_of dst ''to_account_public_id''"
    using assms(1) by (auto simp: decode_transfer_def map_result_def split: sum.splits)
  have str: "str_of dst n \<noteq> [] \<Longrightarrow> dst n = Some (StringV (str_of dst n))" for n
    by (auto simp: str_of_def split: option.splits fvalue.splits)
  from v(1) a have n: "dst ''amount_sen'' = Some (IntV (mq_AmountSen r))"
    by (auto simp: int_of_def split: option.splits fvalue.splits)
  from d show ?thesis
  proof (cases rule: decodeJSON_Inr)
    case null
    with n show ?thesis by simp
  next
    case (object ms rest)
    note t = object(4) [OF n]
    from t have "in_int64 (mq_AmountSen r)" by (auto simp: taken_def dest: ParseInt_in_int64)
    moreover have "\<forall>c cs. dropWhile json_space rest = c # cs \<longrightarrow> c = CHR ''}'' \<or> c = CHR '']''"
      using object(2) by (auto simp: dec_More_def)
    ultimately show ?thesis using v t object(1,3) object(4) [OF str] unfolding a(2,3) by blast
  qed
qed

definition demo_transfer_json :: json_lib where
  "demo_transfer_json =
     \<lparr> jl_lex = (\<lambda>b. Value (VObj [(''amount_sen'', VNum (FormatInt 5000)), (''to_account_public_id'', VStr ''u'')]) ''  ''),
       jl_same_name = (\<lambda>a b. False), jl_quote = id \<rparr>"

theorem accepted_transfers_well_typed_witness:
  "\<exists>r ms rest. decode_transfer demo_transfer_json \<lparr> bd_bytes = [], bd_err = None \<rparr> = Inr r
     \<and> transferRequest_validate (\<lambda>s. Some 7) r = Inr 7 \<and> in_int64 (mq_AmountSen r)
     \<and> jl_lex demo_transfer_json (limited \<lparr> bd_bytes = [], bd_err = None \<rparr>) = Value (VObj ms) rest
     \<and> taken demo_transfer_json ms ''amount_sen'' (IntV (mq_AmountSen r))"
proof -
  let ?r = "\<lparr> mq_AmountSen = 5000, mq_Description = [], mq_ToAccountPublicID = ''u'' \<rparr>"
  have d: "decode_transfer demo_transfer_json \<lparr> bd_bytes = [], bd_err = None \<rparr> = Inr ?r"
    using ParseInt_FormatInt [of 5000]
    by (simp add: decode_transfer_def map_result_def decodeJSON_def dec_More_def json_space_def demo_transfer_json_def
        decode_struct_def transferRequest_fields_def find_field_def decode_field_def Let_def str_of_def int_of_def
        in_int64_def)
  have v: "transferRequest_validate (\<lambda>s. Some 7) ?r = Inr 7"
    by (simp add: transferRequest_validate_def money_faults_def NewValidationError_def)
  from accepted_transfers_well_typed [OF d v] d v show ?thesis by blast
qed

text \<open>So a body with a closing brace and more after the object is accepted.\<close>

lemma trailing_brace_accepted: "\<not> dec_More (''}'' @ s)" "\<not> dec_More ('' ]'' @ s)" "dec_More ('' {'' @ s)"
  by (simp_all add: dec_More_def json_space_def)

text \<open>What the API relies on at startup holds in every later database.\<close>

lemma api_ready_later:
  assumes "api_ready p T" "extends T T'"
  shows "api_ready p T'"
proof -
  obtain a where a: "a \<in> set (accounts T)" "acc_ID a = L_cashID (ap_ledger p)" "acc_Type a = AccountSystemCash"
    using assms(1) by (auto simp: api_ready_def cash_account_def)
  obtain b where "b \<in> set (accounts T')" "acc_key b = acc_key a"
    using extends_account [OF assms(2) a(1)] by blast
  with a have "cash_account T' (L_cashID (ap_ledger p))" by (auto simp: cash_account_def acc_key_def)
  with assms(1) show ?thesis by (simp add: api_ready_def)
qed

end
