(* ===== verification/Locks.thy ===== *)
theory Locks
  imports Operations
begin

text \<open>
  Concurrent postings and their locks. \<open>LedgerRepo.Post\<close> claims its idempotency key, locks the
  rows of its accounts in the order of their ids, marks the transaction it reverses and inserts
  the header, and holds what it locked until its transaction ends. Here many postings do so at
  once, each lock an own step, beside the other calls of the system: no circle of postings
  waits for each other, and what a posting has locked does not change under it.

  The locks are those PostgreSQL takes for the statements: the unique indexes of the key and of
  the reversal make the second inserter wait for the first, \<open>FOR UPDATE\<close> and UPDATE lock rows.
\<close>

section \<open>Locks and their order\<close>

datatype row_lock =
    KeyLock int64 string     \<comment> \<open>the inserted row of \<open>idempotency_keys\<close>\<close>
  | AccountLock int64        \<comment> \<open>a row of \<open>accounts\<close>\<close>
  | TxnLock uuid             \<comment> \<open>a row of \<open>transactions\<close>\<close>
  | ReversalLock uuid        \<comment> \<open>an entry of the index \<open>uq_reversal\<close>\<close>

text \<open>The order in which one posting reaches its locks: by kind, and accounts by their id.\<close>

fun lock_kind :: "row_lock \<Rightarrow> nat" where
  "lock_kind (KeyLock u k) = 0"
| "lock_kind (AccountLock i) = 1"
| "lock_kind (TxnLock i) = 2"
| "lock_kind (ReversalLock i) = 3"

instantiation row_lock :: order
begin

definition less_row_lock :: "row_lock \<Rightarrow> row_lock \<Rightarrow> bool" where
  "less_row_lock a b \<longleftrightarrow>
     lock_kind a < lock_kind b \<or> (\<exists>i j. a = AccountLock i \<and> b = AccountLock j \<and> i < j)"

definition less_eq_row_lock :: "row_lock \<Rightarrow> row_lock \<Rightarrow> bool" where
  "less_eq_row_lock a b \<longleftrightarrow> a = b \<or> a < b"

instance
proof
  fix a b c :: row_lock
  have irrefl: "\<not> x < x" for x :: row_lock by (auto simp: less_row_lock_def)
  have trans: "x < z" if "x < y" "y < z" for x y z :: row_lock
    using that by (cases x; cases y; cases z) (auto simp: less_row_lock_def)
  show "(a < b) = (a \<le> b \<and> \<not> b \<le> a)" "a \<le> a" using irrefl trans by (auto simp: less_eq_row_lock_def)
  show "a \<le> c" if "a \<le> b" "b \<le> c" using that trans by (auto simp: less_eq_row_lock_def)
  show "a = b" if "a \<le> b" "b \<le> a" using that irrefl trans by (auto simp: less_eq_row_lock_def)
qed

end

text \<open>
  The locks of one posting in the order its statements take them; the query
  \<open>... WHERE id = ANY($1) ORDER BY id FOR UPDATE\<close> locks the accounts by their ids.
\<close>

definition post_locks :: "transaction \<Rightarrow> idempotency_claim \<Rightarrow> row_lock list" where
  "post_locks txn claim =
     [KeyLock (clm_UserID claim) (clm_Key claim)]
     @ map AccountLock (sort (Transaction_AccountIDs txn))
     @ (case txn_ReversesID txn of None \<Rightarrow> [] | Some i \<Rightarrow> [TxnLock i, ReversalLock i])"

lemma set_post_locks:
  "set (post_locks txn claim) = {KeyLock (clm_UserID claim) (clm_Key claim)}
     \<union> AccountLock ` ent_AccountID ` set (txn_Entries txn)
     \<union> (case txn_ReversesID txn of None \<Rightarrow> {} | Some i \<Rightarrow> {TxnLock i, ReversalLock i})"
  by (auto simp: post_locks_def set_AccountIDs split: option.split)

lemma post_locks_sorted: "sorted_wrt (<) (post_locks txn claim)"
proof -
  have "sorted_wrt (<) (sort (Transaction_AccountIDs txn))"
    using distinct_AccountIDs by (simp add: strict_sorted_iff)
  then have "sorted_wrt (<) (map AccountLock (sort (Transaction_AccountIDs txn)))"
    unfolding sorted_wrt_map by (rule sorted_wrt_mono_rel [rotated]) (simp add: less_row_lock_def)
  then show ?thesis
    by (auto simp: post_locks_def sorted_wrt_append less_row_lock_def split: option.split)
qed

text \<open>The rows the locking query returns come in the same order, whatever order it is given.\<close>

lemma sql_lock_accounts_order:
  assumes "sql_lock_accounts env (Transaction_AccountIDs txn) w = (Inr accs, w')"
    and "distinct (map acc_ID (accounts (tabs w)))"
  shows "map la_ID accs
    = filter (\<lambda>i. i \<in> acc_ID ` set (accounts (tabs w))) (Transaction_AccountIDs txn)"
proof -
  let ?As = "filter (\<lambda>a. acc_ID a \<in> set (Transaction_AccountIDs txn)) (accounts (tabs w))"
  have ids: "map la_ID accs = map acc_ID (sort_key acc_ID ?As)"
    using assms(1) by (auto simp: sql_lock_accounts_def stmt_Inr_iff lockedAccount_of_def)
  have "distinct (map acc_ID ?As)" using assms(2) by (simp add: distinct_map_filter)
  then have "distinct (map acc_ID (sort_key acc_ID ?As))"
    by (simp add: distinct_map)
  moreover have "sorted (map acc_ID (sort_key acc_ID ?As))" by simp
  moreover have "set (map acc_ID (sort_key acc_ID ?As))
      = set (filter (\<lambda>i. i \<in> acc_ID ` set (accounts (tabs w))) (Transaction_AccountIDs txn))"
    by (force simp: image_iff)
  ultimately show ?thesis unfolding ids
    by (intro sorted_distinct_set_unique)
      (simp_all add: sorted_AccountIDs distinct_AccountIDs sorted_wrt_filter)
qed

section \<open>Rows under a lock\<close>

text \<open>
  \<open>lockable\<close>: the statement that takes the lock finds what it needs, so that the posting goes
  on. Otherwise it inserts nothing (the key is known), locks nothing or updates nothing.
\<close>

fun lockable :: "tables \<Rightarrow> row_lock \<Rightarrow> bool" where
  "lockable T (KeyLock u k) \<longleftrightarrow> (\<forall>r \<in> set (idempotency_keys T). \<not> (ik_user_id r = u \<and> ik_key r = k))"
| "lockable T (AccountLock i) \<longleftrightarrow> i \<in> acc_ID ` set (accounts T)"
| "lockable T (TxnLock i) \<longleftrightarrow> (\<exists>t \<in> set (transactions T). tr_id t = i \<and> tr_status t = TxnPosted)"
| "lockable T (ReversalLock i) \<longleftrightarrow> Some i \<notin> tr_reverses ` set (transactions T)"

fun same_rows :: "tables \<Rightarrow> tables \<Rightarrow> row_lock \<Rightarrow> bool" where
  "same_rows T T' (KeyLock u k) \<longleftrightarrow>
     filter (\<lambda>r. ik_user_id r = u \<and> ik_key r = k) (idempotency_keys T')
       = filter (\<lambda>r. ik_user_id r = u \<and> ik_key r = k) (idempotency_keys T)"
| "same_rows T T' (AccountLock i) \<longleftrightarrow>
     filter (\<lambda>a. acc_ID a = i) (accounts T') = filter (\<lambda>a. acc_ID a = i) (accounts T)"
| "same_rows T T' (TxnLock i) \<longleftrightarrow>
     filter (\<lambda>t. tr_id t = i) (transactions T') = filter (\<lambda>t. tr_id t = i) (transactions T)"
| "same_rows T T' (ReversalLock i) \<longleftrightarrow>
     filter (\<lambda>t. tr_reverses t = Some i) (transactions T')
       = filter (\<lambda>t. tr_reverses t = Some i) (transactions T)"

lemma same_rows_refl [simp]: "same_rows T T l"
  by (cases l) simp_all

lemma same_rows_trans: "\<lbrakk>same_rows T T1 l; same_rows T1 T2 l\<rbrakk> \<Longrightarrow> same_rows T T2 l"
  by (cases l) simp_all

lemma filter_eq_mem: "filter P ys = filter P xs \<Longrightarrow> P x \<Longrightarrow> x \<in> set ys \<longleftrightarrow> x \<in> set xs"
  by (metis (mono_tags) mem_Collect_eq set_filter)

lemma same_rows_lockable:
  assumes "same_rows T T' l" "lockable T l"
  shows "lockable T' l"
proof (cases l)
  case (KeyLock u k)
  let ?p = "\<lambda>r. ik_user_id r = u \<and> ik_key r = k"
  have "filter ?p (idempotency_keys T) = []" using assms(2) KeyLock by (auto simp: filter_empty_conv)
  then have "filter ?p (idempotency_keys T') = []" using assms(1) KeyLock by simp
  then show ?thesis using KeyLock by (auto simp: filter_empty_conv)
next
  case (AccountLock i)
  with assms(2) obtain a where "a \<in> set (accounts T)" "acc_ID a = i" by auto
  moreover then have "a \<in> set (accounts T')" using assms(1) AccountLock filter_eq_mem by fastforce
  ultimately show ?thesis using AccountLock by force
next
  case (TxnLock i)
  with assms(2) obtain t where t: "t \<in> set (transactions T)" "tr_id t = i" "tr_status t = TxnPosted" by auto
  have "filter (\<lambda>t. tr_id t = i) (transactions T') = filter (\<lambda>t. tr_id t = i) (transactions T)"
    using assms(1) TxnLock by simp
  from filter_eq_mem [OF this, of t] t have "t \<in> set (transactions T')" by simp
  with t TxnLock show ?thesis by auto
next
  case (ReversalLock i)
  let ?p = "\<lambda>t. tr_reverses t = Some i"
  have none: "Some i \<notin> tr_reverses ` set Ts \<longleftrightarrow> filter ?p Ts = []" for Ts
    by (auto simp: filter_empty_conv image_iff)
  have "filter ?p (transactions T') = filter ?p (transactions T)" using assms(1) ReversalLock by simp
  moreover have "filter ?p (transactions T) = []" using assms(2) ReversalLock unfolding none [symmetric] by simp
  ultimately have "Some i \<notin> tr_reverses ` set (transactions T')" unfolding none by (rule trans)
  then show ?thesis using ReversalLock by simp
qed

text \<open>A step that posts nothing leaves what is locked.\<close>

lemma quiet_same_rows:
  assumes Q: "quiet T T'" and L: "lockable T l" and D: "distinct (map acc_ID (accounts T'))"
  shows "same_rows T T' l"
proof (cases l)
  case (KeyLock u k)
  let ?p = "\<lambda>r. ik_user_id r = u \<and> ik_key r = k"
  have "filter ?p (idempotency_keys T) = []" using L KeyLock by (auto simp: filter_empty_conv)
  moreover have "filter ?p (idempotency_keys T') = []"
    using Q L KeyLock by (auto simp: quiet_def filter_empty_conv)
  ultimately show ?thesis using KeyLock by simp
next
  case (AccountLock i)
  obtain new where N: "accounts T' = accounts T @ new" using Q by (auto simp: quiet_def)
  have "i \<in> acc_ID ` set (accounts T)" using L AccountLock by simp
  with D N have "\<forall>a \<in> set new. acc_ID a \<noteq> i" by (auto simp: image_iff)
  with N AccountLock show ?thesis by simp
qed (use Q in \<open>simp_all add: quiet_def\<close>)

text \<open>A posting changes no row but those it locks.\<close>

lemma filter_map_settle:
  assumes "i \<notin> ent_AccountID ` set es"
  shows "filter (\<lambda>a. acc_ID a = i) (map (settle now es) As) = filter (\<lambda>a. acc_ID a = i) As"
  using assms by (induction As) (auto simp: settle_miss)

lemma filter_mark_original:
  assumes "\<And>r. P (r\<lparr>tr_status := TxnReversed\<rparr>) \<longleftrightarrow> P r" "\<And>i r. rv = Some i \<Longrightarrow> P r \<Longrightarrow> tr_id r \<noteq> i"
  shows "filter P (mark_original rv Ts) = filter P Ts"
proof (cases rv)
  case None
  then show ?thesis by (simp add: mark_original_def)
next
  case (Some i)
  have "filter P (update_where (\<lambda>r. tr_id r = i \<and> tr_status r = TxnPosted)
      (\<lambda>r. r\<lparr>tr_status := TxnReversed\<rparr>) Ts) = filter P Ts"
    using assms Some by (induction Ts) auto
  with Some show ?thesis by (simp add: mark_original_def)
qed

lemma posted_same_rows:
  assumes A: "post_accepts env tid eid txn claim T"
    and L: "l \<notin> set (post_locks txn claim)" "lockable T l"
  shows "same_rows T (posted_tables env tid eid q txn claim T) l"
proof (cases l)
  case (KeyLock u k)
  with L show ?thesis
    by (auto simp: posted_tables_def Let_def set_post_locks completed_claim_def new_idem_row_def)
next
  case (AccountLock i)
  with L have "i \<notin> ent_AccountID ` set (txn_Entries txn)" by (auto simp: set_post_locks)
  with AccountLock show ?thesis by (simp add: posted_tables_def Let_def filter_map_settle)
next
  case (TxnLock i)
  have "i \<noteq> tid" using A L TxnLock by (auto simp: post_accepts_def)
  moreover have "filter (\<lambda>t. tr_id t = i) (mark_original (txn_ReversesID txn) (transactions T))
      = filter (\<lambda>t. tr_id t = i) (transactions T)"
    using L TxnLock by (intro filter_mark_original) (auto simp: set_post_locks)
  ultimately show ?thesis using TxnLock
    by (simp add: posted_tables_def Let_def header_row_def new_txn_row_def)
next
  case (ReversalLock i)
  have "txn_ReversesID txn \<noteq> Some i" using L ReversalLock by (auto simp: set_post_locks)
  moreover have "filter (\<lambda>t. tr_reverses t = Some i) (mark_original rv (transactions T))
      = filter (\<lambda>t. tr_reverses t = Some i) (transactions T)" for rv
  proof -
    have none: "filter (\<lambda>t. tr_reverses t = Some i) Ts = []" if "Some i \<notin> tr_reverses ` set Ts" for Ts
      using that by (force simp: filter_empty_conv image_iff)
    have "Some i \<notin> tr_reverses ` set (transactions T)" using L ReversalLock by simp
    then show ?thesis using none [of "transactions T"] none [of "mark_original rv (transactions T)"] by simp
  qed
  ultimately show ?thesis using ReversalLock
    by (simp add: posted_tables_def Let_def header_row_def new_txn_row_def)
qed

section \<open>Postings under way\<close>

text \<open>
  A session is a call of \<open>Post\<close> under way: what it has locked, what it has yet to lock, and
  whether it still goes on. A session that found a row missing can only roll back, though it
  may still wait for further locks of the same statement.
\<close>

record session =
  ss_txn :: transaction
  ss_claim :: idempotency_claim
  ss_held :: "row_lock list"
  ss_todo :: "row_lock list"
  ss_alive :: bool

definition new_session :: "transaction \<Rightarrow> idempotency_claim \<Rightarrow> session" where
  "new_session txn claim =
     \<lparr> ss_txn = txn, ss_claim = claim, ss_held = [], ss_todo = post_locks txn claim, ss_alive = True \<rparr>"

text \<open>The session after the statement that asks for its next lock.\<close>

definition after_lock :: "tables \<Rightarrow> session \<Rightarrow> session" where
  "after_lock T s =
     (case ss_todo s of
        [] \<Rightarrow> s
      | l # ls \<Rightarrow>
          if lockable T l then s\<lparr>ss_held := ss_held s @ [l], ss_todo := ls\<rparr>
          else s\<lparr>ss_todo := ls, ss_alive := False\<rparr>)"

type_synonym sessions = "nat \<rightharpoonup> session"

text \<open>\<open>waits_for S i j\<close>: the next lock of session \<open>i\<close> is held by session \<open>j\<close>.\<close>

definition waits_for :: "sessions \<Rightarrow> nat \<Rightarrow> nat \<Rightarrow> bool" where
  "waits_for S i j \<longleftrightarrow> i \<noteq> j \<and>
     (\<exists>s l ls t. S i = Some s \<and> ss_todo s = l # ls \<and> S j = Some t \<and> l \<in> set (ss_held t))"

inductive lock_step :: "pg \<times> sessions \<Rightarrow> pg \<times> sessions \<Rightarrow> bool" where
  start: "\<lbrakk>S i = None; amounts_in_range txn\<rbrakk> \<Longrightarrow> lock_step (w, S) (w, S(i \<mapsto> new_session txn claim))"
| lock: "\<lbrakk>S i = Some s; \<forall>j. \<not> waits_for S i j\<rbrakk> \<Longrightarrow> lock_step (w, S) (w, S(i \<mapsto> after_lock (tabs w) s))"
| finish: "\<lbrakk>S i = Some s; ss_todo s = []; ss_alive s;
            LedgerRepo_Post env (ss_txn s) (ss_claim s) w = (r, w')\<rbrakk> \<Longrightarrow> lock_step (w, S) (w', S(i := None))"
| rollback: "S i = Some s \<Longrightarrow> lock_step (w, S) (w, S(i := None))"
| beside: "\<lbrakk>db_step w w'; entries (tabs w') = entries (tabs w)\<rbrakk> \<Longrightarrow> lock_step (w, S) (w', S)"

inductive_cases lock_stepE0: "lock_step (w, S) (w', S')"

lemmas lock_stepE = lock_stepE0 [consumes 1, case_names start lock finish rollback beside]

inductive concurrent :: "pg \<times> sessions \<Rightarrow> bool" where
  idle: "reachable w \<Longrightarrow> concurrent (w, Map.empty)"
| step: "\<lbrakk>concurrent x; lock_step x y\<rbrakk> \<Longrightarrow> concurrent y"

section \<open>The invariant of the sessions\<close>

definition session_ok :: "tables \<Rightarrow> session \<Rightarrow> bool" where
  "session_ok T s \<longleftrightarrow>
     amounts_in_range (ss_txn s) \<and> sorted_wrt (<) (ss_held s @ ss_todo s)
     \<and> set (ss_held s @ ss_todo s) \<subseteq> set (post_locks (ss_txn s) (ss_claim s))
     \<and> (ss_alive s \<longrightarrow> ss_held s @ ss_todo s = post_locks (ss_txn s) (ss_claim s))
     \<and> (\<forall>l \<in> set (ss_held s). lockable T l)"

definition disjoint_locks :: "sessions \<Rightarrow> bool" where
  "disjoint_locks S \<longleftrightarrow>
     (\<forall>i j s t. i \<noteq> j \<and> S i = Some s \<and> S j = Some t \<longrightarrow> set (ss_held s) \<inter> set (ss_held t) = {})"

definition sessions_ok :: "pg \<times> sessions \<Rightarrow> bool" where
  "sessions_ok x \<longleftrightarrow>
     reachable (fst x) \<and> finite (dom (snd x)) \<and> disjoint_locks (snd x)
     \<and> (\<forall>i s. snd x i = Some s \<longrightarrow> session_ok (tabs (fst x)) s)"

lemma new_session_ok: "amounts_in_range txn \<Longrightarrow> session_ok T (new_session txn claim)"
  by (simp add: session_ok_def new_session_def post_locks_sorted)

lemma after_lock_ok: "session_ok T s \<Longrightarrow> session_ok T (after_lock T s)"
  by (cases "ss_todo s") (auto simp: session_ok_def after_lock_def sorted_wrt_append)

lemma after_lock_held: "set (ss_held (after_lock T s)) \<subseteq> set (ss_held s) \<union> set (take 1 (ss_todo s))"
  by (cases "ss_todo s") (auto simp: after_lock_def)

lemma disjoint_locks_upd:
  assumes "disjoint_locks S" "\<And>j t. \<lbrakk>j \<noteq> i; S j = Some t\<rbrakk> \<Longrightarrow> set (ss_held s) \<inter> set (ss_held t) = {}"
  shows "disjoint_locks (S(i \<mapsto> s))"
  using assms unfolding disjoint_locks_def by (auto simp: disjoint_iff split: if_splits)

lemma disjoint_locks_del: "disjoint_locks S \<Longrightarrow> disjoint_locks (S(i := None))"
  unfolding disjoint_locks_def by (metis fun_upd_apply option.distinct(1))

text \<open>The effect of a step on a lock some session holds, where that session stays.\<close>

lemma finish_same_rows:
  assumes "reachable w" and P: "LedgerRepo_Post env txn claim w = (r, w')" and "amounts_in_range txn"
    and L: "l \<notin> set (post_locks txn claim)" "lockable (tabs w) l"
  shows "same_rows (tabs w) (tabs w') l"
proof (cases r)
  case (Inl e)
  with P have "tabs w' = tabs w"
    by (auto simp: LedgerRepo_Post_def split: option.splits dest: in_tx_Inl_tabs)
  then show ?thesis by simp
next
  case (Inr res)
  have "distinct (map acc_ID (accounts (tabs w)))"
    using reachable_inv [OF assms(1)] by (simp add: db_inv_def ledger_inv_def accounts_ok_def)
  from LedgerRepo_Post_sound [OF P [unfolded Inr] this assms(3)] L show ?thesis
    by (metis posted_same_rows)
qed

lemma beside_same_rows:
  assumes "reachable w" "db_step w w'" "entries (tabs w') = entries (tabs w)" "lockable (tabs w) l"
  shows "same_rows (tabs w) (tabs w') l"
proof -
  have "\<not> posts (seqs w) (tabs w) (tabs w')"
  proof
    assume "posts (seqs w) (tabs w) (tabs w')"
    then obtain env tid eid txn claim where A: "post_accepts env tid eid txn claim (tabs w)"
      and T: "tabs w' = posted_tables env tid eid (seqs w) txn claim (tabs w)"
      by (auto simp: posts_def)
    have "txn_Entries txn \<noteq> []" using A by (auto simp: post_accepts_def valid_transaction_def)
    then have "length (entries (tabs w')) \<noteq> length (entries (tabs w))"
      using T by (cases "txn_Entries txn") (simp_all add: posted_tables_def Let_def)
    with assms(3) show False by simp
  qed
  with db_step_effect [OF assms(2) reachable_inv [OF assms(1)]] have "quiet (tabs w) (tabs w')" by blast
  moreover have "distinct (map acc_ID (accounts (tabs w')))"
    using reachable_inv [OF reachable.step [OF assms(1,2)]]
    by (simp add: db_inv_def ledger_inv_def accounts_ok_def)
  ultimately show ?thesis using quiet_same_rows assms(4) by blast
qed

lemma session_ok_held: "\<lbrakk>session_ok T s; l \<in> set (ss_held s)\<rbrakk> \<Longrightarrow> lockable T l"
  by (simp add: session_ok_def)

lemma session_ok_done:
  "\<lbrakk>session_ok T s; ss_alive s; ss_todo s = []\<rbrakk> \<Longrightarrow> ss_held s = post_locks (ss_txn s) (ss_claim s)"
  by (simp add: session_ok_def)

lemma lock_step_same_rows:
  assumes I: "sessions_ok (w, S)" and "lock_step (w, S) (w', S')"
    and i: "S i = Some s" "S' i \<noteq> None" and l: "l \<in> set (ss_held s)"
  shows "same_rows (tabs w) (tabs w') l"
  using assms(2)
proof (cases rule: lock_stepE)
  case (finish j t env r)
  then have "j \<noteq> i" using i by auto
  have R: "reachable w" and s: "session_ok (tabs w) s" and t: "session_ok (tabs w) t"
    using I i finish by (auto simp: sessions_ok_def)
  have "set (ss_held s) \<inter> set (ss_held t) = {}"
    using I i finish \<open>j \<noteq> i\<close> unfolding sessions_ok_def disjoint_locks_def by fastforce
  then have "l \<notin> set (post_locks (ss_txn t) (ss_claim t))"
    using session_ok_done [OF t] finish l by auto
  with finish_same_rows [OF R, OF finish(5)] t session_ok_held [OF s l] show ?thesis
    by (simp add: session_ok_def)
next
  case beside
  have R: "reachable w" and s: "session_ok (tabs w) s" using I i by (auto simp: sessions_ok_def)
  from beside_same_rows [OF R] beside session_ok_held [OF s l] show ?thesis by blast
qed simp_all

lemma lock_step_ok:
  assumes I: "sessions_ok (w, S)" and st: "lock_step (w, S) (w', S')"
  shows "sessions_ok (w', S')"
proof -
  have kept: "session_ok (tabs w') s" if "S i = Some s" "S' i \<noteq> None" for i s
  proof -
    have s: "session_ok (tabs w) s" using I that by (simp add: sessions_ok_def)
    have "lockable (tabs w') l" if "l \<in> set (ss_held s)" for l
      using same_rows_lockable [OF lock_step_same_rows [OF I st \<open>S i = Some s\<close> \<open>S' i \<noteq> None\<close> that]]
        session_ok_held [OF s that] by simp
    with s show ?thesis by (simp add: session_ok_def)
  qed
  have fin: "finite (dom S)" and dis: "disjoint_locks S" and R: "reachable w"
    and ok: "\<And>i s. S i = Some s \<Longrightarrow> session_ok (tabs w) s"
    using I by (simp_all add: sessions_ok_def)
  show ?thesis
    using st
  proof (cases rule: lock_stepE)
    case (start i txn claim)
    have "disjoint_locks S'"
      unfolding start by (rule disjoint_locks_upd [OF dis]) (simp add: new_session_def)
    with start fin R ok show ?thesis by (auto simp: sessions_ok_def new_session_ok)
  next
    case (lock i s)
    have "set (ss_held (after_lock (tabs w) s)) \<inter> set (ss_held t) = {}" if "j \<noteq> i" "S j = Some t" for j t
    proof -
      have "set (ss_held s) \<inter> set (ss_held t) = {}"
        using dis lock that unfolding disjoint_locks_def by metis
      moreover have "set (take 1 (ss_todo s)) \<inter> set (ss_held t) = {}"
        using lock that by (cases "ss_todo s") (auto simp: waits_for_def)
      ultimately show ?thesis using after_lock_held by fastforce
    qed
    from disjoint_locks_upd [OF dis this] lock fin R ok after_lock_ok show ?thesis
      by (auto simp: sessions_ok_def)
  next
    case (finish i s env r)
    have "amounts_in_range (ss_txn s)" using ok [OF finish(2)] by (simp add: session_ok_def)
    with finish R have "reachable w'" by (blast intro: reachable.step db_step.post)
    with finish fin dis kept show ?thesis
      by (auto simp: sessions_ok_def disjoint_locks_del)
  next
    case (rollback i s)
    with fin dis R ok show ?thesis by (auto simp: sessions_ok_def disjoint_locks_del)
  next
    case beside
    with R have "reachable w'" by (blast intro: reachable.step)
    with beside fin dis kept show ?thesis by (auto simp: sessions_ok_def)
  qed
qed

lemma concurrent_ok: "concurrent x \<Longrightarrow> sessions_ok x"
proof (induction rule: concurrent.induct)
  case (idle w)
  then show ?case by (simp add: sessions_ok_def disjoint_locks_def)
next
  case (step x y)
  then show ?case by (metis lock_step_ok prod.collapse)
qed

section \<open>No circle of waiting\<close>

lemma waits_for_less:
  assumes "sessions_ok (w, S)" "waits_for S i j" "S j = Some t" "ss_todo t = m # ms"
  shows "\<exists>s l ls. S i = Some s \<and> ss_todo s = l # ls \<and> l < m"
proof -
  obtain s l ls where s: "S i = Some s" "ss_todo s = l # ls" and l: "l \<in> set (ss_held t)"
    using assms(2,3) by (auto simp: waits_for_def)
  have "sorted_wrt (<) (ss_held t @ ss_todo t)"
    using assms(1,3) by (simp add: sessions_ok_def session_ok_def)
  with l assms(4) have "l < m" by (simp add: sorted_wrt_append)
  with s show ?thesis by blast
qed

lemma waits_for_path_less:
  assumes "(waits_for S)\<^sup>+\<^sup>+ i j" "sessions_ok (w, S)" "S j = Some t" "ss_todo t = m # ms"
  shows "\<exists>s l ls. S i = Some s \<and> ss_todo s = l # ls \<and> l < m"
  using assms
proof (induction arbitrary: t m ms rule: tranclp.induct)
  case (r_into_trancl i j)
  then show ?case using waits_for_less by blast
next
  case (trancl_into_trancl i j k)
  obtain s l ls where s: "S j = Some s" "ss_todo s = l # ls" "l < m"
    using waits_for_less trancl_into_trancl by blast
  with trancl_into_trancl.IH [OF trancl_into_trancl.prems(1) s(1,2)] show ?case
    using order.strict_trans by blast
qed

lemma waits_forD: "waits_for S i j \<Longrightarrow> i \<in> dom S \<and> j \<in> dom S"
  by (auto simp: waits_for_def)

lemma waits_for_acyclic:
  assumes "sessions_ok (w, S)"
  shows "\<not> (waits_for S)\<^sup>+\<^sup>+ i i"
proof
  assume c: "(waits_for S)\<^sup>+\<^sup>+ i i"
  then obtain k where "waits_for S i k" by (meson tranclpD)
  then obtain s l ls where s: "S i = Some s" "ss_todo s = l # ls" by (auto simp: waits_for_def)
  from waits_for_path_less [OF c assms s] s show False by auto
qed

lemma waits_for_end:
  assumes I: "sessions_ok (w, S)" and ne: "S \<noteq> Map.empty"
  shows "\<exists>i \<in> dom S. \<forall>j. \<not> waits_for S i j"
proof -
  let ?R = "{(i, j). waits_for S i j}"
  have "acyclic ?R" using waits_for_acyclic [OF I] by (simp add: acyclic_def trancl_def)
  moreover have "?R \<subseteq> dom S \<times> dom S" using waits_forD by auto
  then have "finite ?R" using I by (auto simp: sessions_ok_def intro: finite_subset)
  ultimately have "wf (?R\<inverse>)" by (rule finite_acyclic_wf_converse [rotated])
  moreover obtain i where "i \<in> dom S" using ne by fastforce
  ultimately obtain k where "k \<in> dom S" "\<forall>j. (j, k) \<in> ?R\<inverse> \<longrightarrow> j \<notin> dom S"
    by (metis wfE_min)
  then show ?thesis using waits_forD by blast
qed

text \<open>Two transfers of the two users to each other, started at once.\<close>

definition cross_transfer :: "int64 \<Rightarrow> int64 \<Rightarrow> transaction" where
  "cross_transfer a b =
     \<lparr> txn_ID = nil_uuid, txn_Type = TxnTransfer, txn_Status = TxnPosted, txn_Description = ''x'',
       txn_InitiatedBy = Some 1, txn_ReversesID = None,
       txn_Entries = [\<lparr> ent_AccountID = a, ent_Direction = DirectionDebit, ent_Amount = 10 \<rparr>,
                      \<lparr> ent_AccountID = b, ent_Direction = DirectionCredit, ent_Amount = 10 \<rparr>],
       txn_CreatedAt = 0 \<rparr>"

definition cross_claim :: "int64 \<Rightarrow> idempotency_claim" where
  "cross_claim u = \<lparr> clm_UserID = u, clm_Key = ''k'', clm_Endpoint = ''transfer'', clm_RequestHash = ''h'' \<rparr>"

definition crossing :: "int64 \<Rightarrow> int64 \<Rightarrow> int64 \<Rightarrow> session" where
  "crossing u a b = new_session (cross_transfer a b) (cross_claim u)"

abbreviation after_locks :: "nat \<Rightarrow> session \<Rightarrow> session" where
  "after_locks n s \<equiv> (after_lock (tabs demo_two) ^^ n) s"

lemma concurrent_lock:
  "\<lbrakk>concurrent (w, S); S i = Some s; \<forall>j. \<not> waits_for S i j; S' = S(i \<mapsto> after_lock (tabs w) s)\<rbrakk>
   \<Longrightarrow> concurrent (w, S')"
  by (auto intro: concurrent.step lock_step.lock)

lemma crossing_lockable:
  "lockable (tabs demo_two) (KeyLock u k)" "lockable (tabs demo_two) (AccountLock 11)"
  "lockable (tabs demo_two) (AccountLock 12)"
  by (simp_all add: demo_two_def demo_registered_def migrated_tables_def new_wallet_row_def)

lemma crossing_todo:
  "ss_held (crossing u a b) = []"
  "ss_todo (crossing 1 11 12) = [KeyLock 1 ''k'', AccountLock 11, AccountLock 12]"
  "ss_todo (crossing 2 12 11) = [KeyLock 2 ''k'', AccountLock 11, AccountLock 12]"
  by (simp_all add: post_locks_def crossing_def new_session_def cross_transfer_def cross_claim_def
      Transaction_AccountIDs_def)

definition first_at :: "nat \<Rightarrow> session" where
  "first_at n = after_locks n (crossing 1 11 12)"

definition second_at :: "nat \<Rightarrow> session" where
  "second_at n = after_locks n (crossing 2 12 11)"

definition crossed :: "nat \<Rightarrow> nat \<Rightarrow> sessions" where
  "crossed m n = [2 \<mapsto> first_at m, 3 \<mapsto> second_at n]"

lemma crossed_locks:
  "ss_held (first_at 0) = []" "ss_todo (first_at 0) = [KeyLock 1 ''k'', AccountLock 11, AccountLock 12]"
  "ss_held (first_at 1) = [KeyLock 1 ''k'']" "ss_todo (first_at 1) = [AccountLock 11, AccountLock 12]"
  "ss_held (first_at 2) = [KeyLock 1 ''k'', AccountLock 11]" "ss_todo (first_at 2) = [AccountLock 12]"
  "ss_held (first_at 3) = [KeyLock 1 ''k'', AccountLock 11, AccountLock 12]" "ss_todo (first_at 3) = []"
  "ss_held (second_at 0) = []" "ss_todo (second_at 0) = [KeyLock 2 ''k'', AccountLock 11, AccountLock 12]"
  "ss_held (second_at 1) = [KeyLock 2 ''k'']" "ss_todo (second_at 1) = [AccountLock 11, AccountLock 12]"
  by (simp_all add: first_at_def second_at_def numeral_3_eq_3 numeral_2_eq_2 after_lock_def crossing_todo
      crossing_lockable del: lockable.simps)

lemma crossed_lock:
  "\<lbrakk>concurrent (demo_two, crossed m n); \<forall>j. \<not> waits_for (crossed m n) 2 j\<rbrakk>
   \<Longrightarrow> concurrent (demo_two, crossed (Suc m) n)"
  "\<lbrakk>concurrent (demo_two, crossed m n); \<forall>j. \<not> waits_for (crossed m n) 3 j\<rbrakk>
   \<Longrightarrow> concurrent (demo_two, crossed m (Suc n))"
proof -
  assume c: "concurrent (demo_two, crossed m n)"
  show "concurrent (demo_two, crossed (Suc m) n)" if "\<forall>j. \<not> waits_for (crossed m n) 2 j"
    by (rule concurrent_lock [OF c _ that]) (auto simp: crossed_def first_at_def)
  show "concurrent (demo_two, crossed m (Suc n))" if "\<forall>j. \<not> waits_for (crossed m n) 3 j"
    by (rule concurrent_lock [OF c _ that]) (auto simp: crossed_def second_at_def)
qed

lemma waits_for_crossed:
  "waits_for (crossed m n) i j \<longleftrightarrow>
     i = 2 \<and> j = 3 \<and> (\<exists>l ls. ss_todo (first_at m) = l # ls \<and> l \<in> set (ss_held (second_at n)))
     \<or> i = 3 \<and> j = 2 \<and> (\<exists>l ls. ss_todo (second_at n) = l # ls \<and> l \<in> set (ss_held (first_at m)))"
  by (auto simp: waits_for_def crossed_def split: if_splits)

lemma crossed_concurrent: "concurrent (demo_two, crossed 3 1)"
proof -
  have typed: "amounts_in_range (cross_transfer a b)" for a b
    by (simp add: amounts_in_range_def cross_transfer_def in_int64_def)
  have "concurrent (demo_two, Map.empty)" by (rule concurrent.idle [OF demo_two_reachable])
  from concurrent.step [OF this lock_step.start [of _ 2, OF _ typed]]
  have "concurrent (demo_two, [2 \<mapsto> crossing 1 11 12])" by (simp add: crossing_def)
  from concurrent.step [OF this lock_step.start [of _ 3, OF _ typed]]
  have "concurrent (demo_two, crossed 0 0)"
    by (simp add: crossing_def crossed_def first_at_def second_at_def)
  from crossed_lock(2) [OF this] have "concurrent (demo_two, crossed 0 1)"
    by (simp add: waits_for_crossed crossed_locks)
  from crossed_lock(1) [OF this] have "concurrent (demo_two, crossed 1 1)"
    using crossed_locks by (simp add: waits_for_crossed)
  from crossed_lock(1) [OF this] have "concurrent (demo_two, crossed 2 1)"
    using crossed_locks by (simp add: waits_for_crossed numeral_2_eq_2)
  from crossed_lock(1) [OF this] show ?thesis
    using crossed_locks by (simp add: waits_for_crossed numeral_3_eq_3 numeral_2_eq_2)
qed

lemma crossed_waits: "waits_for (crossed 3 1) 3 2"
  using crossed_locks by (simp add: waits_for_crossed)

text \<open>
  C6 liveness. Postings never deadlock, however many run at once, in whatever order they
  reach their locks, and whatever else the system does meanwhile: no posting waits, directly or
  through others, for itself, and while any are under way some posting waits for nobody.
  Transfers that cross each other queue.
\<close>

theorem no_deadlock:
  assumes "concurrent (w, S)"
  shows "\<not> (waits_for S)\<^sup>+\<^sup>+ i i
    \<and> (S = Map.empty \<or> (\<exists>i \<in> dom S. \<forall>j. \<not> waits_for S i j))"
  using waits_for_acyclic waits_for_end concurrent_ok [OF assms] by blast

theorem no_deadlock_witness:
  "waits_for (crossed 3 1) 3 2 \<and> \<not> (waits_for (crossed 3 1))\<^sup>+\<^sup>+ 3 3
   \<and> (crossed 3 1 = Map.empty \<or> (\<exists>i \<in> dom (crossed 3 1). \<forall>j. \<not> waits_for (crossed 3 1) i j))"
  using crossed_waits no_deadlock [OF crossed_concurrent] by blast

section \<open>What is locked holds\<close>

lemma post_accepts_locked:
  assumes A: "post_accepts env tid eid txn claim T"
    and S: "\<forall>l \<in> set (post_locks txn claim). same_rows T T' l"
    and U: "usr_ID ` set (users T) \<subseteq> usr_ID ` set (users T')"
    and F: "tid \<notin> tr_id ` set (transactions T')" "eid \<notin> ob_event_id ` set (outbox_events T')"
  shows "post_accepts env tid eid txn claim T'"
proof -
  have "claim_free T' claim"
  proof -
    have "lockable T (KeyLock (clm_UserID claim) (clm_Key claim))"
      using A by (simp add: post_accepts_def claim_free_def)
    moreover have "same_rows T T' (KeyLock (clm_UserID claim) (clm_Key claim))"
      using S by (simp add: set_post_locks del: same_rows.simps)
    ultimately have "lockable T' (KeyLock (clm_UserID claim) (clm_Key claim))"
      using same_rows_lockable by blast
    then show ?thesis by (simp add: claim_free_def)
  qed
  moreover have "entry_accepts (accounts T') e" if e: "e \<in> set (txn_Entries txn)" for e
  proof -
    have same: "same_rows T T' (AccountLock (ent_AccountID e))"
      using S e by (simp add: set_post_locks del: same_rows.simps)
    have "entry_accepts (accounts T) e" using A e by (simp add: post_accepts_def)
    then obtain a where a: "a \<in> set (accounts T)" "acc_ID a = ent_AccountID e" and
      ok: "acc_Status a = AccountActive" "in_int64 (acc_Balance a + entry_delta e (acc_NormalBalance a))"
        "in_int64 (acc_Version a + 1)"
        "acc_Type a = AccountUserWallet \<longrightarrow> 0 \<le> acc_Balance a + entry_delta e (acc_NormalBalance a)"
      unfolding entry_accepts_def by blast
    have "a \<in> set (accounts T')"
      using a same filter_eq_mem [of "\<lambda>a. acc_ID a = ent_AccountID e" "accounts T'" "accounts T" a] by simp
    with a ok show ?thesis unfolding entry_accepts_def by blast
  qed
  moreover have "reversal_accepts (transactions T') (txn_ReversesID txn)"
  proof (cases "txn_ReversesID txn")
    case None
    then show ?thesis by (simp add: reversal_accepts_def)
  next
    case (Some i)
    then have "lockable T (TxnLock i)" "lockable T (ReversalLock i)"
      using A by (auto simp: post_accepts_def reversal_accepts_def image_iff)
    moreover have "same_rows T T' (TxnLock i)" "same_rows T T' (ReversalLock i)"
      using S Some by (simp_all add: set_post_locks del: same_rows.simps)
    ultimately have "lockable T' (TxnLock i)" "lockable T' (ReversalLock i)"
      using same_rows_lockable by blast+
    then show ?thesis using Some by (auto simp: reversal_accepts_def image_iff)
  qed
  moreover have "pred_option (\<lambda>u. u \<in> usr_ID ` set (users T')) (txn_InitiatedBy txn)"
    "clm_UserID claim \<in> usr_ID ` set (users T')"
    using A U by (auto simp: post_accepts_def pred_option_def)
  ultimately show ?thesis using A F by (simp add: post_accepts_def)
qed

text \<open>The steps that leave session \<open>i\<close> in place.\<close>

definition alongside :: "nat \<Rightarrow> pg \<times> sessions \<Rightarrow> pg \<times> sessions \<Rightarrow> bool" where
  "alongside i x y \<longleftrightarrow> lock_step x y \<and> snd y i \<noteq> None"

lemma db_step_users:
  assumes "reachable w" "db_step w w'"
  shows "usr_ID ` set (users (tabs w)) \<subseteq> usr_ID ` set (users (tabs w'))"
  using db_step_effect [OF assms(2) reachable_inv [OF assms(1)]]
  by (auto simp: quiet_def posts_def posted_tables_def Let_def)

lemma lock_step_db:
  assumes "sessions_ok (w, S)" "lock_step (w, S) (w', S')"
  shows "w' = w \<or> db_step w w'"
  using assms(2)
proof (cases rule: lock_stepE)
  case (finish i s env r)
  with assms(1) have "amounts_in_range (ss_txn s)" by (auto simp: sessions_ok_def session_ok_def)
  with finish show ?thesis by (blast intro: db_step.post)
qed simp_all

lemma done_stays:
  assumes "lock_step (w, S) (w', S')" "S i = Some s" "ss_todo s = []" "S' i \<noteq> None"
  shows "S' i = Some s"
  using assms by (cases rule: lock_stepE) (auto simp: after_lock_def split: if_splits)

lemma alongside_run:
  assumes "(alongside i)\<^sup>*\<^sup>* x y" "concurrent x" "snd x i = Some s" "ss_todo s = []"
  shows "concurrent y \<and> snd y i = Some s
    \<and> usr_ID ` set (users (tabs (fst x))) \<subseteq> usr_ID ` set (users (tabs (fst y)))
    \<and> (\<forall>l \<in> set (ss_held s). same_rows (tabs (fst x)) (tabs (fst y)) l)"
  using assms
proof (induction rule: rtranclp_induct)
  case base
  then show ?case by simp
next
  case (step y z)
  obtain w S w' S' where yz: "y = (w, S)" "z = (w', S')" by fastforce
  have st: "lock_step (w, S) (w', S')" "S' i \<noteq> None" using step.hyps(2) yz by (auto simp: alongside_def)
  have IH: "concurrent (w, S)" "S i = Some s" using step yz by auto
  note ok = concurrent_ok [OF IH(1)]
  have "usr_ID ` set (users (tabs w)) \<subseteq> usr_ID ` set (users (tabs w'))"
    using lock_step_db [OF ok st(1)] db_step_users [of w w'] ok unfolding sessions_ok_def by fastforce
  moreover have "\<forall>l \<in> set (ss_held s). same_rows (tabs w) (tabs w') l"
    using lock_step_same_rows [OF ok st(1) IH(2) st(2)] by blast
  moreover have "S' i = Some s" using done_stays [OF st(1) IH(2)] step.prems st(2) by simp
  moreover have "concurrent (w', S')" using concurrent.step IH(1) st(1) by blast
  ultimately show ?case using step.IH [OF step.prems] yz by (auto 0 3 intro: same_rows_trans dest: subsetD)
qed

text \<open>
  C7 safety. A posting that holds its locks is decided: whatever the other postings and the
  rest of the system commit until it ends, the accounts it read stay as they are, and if the
  ledger accepted it at the moment it had its last lock, the ledger accepts it still when it
  commits, the UUIDs the database draws being new. So its statements run as if alone.
\<close>

theorem posting_isolated:
  assumes "concurrent (w, S)" "S i = Some s" "ss_todo s = []" "ss_alive s"
    and "(alongside i)\<^sup>*\<^sup>* (w, S) (w', S')"
    and "post_accepts env tid eid (ss_txn s) (ss_claim s) (tabs w)"
    and "tid \<notin> tr_id ` set (transactions (tabs w'))"
    and "eid \<notin> ob_event_id ` set (outbox_events (tabs w'))"
  shows "post_accepts env tid eid (ss_txn s) (ss_claim s) (tabs w')
    \<and> (\<forall>e \<in> set (txn_Entries (ss_txn s)).
         filter (\<lambda>a. acc_ID a = ent_AccountID e) (accounts (tabs w'))
           = filter (\<lambda>a. acc_ID a = ent_AccountID e) (accounts (tabs w)))"
proof -
  have "session_ok (tabs w) s" using concurrent_ok [OF assms(1)] assms(2) by (simp add: sessions_ok_def)
  from session_ok_done [OF this assms(4,3)]
  have held: "set (ss_held s) = set (post_locks (ss_txn s) (ss_claim s))" by simp
  note run = alongside_run [OF assms(5,1), simplified, OF assms(2,3), unfolded held]
  from post_accepts_locked [OF assms(6) _ _ assms(7,8)] run
  have "post_accepts env tid eid (ss_txn s) (ss_claim s) (tabs w')" by blast
  moreover have "same_rows (tabs w) (tabs w') (AccountLock (ent_AccountID e))"
    if "e \<in> set (txn_Entries (ss_txn s))" for e
    using run that by (auto simp: set_post_locks simp del: same_rows.simps)
  ultimately show ?thesis by simp
qed

text \<open>While a topup holds its locks, a third user registers.\<close>

definition topup_at :: "nat \<Rightarrow> session" where
  "topup_at n = after_locks n (new_session demo_topup demo_claim)"

lemma topup_at_simps:
  "ss_txn (topup_at 3) = demo_topup" "ss_claim (topup_at 3) = demo_claim"
  "ss_todo (topup_at 3) = []" "ss_alive (topup_at 3)"
proof -
  have "post_locks demo_topup demo_claim = [KeyLock 1 ''k1'', AccountLock 1, AccountLock 11]"
    by (simp add: post_locks_def demo_topup_def demo_claim_def NewTopup_def Transaction_AccountIDs_def)
  moreover have "lockable (tabs demo_two) (AccountLock 1)"
    by (simp add: demo_two_def demo_registered_def migrated_tables_def system_row_def)
  ultimately show "ss_txn (topup_at 3) = demo_topup" "ss_claim (topup_at 3) = demo_claim"
    "ss_todo (topup_at 3) = []" "ss_alive (topup_at 3)"
    by (simp_all add: topup_at_def new_session_def numeral_3_eq_3 after_lock_def crossing_lockable
        del: lockable.simps)
qed

lemma topup_concurrent: "concurrent (demo_two, [2 \<mapsto> topup_at 3])"
proof -
  have st: "concurrent (demo_two, [2 \<mapsto> topup_at (Suc n)])" if "concurrent (demo_two, [2 \<mapsto> topup_at n])" for n
    by (rule concurrent_lock [OF that, where i = 2]) (auto simp: waits_for_def topup_at_def)
  have "concurrent (demo_two, [2 \<mapsto> topup_at 0])"
    using concurrent.step [OF concurrent.idle [OF demo_two_reachable] lock_step.start [of _ 2, OF _ demo_typed]]
    by (simp add: topup_at_def)
  from st [OF st [OF st [OF this]]] show ?thesis by (simp add: numeral_3_eq_3)
qed

definition demo_user3 :: user where
  "demo_user3 = demo_user\<lparr>usr_Email := ''c@d.id'', usr_FullName := ''Citra''\<rparr>"

definition demo_three :: pg where
  "demo_three =
     \<lparr> tabs = (tabs demo_two)\<lparr>
         users := users (tabs demo_two) @ [new_user_row demo_env 3 109 demo_user3],
         accounts := accounts (tabs demo_two) @ [new_wallet_row demo_env 13 110 3]\<rparr>,
       seqs = migrated_seqs\<lparr>seq_users := 3, seq_accounts := 13\<rparr>, steps = 12 \<rparr>"

lemma demo_register3:
  "UserRepo_CreateWithWallet demo_env demo_user3 demo_two
     = (Inr (new_user_row demo_env 3 109 demo_user3, new_wallet_row demo_env 13 110 3), demo_three)"
  by (simp add: UserRepo_CreateWithWallet_def in_tx_def bindP_def wrapP_def scanUser_def
      scanAccount_def sql_insert_user_def sql_insert_wallet_def commit_def Let_def demo_two_def demo_three_def
      demo_registered_def migrated_tables_def migrated_seqs_def users_check_def new_user_row_def
      demo_user_def demo_user2_def demo_user3_def new_wallet_row_def demo_env_def char_length_def
      accounts_check_def check_normal_balance_def check_owner_def check_wallet_non_negative_def
      account_type_defs DirectionDebit_def DirectionCredit_def system_row_def no_faults_def)

lemma demo_two_takes_topup: "post_accepts demo_env tid eid demo_topup demo_claim (tabs demo_two)"
  by (simp add: post_accepts_def valid_transaction_def demo_topup_def NewTopup_def demo_claim_def
      well_formed_entries_def char_length_def claim_free_def demo_two_def demo_registered_def
      migrated_tables_def entry_accepts_def entry_delta_def system_row_def new_wallet_row_def
      new_user_row_def reversal_accepts_def transactions_check_def header_row_def new_txn_row_def
      enum_txn_type_def txn_type_defs in_int64_def AccountActive_def account_type_defs
      DirectionDebit_def DirectionCredit_def Direction_Valid_def side_total_def)

theorem posting_isolated_witness:
  "(alongside 2)\<^sup>*\<^sup>* (demo_two, [2 \<mapsto> topup_at 3]) (demo_three, [2 \<mapsto> topup_at 3])
   \<and> post_accepts demo_env 7 8 demo_topup demo_claim (tabs demo_three)"
proof -
  have "lock_step (demo_two, [2 \<mapsto> topup_at 3]) (demo_three, [2 \<mapsto> topup_at 3])"
    by (rule lock_step.beside [OF db_step.register [OF demo_register3]])
      (simp add: demo_three_def demo_two_def demo_registered_def)
  then have run: "(alongside 2)\<^sup>*\<^sup>* (demo_two, [2 \<mapsto> topup_at 3]) (demo_three, [2 \<mapsto> topup_at 3])"
    by (intro r_into_rtranclp) (simp add: alongside_def)
  have "transactions (tabs demo_three) = []" "outbox_events (tabs demo_three) = []"
    by (simp_all add: demo_three_def demo_two_def demo_registered_def migrated_tables_def)
  with posting_isolated [OF topup_concurrent _ _ _ run, of "topup_at 3" demo_env 7 8]
  show ?thesis using run by (simp add: topup_at_simps demo_two_takes_topup)
qed

end
