(* ===== verification/Telemetry.thy ===== *)
theory Telemetry
  imports Router Guarantees
begin

text \<open>
  internal/platform/metrics: the collectors as a record of counters, gauges and one histogram,
  with a label vector as a function of its labels, and what the API does to them: the callbacks
  of the router, \<open>ObserveHTTP\<close>, and the gauges of the drift job. Durations are whole
  nanoseconds and the bounds of the histogram are read as such. The text of the page
  /metrics is the Prometheus library's.
\<close>

section \<open>metrics.go\<close>

record histogram =
  hg_buckets :: "nat list"     \<comment> \<open>observations up to each bound\<close>
  hg_count :: nat
  hg_sum :: duration

definition duration_bounds :: "duration list" where
  "duration_bounds =
     map (\<lambda>ms. ms * 1000000) [5, 10, 25, 50, 100, 200, 300, 500, 1000, 2500, 5000]"

definition histogram_New :: histogram where
  "histogram_New = \<lparr> hg_buckets = map (\<lambda>b. 0) duration_bounds, hg_count = 0, hg_sum = 0 \<rparr>"

definition Observe :: "duration \<Rightarrow> histogram \<Rightarrow> histogram" where
  "Observe d h =
     h\<lparr>hg_buckets := map2 (\<lambda>b n. if d \<le> b then n + 1 else n) duration_bounds (hg_buckets h),
       hg_count := hg_count h + 1, hg_sum := hg_sum h + d\<rparr>"

record Metrics =
  mx_HTTPDuration :: "string \<times> string \<times> string \<Rightarrow> histogram"   \<comment> \<open>method, route, status\<close>
  mx_HTTPRequests :: "string \<times> string \<times> string \<Rightarrow> nat"
  mx_DBConnsInUse :: int
  mx_DBConnsMax :: int
  mx_Transactions :: "string \<times> string \<Rightarrow> nat"                   \<comment> \<open>type, status\<close>
  mx_BalanceDrift :: int
  mx_TrialBalance :: int
  mx_LoginFailures :: "string \<Rightarrow> nat"

definition metrics_New :: Metrics where
  "metrics_New =
     \<lparr> mx_HTTPDuration = (\<lambda>k. histogram_New), mx_HTTPRequests = (\<lambda>k. 0), mx_DBConnsInUse = 0,
       mx_DBConnsMax = 0, mx_Transactions = (\<lambda>k. 0), mx_BalanceDrift = 0, mx_TrialBalance = 0,
       mx_LoginFailures = (\<lambda>k. 0) \<rparr>"

definition Inc :: "('k \<Rightarrow> nat) \<Rightarrow> 'k \<Rightarrow> 'k \<Rightarrow> nat" where
  "Inc f k = f(k := f k + 1)"

definition ObserveHTTP :: "string \<Rightarrow> string \<Rightarrow> int64 \<Rightarrow> duration \<Rightarrow> Metrics \<Rightarrow> Metrics" where
  "ObserveHTTP method route status d m =
     (let k = (method, route, FormatInt status)
      in m\<lparr>mx_HTTPDuration := (mx_HTTPDuration m)(k := Observe d (mx_HTTPDuration m k)),
           mx_HTTPRequests := Inc (mx_HTTPRequests m) k\<rparr>)"

section \<open>What the router counts\<close>

definition onTxn :: "string \<Rightarrow> bool \<Rightarrow> Metrics \<Rightarrow> Metrics" where
  "onTxn t ok m =
     (let status = (if \<not> ok then ''failed'' else ''ok'')
      in m\<lparr>mx_Transactions := Inc (mx_Transactions m) (t, status)\<rparr>)"

text \<open>An event of the HTTP world, with the duration measured for it.\<close>

fun count_metric :: "metric \<times> duration \<Rightarrow> Metrics \<Rightarrow> Metrics" where
  "count_metric (LoginFailure reason, d) m = m\<lparr>mx_LoginFailures := Inc (mx_LoginFailures m) reason\<rparr>"
| "count_metric (TransactionCount t ok, d) m = onTxn t ok m"
| "count_metric (HTTPObserved method route status, d) m = ObserveHTTP method route status d m"

abbreviation counted :: "(metric \<times> duration) list \<Rightarrow> Metrics" where
  "counted evs \<equiv> fold count_metric evs metrics_New"

fun observed_at :: "string \<times> string \<times> string \<Rightarrow> metric \<times> duration \<Rightarrow> bool" where
  "observed_at k (HTTPObserved method route status, d) \<longleftrightarrow> k = (method, route, FormatInt status)"
| "observed_at k e \<longleftrightarrow> False"

lemma length_duration_bounds: "length duration_bounds = 11"
  by (simp add: duration_bounds_def)

text \<open>The counter and the histogram of a label vector count the same requests.\<close>

lemma counted_requests:
  "mx_HTTPRequests (counted evs) k = length (filter (observed_at k) evs)
   \<and> hg_count (mx_HTTPDuration (counted evs) k) = length (filter (observed_at k) evs)"
proof (induction evs rule: rev_induct)
  case Nil
  then show ?case by (simp add: metrics_New_def histogram_New_def)
next
  case (snoc e evs)
  obtain x d where e: "e = (x, d)" by fastforce
  with snoc show ?case
    by (cases x) (auto simp: ObserveHTTP_def onTxn_def Inc_def Observe_def Let_def)
qed

lemma map2_map_same: "map2 f xs (map g xs) = map (\<lambda>x. f x (g x)) xs"
  by (induction xs) simp_all

lemma counted_buckets:
  "hg_buckets (mx_HTTPDuration (counted evs) k)
     = map (\<lambda>b. length (filter (\<lambda>e. observed_at k e \<and> snd e \<le> b) evs)) duration_bounds"
proof (induction evs rule: rev_induct)
  case Nil
  then show ?case by (simp add: metrics_New_def histogram_New_def)
next
  case (snoc e evs)
  obtain x d where e: "e = (x, d)" by fastforce
  show ?case
  proof (cases "observed_at k e")
    case True
    then obtain meth rt status where x: "x = HTTPObserved meth rt status"
      "k = (meth, rt, FormatInt status)" using e by (cases x) auto
    have "mx_HTTPDuration (counted (evs @ [e])) k = Observe d (mx_HTTPDuration (counted evs) k)"
      using e x by (simp add: ObserveHTTP_def Let_def)
    then show ?thesis using snoc True e by (simp add: Observe_def map2_map_same)
  next
    case False
    have "mx_HTTPDuration (counted (evs @ [e])) k = mx_HTTPDuration (counted evs) k"
      using False e by (cases x) (auto simp: ObserveHTTP_def onTxn_def Let_def)
    then show ?thesis using snoc False by simp
  qed
qed

section \<open>The gauges of the drift job\<close>

definition drift_metrics :: "gauges \<Rightarrow> int \<Rightarrow> Metrics \<Rightarrow> Metrics" where
  "drift_metrics g inUse m =
     m\<lparr>mx_BalanceDrift := g_drift g, mx_TrialBalance := g_trial g, mx_DBConnsInUse := inUse\<rparr>"

text \<open>
  The two gauges that must always be zero are, and the alarm of the job is never raised.
\<close>

lemma gauges_stay_zero:
  assumes "reachable w" "drift_job env w = (Inr g, w')"
  shows "g = \<lparr> g_drift = 0, g_trial = 0, g_alarm = False \<rparr> \<and> reachable w'"
proof -
  obtain d w1 tb where D: "LedgerRepo_BalanceDrift env w = (Inr d, w1)"
    and T: "LedgerRepo_TrialBalance env w1 = (Inr tb, w')"
    and g: "g = \<lparr> g_drift = d, g_trial = tb_Difference tb, g_alarm = (d \<noteq> 0 \<or> tb_Difference tb \<noteq> 0) \<rparr>"
    using assms(2) by (auto simp: drift_job_def bindP_Inr_iff)
  have d: "d = 0" "tabs w1 = tabs w" "seqs w1 = seqs w" using BalanceDrift_reachable [OF assms(1) D] by simp_all
  have r: "reachable w1" using d by (blast intro: reachable.step [OF assms(1)] db_step.read)
  have t: "tb_Difference tb = 0" "tabs w' = tabs w1" "seqs w' = seqs w1"
    using TrialBalance_reachable [OF r T] by simp_all
  then have "reachable w'" by (blast intro: reachable.step [OF r] db_step.read)
  with d t g show ?thesis by simp
qed

section \<open>Stopping\<close>

text \<open>A stopped API answers that it is not ready, whatever the database says.\<close>

lemma stopping_not_ready:
  assumes "api_serve CtxDone down cfg ready = (r, ready')"
  shows "readyz d c cx rq (Readiness_Set ready' w) =
    (Responds (http_Error ''shutting down'' 503), Readiness_Set ready' w)"
  using assms by (auto simp: api_serve_def Serve_def readyz_def Readiness_IsReady_def Readiness_Set_def reply_def
      split: option.splits)

end
