(* ===== verification/Process.thy ===== *)
theory Process
  imports Telemetry
begin

text \<open>
  The processes of cmd/api and cmd/worker from their start to their exit: what each opens and
  when it is closed, the goroutines it starts, what ends it - also a panic in one of these,
  which ends the process without its deferred calls - and its exit code. The listener of pprof
  belongs to its own goroutine and is not followed.
\<close>

section \<open>Resources and deferred calls\<close>

datatype resource =
    SignalHandler | MigrationDB | DBPool | RedisClient | Listener | BrokerConnection | RelayChannel | ConsumerChannel

datatype goroutine = PeriodicCheck | PprofServer | RelayLoop | AuditConsumer

datatype lifecycle = Open resource | Close resource | Go goroutine

text \<open>
  The state of a process is its own state and its history. \<open>noting\<close> runs a step on whose way
  \<open>us\<close> happens. \<open>acquiring\<close> runs a step that opens the resources
  \<open>rs\<close>, and the rest of the function under its deferred \<open>Close\<close>; a step that fails after opening
  them closes them itself, unless it \<open>leaks\<close> them.
\<close>

type_synonym ('s, 'a) process = "('s \<times> lifecycle list, 'a) prog"

definition noting :: "lifecycle list \<Rightarrow> ('s, 'a) prog \<Rightarrow> ('s, 'a) process" where
  "noting us m = (\<lambda>(s, t). case m s of (r, s') \<Rightarrow> (r, (s', t @ us)))"

abbreviation plain :: "('s, 'a) prog \<Rightarrow> ('s, 'a) process" where
  "plain \<equiv> noting []"

definition acquiring ::
    "resource list \<Rightarrow> bool \<Rightarrow> bool \<Rightarrow> ('s, 'a) prog \<Rightarrow> ('a \<Rightarrow> ('s, 'b) process) \<Rightarrow> ('s, 'b) process" where
  "acquiring rs opened leaks step rest = (\<lambda>(s, t).
     case step s of
       (Inl e, s') \<Rightarrow> (Inl e, (s', t @ (if opened then map Open rs @ (if leaks then [] else map Close rs) else [])))
     | (Inr x, s') \<Rightarrow> (case rest x (s', t @ map Open rs) of (r, (s'', t')) \<Rightarrow> (r, (s'', t' @ map Close rs))))"

definition on_fst :: "('s, 'a) prog \<Rightarrow> ('s \<times> 't, 'a) prog" where
  "on_fst m = (\<lambda>(s, t). case m s of (r, s') \<Rightarrow> (r, (s', t)))"

definition on_snd :: "('t, 'a) prog \<Rightarrow> ('s \<times> 't, 'a) prog" where
  "on_snd m = (\<lambda>(s, t). case m t of (r, t') \<Rightarrow> (r, (s, t')))"

section \<open>Opening the database\<close>

text \<open>What dbmigrate.go and pool.go ask of their libraries, for both processes.\<close>

record db_machine =
  dm_migrator :: migrator
  dm_ParseConfig :: "string \<Rightarrow> pool_config result"
  dm_NewWithConfig :: "pool_config \<Rightarrow> unit result"
  dm_Ping :: "unit \<Rightarrow> duration \<Rightarrow> err option"

definition dm_pool :: "db_machine \<Rightarrow> string \<Rightarrow> unit result" where
  "dm_pool d = NewPool (dm_ParseConfig d) (dm_NewWithConfig d) (dm_Ping d)"

text \<open>\<open>NewPool\<close> has a pool to close when only the ping fails.\<close>

definition pool_opened :: "db_machine \<Rightarrow> string \<Rightarrow> bool" where
  "pool_opened d dsn \<longleftrightarrow> error_of (NewPool (dm_ParseConfig d) (dm_NewWithConfig d) (\<lambda>p t. None) dsn) = None"

definition migration_life :: "db_machine \<Rightarrow> string \<Rightarrow> lifecycle list" where
  "migration_life d dsn =
     (if mg_source (dm_migrator d) = None \<and> mg_open (dm_migrator d) dsn = None
      then [Open MigrationDB, Close MigrationDB] else [])"

section \<open>cmd/api\<close>

text \<open>
  \<open>run\<close> of cmd/api/main.go, on \<open>boot\<close> and the readiness flag. The listener is closed by the
  server: \<open>Serve\<close> of net/http closes it when it returns, \<open>Shutdown\<close> before it waits.
\<close>

definition api_goroutines :: "Config \<Rightarrow> lifecycle list" where
  "api_goroutines cfg = Go PeriodicCheck # (if pprof_address cfg = None then [] else [Go PprofServer])"

definition api_outside :: "db_machine \<Rightarrow> 'o outside \<Rightarrow> 'o outside" where
  "api_outside d out = out\<lparr>os_migrate := dbmigrate_Up (dm_migrator d), os_pool := dm_pool d\<rparr>"

definition redis_client :: "Config \<Rightarrow> resource list" where
  "redis_client cfg = (if cf_RedisURL cfg = '''' then [] else [RedisClient])"

definition api_life ::
    "env \<Rightarrow> db_machine \<Rightarrow> 'o outside \<Rightarrow> pg password_hasher \<Rightarrow> (JWT \<Rightarrow> pg access_token_issuer)
     \<Rightarrow> serve_event \<Rightarrow> err option \<Rightarrow> (boot \<times> bool, unit) process" where
  "api_life env d out hasher issuer event down =
     (case Config_Load (os_parse out) of
        Inl err \<Rightarrow> failP err
      | Inr cfg \<Rightarrow>
          acquiring [SignalHandler] False False (retP ()) (\<lambda>_.
          bindP (noting (if cf_RunMigrations cfg then migration_life d (Config_MigrationURL cfg) else [])
                   (on_fst (migrate_step (api_outside d out) cfg))) (\<lambda>_.
          acquiring [DBPool] (pool_opened d (cf_DatabaseURL cfg)) False
            (on_fst (act (Connected (cf_DatabaseURL cfg)) id (error_of (dm_pool d (cf_DatabaseURL cfg))))) (\<lambda>_.
          acquiring (redis_client cfg) (error_of (newLimiters (os_redis_parse out) (\<lambda>o1. None) cfg) = None) False
            (liftR (newLimiters (os_redis_parse out) (os_redis_ping out) cfg)) (\<lambda>limiters.
          bindP (plain (liftR (NewJWT (cf_JWTSecret cfg) (cf_AccessTokenTTL cfg)))) (\<lambda>jwt.
          bindP (plain (on_fst (in_boot (NewLedger (pg_ledger_store env) (pg_account_store env)
                   (pg_idempotency_store env) (ledger_config_of cfg))))) (\<lambda>ledger.
          bindP (plain (on_fst (in_boot (NewAuth (pg_users env) (pg_tokens env) hasher (issuer jwt)
                   (cf_RefreshTokenTTL cfg))))) (\<lambda>auth.
          acquiring [Listener] False False
            (on_fst (act (Listening (cf_Addr cfg)) (Wrapf ''listen %s: %w'' [AStr (cf_Addr cfg)])
                   (os_listen out (cf_Addr cfg)))) (\<lambda>_.
          noting (api_goroutines cfg) (on_snd (api_serve event down cfg)))))))))))"

text \<open>The settings of the two servers, and the routes of the internal one.\<close>

record server_limits =
  sv_ReadHeaderTimeout :: duration
  sv_ReadTimeout :: duration
  sv_WriteTimeout :: duration
  sv_IdleTimeout :: duration

definition api_server :: server_limits where
  "api_server =
     \<lparr> sv_ReadHeaderTimeout = 5 * second, sv_ReadTimeout = 15 * second, sv_WriteTimeout = 30 * second,
       sv_IdleTimeout = 60 * second \<rparr>"

definition pprof_routes :: "string list" where
  "pprof_routes = [''/debug/pprof/'', ''/debug/pprof/cmdline'', ''/debug/pprof/profile'', ''/debug/pprof/symbol'',
     ''/debug/pprof/trace'']"

section \<open>cmd/worker\<close>

text \<open>
  The worker waits until the context ends or the consumer sends an error. A consumer that
  returns without one, as it does when its channel closes, sends nothing. The relay's ticker
  panics on an interval that is not positive.
\<close>

datatype worker_event = WorkerEnds worker_end | ConsumerReturned

definition consumer_done :: "err + 'a \<Rightarrow> worker_event" where
  "consumer_done r = (case r of Inl err \<Rightarrow> WorkerEnds (ConsumerFailed err) | Inr _ \<Rightarrow> ConsumerReturned)"

fun worker_select :: "worker_event list \<Rightarrow> worker_end option" where
  "worker_select [] = None"
| "worker_select (WorkerEnds e # es) = Some e"
| "worker_select (ConsumerReturned # es) = worker_select es"

definition Relay_Start :: "duration \<Rightarrow> poll_round list \<Rightarrow> relay_world \<Rightarrow> relay_world option" where
  "Relay_Start interval rs rw = (if interval \<le> 0 then None else Some (Relay_Run rs rw))"

definition worker_machine :: "db_machine \<Rightarrow> worker_outside \<Rightarrow> worker_outside" where
  "worker_machine d out = out\<lparr>wo_migrate := dbmigrate_Up (dm_migrator d), wo_pool := dm_pool d\<rparr>"

definition worker_life ::
    "db_machine \<Rightarrow> worker_outside \<Rightarrow> worker_end \<Rightarrow> (declared list, unit) process" where
  "worker_life d out e =
     (case wo_parse out of
        Inl err \<Rightarrow> failP (Wrapf ''memuat konfigurasi: %w'' [] err)
      | Inr cfg \<Rightarrow>
          acquiring [SignalHandler] False False (retP ()) (\<lambda>_.
          bindP (noting (if wc_RunMigrations cfg then migration_life d (workerConfig_migrationURL cfg) else [])
                   (if wc_RunMigrations cfg
                    then try_step (dbmigrate_Up (dm_migrator d) (workerConfig_migrationURL cfg)) id
                    else retP ())) (\<lambda>_.
          acquiring [DBPool] (pool_opened d (wc_DatabaseURL cfg)) False
            (try_step (error_of (dm_pool d (wc_DatabaseURL cfg))) id) (\<lambda>_.
          acquiring [BrokerConnection] False False
            (try_step (error_of (Dial (wo_dial out) (wo_canceled out))) id) (\<lambda>_.
          acquiring [RelayChannel] (wo_open_relay out = None) True
            (try_step (newConfirmChannel (wo_open_relay out) (wo_confirm out)) (Wrapf ''channel relay: %w'' [])) (\<lambda>_.
          acquiring [ConsumerChannel] False False
            (try_step (wo_open_consumer out) (Wrapf ''channel consumer: %w'' [])) (\<lambda>_.
          bindP (plain (DeclareTopology (wo_declare out))) (\<lambda>_.
          noting [Go RelayLoop, Go AuditConsumer] (try_step (worker_wait e) id)))))))))"

text \<open>What \<open>main\<close> prints on the standard error, and the exit code.\<close>

definition main_exit :: "unit result \<Rightarrow> (string \<times> err) option \<times> int" where
  "main_exit r = (case r of Inl err \<Rightarrow> (Some (''fatal:'', err), 1) | Inr _ \<Rightarrow> (None, 0))"

text \<open>
  A goroutine that panics ends the process at once, with the exit code 2. \<open>time.NewTicker\<close>, the
  first call of \<open>Relay.Run\<close> and of \<open>RunPeriodic\<close>, panics on an interval that is not positive.
  \<open>strikes\<close> is the moment at which the goroutine with the ticker first runs: so many events after
  its start, or not before the process is over.
\<close>

definition panics_after :: "goroutine \<Rightarrow> nat \<Rightarrow> lifecycle list \<Rightarrow> lifecycle list" where
  "panics_after g k us =
     takeWhile (\<lambda>x. x \<noteq> Go g) us @ Go g # take k (tl (dropWhile (\<lambda>x. x \<noteq> Go g) us))"

definition process_end ::
    "goroutine \<Rightarrow> duration \<Rightarrow> nat option \<Rightarrow> lifecycle list \<Rightarrow> unit result \<Rightarrow> lifecycle list \<times> int" where
  "process_end g interval strikes us r =
     (case strikes of
        Some k \<Rightarrow> if Go g \<in> set us \<and> interval \<le> 0 then (panics_after g k us, 2) else (us, snd (main_exit r))
      | None \<Rightarrow> (us, snd (main_exit r)))"

definition api_main ::
    "env \<Rightarrow> db_machine \<Rightarrow> 'o outside \<Rightarrow> pg password_hasher \<Rightarrow> (JWT \<Rightarrow> pg access_token_issuer)
     \<Rightarrow> serve_event \<Rightarrow> err option \<Rightarrow> nat option \<Rightarrow> boot \<times> bool \<Rightarrow> lifecycle list \<times> int" where
  "api_main env d out hasher issuer event down strikes s =
     (case api_life env d out hasher issuer event down (s, []) of (r, (s', us)) \<Rightarrow>
        process_end PeriodicCheck (case Config_Load (os_parse out) of Inr cfg \<Rightarrow> cf_DriftCheckInterval cfg | Inl err \<Rightarrow> 0)
          strikes us r)"

definition worker_main ::
    "db_machine \<Rightarrow> worker_outside \<Rightarrow> worker_end \<Rightarrow> nat option \<Rightarrow> declared list \<Rightarrow> lifecycle list \<times> int" where
  "worker_main d out e strikes T =
     (case worker_life d out e (T, []) of (r, (T', us)) \<Rightarrow>
        process_end RelayLoop (case wo_parse out of Inr cfg \<Rightarrow> wc_RelayInterval cfg | Inl err \<Rightarrow> 0) strikes us r)"

section \<open>A worker without its consumer\<close>

text \<open>
  A consumer that has subscribed never ends the worker: when its channel closes, it returns
  without an error, and the worker waits on for its signal.
\<close>

lemma lost_consumer_goes_unnoticed:
  assumes "AuditLog_on_channel None None envs parse uuid_text ds cw = (r, cw')"
  shows "worker_select (consumer_done r # es) = worker_select es"
  using assms by (auto simp: AuditLog_on_channel_def try_step_def bindP_def retP_def consumer_done_def Let_def
      split: prod.splits)

text \<open>The relay of a worker with the default configuration starts.\<close>

lemma default_relay_starts:
  "Relay_Start (wc_RelayInterval (default_worker_config databaseURL rabbitURL)) rs rw = Some (Relay_Run rs rw)"
  by (simp add: Relay_Start_def default_worker_config_def)

section \<open>Nothing stays open\<close>

text \<open>
  What is still open after a run of events, last opened first. Closing must meet the resource
  opened last; closing the connection to the broker closes the channels on it as well.
\<close>

definition part_of :: "resource \<Rightarrow> resource \<Rightarrow> bool" where
  "part_of r x \<longleftrightarrow> r = BrokerConnection \<and> x \<in> {RelayChannel, ConsumerChannel}"

fun held :: "lifecycle list \<Rightarrow> resource list \<Rightarrow> resource list option" where
  "held [] st = Some st"
| "held (Open r # us) st = held us (r # st)"
| "held (Close r # us) st =
     (case dropWhile (part_of r) st of
        [] \<Rightarrow> None
      | x # st' \<Rightarrow> if x = r then held us st' else None)"
| "held (Go g # us) st = held us st"

lemma held_append: "held (us @ vs) st = (case held us st of None \<Rightarrow> None | Some st' \<Rightarrow> held vs st')"
proof (induction us st rule: held.induct)
  case (3 r us st)
  then show ?case by (cases "dropWhile (part_of r) st") (simp_all del: dropWhile_eq_Nil_conv dropWhile_eq_Cons_conv)
qed simp_all

lemma held_close:
  assumes "\<forall>x \<in> set l. part_of r x"
  shows "held (Close r # us) (l @ r # st) = held us st"
proof -
  have "dropWhile (part_of r) (l @ r # st) = r # st" using assms by (induction l) (auto simp: part_of_def)
  then show ?thesis by simp
qed

text \<open>A process that ends normally holds nothing more; one that fails leaves at most \<open>L\<close>.\<close>

definition tidy :: "resource set \<Rightarrow> ('s, 'a) process \<Rightarrow> bool" where
  "tidy L m \<longleftrightarrow>
     (\<forall>s t r s' t'. m (s, t) = (r, (s', t')) \<longrightarrow>
        (\<exists>us l. t' = t @ us \<and> set l \<subseteq> L \<and> (\<forall>st. held us st = Some (l @ st)) \<and> (isl r \<or> l = [])))"

named_theorems tidies

lemma tidy_failP [tidies]: "tidy L (failP e)"
  by (auto simp: tidy_def failP_def intro!: exI [of _ "[]"])

lemma tidy_noting: "(\<And>st. held us st = Some st) \<Longrightarrow> tidy L (noting us m)"
  unfolding tidy_def noting_def by (auto split: prod.splits intro!: exI [of _ "[]"])

lemma tidy_plain [tidies]: "tidy L (plain m)"
  by (rule tidy_noting) simp

lemma tidy_bindP [tidies]:
  assumes "tidy L m" "\<And>x. tidy L (f x)"
  shows "tidy L (bindP m f)"
  unfolding tidy_def
proof (intro allI impI)
  fix s t r s' t' assume R: "bindP m f (s, t) = (r, (s', t'))"
  obtain q s1 t1 where M: "m (s, t) = (q, (s1, t1))" by (metis prod.exhaust)
  from assms(1) M obtain us l where us: "t1 = t @ us" "set l \<subseteq> L" "\<forall>st. held us st = Some (l @ st)" "isl q \<or> l = []"
    unfolding tidy_def by blast
  show "\<exists>us l. t' = t @ us \<and> set l \<subseteq> L \<and> (\<forall>st. held us st = Some (l @ st)) \<and> (isl r \<or> l = [])"
  proof (cases q)
    case (Inl e)
    with R M have "r = Inl e" "t' = t1" by (auto simp: bindP_def)
    with us show ?thesis by auto
  next
    case (Inr x)
    with R M have "f x (s1, t1) = (r, (s', t'))" by (simp add: bindP_def)
    with assms(2) obtain vs k where vs: "t' = t1 @ vs" "set k \<subseteq> L" "\<forall>st. held vs st = Some (k @ st)" "isl r \<or> k = []"
      unfolding tidy_def by blast
    have "l = []" using us(4) Inr by simp
    with us vs show ?thesis by (intro exI [of _ "us @ vs"] exI [of _ k]) (simp add: held_append)
  qed
qed

lemma tidy_acquiring:
  assumes rest: "\<And>x. tidy K (rest x)" and K: "\<And>x. x \<in> K \<Longrightarrow> part_of r x" and "leaks \<Longrightarrow> r \<in> L"
  shows "tidy L (acquiring [r] opened leaks step rest)"
  unfolding tidy_def
proof (intro allI impI)
  fix s t q s' t' assume R: "acquiring [r] opened leaks step rest (s, t) = (q, (s', t'))"
  obtain p s1 where S: "step s = (p, s1)" by fastforce
  show "\<exists>us l. t' = t @ us \<and> set l \<subseteq> L \<and> (\<forall>st. held us st = Some (l @ st)) \<and> (isl q \<or> l = [])"
  proof (cases p)
    case (Inl e)
    with R S have "q = Inl e" "t' = t @ (if opened then Open r # (if leaks then [] else [Close r]) else [])"
      by (auto simp: acquiring_def)
    then show ?thesis
      using assms(3) by (intro exI [of _ "if opened then Open r # (if leaks then [] else [Close r]) else []"]
          exI [of _ "if opened \<and> leaks then [r] else []"]) (auto simp: part_of_def)
  next
    case (Inr x)
    obtain q' s2 t2 where B: "rest x (s1, t @ [Open r]) = (q', (s2, t2))" by (metis prod.exhaust)
    from rest B obtain us l where us: "t2 = (t @ [Open r]) @ us" "set l \<subseteq> K" "\<forall>st. held us st = Some (l @ st)"
      unfolding tidy_def by blast
    have "t' = t @ Open r # us @ [Close r]" using R S Inr B us(1) by (simp add: acquiring_def)
    moreover have "held (Open r # us @ [Close r]) st = Some st" for st
    proof -
      have "\<forall>x \<in> set l. part_of r x" using us(2) K by blast
      from held_close [OF this, of "[]"] have "held [Close r] (l @ r # st) = Some st" by (simp only: held.simps(1))
      with us(3) show ?thesis unfolding held.simps(2) held_append by (simp only: option.case)
    qed
    ultimately show ?thesis by (intro exI [of _ "Open r # us @ [Close r]"] exI [of _ "[]"]) simp
  qed
qed

lemma tidy_acquiring_nothing:
  assumes "\<And>x. tidy L (rest x)"
  shows "tidy L (acquiring [] opened leaks step rest)"
proof -
  have "acquiring [] opened leaks step rest = bindP (plain step) rest"
    by (auto simp: acquiring_def bindP_def noting_def fun_eq_iff split: prod.split sum.split)
  then show ?thesis using assms by (simp add: tidies)
qed

lemma tidy_migration [tidies]: "tidy L (noting (if b then migration_life d dsn else []) m)"
  by (rule tidy_noting) (simp add: migration_life_def part_of_def)

lemma api_life_tidy: "tidy {} (api_life env d out hasher issuer event down)"
proof (cases "Config_Load (os_parse out)")
  case (Inr cfg)
  have redis: "tidy {} (acquiring (redis_client cfg) opened False step rest)" if "\<And>x. tidy {} (rest x)"
    for opened and step :: "(boot \<times> bool, apiLimiters) prog" and rest :: "apiLimiters \<Rightarrow> (boot \<times> bool, unit) process"
    using that by (auto simp: redis_client_def intro: tidy_acquiring_nothing tidy_acquiring [where K = "{}"])
  show ?thesis
    unfolding api_life_def Inr sum.case
    by (intro tidies redis tidy_acquiring [where K = "{}"] tidy_noting) (simp_all add: api_goroutines_def)
qed (simp add: api_life_def tidies)

lemma worker_life_tidy: "tidy {} (worker_life d out e)"
proof (cases "wo_parse out")
  case (Inr cfg)
  have channels: "tidy {RelayChannel} (acquiring [RelayChannel] opened True step
      (\<lambda>_. acquiring [ConsumerChannel] False False step2 rest))" if "\<And>x. tidy {} (rest x)"
    for opened step step2 and rest :: "unit \<Rightarrow> (declared list, unit) process"
    using that by (intro tidy_acquiring [where K = "{}"]) simp_all
  show ?thesis
    unfolding worker_life_def Inr sum.case
    by (intro tidies channels tidy_noting [where us = "[Go RelayLoop, Go AuditConsumer]"] tidy_acquiring [where K = "{}" and r = SignalHandler]
        tidy_acquiring [where K = "{}" and r = DBPool] tidy_acquiring [where K = "{RelayChannel}" and r = BrokerConnection])
      (simp_all add: part_of_def)
qed (simp add: worker_life_def tidies)

section \<open>The processes are their steps\<close>

text \<open>A process that, apart from what it notes, does what the program \<open>n\<close> does.\<close>

definition forgets :: "('s, 'a) process \<Rightarrow> ('s, 'a) prog \<Rightarrow> bool" where
  "forgets m n \<longleftrightarrow> (\<forall>s t. fst (m (s, t)) = fst (n s) \<and> fst (snd (m (s, t))) = snd (n s))"

named_theorems forgetting

lemma forgets_noting [forgetting]: "forgets (noting us m) m"
  by (simp add: forgets_def noting_def split: prod.split)

lemma forgets_failP [forgetting]: "forgets (failP e) (failP e)"
  by (simp add: forgets_def failP_def)

lemma forgets_acquiring [forgetting]:
  "(\<And>x. forgets (rest x) (n x)) \<Longrightarrow> forgets (acquiring rs opened leaks step rest) (bindP step n)"
  by (simp add: forgets_def acquiring_def bindP_def split: prod.split sum.split) (metis fst_conv snd_conv)

lemma forgets_bindP [forgetting]:
  assumes "forgets m n" "\<And>x. forgets (f x) (g x)"
  shows "forgets (bindP m f) (bindP n g)"
  unfolding forgets_def
proof (intro allI)
  fix s t
  obtain q s1 t1 where M: "m (s, t) = (q, (s1, t1))" by (metis prod.exhaust)
  with assms(1) have "n s = (q, s1)" unfolding forgets_def by (metis fst_conv prod.collapse snd_conv)
  with M assms(2) show "fst (bindP m f (s, t)) = fst (bindP n g s)
      \<and> fst (snd (bindP m f (s, t))) = snd (bindP n g s)"
    by (auto simp: bindP_def forgets_def split: sum.split)
qed

lemma bindP_assoc: "bindP (bindP m f) g = bindP m (\<lambda>x. bindP (f x) g)"
  by (auto simp: bindP_def fun_eq_iff split: prod.split sum.split)

lemma bindP_retP: "bindP (retP x) f = f x"
  by (simp add: bindP_def retP_def)

lemma bindP_failP: "bindP (failP e) f = failP e"
  by (simp add: bindP_def failP_def fun_eq_iff)

lemma on_fst_prog:
  "on_fst (bindP m f) = bindP (on_fst m) (\<lambda>x. on_fst (f x))" "on_fst (retP x) = retP x" "on_fst (failP e) = failP e"
  "on_fst (liftR r) = liftR r"
  by (auto simp: on_fst_def bindP_def retP_def failP_def liftR_def fun_eq_iff split: prod.split sum.split)

definition api_steps ::
    "env \<Rightarrow> 'o outside \<Rightarrow> pg password_hasher \<Rightarrow> (JWT \<Rightarrow> pg access_token_issuer)
     \<Rightarrow> serve_event \<Rightarrow> err option \<Rightarrow> (boot \<times> bool, unit) prog" where
  "api_steps env out hasher issuer event down =
     bindP (on_fst (api_run env out hasher issuer)) (\<lambda>p. on_snd (api_serve event down (ap_config p)))"

lemma api_outside_simps:
  "os_parse (api_outside d out) = os_parse out" "os_pool (api_outside d out) = dm_pool d"
  "os_redis_parse (api_outside d out) = os_redis_parse out" "os_redis_ping (api_outside d out) = os_redis_ping out"
  "os_listen (api_outside d out) = os_listen out"
  by (simp_all add: api_outside_def)

lemma api_life_forgets:
  "forgets (api_life env d out hasher issuer event down) (api_steps env (api_outside d out) hasher issuer event down)"
proof (cases "Config_Load (os_parse out)")
  case (Inl err)
  then show ?thesis
    by (simp add: api_life_def api_steps_def api_run_def api_outside_simps on_fst_prog bindP_failP forgets_failP)
next
  case (Inr cfg)
  note F = forgets_acquiring [where step = "retP ()" and n = "\<lambda>_. n" for n, unfolded bindP_retP]
  show ?thesis
    unfolding api_life_def api_steps_def api_run_def api_outside_simps Inr sum.case on_fst_prog bindP_assoc bindP_retP
      api_process.simps
    by (intro F forgets_acquiring forgets_bindP forgets_noting)
qed

definition worker_steps :: "worker_outside \<Rightarrow> worker_end \<Rightarrow> (declared list, unit) prog" where
  "worker_steps out e = bindP (worker_run out) (\<lambda>_. try_step (worker_wait e) id)"

lemma worker_machine_simps:
  "wo_parse (worker_machine d out) = wo_parse out" "wo_pool (worker_machine d out) = dm_pool d"
  "wo_migrate (worker_machine d out) = dbmigrate_Up (dm_migrator d)"
  "wo_dial (worker_machine d out) = wo_dial out" "wo_canceled (worker_machine d out) = wo_canceled out"
  "wo_open_relay (worker_machine d out) = wo_open_relay out" "wo_confirm (worker_machine d out) = wo_confirm out"
  "wo_open_consumer (worker_machine d out) = wo_open_consumer out" "wo_declare (worker_machine d out) = wo_declare out"
  by (simp_all add: worker_machine_def)

lemma worker_life_forgets: "forgets (worker_life d out e) (worker_steps (worker_machine d out) e)"
proof (cases "wo_parse out")
  case (Inl err)
  then show ?thesis
    by (simp add: worker_life_def worker_steps_def worker_run_def worker_machine_simps bindP_failP forgets_failP)
next
  case (Inr cfg)
  note F = forgets_acquiring [where step = "retP ()" and n = "\<lambda>_. n" for n, unfolded bindP_retP]
  show ?thesis
    unfolding worker_life_def worker_steps_def worker_run_def worker_machine_simps Inr sum.case bindP_assoc bindP_retP
    by (intro F forgets_acquiring forgets_bindP forgets_noting)
qed

section \<open>The end of a process\<close>

lemma acquiring_Go:
  "Go g \<notin> set t \<Longrightarrow> acquiring rs opened leaks step rest (s, t) = (r, (s', t')) \<and> Go g \<in> set t' \<longleftrightarrow>
   (\<exists>x s1 t2. step s = (Inr x, s1) \<and> t' = t2 @ map Close rs \<and> rest x (s1, t @ map Open rs) = (r, (s', t2)) \<and> Go g \<in> set t2)"
  by (auto simp: acquiring_def split: prod.split sum.split)

lemma noting_Go:
  "\<lbrakk>Go g \<notin> set t; Go g \<notin> set us\<rbrakk> \<Longrightarrow> bindP (noting us m) f (s, t) = (r, (s', t')) \<and> Go g \<in> set t' \<longleftrightarrow>
   (\<exists>x s1. m s = (Inr x, s1) \<and> f x (s1, t @ us) = (r, (s', t')) \<and> Go g \<in> set t')"
  by (auto simp: bindP_def noting_def split: prod.split sum.split)

text \<open>A worker that starts its relay has done all its steps, and its history is this.\<close>

definition worker_opened :: "db_machine \<Rightarrow> workerConfig \<Rightarrow> lifecycle list" where
  "worker_opened d cfg =
     Open SignalHandler # (if wc_RunMigrations cfg then migration_life d (workerConfig_migrationURL cfg) else [])
     @ [Open DBPool, Open BrokerConnection, Open RelayChannel, Open ConsumerChannel]"

definition worker_closed :: "lifecycle list" where
  "worker_closed = [Close ConsumerChannel, Close RelayChannel, Close BrokerConnection, Close DBPool, Close SignalHandler]"

lemma try_step_Inr: "try_step x f s = (Inr u, s') \<longleftrightarrow> x = None \<and> s' = s"
  by (auto simp: try_step_def failP_def retP_def split: option.split)

lemma no_migration_Go: "Go g \<notin> set (migration_life d dsn)"
  by (simp add: migration_life_def)

lemma worker_life_Go:
  assumes W: "worker_life d out e (T, []) = (r, (T', us))" and G: "Go RelayLoop \<in> set us"
  shows "\<exists>cfg. wo_parse out = Inr cfg \<and> us = worker_opened d cfg @ Go RelayLoop # Go AuditConsumer # worker_closed
    \<and> fst (worker_run (worker_machine d out) T) = Inr cfg"
proof (cases "wo_parse out")
  case (Inl err)
  with W G show ?thesis by (auto simp: worker_life_def failP_def)
next
  case (Inr cfg)
  from W G have "worker_life d out e (T, []) = (r, (T', us)) \<and> Go RelayLoop \<in> set us" ..
  then show ?thesis
    unfolding worker_life_def Inr sum.case
    apply (simp add: acquiring_Go noting_Go no_migration_Go try_step_Inr)
    apply (elim exE conjE)
    apply (simp add: worker_opened_def worker_closed_def worker_run_def worker_machine_simps Inr)
    apply (cases "wc_RunMigrations cfg"; simp add: bindP_def retP_def try_step_def noting_def split: prod.splits)
    done
qed

lemma fst_bindP_Inr: "fst (bindP m f s) = Inr c \<longleftrightarrow> (\<exists>x s1. m s = (Inr x, s1) \<and> fst (f x s1) = Inr c)"
  by (auto simp: bindP_def split: prod.split sum.split)

lemma worker_run_Go:
  assumes R: "fst (worker_run (worker_machine d out) T) = Inr cfg" and W: "worker_life d out e (T, []) = (r, (T', us))"
  shows "Go RelayLoop \<in> set us"
proof (cases "wo_parse out")
  case (Inl err)
  with R show ?thesis by (simp add: worker_run_def worker_machine_simps failP_def)
next
  case (Inr c)
  have F: "wc_RunMigrations c \<Longrightarrow> dbmigrate_Up (dm_migrator d) (workerConfig_migrationURL c) = None"
    "error_of (dm_pool d (wc_DatabaseURL c)) = None" "error_of (Dial (wo_dial out) (wo_canceled out)) = None"
    "newConfirmChannel (wo_open_relay out) (wo_confirm out) = None" "wo_open_consumer out = None"
    "\<exists>T1. DeclareTopology (wo_declare out) T = (Inr (), T1)"
    using R by (auto simp: worker_run_def worker_machine_simps Inr fst_bindP_Inr try_step_Inr retP_def split: if_splits)
  obtain T1 where D: "DeclareTopology (wo_declare out) T = (Inr (), T1)" using F(6) ..
  show ?thesis
    using W F(1) by (cases "wc_RunMigrations c")
      (auto simp: worker_life_def Inr acquiring_def noting_def bindP_def retP_def try_step_def F(2-5) D split: prod.splits)
qed

text \<open>What a panic of the relay leaves open: what has not been closed at this moment.\<close>

definition worker_resources :: "resource list" where
  "worker_resources = [ConsumerChannel, RelayChannel, BrokerConnection, DBPool, SignalHandler]"

lemma held_opened: "held (worker_opened d cfg) [] = Some worker_resources"
  by (simp add: worker_opened_def worker_resources_def migration_life_def part_of_def)

lemma held_closing: "held (take k (Go AuditConsumer # worker_closed)) worker_resources = Some (drop (k - 1) worker_resources)"
proof -
  consider "k = 0" | "k = 1" | "k = 2" | "k = 3" | "k = 4" | "k = 5" | "6 \<le> k" by linarith
  then show ?thesis
    by cases (simp_all add: worker_closed_def worker_resources_def part_of_def eval_nat_numeral)
qed

lemma panics_after_relay:
  "held (panics_after RelayLoop k (worker_opened d cfg @ Go RelayLoop # Go AuditConsumer # worker_closed)) []
     = Some (drop (k - 1) worker_resources)"
proof -
  let ?p = "\<lambda>x. x \<noteq> Go RelayLoop"
  have "\<forall>x \<in> set (worker_opened d cfg). ?p x" by (auto simp: worker_opened_def migration_life_def)
  then have "takeWhile ?p (worker_opened d cfg @ Go RelayLoop # y) = worker_opened d cfg"
    "dropWhile ?p (worker_opened d cfg @ Go RelayLoop # y) = Go RelayLoop # y" for y
    by (simp_all add: takeWhile_append2 dropWhile_append2)
  then show ?thesis
    unfolding panics_after_def by (simp add: held_append held_opened held_closing del: take_Suc_Cons)
qed

text \<open>
  C34 safety. However cmd/api ends, at whatever step of its start, by a failing server or by a
  signal, everything it opened is closed, each resource once and the last opened first: its
  periodic job never panics, as \<open>Load\<close> refuses an interval that is not positive. The same holds of
  cmd/worker, the channels being closed at the latest with their connection, unless the relay's
  goroutine meets an interval that is not positive, which no one checks: the process then dies
  with the exit code 2 and exactly what the deferred calls have not closed yet stays open,
  everything if they have not begun. The exit code is 0 exactly when no step failed and
  nothing panicked, and state and result are those of the steps of \<open>run\<close>.
\<close>

theorem processes_leave_nothing_open:
  "(case api_main env d out hasher issuer event down strikes s of (us, code) \<Rightarrow>
      held us [] = Some []
      \<and> (code = 0 \<longleftrightarrow> \<not> isl (fst (api_steps env (api_outside d out) hasher issuer event down s))))
   \<and> (case worker_main d wout e strikes T of (us, code) \<Rightarrow>
      if \<exists>cfg. fst (worker_run (worker_machine d wout) T) = Inr cfg \<and> wc_RelayInterval cfg \<le> 0 \<and> strikes \<noteq> None
      then code = 2 \<and> held us [] = Some (drop (the strikes - 1)
             [ConsumerChannel, RelayChannel, BrokerConnection, DBPool, SignalHandler])
      else held us [] = Some [] \<and> (code = 0 \<longleftrightarrow> \<not> isl (fst (worker_steps (worker_machine d wout) e T))))
   \<and> (case api_life env d out hasher issuer event down (s, []) of (r, (s', us)) \<Rightarrow>
        (r, s') = api_steps env (api_outside d out) hasher issuer event down s)
   \<and> (case worker_life d wout e (T, []) of (q, (T', us)) \<Rightarrow> (q, T') = worker_steps (worker_machine d wout) e T)"
proof -
  obtain r s' t where A: "api_life env d out hasher issuer event down (s, []) = (r, (s', t))" by (metis prod.exhaust)
  obtain q T' u where W: "worker_life d wout e (T, []) = (q, (T', u))" by (metis prod.exhaust)
  have a: "(r, s') = api_steps env (api_outside d out) hasher issuer event down s"
    using api_life_forgets [of env d out hasher issuer event down] A unfolding forgets_def
    by (metis fst_conv prod.collapse snd_conv)
  have w: "(q, T') = worker_steps (worker_machine d wout) e T"
    using worker_life_forgets [of d wout e] W unfolding forgets_def by (metis fst_conv prod.collapse snd_conv)
  have closed: "held t [] = Some []"
    using api_life_tidy [of env d out hasher issuer event down] A unfolding tidy_def by fastforce
  have closed': "held u [] = Some []"
    using worker_life_tidy [of d wout e] W unfolding tidy_def by fastforce
  have code: "snd (main_exit x) = 0 \<longleftrightarrow> \<not> isl x" for x by (auto simp: main_exit_def split: sum.split)
  have "api_main env d out hasher issuer event down strikes s = (t, snd (main_exit r))"
  proof (cases "Config_Load (os_parse out)")
    case (Inl err)
    with A have "t = []" by (auto simp: api_life_def failP_def)
    with A show ?thesis by (simp add: api_main_def process_end_def split: option.split)
  next
    case (Inr cfg)
    with Config_Load_Inr(9) [OF Inr] A show ?thesis
      by (simp add: api_main_def process_end_def split: option.split)
  qed
  then have api: "case api_main env d out hasher issuer event down strikes s of (us, code) \<Rightarrow>
      held us [] = Some [] \<and> (code = 0 \<longleftrightarrow> \<not> isl (fst (api_steps env (api_outside d out) hasher issuer event down s)))"
    using closed code a [symmetric] by simp
  have worker: "case worker_main d wout e strikes T of (us, code) \<Rightarrow>
      if \<exists>cfg. fst (worker_run (worker_machine d wout) T) = Inr cfg \<and> wc_RelayInterval cfg \<le> 0 \<and> strikes \<noteq> None
      then code = 2 \<and> held us [] = Some (drop (the strikes - 1) worker_resources)
      else held us [] = Some [] \<and> (code = 0 \<longleftrightarrow> \<not> isl (fst (worker_steps (worker_machine d wout) e T)))"
  proof (cases "Go RelayLoop \<in> set u")
    case True
    from worker_life_Go [OF W True] obtain cfg where "wo_parse wout = Inr cfg"
      "u = worker_opened d cfg @ Go RelayLoop # Go AuditConsumer # worker_closed"
      "fst (worker_run (worker_machine d wout) T) = Inr cfg" by blast
    with W closed' code w [symmetric] show ?thesis
      by (auto simp: worker_main_def process_end_def panics_after_relay split: option.splits)
  next
    case False
    with worker_run_Go [OF _ W] have "\<not> (\<exists>cfg. fst (worker_run (worker_machine d wout) T) = Inr cfg)" by blast
    moreover have "worker_main d wout e strikes T = (u, snd (main_exit q))"
      using W False by (simp add: worker_main_def process_end_def split: option.split)
    ultimately show ?thesis using closed' code w [symmetric] by simp
  qed
  show ?thesis
    using api worker A W a w unfolding worker_resources_def by simp
qed

text \<open>A worker that a signal ends, and one whose relay panics at once.\<close>

definition demo_machine :: db_machine where
  "demo_machine =
     \<lparr> dm_migrator = \<lparr> mg_source = None, mg_open = (\<lambda>s. None), mg_driver = None, mg_new = None, mg_up = None,
          mg_no_change = NewError ''no change'' \<rparr>,
       dm_ParseConfig = (\<lambda>s. Inr \<lparr> pc_dsn = ''db'', pc_MaxConns = 0, pc_MinConns = 0, pc_MaxConnLifetime = 0, pc_MaxConnIdleTime = 0 \<rparr>),
       dm_NewWithConfig = (\<lambda>c. Inr ()), dm_Ping = (\<lambda>p t. None) \<rparr>"

definition demo_outside :: "duration \<Rightarrow> worker_outside" where
  "demo_outside interval =
     \<lparr> wo_parse = Inr ((default_worker_config ''db'' ''mq'')\<lparr>wc_RelayInterval := interval\<rparr>),
       wo_migrate = (\<lambda>s. None), wo_pool = (\<lambda>s. Inr ()), wo_dial = (\<lambda>n. Inr ()), wo_canceled = (\<lambda>n t. None),
       wo_open_relay = None, wo_confirm = None, wo_open_consumer = None, wo_declare = (\<lambda>x. None) \<rparr>"

theorem processes_leave_nothing_open_witness:
  "(case worker_main demo_machine (demo_outside 5) CtxEnded (Some 0) [] of (us, code) \<Rightarrow>
      Open BrokerConnection \<in> set us \<and> held us [] = Some [] \<and> code = 0)
   \<and> (case worker_main demo_machine (demo_outside 0) CtxEnded (Some 0) [] of (us, code) \<Rightarrow>
      held us [] = Some [ConsumerChannel, RelayChannel, BrokerConnection, DBPool, SignalHandler] \<and> code = 2)"
proof -
  have run: "fst (worker_run (worker_machine demo_machine (demo_outside i)) [])
      = Inr ((default_worker_config ''db'' ''mq'')\<lparr>wc_RelayInterval := i\<rparr>)" for i
    by (simp add: worker_run_def worker_machine_simps demo_outside_def demo_machine_def default_worker_config_def bindP_def
        retP_def try_step_def error_of_def dm_pool_def NewPool_def Dial_def maxAttempts_def newConfirmChannel_def
        DeclareTopology_def declare_step_def eval_nat_numeral)
  have steps: "\<not> isl (fst (worker_steps (worker_machine demo_machine (demo_outside 5)) CtxEnded []))"
    using run [of 5] by (auto simp: worker_steps_def bindP_def try_step_def retP_def worker_wait_def split: prod.splits sum.splits)
  obtain us code where M: "worker_main demo_machine (demo_outside 5) CtxEnded (Some 0) [] = (us, code)" by fastforce
  obtain vs code' where N: "worker_main demo_machine (demo_outside 0) CtxEnded (Some 0) [] = (vs, code')" by fastforce
  have opened: "Open BrokerConnection \<in> set us"
    using M by (auto simp: worker_main_def process_end_def worker_life_def acquiring_def noting_def demo_outside_def
        demo_machine_def default_worker_config_def bindP_def retP_def try_step_def error_of_def dm_pool_def NewPool_def
        Dial_def maxAttempts_def newConfirmChannel_def DeclareTopology_def declare_step_def eval_nat_numeral worker_wait_def)
  have "held us [] = Some [] \<and> code = 0"
    using processes_leave_nothing_open [where d = demo_machine and wout = "demo_outside 5" and e = CtxEnded and strikes = "Some 0" and T = "[]", THEN conjunct2, THEN conjunct1]
      M run steps by simp
  moreover have "held vs [] = Some [ConsumerChannel, RelayChannel, BrokerConnection, DBPool, SignalHandler] \<and> code' = 2"
    using processes_leave_nothing_open [where d = demo_machine and wout = "demo_outside 0" and e = CtxEnded and strikes = "Some 0" and T = "[]", THEN conjunct2, THEN conjunct1]
      N run by simp
  ultimately show ?thesis using M N opened by simp
qed

end
