(* ===== verification/Spec2Isabelle.thy ===== *)
theory Spec2Isabelle
  imports Races Cash Pipeline Responses Locks Process
begin

text \<open>
  NusaLedger, a double-entry ledger service in Go on PostgreSQL, as definitions and theorems.

  \<^bold>\<open>The program and the theories.\<close> An HTTP request passes a chain of middleware to a handler
  (internal/transport/http), which calls a service (internal/service), which builds a
  transaction of the domain (internal/domain) and hands it to a repository
  (internal/repository/postgres). The repository records the transaction, its entries, the new
  balances, the idempotency key and an outbox row in one database transaction. cmd/worker
  publishes the outbox to RabbitMQ (internal/platform/outbox) and records the events it
  consumes (internal/consumer).

  \<^item> Prelude: 64 bit integers with their wrap-around, decimal text, lists read as tables.
  \<^item> Errors, Money, Account, Transaction: internal/domain. Go structs are records with the
    source's field names, string types stay strings, an error is a value of \<open>err\<close>; \<open>errors.Is\<close>,
    \<open>errors.As\<close> and wrapping with \<open>%w\<close> are \<open>errors_Is\<close>, \<open>errors_As\<close> and \<open>Wrapf\<close>.
    TransactionFacts: what \<open>Transaction.Validate\<close> accepts and what the builders build.
  \<^item> PgErrors, Database: errors.go and the schema of migrations/: tables, constraints, triggers,
    statements, transactions that roll back. StoredResult, LedgerRepo, Repos: the repositories,
    statement by statement in the order of the code.
  \<^item> Encoding, GoText: the parts of the Go library the codecs of the program rest on (base 64,
    \<open>strconv\<close>, UTF-8, \<open>strings\<close>, \<open>fmt.Sscanf\<close>), with the cursors of internal/service and
    \<open>itoa\<close> of middleware.go.
  \<^item> LedgerService, AuthService: internal/service. A store is a record of programs over a state,
    as the interfaces of ports.go, so that the services do not depend on the database.
  \<^item> Outbox, Consumer: the relay and the audit consumer.
  \<^item> RateLimit, Password, Jwt: internal/platform/ratelimit, password and token.
  \<^item> Config, App: internal/config, internal/app, the logger, the broker, the pool, the migrations
    runner, and the start of cmd/api and cmd/worker with every error path.
  \<^item> Telemetry: internal/platform/metrics and what the API counts. Process: the two processes from
    start to exit, with their deferred calls.
  \<^item> Dto, Http, Router: internal/transport/http: request and response values, errors to
    responses, middleware as functions on handlers (panics included), handlers, the endpoints,
    and the router as cmd/api wires it.

  \<^bold>\<open>State and programs.\<close> A program of type \<open>('s, 'a) prog\<close> maps a state to a result (\<open>Inl\<close> an
  error or \<open>Inr\<close> a value) and a state, so every early return of the code is a branch. The state
  of the repositories and services is \<open>pg\<close>: the tables, the identity sequences, the number of
  statements executed. \<open>env\<close> decides for every statement whether it fails and what \<open>now()\<close> and
  \<open>gen_random_uuid()\<close> return; all theorems hold for every \<open>env\<close>, unless they speak of progress,
  which asks for \<open>no_faults\<close>. The state of the HTTP layer is \<open>world\<close>: the database, the
  limiters, the log and the counters.

  \<^bold>\<open>The layers of proof.\<close>

  \<^item> PostSpec states when the ledger accepts a transaction (\<open>post_accepts\<close>) and the tables an
    accepted one leaves. PostInv: these tables satisfy the ledger invariant (LedgerInv).
    PostRefine and PostComplete: \<open>LedgerRepo_Post\<close> does exactly this or changes no table.
  \<^item> Invariant and System: the invariant of the whole database and the step relation \<open>db_step\<close>,
    whose steps are the calls of the repositories, the relay and the consumer under any
    arguments and faults; \<open>reachable\<close> starts from the migrated database. Guarantees and History:
    what holds in every reachable database (conservation of money, no overdrawn wallet, trial
    balance zero, no drift, history only appended, recorded balances are running balances).
  \<^item> Locks: concurrent postings, each lock a step of its own. The order of the locks excludes
    deadlock, and what a posting has locked stays as it is until the posting ends.
  \<^item> Idempotency: the locale \<open>answer_recording\<close> is what the idempotency protocol of the service
    needs of its stores for every answer to be on record, \<open>idempotent_posting\<close> extends it to
    retries. \<open>pg_idem\<close> shows that the PostgreSQL repositories provide both, \<open>raced_idem\<close> that they
    provide the first even when other requests run before every store call. LedgerUse, UseCases,
    Operations, Retry, Reading: the use cases of the ledger on PostgreSQL, each as one run.
    Refusals: which error a transfer and a withdrawal are refused with, on any database with the
    invariants, so also when an operator has frozen or closed an account, which no step of the
    program does. Cash: what topups and withdrawals move. Races: a transfer whose store calls alternate with other requests.
  \<^item> AuthFacts: sessions. A refresh token is redeemed at most once, and its reuse ends every
    session of its user; a login needs the password.
  \<^item> RateLimit: the locale \<open>fixed_window\<close> is the contract of a window counter, with the bounds
    that follow from it when readings of the clock come in order, and when they may come late;
    \<open>limiter\<close> shows that the limiter in memory keeps it. The script of the limiter in Redis is a
    program over the commands of the server, whose documented laws (\<open>redis_laws\<close>) make the
    limiter an instance of the same contract.
  \<^item> Effects: what a service call does to the tables on every branch. HttpFacts: the locale
    \<open>endpoint_effects\<close> lifts a relation the service calls keep to every endpoint and middleware
    chain; \<open>lawful\<close> interprets it with the steps of the system and \<open>guarded\<close> with the authority
    of the caller. Responses: what the answers reveal, that errors are answered as the list
    \<open>catalogue\<close> says, and what an accepted request body looks like.
  \<^item> AppFacts: the relay loop empties the outbox, events reach the audit queue, dialling ends,
    the API starts exactly on its checks. Pipeline: the ledger, the relay and the consumer as one
    step relation, crashes of the consumer included, in which every transaction gets its audit
    line exactly once, unless a crash between its row of processed_events and its line lost it.
    Process: whatever ends a process, nothing it opened stays open, unless the relay's goroutine
    panics on an interval that is not positive; then exactly what is left open is stated.

  \<^bold>\<open>Parameters.\<close> Code outside the repository is an argument of the definitions that use it: the
  key derivation and version of argon2 and its random salt, the JWT library (signing, and
  parsing under the options the code gives), SHA-256, \<open>mail.ParseAddress\<close>, \<open>strings.ToLower\<close>,
  \<open>uuid\<close> parsing and printing, the tokenizer of \<open>encoding/json\<close>, the commands INCR and PEXPIRE and the
  call of a script of a Redis server, the AMQP dialler and broker, the pgx pool, the migrate library, caarlos0/env, chi's matching of
  paths, \<open>net.SplitHostPort\<close>. Where a theorem needs one of them to behave as documented
  (a verified signature parses back, hashing is injective on the tokens in use, a random id is
  fresh) this is a hypothesis of the theorem, and its witness has a concrete function for it.

  \<^bold>\<open>Bounds and loops.\<close> Loops over data are structural recursion; \<open>itoa\<close> and the trimming of text
  have measures. \<open>Dial\<close> counts its attempts down from the ten of the code. \<open>Relay_Run\<close>,
  \<open>RunPeriodic\<close> and the consumer's loop follow the finite list of events (ticks, deliveries,
  the end of the context) they receive, one round for each, so no fuel is needed; one poll
  handles a batch of at most 50 rows, as in the code.

  \<^bold>\<open>Assumptions.\<close> A posting is one step of the system: it holds the row locks of its accounts
  and its key until it commits, and by the theorems of Locks what it decides under these locks
  still holds when it commits. The other repository calls are single statements or touch rows
  of their own. A commit that reports an error has committed nothing. Instants
  and identifiers are integers and words without a calendar or a text form. A message that the
  broker confirms has reached it; RabbitMQ also confirms a mandatory message it returns because
  no queue takes it, which the relay does not listen for (see \<open>publish\<close> in Outbox).

  \<^bold>\<open>Not modelled.\<close> The registry of Prometheus and the text of its page; embedding of the migrations;
  how signals reach a process, the pprof handlers and what \<open>http.Server\<close> does with its timeouts;
  whether the listener of pprof is closed in time; panics other than those of handlers and of the
  relay's and the periodic job's tickers; chi's Timeout and
  NoCache and its answers to unknown paths; the text slog writes, and the duration and size in a
  log line; down migrations, indexes, and the privileges of the database role.
\<close>

end
